(* ===== verification/Prelude.thy ===== *)
theory Prelude
  imports Complex_Main "HOL-Library.Word" "HOL-Library.AList" "HOL-Library.Sublist"
begin

unbundle bit_operations_syntax

text \<open>
  Shared vocabulary of the development: the Python values and standard-library operations the
  sources use (byte strings, dictionaries, exceptions, \<^verbatim>\<open>struct\<close>, decimal
  conversion), the lemmas about them that every component needs, and the three interfaces
  (locales) the components are stated against: a byte codec, a dictionary with a time to live,
  and a transition system with an invariant.

  Conventions. A Python \<^verbatim>\<open>int\<close> is an \<^typ>\<open>int\<close>; a \<^verbatim>\<open>float\<close> is a
  \<^typ>\<open>real\<close> (rounding is not modelled); a \<^verbatim>\<open>bytes\<close> value is a list of
  \<^typ>\<open>8 word\<close>; a \<^verbatim>\<open>str\<close> is the \<^typ>\<open>string\<close> of its UTF-8 bytes; a
  \<^verbatim>\<open>dict\<close> is an association list in insertion order with distinct keys; an exception is
  a value of \<open>py_error\<close> returned as \<open>Inl\<close>; the wall clock is an argument.
\<close>

section \<open>Values\<close>

type_synonym byte = "8 word"
type_synonym bytes = "byte list"
type_synonym ('k, 'v) dict = "('k \<times> 'v) list"
type_synonym addr = "string \<times> int"

datatype py_error =
    StructError
  | ValueError string
  | ChecksumError int int
  | UnicodeDecodeError
  | UnicodeEncodeError
  | JSONDecodeError
  | FileNotFoundError string
  | NoSuchFile string
  | KeyError
  | IndexError
  | TypeError
  | NameError string
  | AttributeError
  | OSError
  | ConnectionError string
  | TimeoutError string
  | NotImplementedError string

text \<open>
  \<^verbatim>\<open>except ValueError\<close>, with the subclasses of that exception: those of the \<^verbatim>\<open>json\<close> and
  codec modules, and the \<^verbatim>\<open>ChecksumError\<close> of the packets.
\<close>

fun is_ValueError :: "py_error \<Rightarrow> bool" where
  "is_ValueError (ValueError _) = True"
| "is_ValueError (ChecksumError _ _) = True"
| "is_ValueError UnicodeDecodeError = True"
| "is_ValueError UnicodeEncodeError = True"
| "is_ValueError JSONDecodeError = True"
| "is_ValueError _ = False"

text \<open>The two collections of rewrite rules the component proofs pass to the simplifier.\<close>

named_theorems struct_simps \<open>packing and unpacking of fixed-width fields\<close>
named_theorems dict_simps \<open>look-up after update and delete in dictionaries\<close>

text \<open>
  Sequencing of fallible steps: the rest of a function runs on the result of a step that did not
  raise. \<open>catching\<close> is \<^verbatim>\<open>try\<close>/\<^verbatim>\<open>except\<close> around a step.
\<close>

definition ebind :: "'e + 'a \<Rightarrow> ('a \<Rightarrow> 'e + 'b) \<Rightarrow> 'e + 'b" where
  "ebind m f = (case m of Inl e \<Rightarrow> Inl e | Inr x \<Rightarrow> f x)"

definition require :: "bool \<Rightarrow> 'e \<Rightarrow> 'e + unit" where
  "require b e = (if b then Inr () else Inl e)"

definition catching :: "'e + 'a \<Rightarrow> ('e \<Rightarrow> 'e) \<Rightarrow> 'e + 'a" where
  "catching m h = (case m of Inl e \<Rightarrow> Inl (h e) | Inr x \<Rightarrow> Inr x)"

named_theorems error_simps \<open>sequencing, guards and handlers of errors\<close>

lemma ebind_simps [simp]: "ebind (Inl e) f = Inl e" "ebind (Inr x) f = f x"
  by (simp_all add: ebind_def)

lemma ebind_Inr_iff [error_simps]: "ebind m f = Inr y \<longleftrightarrow> (\<exists>x. m = Inr x \<and> f x = Inr y)"
  by (simp add: ebind_def split: sum.split)

lemma require_simps [simp]: "require True e = Inr ()" "require False e = Inl e"
  by (simp_all add: require_def)

lemma require_Inr_iff [error_simps]: "require b e = Inr u \<longleftrightarrow> b"
  by (simp add: require_def)

lemma catching_simps [simp]: "catching (Inl e) h = Inl (h e)" "catching (Inr x) h = Inr x"
  by (simp_all add: catching_def)

lemma catching_Inr_iff [error_simps]: "catching m h = Inr y \<longleftrightarrow> m = Inr y"
  by (simp add: catching_def split: sum.split)

section \<open>Dictionaries\<close>

text \<open>
  \<^verbatim>\<open>d.get(k)\<close> is \<^term>\<open>map_of d k\<close>; \<^verbatim>\<open>d[k] = v\<close> is
  \<^term>\<open>AList.update k v d\<close>, which like Python replaces in place and appends a new key;
  \<^verbatim>\<open>del d[k]\<close> is \<^term>\<open>AList.delete k d\<close>.
\<close>

abbreviation dict_get :: "('k, 'v) dict \<Rightarrow> 'k \<Rightarrow> 'v option" where
  "dict_get \<equiv> map_of"

abbreviation dict_set :: "'k \<Rightarrow> 'v \<Rightarrow> ('k, 'v) dict \<Rightarrow> ('k, 'v) dict" where
  "dict_set \<equiv> AList.update"

abbreviation dict_del :: "'k \<Rightarrow> ('k, 'v) dict \<Rightarrow> ('k, 'v) dict" where
  "dict_del \<equiv> AList.delete"

definition dict_has :: "('k, 'v) dict \<Rightarrow> 'k \<Rightarrow> bool" where
  "dict_has d k \<longleftrightarrow> map_of d k \<noteq> None"

definition dict_ok :: "('k, 'v) dict \<Rightarrow> bool" where
  "dict_ok d \<longleftrightarrow> distinct (map fst d)"

section \<open>Fixed-width big-endian integers (struct, network byte order)\<close>

fun be_bytes :: "nat \<Rightarrow> nat \<Rightarrow> bytes" where
  "be_bytes 0 v = []"
| "be_bytes (Suc k) v = be_bytes k (v div 256) @ [of_nat v]"

definition be_nat :: "bytes \<Rightarrow> nat" where
  "be_nat bs = foldl (\<lambda>a b. a * 256 + unat b) 0 bs"

text \<open>
  \<^verbatim>\<open>struct.pack\<close> of a list of unsigned fields, each with its width in bytes
  (\<^verbatim>\<open>B\<close> 1, \<^verbatim>\<open>H\<close> 2, \<^verbatim>\<open>I\<close> 4): a value outside its field's range raises
  \<^verbatim>\<open>struct.error\<close>. \<^verbatim>\<open>struct.unpack\<close> wants a buffer of exactly the format's size.
\<close>

fun struct_pack :: "(nat \<times> int) list \<Rightarrow> py_error + bytes" where
  "struct_pack [] = Inr []"
| "struct_pack ((k, v) # fs) =
     (if 0 \<le> v \<and> v < 2 ^ (8 * k)
      then (case struct_pack fs of Inl e \<Rightarrow> Inl e | Inr bs \<Rightarrow> Inr (be_bytes k (nat v) @ bs))
      else Inl StructError)"

fun struct_read :: "nat list \<Rightarrow> bytes \<Rightarrow> int list" where
  "struct_read [] bs = []"
| "struct_read (k # ks) bs = int (be_nat (take k bs)) # struct_read ks (drop k bs)"

definition struct_unpack :: "nat list \<Rightarrow> bytes \<Rightarrow> py_error + int list" where
  "struct_unpack ks bs =
     (if length bs = sum_list ks then Inr (struct_read ks bs) else Inl StructError)"

section \<open>Decimal conversion\<close>

fun string_of_nat :: "nat \<Rightarrow> string" where
  "string_of_nat n =
     (if n < 10 then [char_of (48 + n)]
      else string_of_nat (n div 10) @ [char_of (48 + n mod 10)])"

declare string_of_nat.simps [simp del]

definition string_of_int :: "int \<Rightarrow> string" where
  "string_of_int i = (if i < 0 then ''-'' @ string_of_nat (nat (- i)) else string_of_nat (nat i))"

definition digit_val :: "char \<Rightarrow> nat option" where
  "digit_val c = (if 48 \<le> (of_char c :: nat) \<and> (of_char c :: nat) \<le> 57
                  then Some (of_char c - 48) else None)"

text \<open>
  Python's \<^verbatim>\<open>int(s)\<close> for a string of ASCII decimal digits; any other string is
  \<^const>\<open>None\<close> here. (Python also takes surrounding blanks, a sign and single underscores; the
  strings the sources convert are the parts of dotted addresses.)
\<close>

fun nat_of_digits :: "nat \<Rightarrow> string \<Rightarrow> nat option" where
  "nat_of_digits acc [] = Some acc"
| "nat_of_digits acc (c # cs) =
     (case digit_val c of None \<Rightarrow> None | Some d \<Rightarrow> nat_of_digits (acc * 10 + d) cs)"

definition int_of_string :: "string \<Rightarrow> int option" where
  "int_of_string s = (if s = [] then None else map_option int (nat_of_digits 0 s))"

text \<open>\<^verbatim>\<open>s.split(c)\<close> for a one-character separator.\<close>

fun split_on :: "char \<Rightarrow> string \<Rightarrow> string list" where
  "split_on c [] = [[]]"
| "split_on c (x # xs) =
     (if x = c then [] # split_on c xs
      else (case split_on c xs of [] \<Rightarrow> [[x]] | w # ws \<Rightarrow> (x # w) # ws))"

section \<open>Lemmas on dictionaries\<close>

lemma map_of_update [dict_simps]:
  "map_of (AList.update k v d) k' = (if k' = k then Some v else map_of d k')"
  by (simp add: update_conv')

lemma map_of_delete [dict_simps]:
  "map_of (AList.delete k d) k' = (if k' = k then None else map_of d k')"
  by (simp add: delete_conv')

lemma set_dict_setD: "(k, v) \<in> set (AList.update q w d) \<Longrightarrow> (k, v) \<in> set d \<or> (k = q \<and> v = w)"
  by (induction d) (auto split: if_splits)

lemma dict_has_update [dict_simps]: "dict_has (AList.update k v d) k' \<longleftrightarrow> k' = k \<or> dict_has d k'"
  by (simp add: dict_has_def dict_simps)

lemma dict_has_delete [dict_simps]: "dict_has (AList.delete k d) k' \<longleftrightarrow> k' \<noteq> k \<and> dict_has d k'"
  by (simp add: dict_has_def dict_simps)

lemma dict_has_dom: "dict_has d k \<longleftrightarrow> k \<in> fst ` set d"
  by (simp add: dict_has_def map_of_eq_None_iff)

lemma dict_ok_Nil [simp]: "dict_ok []"
  by (simp add: dict_ok_def)

lemma dict_ok_update [simp, intro]: "dict_ok d \<Longrightarrow> dict_ok (AList.update k v d)"
  by (simp add: dict_ok_def distinct_update)

lemma dict_ok_delete [simp, intro]: "dict_ok d \<Longrightarrow> dict_ok (AList.delete k d)"
  by (simp add: dict_ok_def distinct_delete)

lemma dict_ok_filter [simp, intro]: "dict_ok d \<Longrightarrow> dict_ok (filter P d)"
  by (simp add: dict_ok_def distinct_map_filter)

lemma dict_ok_mem: "dict_ok d \<Longrightarrow> (k, v) \<in> set d \<longleftrightarrow> map_of d k = Some v"
  by (simp add: dict_ok_def)

lemma map_of_filter_key [dict_simps]:
  "map_of (filter (\<lambda>(q, _). P q) d) k = (if P k then map_of d k else None)"
  by (induction d) auto

lemma map_of_filter_dict:
  "dict_ok d \<Longrightarrow> map_of (filter P d) k =
     (case map_of d k of None \<Rightarrow> None | Some v \<Rightarrow> if P (k, v) then Some v else None)"
proof (induction d)
  case Nil
  then show ?case by simp
next
  case (Cons a d)
  obtain k0 v0 where a: "a = (k0, v0)" by (cases a)
  from Cons.prems a have ok: "dict_ok d" and notin: "k0 \<notin> fst ` set d"
    by (auto simp: dict_ok_def)
  from notin have none: "map_of d k0 = None" by (simp add: map_of_eq_None_iff)
  from Cons.IH [OF ok] none a show ?case by auto
qed

lemma length_delete_less: "dict_has d k \<Longrightarrow> length (AList.delete k d) < length d"
proof -
  assume "dict_has d k"
  then obtain v where "(k, v) \<in> set d"
    by (auto simp: dict_has_dom)
  then show ?thesis
    unfolding AList.delete_eq
    by (induction d) (auto simp: less_Suc_eq_le)
qed

lemma length_update_new:
  "\<not> dict_has d k \<Longrightarrow> AList.update k v d = d @ [(k, v)]"
  by (induction d) (auto simp: dict_has_def split: if_splits)

section \<open>Lemmas on packing\<close>

lemma length_be_bytes [simp]: "length (be_bytes k v) = k"
  by (induction k arbitrary: v) auto

lemma be_nat_snoc [simp]: "be_nat (bs @ [b]) = be_nat bs * 256 + unat b"
  by (simp add: be_nat_def)

lemma be_nat_Nil [simp]: "be_nat [] = 0"
  by (simp add: be_nat_def)

lemma unat_of_nat_byte: "unat (of_nat v :: byte) = v mod 256"
  by (simp add: unat_of_nat)

lemma be_nat_be_bytes: "be_nat (be_bytes k v) = v mod 256 ^ k"
proof (induction k arbitrary: v)
  case 0
  then show ?case by simp
next
  case (Suc k)
  have "be_nat (be_bytes (Suc k) v) = (v div 256 mod 256 ^ k) * 256 + v mod 256"
    by (simp add: Suc.IH unat_of_nat_byte)
  also have "\<dots> = v mod (256 * 256 ^ k)"
    by (simp add: mod_mult2_eq)
  finally show ?case by simp
qed

lemma be_bytes_be_nat: "be_bytes (length bs) (be_nat bs) = bs"
proof (induction bs rule: rev_induct)
  case Nil
  then show ?case by simp
next
  case (snoc b bs)
  have "unat b < 256" using unsigned_less [of b, where ?'a = nat] by simp
  then have "(be_nat bs * 256 + unat b) div 256 = be_nat bs" by simp
  moreover have "(of_nat (be_nat bs * 256 + unat b) :: byte) = b"
    by (simp only: word_unat_eq_iff unat_of_nat_byte) (simp add: \<open>unat b < 256\<close>)
  ultimately show ?case using snoc.IH by simp
qed

lemma be_nat_less: "be_nat bs < 256 ^ length bs"
proof -
  have "be_nat bs = be_nat (be_bytes (length bs) (be_nat bs))" by (simp only: be_bytes_be_nat)
  also have "\<dots> = be_nat bs mod 256 ^ length bs" by (rule be_nat_be_bytes)
  also have "\<dots> < 256 ^ length bs" by simp
  finally show ?thesis .
qed

lemma be_bytes_widths [struct_simps]:
  "be_bytes 1 v = [of_nat v]"
  "be_bytes 2 v = [of_nat (v div 256), of_nat v]"
  "be_bytes 4 v = [of_nat (v div 16777216), of_nat (v div 65536), of_nat (v div 256), of_nat v]"
proof -
  have n: "(2::nat) = Suc (Suc 0)" "(4::nat) = Suc (Suc (Suc (Suc 0)))" by simp_all
  show "be_bytes 1 v = [of_nat v]" by simp
  show "be_bytes 2 v = [of_nat (v div 256), of_nat v]"
    unfolding n(1) by simp
  show "be_bytes 4 v =
      [of_nat (v div 16777216), of_nat (v div 65536), of_nat (v div 256), of_nat v]"
    unfolding n(2) by (simp flip: div_mult2_eq)
qed

lemma pow256: "(256::int) ^ k = 2 ^ (8 * k)"
  by (simp add: power_mult)

lemma be_nat_bound: "length bs = k \<Longrightarrow> int (be_nat bs) < 2 ^ (8 * k)"
proof -
  assume "length bs = k"
  with be_nat_less [of bs] have "int (be_nat bs) < int (256 ^ k)" by (simp del: of_nat_power)
  then show ?thesis by (simp add: pow256)
qed

lemma be_nat_be_bytes_range:
  assumes "0 \<le> v" and "v < 2 ^ (8 * k)"
  shows "int (be_nat (be_bytes k (nat v))) = v"
proof -
  from assms have "v < int (256 ^ k)" by (simp add: pow256)
  then have "nat v < 256 ^ k" using assms(1) by linarith
  then show ?thesis using assms(1) by (simp add: be_nat_be_bytes)
qed

definition fits :: "(nat \<times> int) list \<Rightarrow> bool" where
  "fits fs \<longleftrightarrow> (\<forall>(k, v) \<in> set fs. 0 \<le> v \<and> v < 2 ^ (8 * k))"

lemma fits_simps [struct_simps]:
  "fits []"
  "fits ((k, v) # fs) \<longleftrightarrow> (0 \<le> v \<and> v < 2 ^ (8 * k)) \<and> fits fs"
  by (auto simp: fits_def)

lemma struct_pack_Inr_iff: "(\<exists>bs. struct_pack fs = Inr bs) \<longleftrightarrow> fits fs"
  by (induction fs rule: struct_pack.induct) (auto simp: fits_def split: sum.splits)

lemma struct_pack_Inl: "\<not> fits fs \<Longrightarrow> struct_pack fs = Inl StructError"
  by (induction fs rule: struct_pack.induct) (auto simp: fits_def split: sum.splits)

lemma struct_pack_Inr:
  "fits fs \<Longrightarrow> struct_pack fs = Inr (concat (map (\<lambda>(k, v). be_bytes k (nat v)) fs))"
  by (induction fs rule: struct_pack.induct) (auto simp: fits_def)

lemma struct_pack_append:
  "struct_pack fs = Inr a \<Longrightarrow> struct_pack gs = Inr b \<Longrightarrow> struct_pack (fs @ gs) = Inr (a @ b)"
  by (induction fs arbitrary: a rule: struct_pack.induct) (auto split: sum.splits if_splits)

lemma struct_pack_length:
  "struct_pack fs = Inr bs \<Longrightarrow> length bs = sum_list (map fst fs)"
  by (induction fs arbitrary: bs rule: struct_pack.induct) (auto split: sum.splits if_splits)

lemma struct_read_pack:
  "struct_pack fs = Inr bs \<Longrightarrow> struct_read (map fst fs) (bs @ rest) = map snd fs"
  by (induction fs arbitrary: bs rule: struct_pack.induct)
     (auto split: sum.splits if_splits simp: be_nat_be_bytes_range)

lemma struct_unpack_pack:
  "struct_pack fs = Inr bs \<Longrightarrow> struct_unpack (map fst fs) bs = Inr (map snd fs)"
  using struct_read_pack [of fs bs "[]"]
  by (simp add: struct_unpack_def struct_pack_length)

lemma struct_pack_read:
  "length bs = sum_list ks \<Longrightarrow> struct_pack (zip ks (struct_read ks bs)) = Inr bs"
proof (induction ks arbitrary: bs)
  case Nil
  then show ?case by simp
next
  case (Cons k ks)
  let ?b = "take k bs"
  from Cons.prems have len: "length ?b = k" "length (drop k bs) = sum_list ks" by auto
  have "be_bytes k (be_nat ?b) = ?b" using be_bytes_be_nat [of ?b] len by simp
  moreover have "int (be_nat ?b) < 2 ^ (8 * k)" using len(1) by (rule be_nat_bound)
  ultimately show ?case using Cons.IH [OF len(2)] by simp
qed

declare struct_pack.simps [simp del] struct_read.simps [simp del]

section \<open>Lemmas on 16-bit arithmetic\<close>

lemma and_0xFFFF: "(c::int) AND 65535 = c mod 65536"
proof -
  have "c AND 65535 = take_bit 16 c" by (simp add: take_bit_eq_mask mask_eq_exp_minus_1)
  then show ?thesis by (simp add: take_bit_eq_mod)
qed

lemma not_and_0xFFFF:
  assumes "0 \<le> c" "c < 65536"
  shows "(NOT (c::int)) AND 65535 = 65535 - c"
proof -
  have "(NOT c) AND 65535 = (- c - 1) mod 65536" by (simp only: and_0xFFFF not_int_def)
  also have "\<dots> = (65535 - c) mod 65536"
    using mod_add_self2 [of "- c - 1" "65536 :: int"] by simp
  also have "\<dots> = 65535 - c" using assms by simp
  finally show ?thesis .
qed

lemma drop_bit_16: "drop_bit 16 (c::int) = c div 65536"
  by (simp add: drop_bit_eq_div)

section \<open>Lemmas on decimal conversion and splitting\<close>

lemma string_of_nat_not_Nil [simp]: "string_of_nat n \<noteq> []"
  by (subst string_of_nat.simps) simp

lemma digit_val_digit: "d < 10 \<Longrightarrow> digit_val (char_of (48 + d)) = Some d"
  by (simp add: digit_val_def of_char_of)

lemma nat_of_digits_append:
  "nat_of_digits acc (xs @ ys) =
     (case nat_of_digits acc xs of None \<Rightarrow> None | Some a \<Rightarrow> nat_of_digits a ys)"
  by (induction xs arbitrary: acc) (auto split: option.splits)

lemma nat_of_digits_string_of_nat: "nat_of_digits 0 (string_of_nat n) = Some n"
proof (induction n rule: string_of_nat.induct)
  case (1 n)
  show ?case
  proof (cases "n < 10")
    case True
    then show ?thesis by (simp add: string_of_nat.simps [of n] digit_val_digit)
  next
    case False
    have "n mod 10 < 10" by simp
    with False "1.IH" show ?thesis
      by (simp add: string_of_nat.simps [of n] nat_of_digits_append digit_val_digit)
  qed
qed

lemma int_of_string_of_nat [simp]: "int_of_string (string_of_nat n) = Some (int n)"
  by (simp add: int_of_string_def nat_of_digits_string_of_nat)

lemma string_of_nat_inject [simp]: "string_of_nat m = string_of_nat n \<longleftrightarrow> m = n"
  by (metis nat_of_digits_string_of_nat option.inject)

lemma string_of_nat_digits: "c \<in> set (string_of_nat n) \<Longrightarrow> digit_val c \<noteq> None"
proof (induction n rule: string_of_nat.induct)
  case (1 n)
  have "n mod 10 < 10" by simp
  with 1 show ?case
    by (subst (asm) (2) string_of_nat.simps) (auto simp: digit_val_digit split: if_splits)
qed

lemma split_on_not_Nil [simp]: "split_on c s \<noteq> []"
  by (induction s) (auto split: list.splits)

lemma split_on_none: "c \<notin> set s \<Longrightarrow> split_on c s = [s]"
  by (induction s) auto

lemma split_on_append: "c \<notin> set s \<Longrightarrow> split_on c (s @ c # r) = s # split_on c r"
  by (induction s) auto

lemma string_of_nat_length: "0 < k \<Longrightarrow> n < 10 ^ k \<Longrightarrow> length (string_of_nat n) \<le> k"
proof (induction n arbitrary: k rule: string_of_nat.induct)
  case (1 n)
  show ?case
  proof (cases "n < 10")
    case True then show ?thesis using 1(2) by (subst string_of_nat.simps) simp
  next
    case False
    then obtain j where j: "k = Suc j" "0 < j" using 1(2,3) by (cases k; cases "k - 1") auto
    then have "n div 10 < 10 ^ j" using 1(3) by (simp add: less_mult_imp_div_less mult.commute)
    from 1(1) [OF False j(2) this] show ?thesis using False j(1) by (subst string_of_nat.simps) simp
  qed
qed

lemma string_of_int_length: "0 < k \<Longrightarrow> 0 \<le> i \<Longrightarrow> i < 10 ^ k \<Longrightarrow> length (string_of_int i) \<le> k"
proof -
  assume a: "0 < k" "0 \<le> i" "i < 10 ^ k"
  then have "nat i < 10 ^ k" by (simp add: nat_less_iff)
  with string_of_nat_length [OF a(1) this] a(2) show ?thesis by (simp add: string_of_int_def)
qed

section \<open>Interfaces\<close>

text \<open>
  A byte codec: encoding succeeds on the values it accepts, and decoding what it produced
  gives the value back (in the form \<open>norm\<close> in which it went on the wire).
\<close>

locale codec =
  fixes ok :: "'a \<Rightarrow> bool"
    and enc :: "'a \<Rightarrow> py_error + bytes"
    and dec :: "bytes \<Rightarrow> py_error + 'a"
    and norm :: "'a \<Rightarrow> 'a"
  assumes enc_ok: "ok x \<Longrightarrow> \<exists>d. enc x = Inr d"
    and dec_enc: "ok x \<Longrightarrow> enc x = Inr d \<Longrightarrow> dec d = Inr (norm x)"
begin

lemma enc_inject:
  assumes "ok x" "ok y" "enc x = Inr d" "enc y = Inr d"
  shows "norm x = norm y"
  using dec_enc [OF assms(1,3)] dec_enc [OF assms(2,4)] by simp

lemma roundtrip:
  assumes "ok x"
  shows "\<exists>d. enc x = Inr d \<and> dec d = Inr (norm x)"
  using enc_ok [OF assms] dec_enc [OF assms] by blast

end

text \<open>
  A dictionary whose entries expire: \<open>lookup\<close> at a time \<open>t\<close> also returns the
  dictionary it leaves behind (an expired entry is dropped by the look-up that finds it).
\<close>

locale ttl_store =
  fixes lookup :: "'c \<Rightarrow> 'k \<Rightarrow> real \<Rightarrow> 'v option \<times> 'c"
    and store :: "'c \<Rightarrow> 'k \<Rightarrow> 'v \<Rightarrow> real \<Rightarrow> 'c"
    and fresh :: "real \<Rightarrow> real \<Rightarrow> bool"
  assumes lookup_store_fresh:
      "fresh t t' \<Longrightarrow> fst (lookup (store c k v t) k t') = Some v"
    and lookup_store_stale:
      "\<not> fresh t t' \<Longrightarrow> fst (lookup (store c k v t) k t') = None"
    and lookup_store_other:
      "k' \<noteq> k \<Longrightarrow> fst (lookup (store c k v t) k' t') = fst (lookup c k' t')"
    and lookup_frame:
      "k' \<noteq> k \<Longrightarrow> fst (lookup (snd (lookup c k t)) k' t') = fst (lookup c k' t')"
    and lookup_again:
      "fst (lookup c k t) = Some v \<Longrightarrow> snd (lookup c k t) = c"
begin

text \<open>A later store of another key never hides a stored value.\<close>

lemma store_store_other:
  assumes "k' \<noteq> k" "fresh t t''"
  shows "fst (lookup (store (store c k v t) k' v' t') k t'') = Some v"
  using assms lookup_store_other [of k k'] lookup_store_fresh by metis

text \<open>The latest store of a key wins.\<close>

lemma store_overwrites:
  assumes "fresh t' t''"
  shows "fst (lookup (store (store c k v t) k v' t') k t'') = Some v'"
  using assms by (rule lookup_store_fresh)

lemma lookup_stable:
  assumes "fst (lookup c k t) = Some v"
  shows "fst (lookup (snd (lookup c k t)) k t) = Some v"
  using assms lookup_again [OF assms] by simp

end

lemma rtranclp_three_steps: "r a b \<Longrightarrow> r b c \<Longrightarrow> r c d \<Longrightarrow> r\<^sup>*\<^sup>* a d"
  by (rule converse_rtranclp_into_rtranclp, assumption,
      rule converse_rtranclp_into_rtranclp, assumption, rule r_into_rtranclp)

text \<open>A transition system with an inductive invariant; \<open>step\<^sup>*\<^sup>*\<close> is reachability.\<close>

locale invariant_system =
  fixes init :: "'s \<Rightarrow> bool"
    and step :: "'s \<Rightarrow> 's \<Rightarrow> bool"
    and inv :: "'s \<Rightarrow> bool"
  assumes inv_init: "init s \<Longrightarrow> inv s"
    and inv_step: "inv s \<Longrightarrow> step s s' \<Longrightarrow> inv s'"
begin

lemma inv_steps:
  assumes "step\<^sup>*\<^sup>* s s'" and "inv s"
  shows "inv s'"
  using assms by (induction rule: rtranclp_induct) (auto intro: inv_step)

lemma reachable_inv:
  assumes "init s" and "step\<^sup>*\<^sup>* s s'"
  shows "inv s'"
  using inv_steps [OF assms(2) inv_init [OF assms(1)]] .

end

text \<open>A forward simulation of such a system by an abstract one.\<close>

locale refinement = invariant_system +
  fixes abst :: "'s \<Rightarrow> 'a"
    and astep :: "'a \<Rightarrow> 'a \<Rightarrow> bool"
  assumes simulate: "inv s \<Longrightarrow> step s s' \<Longrightarrow> astep\<^sup>*\<^sup>* (abst s) (abst s')"
begin

lemma simulate_steps:
  assumes "step\<^sup>*\<^sup>* s s'" and "inv s"
  shows "astep\<^sup>*\<^sup>* (abst s) (abst s')"
  using assms
proof (induction rule: rtranclp_induct)
  case (step y z)
  then have "astep\<^sup>*\<^sup>* (abst y) (abst z)" using simulate inv_steps by blast
  with step show ?case by auto
qed simp

lemma reachable_simulated:
  assumes "init s0" and "step\<^sup>*\<^sup>* s0 s" and "step\<^sup>*\<^sup>* s s'"
  shows "astep\<^sup>*\<^sup>* (abst s) (abst s')"
  using simulate_steps [OF assms(3) reachable_inv [OF assms(1,2)]] .

end

end
