(* ===== verification/Constants.thy ===== *)
theory Constants
  imports Prelude
begin

text \<open>
  The system constants of \<^verbatim>\<open>src/common/constants.py\<close> and the status codes of
  \<^verbatim>\<open>src/common/errors.py\<close>, each under its source name.
\<close>

section \<open>Envelope and opcodes\<close>

definition PROTOCOL_VERSION :: int where "PROTOCOL_VERSION = 1"

definition OP_PUT_META :: int where "OP_PUT_META = 0x01"
definition OP_PUT_CHUNK :: int where "OP_PUT_CHUNK = 0x02"
definition OP_GET :: int where "OP_GET = 0x03"
definition OP_APPEND :: int where "OP_APPEND = 0x04"
definition OP_LIST :: int where "OP_LIST = 0x05"
definition OP_UPLOAD :: int where "OP_UPLOAD = 0xFF"
definition OP_TASK_SEARCH_REPORT :: int where "OP_TASK_SEARCH_REPORT = 0x10"
definition OP_TASK_FILTER_LINES :: int where "OP_TASK_FILTER_LINES = 0x11"
definition OP_TASK_HASH_AND_STORE :: int where "OP_TASK_HASH_AND_STORE = 0x12"

section \<open>Sizes and windows\<close>

definition MAX_FILE_SIZE :: int where "MAX_FILE_SIZE = 1 * 1024 * 1024"
definition MAX_PAYLOAD_LEN :: int where "MAX_PAYLOAD_LEN = MAX_FILE_SIZE"
definition MSS :: int where "MSS = 1200"
definition MAX_RWND :: int where "MAX_RWND = 64"
definition HIGH_WATERMARK :: real where "HIGH_WATERMARK = 0.80"
definition LOW_WATERMARK :: real where "LOW_WATERMARK = 0.20"
definition INITIAL_CWND :: real where "INITIAL_CWND = 1.0 * of_int MSS"
definition INITIAL_SSTHRESH :: int where "INITIAL_SSTHRESH = 64 * MSS"
definition MAX_RETRIES :: int where "MAX_RETRIES = 5"

section \<open>Timers\<close>

definition INITIAL_RTO :: real where "INITIAL_RTO = 0.5"
definition ALPHA :: real where "ALPHA = 0.125"
definition BETA :: real where "BETA = 0.25"
definition MAX_RTO :: real where "MAX_RTO = 4.0"

section \<open>Addresses and leases\<close>

definition LOOPBACK_IP :: string where "LOOPBACK_IP = ''127.0.0.1''"
definition DHCP_SERVER_PORT :: int where "DHCP_SERVER_PORT = 67"
definition DHCP_CLIENT_PORT :: int where "DHCP_CLIENT_PORT = 68"
definition DHCP_DEFAULT_LEASE_TIME :: int where "DHCP_DEFAULT_LEASE_TIME = 3600"
definition AGENT_SERVER_PORT :: int where "AGENT_SERVER_PORT = 8080"

section \<open>Status codes\<close>

datatype ErrorCode =
    OK
  | CREATED
  | BAD_REQUEST
  | FORBIDDEN
  | NOT_FOUND
  | CONFLICT
  | PAYLOAD_TOO_LARGE
  | INTERNAL_SERVER_ERROR

fun code_value :: "ErrorCode \<Rightarrow> int" where
  "code_value OK = 200"
| "code_value CREATED = 201"
| "code_value BAD_REQUEST = 400"
| "code_value FORBIDDEN = 403"
| "code_value NOT_FOUND = 404"
| "code_value CONFLICT = 409"
| "code_value PAYLOAD_TOO_LARGE = 413"
| "code_value INTERNAL_SERVER_ERROR = 500"

text \<open>The constants the arithmetic of the component proofs unfolds.\<close>

lemmas size_consts = MAX_FILE_SIZE_def MAX_PAYLOAD_LEN_def MSS_def MAX_RWND_def
lemmas timer_consts = INITIAL_RTO_def ALPHA_def BETA_def MAX_RTO_def
lemmas opcode_consts = OP_PUT_META_def OP_PUT_CHUNK_def OP_GET_def OP_APPEND_def OP_LIST_def
  OP_UPLOAD_def OP_TASK_SEARCH_REPORT_def OP_TASK_FILTER_LINES_def OP_TASK_HASH_AND_STORE_def

end
