(* ===== verification/RudpPacket.thy ===== *)
theory RudpPacket
  imports Constants
begin

unbundle bit_operations_syntax

text \<open>
  The RUDP datagram, \<^verbatim>\<open>src/common/rudp_packet.py\<close>: the packet record, its 16-bit
  one's-complement checksum, \<^verbatim>\<open>pack\<close> and \<^verbatim>\<open>unpack\<close>. Shown: the checksum is a
  function of the word sum modulo 65535 (so it is never 0), packing and unpacking are inverse in
  both directions, and a datagram with one byte changed in transit is always rejected.
\<close>

section \<open>The packet\<close>

definition FLAG_SYN :: int where "FLAG_SYN = 0x01"
definition FLAG_ACK :: int where "FLAG_ACK = 0x02"
definition FLAG_FIN :: int where "FLAG_FIN = 0x04"
definition FLAG_RST :: int where "FLAG_RST = 0x08"

definition FIXED_HEADER_FORMAT :: "nat list" where "FIXED_HEADER_FORMAT = [4, 4, 1, 2, 2]"
definition FIXED_HEADER_SIZE :: nat where "FIXED_HEADER_SIZE = sum_list FIXED_HEADER_FORMAT"
definition REASSEMBLY_FORMAT :: "nat list" where "REASSEMBLY_FORMAT = [4, 4]"
definition REASSEMBLY_SIZE :: nat where "REASSEMBLY_SIZE = sum_list REASSEMBLY_FORMAT"

record RUDPPacket =
  seq_num :: int
  ack_num :: int
  flags :: int
  rwnd :: int
  checksum :: int
  msg_id :: "int option"
  offset :: "int option"
  payload :: bytes

definition is_syn :: "RUDPPacket \<Rightarrow> bool" where "is_syn p \<longleftrightarrow> flags p AND FLAG_SYN \<noteq> 0"
definition is_ack :: "RUDPPacket \<Rightarrow> bool" where "is_ack p \<longleftrightarrow> flags p AND FLAG_ACK \<noteq> 0"
definition is_fin :: "RUDPPacket \<Rightarrow> bool" where "is_fin p \<longleftrightarrow> flags p AND FLAG_FIN \<noteq> 0"
definition is_rst :: "RUDPPacket \<Rightarrow> bool" where "is_rst p \<longleftrightarrow> flags p AND FLAG_RST \<noteq> 0"

definition has_data :: "RUDPPacket \<Rightarrow> bool" where
  "has_data p \<longleftrightarrow> payload p \<noteq> [] \<or> (msg_id p \<noteq> None \<and> offset p \<noteq> None)"

section \<open>Checksum\<close>

text \<open>
  The bytes of the packet with a given value in the checksum field: the fixed header, the
  reassembly fields when both are present, the payload.
\<close>

definition packet_bytes :: "RUDPPacket \<Rightarrow> int \<Rightarrow> py_error + bytes" where
  "packet_bytes p c =
     (case struct_pack (zip FIXED_HEADER_FORMAT [seq_num p, ack_num p, flags p, rwnd p, c]) of
        Inl e \<Rightarrow> Inl e
      | Inr header_bytes \<Rightarrow>
          (case (msg_id p, offset p) of
             (Some m, Some off) \<Rightarrow>
               (case struct_pack (zip REASSEMBLY_FORMAT [m, off]) of
                  Inl e \<Rightarrow> Inl e
                | Inr reassembly_bytes \<Rightarrow> Inr (header_bytes @ reassembly_bytes @ payload p))
           | _ \<Rightarrow> Inr (header_bytes @ payload p)))"

definition pad_even :: "bytes \<Rightarrow> bytes" where
  "pad_even bs = (if length bs mod 2 = 1 then bs @ [0] else bs)"

fun word_sum :: "bytes \<Rightarrow> int" where
  "word_sum (a # b # r) = (push_bit 8 (uint a) + uint b) + word_sum r"
| "word_sum _ = 0"

function add_carries :: "int \<Rightarrow> int" where
  "add_carries c = (if drop_bit 16 c > 0 then add_carries ((c AND 0xFFFF) + drop_bit 16 c) else c)"
  by pat_completeness auto
termination
proof (relation "measure nat")
  fix c :: int
  assume "0 < drop_bit 16 c"
  then have "0 < c \<and> c mod 65536 + c div 65536 < c"
    unfolding drop_bit_16 by presburger
  then show "((c AND 0xFFFF) + drop_bit 16 c, c) \<in> measure nat"
    unfolding and_0xFFFF drop_bit_16 by simp
qed simp

declare add_carries.simps [simp del]

definition calculate_checksum :: "RUDPPacket \<Rightarrow> py_error + int" where
  "calculate_checksum p =
     (case packet_bytes p 0 of
        Inl e \<Rightarrow> Inl e
      | Inr bs \<Rightarrow>
          (let csum = add_carries (word_sum (pad_even bs));
               final_csum = (NOT csum) AND 0xFFFF
           in Inr (if final_csum = 0x0000 then 0xFFFF else final_csum)))"

section \<open>pack and unpack\<close>

text \<open>
  \<^verbatim>\<open>pack\<close> stores the checksum in the packet object it serialises, so it returns the updated
  packet beside the bytes.
\<close>

definition pack :: "RUDPPacket \<Rightarrow> py_error + RUDPPacket \<times> bytes" where
  "pack p =
     (case calculate_checksum p of
        Inl e \<Rightarrow> Inl e
      | Inr c \<Rightarrow>
          (let p' = p\<lparr>checksum := c\<rparr>
           in case packet_bytes p' (checksum p') of Inl e \<Rightarrow> Inl e | Inr bs \<Rightarrow> Inr (p', bs)))"

text \<open>
  The two halves of \<^verbatim>\<open>unpack\<close>: reading the fields, and comparing the checksum field with
  the checksum of the fields just read.
\<close>

definition unpack_fields :: "bytes \<Rightarrow> py_error + RUDPPacket" where
  "unpack_fields data =
     (if length data < FIXED_HEADER_SIZE
      then Inl (ValueError (''Packet too short to contain fixed header: ''
                            @ string_of_nat (length data) @ '' bytes''))
      else case struct_unpack FIXED_HEADER_FORMAT (take FIXED_HEADER_SIZE data) of
        Inr [seq, ack, fl, rw, cs] \<Rightarrow>
          (let packet = \<lparr>seq_num = seq, ack_num = ack, flags = fl, rwnd = rw, checksum = cs,
                         msg_id = None, offset = None, payload = []\<rparr>
           in if length data > FIXED_HEADER_SIZE
              then if length data < FIXED_HEADER_SIZE + REASSEMBLY_SIZE
                   then Inl (ValueError ''Packet has extra data but not enough for reassembly fields'')
                   else case struct_unpack REASSEMBLY_FORMAT
                               (take REASSEMBLY_SIZE (drop FIXED_HEADER_SIZE data)) of
                     Inr [m, off] \<Rightarrow>
                       Inr (packet\<lparr>msg_id := Some m, offset := Some off,
                              payload := drop (FIXED_HEADER_SIZE + REASSEMBLY_SIZE) data\<rparr>)
                   | _ \<Rightarrow> Inl StructError
              else Inr packet)
      | _ \<Rightarrow> Inl StructError)"

definition validate_checksum :: "RUDPPacket \<Rightarrow> py_error + RUDPPacket" where
  "validate_checksum packet =
     (case calculate_checksum packet of
        Inl e \<Rightarrow> Inl e
      | Inr c \<Rightarrow> if checksum packet \<noteq> c then Inl (ChecksumError c (checksum packet))
                 else Inr packet)"

definition unpack :: "bytes \<Rightarrow> py_error + RUDPPacket" where
  "unpack data =
     (case unpack_fields data of Inl e \<Rightarrow> Inl e | Inr packet \<Rightarrow> validate_checksum packet)"

definition pack_bytes :: "RUDPPacket \<Rightarrow> py_error + bytes" where
  "pack_bytes p = map_sum id snd (pack p)"

definition from_bytes :: "bytes \<Rightarrow> py_error + RUDPPacket" where
  "from_bytes data = unpack data"


section \<open>The checksum as a function of the word sum\<close>

lemma word_sum_nonneg: "0 \<le> word_sum bs"
  by (induction bs rule: word_sum.induct) auto

lemma add_carries_props:
  "0 \<le> c \<Longrightarrow> 0 \<le> add_carries c \<and> add_carries c < 65536 \<and>
     add_carries c mod 65535 = c mod 65535 \<and> (add_carries c = 0 \<longleftrightarrow> c = 0)"
proof (induction c rule: add_carries.induct)
  case (1 c)
  show ?case
  proof (cases "0 < drop_bit 16 c")
    case True
    let ?d = "(c AND 0xFFFF) + drop_bit 16 c"
    have d: "?d = c mod 65536 + c div 65536" by (simp only: and_0xFFFF drop_bit_16)
    have pos: "0 < ?d" "0 \<le> ?d" using True unfolding d drop_bit_16 by (simp_all add: add_nonneg_pos)
    have "c = ?d + 65535 * (c div 65536)" unfolding d by presburger
    then have "?d mod 65535 = c mod 65535" by (metis mod_mult_self2)
    moreover have "add_carries c = add_carries ?d" using True by (simp add: add_carries.simps [of c])
    moreover have "c \<noteq> 0" using True by auto
    ultimately show ?thesis using "1.IH" [OF True pos(2)] pos(1) by auto
  next
    case False
    then have "c div 65536 \<le> 0" by (simp add: drop_bit_16)
    then have "c < 65536" by linarith
    with False "1.prems" show ?thesis by (simp add: add_carries.simps [of c])
  qed
qed

text \<open>What the checksum of a byte string amounts to, loop and RFC 768 case included.\<close>

definition reference_checksum :: "bytes \<Rightarrow> int" where
  "reference_checksum bs = 65535 - word_sum (pad_even bs) mod 65535"

lemma checksum_loop_eq:
  "(let csum = add_carries (word_sum (pad_even bs)); final_csum = (NOT csum) AND 0xFFFF
    in if final_csum = 0x0000 then 0xFFFF else final_csum) = reference_checksum bs"
proof -
  let ?s = "word_sum (pad_even bs)"
  let ?a = "add_carries ?s"
  have a: "0 \<le> ?a" "?a < 65536" "?a mod 65535 = ?s mod 65535" "?a = 0 \<longleftrightarrow> ?s = 0"
    using add_carries_props [OF word_sum_nonneg] by auto
  have n: "(NOT ?a) AND 65535 = 65535 - ?a" using a(1,2) by (rule not_and_0xFFFF)
  consider "?a = 65535" | "?a < 65535" using a(2) by linarith
  then show ?thesis
  proof cases
    case 1
    with a(3) have "?s mod 65535 = 0" by simp
    with 1 n show ?thesis by (simp add: Let_def reference_checksum_def)
  next
    case 2
    with a(1,3) have "?s mod 65535 = ?a" by simp
    with 2 n show ?thesis by (simp add: Let_def reference_checksum_def)
  qed
qed

lemma calculate_checksum_reference:
  "calculate_checksum p =
     (case packet_bytes p 0 of Inl e \<Rightarrow> Inl e | Inr bs \<Rightarrow> Inr (reference_checksum bs))"
  unfolding calculate_checksum_def checksum_loop_eq [symmetric] Let_def by (simp split: sum.split)

lemma reference_checksum_range: "1 \<le> reference_checksum bs \<and> reference_checksum bs \<le> 65535"
proof -
  have "0 \<le> word_sum (pad_even bs) mod 65535" "word_sum (pad_even bs) mod 65535 < 65535" by simp_all
  then show ?thesis unfolding reference_checksum_def by linarith
qed

section \<open>Round trip\<close>

text \<open>
  The packets the sources build for the wire: every field in its unsigned range, and either
  both reassembly fields (a DATA packet) or neither and no payload (an ACK).
\<close>

definition packet_ok :: "RUDPPacket \<Rightarrow> bool" where
  "packet_ok p \<longleftrightarrow>
     fits (zip FIXED_HEADER_FORMAT [seq_num p, ack_num p, flags p, rwnd p, 0]) \<and>
     (case (msg_id p, offset p) of
        (Some m, Some off) \<Rightarrow> fits (zip REASSEMBLY_FORMAT [m, off])
      | (None, None) \<Rightarrow> payload p = []
      | _ \<Rightarrow> False)"

lemmas layout_defs = FIXED_HEADER_FORMAT_def FIXED_HEADER_SIZE_def REASSEMBLY_FORMAT_def
  REASSEMBLY_SIZE_def

lemma header_length:
  "struct_pack (zip FIXED_HEADER_FORMAT [a, b, c, d, e]) = Inr h \<Longrightarrow> length h = 13"
  by (drule struct_pack_length) (simp add: FIXED_HEADER_FORMAT_def)

lemma reassembly_length:
  "struct_pack (zip REASSEMBLY_FORMAT [a, b]) = Inr h \<Longrightarrow> length h = 8"
  by (drule struct_pack_length) (simp add: REASSEMBLY_FORMAT_def)

lemma packet_bytes_data:
  assumes "packet_bytes p c = Inr bs" "msg_id p = Some m" "offset p = Some off"
  obtains h r where
    "struct_pack (zip FIXED_HEADER_FORMAT [seq_num p, ack_num p, flags p, rwnd p, c]) = Inr h"
    "struct_pack (zip REASSEMBLY_FORMAT [m, off]) = Inr r"
    "bs = h @ r @ payload p" "length h = 13" "length r = 8"
  using assms
  by (auto simp: packet_bytes_def header_length reassembly_length split: sum.splits)

lemma packet_bytes_ctl:
  assumes "packet_bytes p c = Inr bs" "msg_id p = None" "offset p = None" "payload p = []"
  shows "struct_pack (zip FIXED_HEADER_FORMAT [seq_num p, ack_num p, flags p, rwnd p, c]) = Inr bs"
    and "length bs = 13"
  using assms
  by (auto simp: packet_bytes_def header_length split: sum.splits)

lemma packet_bytes_ok:
  assumes "packet_ok p" "0 \<le> c" "c < 65536"
  shows "\<exists>bs. packet_bytes p c = Inr bs"
proof -
  from assms have "fits (zip FIXED_HEADER_FORMAT [seq_num p, ack_num p, flags p, rwnd p, c])"
    by (auto simp: packet_ok_def layout_defs struct_simps)
  then show ?thesis using assms(1)
    by (auto simp: packet_bytes_def packet_ok_def struct_pack_Inr split: option.splits)
qed

lemma header_read:
  assumes "struct_pack (zip FIXED_HEADER_FORMAT [a, b, c, d, e]) = Inr h"
  shows "struct_unpack FIXED_HEADER_FORMAT h = Inr [a, b, c, d, e]"
  using struct_unpack_pack [OF assms] by (simp add: FIXED_HEADER_FORMAT_def)

lemma reassembly_read:
  assumes "struct_pack (zip REASSEMBLY_FORMAT [a, b]) = Inr h"
  shows "struct_unpack REASSEMBLY_FORMAT h = Inr [a, b]"
  using struct_unpack_pack [OF assms] by (simp add: REASSEMBLY_FORMAT_def)

lemma unpack_fields_packet_bytes:
  assumes ok: "packet_ok p" and bs: "packet_bytes p c = Inr bs"
  shows "unpack_fields bs = Inr (p\<lparr>checksum := c\<rparr>)"
proof (cases "msg_id p")
  case None
  with ok have *: "offset p = None" "payload p = []"
    by (auto simp: packet_ok_def split: option.splits)
  note ctl = packet_bytes_ctl [OF bs None *]
  from ctl header_read [OF ctl(1)] None * show ?thesis
    by (simp add: unpack_fields_def FIXED_HEADER_SIZE_def FIXED_HEADER_FORMAT_def)
next
  case (Some m)
  with ok obtain off where off: "offset p = Some off"
    by (auto simp: packet_ok_def split: option.splits)
  obtain h r where hr:
    "struct_pack (zip FIXED_HEADER_FORMAT [seq_num p, ack_num p, flags p, rwnd p, c]) = Inr h"
    "struct_pack (zip REASSEMBLY_FORMAT [m, off]) = Inr r"
    "bs = h @ r @ payload p" "length h = 13" "length r = 8"
    using packet_bytes_data [OF bs Some off] .
  from hr(3-5) header_read [OF hr(1)] reassembly_read [OF hr(2)] Some off show ?thesis
    by (simp add: unpack_fields_def layout_defs)
qed

lemma packet_bytes_checksum [simp]: "packet_bytes (p\<lparr>checksum := x\<rparr>) c = packet_bytes p c"
  by (simp add: packet_bytes_def split: sum.split option.split)

lemma calculate_checksum_checksum [simp]:
  "calculate_checksum (p\<lparr>checksum := x\<rparr>) = calculate_checksum p"
  by (simp add: calculate_checksum_def)

text \<open>The packet as \<^verbatim>\<open>pack\<close> leaves it.\<close>

definition stamped :: "RUDPPacket \<Rightarrow> RUDPPacket" where
  "stamped p = (case calculate_checksum p of Inl _ \<Rightarrow> p | Inr c \<Rightarrow> p\<lparr>checksum := c\<rparr>)"

lemma pack_ok:
  assumes "packet_ok p"
  shows "\<exists>bs. pack p = Inr (stamped p, bs) \<and> unpack bs = Inr (stamped p)"
proof -
  obtain b0 where b0: "packet_bytes p 0 = Inr b0" using packet_bytes_ok [OF assms] by fastforce
  let ?c = "reference_checksum b0"
  have c: "calculate_checksum p = Inr ?c" by (simp add: calculate_checksum_reference b0)
  obtain bs where bs: "packet_bytes p ?c = Inr bs"
    using packet_bytes_ok [OF assms] reference_checksum_range [of b0] by fastforce
  have "unpack_fields bs = Inr (p\<lparr>checksum := ?c\<rparr>)"
    using assms bs by (rule unpack_fields_packet_bytes)
  with c bs show ?thesis
    by (simp add: pack_def stamped_def unpack_def validate_checksum_def)
qed

lemma length_packet_read:
  assumes "unpack_fields data = Inr q"
  shows "(length data = 13 \<and> msg_id q = None \<and> offset q = None \<and> payload q = []) \<or>
         (21 \<le> length data \<and> (\<exists>m off. msg_id q = Some m \<and> offset q = Some off) \<and>
          payload q = drop 21 data)"
  using assms
  by (auto simp: unpack_fields_def layout_defs Let_def split: if_splits sum.splits list.splits)

text \<open>
  Conversely, whatever \<^verbatim>\<open>unpack\<close> reads serialises back to the same bytes; with another
  value in the checksum field only bytes 11 and 12 differ.
\<close>

lemma header_reread:
  assumes "13 \<le> length data"
    and "struct_unpack FIXED_HEADER_FORMAT (take 13 data) = Inr [a, b, f, w, cs]"
    and "0 \<le> c" "c < 65536"
  shows "struct_pack (zip FIXED_HEADER_FORMAT [a, b, f, w, c]) =
           Inr (take 11 data @ be_bytes 2 (nat c))"
    and "cs = int (be_nat (take 2 (drop 11 data)))"
proof -
  have read: "[a, b, f, w] = struct_read [4, 4, 1, 2] (take 11 data)"
    and cs: "cs = int (be_nat (take 2 (drop 11 data)))"
    using assms(1,2)
    by (auto simp: struct_unpack_def struct_read.simps FIXED_HEADER_FORMAT_def drop_take
             split: if_splits)
  have "struct_pack (zip [4, 4, 1, 2] [a, b, f, w]) = Inr (take 11 data)"
    unfolding read using assms(1) by (intro struct_pack_read) simp
  moreover have "struct_pack [(2, c)] = Inr (be_bytes 2 (nat c))"
    using assms(3,4) by (simp add: struct_pack.simps)
  ultimately have "struct_pack (zip [4, 4, 1, 2] [a, b, f, w] @ [(2, c)])
      = Inr (take 11 data @ be_bytes 2 (nat c))"
    by (rule struct_pack_append)
  then show "struct_pack (zip FIXED_HEADER_FORMAT [a, b, f, w, c]) =
      Inr (take 11 data @ be_bytes 2 (nat c))"
    by (simp add: FIXED_HEADER_FORMAT_def)
  show "cs = int (be_nat (take 2 (drop 11 data)))" by (rule cs)
qed

lemma unpack_fields_reread:
  assumes "unpack_fields data = Inr q" and c: "0 \<le> c" "c < 65536"
  shows "packet_bytes q c = Inr (take 11 data @ be_bytes 2 (nat c) @ drop 13 data)"
    and "checksum q = int (be_nat (take 2 (drop 11 data)))"
proof -
  from assms(1) obtain a b f w cs where
    len: "13 \<le> length data"
    and hdr: "struct_unpack FIXED_HEADER_FORMAT (take 13 data) = Inr [a, b, f, w, cs]"
    and q: "seq_num q = a" "ack_num q = b" "flags q = f" "rwnd q = w" "checksum q = cs"
    by (auto simp: unpack_fields_def layout_defs Let_def split: if_splits sum.splits list.splits)
  note h = header_reread [OF len hdr c]
  show "checksum q = int (be_nat (take 2 (drop 11 data)))" using q(5) h(2) by simp
  show "packet_bytes q c = Inr (take 11 data @ be_bytes 2 (nat c) @ drop 13 data)"
  proof (cases "length data = 13")
    case True
    with length_packet_read [OF assms(1)] have "msg_id q = None" "payload q = []" by auto
    with h(1) q True show ?thesis by (simp add: packet_bytes_def)
  next
    case False
    with length_packet_read [OF assms(1)] have len': "21 \<le> length data"
      and pl: "payload q = drop 21 data" by auto
    with assms(1) False obtain m off where
      ras: "struct_unpack REASSEMBLY_FORMAT (take 8 (drop 13 data)) = Inr [m, off]"
      and mo: "msg_id q = Some m" "offset q = Some off"
      by (auto simp: unpack_fields_def layout_defs Let_def split: if_splits sum.splits list.splits)
    have "[m, off] = struct_read REASSEMBLY_FORMAT (take 8 (drop 13 data))"
      using ras by (simp add: struct_unpack_def split: if_splits)
    then have "struct_pack (zip REASSEMBLY_FORMAT [m, off]) = Inr (take 8 (drop 13 data))"
      using len' by (simp only:) (rule struct_pack_read, simp add: REASSEMBLY_FORMAT_def)
    moreover have "take 8 (drop 13 data) @ drop 21 data = drop 13 data"
      using append_take_drop_id [of 8 "drop 13 data"] by simp
    ultimately show ?thesis using h(1) q mo pl by (simp add: packet_bytes_def)
  qed
qed

lemma unpack_fields_total:
  "length data = 13 \<or> 21 \<le> length data \<Longrightarrow> \<exists>q. unpack_fields data = Inr q"
  by (auto simp: unpack_fields_def struct_unpack_def struct_read.simps layout_defs Let_def)

lemma validate_checksum_Inr:
  "validate_checksum q = Inr p \<longleftrightarrow> p = q \<and> calculate_checksum q = Inr (checksum q)"
  by (auto simp: validate_checksum_def split: sum.splits)

lemma unpack_Inr:
  "unpack data = Inr p \<longleftrightarrow> unpack_fields data = Inr p \<and> calculate_checksum p = Inr (checksum p)"
  by (auto simp: unpack_def validate_checksum_Inr split: sum.splits)

section \<open>Corruption\<close>

text \<open>The bytes over which the checksum is taken: the datagram with the field zeroed.\<close>

definition zeroed :: "bytes \<Rightarrow> bytes" where
  "zeroed data = take 11 data @ [0, 0] @ drop 13 data"

fun weighted_sum :: "bytes \<Rightarrow> int" where
  "weighted_sum (a # b # r) = 256 * uint a + uint b + weighted_sum r"
| "weighted_sum [a] = 256 * uint a"
| "weighted_sum [] = 0"

lemma word_sum_append_even:
  "even (length xs) \<Longrightarrow> word_sum (xs @ ys) = word_sum xs + word_sum ys"
  by (induction xs rule: word_sum.induct) auto

lemma word_sum_pad_even: "word_sum (pad_even bs) = weighted_sum bs"
proof (induction bs rule: weighted_sum.induct)
  case (1 a b r)
  have "pad_even (a # b # r) = a # b # pad_even r" by (simp add: pad_even_def)
  with 1 show ?case by (simp add: push_bit_eq_mult)
qed (simp_all add: pad_even_def push_bit_eq_mult)

lemma weighted_sum_update:
  "i < length bs \<Longrightarrow> weighted_sum (bs[i := b]) =
     weighted_sum bs + (uint b - uint (bs ! i)) * (if even i then 256 else 1)"
proof (induction bs arbitrary: i rule: weighted_sum.induct)
  case (1 a c r)
  consider "i = 0" | "i = 1" | j where "i = Suc (Suc j)" by (metis One_nat_def not0_implies_Suc)
  then show ?case
  proof cases
    case (3 j)
    with 1 show ?thesis by simp
  qed (simp_all add: algebra_simps)
qed (auto simp: algebra_simps)

lemma uint_byte: "0 \<le> uint (b :: byte)" "uint (b :: byte) < 256"
  using uint_bounded [of b] by simp_all

lemma mod_shift_neq:
  assumes "(d::int) \<noteq> 0" "\<bar>d\<bar> < m"
  shows "(s + d) mod m \<noteq> s mod m"
proof
  assume "(s + d) mod m = s mod m"
  then have "m dvd d" by (metis add_diff_cancel_left' mod_eq_dvd_iff)
  with assms show False using zdvd_imp_le [of m "\<bar>d\<bar>"] by auto
qed

lemma reference_checksum_update:
  assumes "i < length bs" "b \<noteq> bs ! i"
  shows "reference_checksum (bs[i := b]) \<noteq> reference_checksum bs"
proof -
  let ?d = "(uint b - uint (bs ! i)) * (if even i then 256 else 1)"
  have "uint b \<noteq> uint (bs ! i)" using assms(2) by (simp add: word_uint_eq_iff)
  then have "?d \<noteq> 0" by simp
  moreover have "\<bar>(x - y) * (if even i then 256 else 1)\<bar> < 65535"
    if "0 \<le> x" "x < 256" "0 \<le> y" "y < 256" for x y :: int
    using that by (cases "even i") (simp_all add: abs_if)
  then have "\<bar>?d\<bar> < 65535" by (simp only: uint_byte)
  ultimately have "(weighted_sum bs + ?d) mod 65535 \<noteq> weighted_sum bs mod 65535"
    by (intro mod_shift_neq)
  with assms(1) show ?thesis
    by (simp only: reference_checksum_def word_sum_pad_even weighted_sum_update)
qed

lemma calculate_checksum_zeroed:
  assumes "unpack_fields data = Inr q"
  shows "calculate_checksum q = Inr (reference_checksum (zeroed data))"
  using unpack_fields_reread(1) [OF assms, of 0]
  by (simp add: calculate_checksum_reference zeroed_def numeral_2_eq_2)

lemma be_nat_inject:
  "length xs = length ys \<Longrightarrow> be_nat xs = be_nat ys \<longleftrightarrow> xs = ys"
  by (metis be_bytes_be_nat)

lemma zeroed_update:
  assumes "13 \<le> length d" "i < length d"
  shows "zeroed (d[i := b]) = (if i = 11 \<or> i = 12 then zeroed d else (zeroed d)[i := b])"
proof (rule nth_equalityI)
  fix j assume "j < length (zeroed (d[i := b]))"
  then have "j < length d" using assms by (simp add: zeroed_def)
  then show "zeroed (d[i := b]) ! j =
      (if i = 11 \<or> i = 12 then zeroed d else (zeroed d)[i := b]) ! j"
    using assms
    by (auto simp: zeroed_def nth_append nth_list_update nth_Cons' less_Suc_eq_le)
qed (use assms in \<open>simp add: zeroed_def\<close>)

lemma corrupt_byte_fails:
  assumes "unpack d = Inr p" "i < length d" "b \<noteq> d ! i"
  shows "\<exists>e g. unpack (d[i := b]) = Inl (ChecksumError e g)"
proof -
  let ?d = "d[i := b]"
  have f: "unpack_fields d = Inr p" and c: "calculate_checksum p = Inr (checksum p)"
    using assms(1) by (simp_all add: unpack_Inr)
  have len: "length d = 13 \<or> 21 \<le> length d" using length_packet_read [OF f] by auto
  then have "13 \<le> length d" by auto
  obtain q where q: "unpack_fields ?d = Inr q" using unpack_fields_total [of ?d] len by auto
  have old: "checksum p = reference_checksum (zeroed d)"
    using c calculate_checksum_zeroed [OF f] by simp
  have fld: "checksum p = int (be_nat (take 2 (drop 11 d)))"
    "checksum q = int (be_nat (take 2 (drop 11 ?d)))"
    using unpack_fields_reread(2) [OF f, of 0] unpack_fields_reread(2) [OF q, of 0] by auto
  have "checksum q \<noteq> reference_checksum (zeroed ?d)"
  proof (cases "i = 11 \<or> i = 12")
    case True
    then have "(take 2 (drop 11 ?d)) ! (i - 11) \<noteq> (take 2 (drop 11 d)) ! (i - 11)"
      using assms(2,3) by auto
    then have "take 2 (drop 11 ?d) \<noteq> take 2 (drop 11 d)" by metis
    then have "checksum q \<noteq> checksum p" using fld be_nat_inject [of "take 2 (drop 11 ?d)"] by simp
    moreover have "zeroed ?d = zeroed d"
      using True zeroed_update [OF \<open>13 \<le> length d\<close> assms(2)] by simp
    ultimately show ?thesis using old by simp
  next
    case False
    then have "zeroed ?d = (zeroed d)[i := b]"
      using zeroed_update [OF \<open>13 \<le> length d\<close> assms(2)] by simp
    moreover have "i < length (zeroed d)" "zeroed d ! i = d ! i"
      using False assms(2) \<open>13 \<le> length d\<close>
      by (auto simp: zeroed_def nth_append nth_Cons' less_Suc_eq_le)
    ultimately have "reference_checksum (zeroed ?d) \<noteq> reference_checksum (zeroed d)"
      using reference_checksum_update assms(3) by simp
    moreover have "take 2 (drop 11 ?d) = take 2 (drop 11 d)"
      using False by (intro nth_equalityI) (auto simp: nth_list_update)
    ultimately show ?thesis using old fld by simp
  qed
  with q calculate_checksum_zeroed [OF q] show ?thesis
    by (simp add: unpack_def validate_checksum_def)
qed

lemma pack_bytes_ok:
  assumes "packet_ok p"
  shows "\<exists>d. pack_bytes p = Inr d \<and> unpack d = Inr (stamped p)"
  using pack_ok [OF assms] by (auto simp: pack_bytes_def)

lemma pack_bytes_packet_ok:
  assumes "pack_bytes p = Inr d"
    and "(msg_id p \<noteq> None \<and> offset p \<noteq> None) \<or> (msg_id p = None \<and> offset p = None \<and> payload p = [])"
  shows "packet_ok p"
proof -
  have "\<exists>b. packet_bytes p 0 = Inr b"
    using assms(1) by (auto simp: pack_bytes_def pack_def calculate_checksum_def split: sum.splits)
  then obtain b where "packet_bytes p 0 = Inr b" ..
  then show ?thesis using assms(2) struct_pack_Inr_iff
    by (auto simp: packet_bytes_def packet_ok_def split: sum.splits option.splits)
qed

interpretation packet_codec: codec packet_ok pack_bytes unpack stamped
  by unfold_locales (use pack_bytes_ok in force)+

section \<open>Properties\<close>

text \<open>
  C26. A packet whose fields are in range and which has both reassembly fields, or neither and
  no payload, packs; unpacking the datagram gives the packet back, with the checksum that
  \<^verbatim>\<open>pack\<close> stored in it.
\<close>

theorem unpack_pack:
  assumes "packet_ok p"
  shows "\<exists>c d. pack p = Inr (p\<lparr>checksum := c\<rparr>, d) \<and> unpack d = Inr (p\<lparr>checksum := c\<rparr>)"
proof -
  obtain d where d: "pack p = Inr (stamped p, d)" "unpack d = Inr (stamped p)"
    using pack_ok [OF assms] by blast
  from d(1) obtain c where "calculate_checksum p = Inr c"
    by (auto simp: pack_def split: sum.splits)
  with d show ?thesis by (auto simp: stamped_def)
qed

definition sample_packet :: RUDPPacket where
  "sample_packet = \<lparr>seq_num = 7, ack_num = 0, flags = FLAG_FIN, rwnd = 0, checksum = 0,
     msg_id = Some 1, offset = Some 1200, payload = [0x41, 0x42, 0x43]\<rparr>"

definition sample_datagram :: bytes where
  "sample_datagram = [0, 0, 0, 7, 0, 0, 0, 0, 4, 0, 0, 0x8, 0x70,
     0, 0, 0, 1, 0, 0, 4, 0xB0, 0x41, 0x42, 0x43]"

lemma sample_packet_ok: "packet_ok sample_packet"
  by (simp add: packet_ok_def sample_packet_def layout_defs struct_simps FLAG_FIN_def)

theorem unpack_pack_witness:
  "packet_ok sample_packet \<and>
   (\<exists>c d. pack sample_packet = Inr (sample_packet\<lparr>checksum := c\<rparr>, d) \<and>
          unpack d = Inr (sample_packet\<lparr>checksum := c\<rparr>))"
  using unpack_pack [OF sample_packet_ok] sample_packet_ok by blast

text \<open>
  Conversely, every datagram \<^verbatim>\<open>unpack\<close> accepts is exactly what \<^verbatim>\<open>pack\<close> makes of
  the packet it returns: two different datagrams never decode to the same packet.
\<close>

theorem pack_unpack:
  assumes "unpack d = Inr p"
  shows "pack p = Inr (p, d)"
proof -
  have f: "unpack_fields d = Inr p" and c: "calculate_checksum p = Inr (checksum p)"
    using assms by (simp_all add: unpack_Inr)
  have len: "13 \<le> length d" using length_packet_read [OF f] by auto
  have r: "0 \<le> checksum p" "checksum p < 65536"
    using calculate_checksum_zeroed [OF f] c reference_checksum_range [of "zeroed d"] by auto
  have l2: "length (take 2 (drop 11 d)) = 2" using len by simp
  have "be_bytes 2 (nat (checksum p)) = take 2 (drop 11 d)"
    using unpack_fields_reread(2) [OF f r] be_bytes_be_nat [of "take 2 (drop 11 d)"] l2 by simp
  moreover have "take 11 d @ take 2 (drop 11 d) @ drop 13 d = d"
    using append_take_drop_id [of 2 "drop 11 d"] append_take_drop_id [of 11 d] by simp
  ultimately show ?thesis
    using unpack_fields_reread(1) [OF f r] c by (simp add: pack_def)
qed

lemma sample_bytes:
  "packet_bytes sample_packet 0x870 = Inr sample_datagram"
  "packet_bytes sample_packet 0 = Inr (sample_datagram[11 := 0, 12 := 0])"
  by (simp_all add: packet_bytes_def struct_pack.simps struct_simps layout_defs sample_packet_def
      sample_datagram_def FLAG_FIN_def)

lemma sample_datagram_unpacks:
  "unpack sample_datagram = Inr (sample_packet\<lparr>checksum := 0x870\<rparr>)"
proof -
  have "calculate_checksum sample_packet = Inr 0x870"
    by (simp add: calculate_checksum_reference sample_bytes reference_checksum_def
        word_sum_pad_even sample_datagram_def)
  then show ?thesis
    using unpack_fields_packet_bytes [OF sample_packet_ok sample_bytes(1)]
    by (simp add: unpack_Inr)
qed

theorem pack_unpack_witness:
  "unpack sample_datagram = Inr (sample_packet\<lparr>checksum := 0x870\<rparr>) \<and>
   pack (sample_packet\<lparr>checksum := 0x870\<rparr>) = Inr (sample_packet\<lparr>checksum := 0x870\<rparr>, sample_datagram)"
  using pack_unpack [OF sample_datagram_unpacks] sample_datagram_unpacks by blast

text \<open>
  C25. A valid datagram in which exactly one byte (of the header, the checksum field, the
  reassembly fields or the payload) is replaced by a different one is rejected with
  \<^verbatim>\<open>ChecksumError\<close>.
\<close>

theorem corrupted_byte_rejected:
  assumes "unpack d = Inr p" and "i < length d" and "b \<noteq> d ! i"
  shows "\<exists>expected got. unpack (d[i := b]) = Inl (ChecksumError expected got)"
  using assms by (rule corrupt_byte_fails)

theorem corrupted_byte_rejected_witness:
  "unpack sample_datagram = Inr (sample_packet\<lparr>checksum := 0x870\<rparr>) \<and>
   (\<exists>expected got. unpack (sample_datagram[22 := 0x58]) = Inl (ChecksumError expected got))"
proof -
  have "22 < length sample_datagram" "0x58 \<noteq> sample_datagram ! 22"
    by (simp_all add: sample_datagram_def)
  then show ?thesis
    using corrupted_byte_rejected [OF sample_datagram_unpacks] sample_datagram_unpacks by blast
qed

text \<open>
  C29. The checksum loop (sum of 16-bit words, repeated carry folding, complement, 0 sent as
  0xFFFF) computes 65535 minus the word sum modulo 65535, for every packet that can be
  serialised; in particular the transmitted checksum is never 0.
\<close>

theorem calculate_checksum_eq_reference:
  assumes "packet_bytes p 0 = Inr bs"
  shows "\<exists>c. calculate_checksum p = Inr c \<and> c = 65535 - word_sum (pad_even bs) mod 65535 \<and>
             1 \<le> c \<and> c \<le> 0xFFFF"
  using assms reference_checksum_range [of bs]
  by (simp add: calculate_checksum_reference reference_checksum_def)

theorem calculate_checksum_eq_reference_witness:
  "packet_bytes sample_packet 0 = Inr (sample_datagram[11 := 0, 12 := 0]) \<and>
   (\<exists>c. calculate_checksum sample_packet = Inr c \<and>
        c = 65535 - word_sum (pad_even (sample_datagram[11 := 0, 12 := 0])) mod 65535 \<and>
        1 \<le> c \<and> c \<le> 0xFFFF)"
  using calculate_checksum_eq_reference [OF sample_bytes(2)] sample_bytes(2) by blast

end
