(* ===== verification/RudpReceiver.thy ===== *)
theory RudpReceiver
  imports RudpPacket
begin

text \<open>
  The receiving half of a connection, \<^verbatim>\<open>src/common/rudp_receiver.py\<close>: out-of-order
  buffering, reassembly into messages, cumulative acknowledgement and the advertised window with
  its throttle state. The delivery callback becomes the list of messages handed up by one call.

  Shown: whatever the order and multiplicity in which segments of a fragment stream arrive, the
  receiver has delivered exactly the messages of the stream's prefix it has acknowledged; the
  buffer never fills the window, so the advertised window stays between 1 and 64; the order of
  arrival does not matter within a window.
\<close>

section \<open>State\<close>

datatype FCState = FC_NORMAL | FC_THROTTLE

record receiver_stats =
  n_delivered :: int
  n_buffered :: int
  n_dup :: int
  n_drop :: int
  n_drop_invalid :: int
  n_fc_throttle :: int
  n_fc_normal :: int

record RUDPReceiver =
  expected_seq :: int
  ooo_buffer :: "(int, RUDPPacket) dict"
  assembly_buffer :: bytes
  fc_state :: FCState
  high_threshold :: int
  low_threshold :: int
  stats :: receiver_stats

definition init_receiver :: RUDPReceiver where
  "init_receiver =
     \<lparr>expected_seq = 0, ooo_buffer = [], assembly_buffer = [], fc_state = FC_NORMAL,
      high_threshold = \<lceil>HIGH_WATERMARK * of_int MAX_RWND\<rceil>,
      low_threshold = \<lceil>LOW_WATERMARK * of_int MAX_RWND\<rceil>,
      stats = \<lparr>n_delivered = 0, n_buffered = 0, n_dup = 0, n_drop = 0, n_drop_invalid = 0,
               n_fc_throttle = 0, n_fc_normal = 0\<rparr>\<rparr>"

section \<open>process_segment\<close>

text \<open>
  The body that the in-order case and the drain loop share: extend the assembly buffer, deliver
  and clear it on FIN, advance.
\<close>

definition absorb_segment :: "RUDPReceiver \<Rightarrow> RUDPPacket \<Rightarrow> RUDPReceiver \<times> bytes list" where
  "absorb_segment r segment =
     (let asm = assembly_buffer r @ payload segment;
          (asm', out) = (if is_fin segment then ([], [asm]) else (asm, []))
      in (r\<lparr>assembly_buffer := asm',
            expected_seq := expected_seq r + 1,
            stats := (stats r)\<lparr>n_delivered := n_delivered (stats r) + 1\<rparr>\<rparr>, out))"

lemma absorb_segment_ooo [simp]: "ooo_buffer (fst (absorb_segment r s)) = ooo_buffer r"
  by (simp add: absorb_segment_def Let_def split: prod.split)

text \<open>The drain loop: \<^verbatim>\<open>while self.expected_seq in self.ooo_buffer\<close>.\<close>

function drain_buffer :: "RUDPReceiver \<Rightarrow> RUDPReceiver \<times> bytes list" where
  "drain_buffer r =
     (case dict_get (ooo_buffer r) (expected_seq r) of
        None \<Rightarrow> (r, [])
      | Some buffered_segment \<Rightarrow>
          (let step = absorb_segment (r\<lparr>ooo_buffer := dict_del (expected_seq r) (ooo_buffer r)\<rparr>)
                        buffered_segment;
               rest = drain_buffer (fst step)
           in (fst rest, snd step @ snd rest)))"
  by pat_completeness auto
termination
  by (relation "measure (\<lambda>r. length (ooo_buffer r))") (auto simp: length_delete_less dict_has_def)

declare drain_buffer.simps [simp del]

definition update_fc_state :: "RUDPReceiver \<Rightarrow> RUDPReceiver" where
  "update_fc_state r =
     (let buffer_used = int (length (ooo_buffer r))
      in if fc_state r = FC_NORMAL \<and> buffer_used \<ge> high_threshold r
         then r\<lparr>fc_state := FC_THROTTLE,
                stats := (stats r)\<lparr>n_fc_throttle := n_fc_throttle (stats r) + 1\<rparr>\<rparr>
         else if fc_state r = FC_THROTTLE \<and> buffer_used \<le> low_threshold r
         then r\<lparr>fc_state := FC_NORMAL,
                stats := (stats r)\<lparr>n_fc_normal := n_fc_normal (stats r) + 1\<rparr>\<rparr>
         else r)"

definition receive_segment :: "RUDPReceiver \<Rightarrow> RUDPPacket \<Rightarrow> RUDPReceiver \<times> bytes list" where
  "receive_segment r segment =
     (let seq = seq_num segment;
          in_window = (expected_seq r \<le> seq \<and> seq < expected_seq r + MAX_RWND);
          is_duplicate = (seq < expected_seq r)
      in if is_duplicate then (r\<lparr>stats := (stats r)\<lparr>n_dup := n_dup (stats r) + 1\<rparr>\<rparr>, [])
         else if \<not> in_window then (r\<lparr>stats := (stats r)\<lparr>n_drop := n_drop (stats r) + 1\<rparr>\<rparr>, [])
         else if seq = expected_seq r
         then (let step = absorb_segment r segment; rest = drain_buffer (fst step)
               in (fst rest, snd step @ snd rest))
         else if \<not> dict_has (ooo_buffer r) seq
         then (r\<lparr>ooo_buffer := dict_set seq segment (ooo_buffer r),
                 stats := (stats r)\<lparr>n_buffered := n_buffered (stats r) + 1\<rparr>\<rparr>, [])
         else (r, []))"

text \<open>
  \<^verbatim>\<open>process_segment\<close>: the new state, the messages handed to the delivery callback in order,
  and the ACK parameters (cumulative acknowledgement, advertised window, flags).
\<close>

definition process_segment ::
  "RUDPReceiver \<Rightarrow> RUDPPacket \<Rightarrow> RUDPReceiver \<times> bytes list \<times> (int \<times> int \<times> int)" where
  "process_segment r segment =
     (let (r1, out) = receive_segment r segment;
          ack = expected_seq r1;
          buffer_used = int (length (ooo_buffer r1));
          r2 = update_fc_state r1;
          rw = max 0 (MAX_RWND - buffer_used)
      in (r2, out, (ack, rw, FLAG_ACK)))"

fun process_segments :: "RUDPReceiver \<Rightarrow> RUDPPacket list \<Rightarrow> RUDPReceiver \<times> bytes list" where
  "process_segments r [] = (r, [])"
| "process_segments r (s # ss) =
     (let (r1, out, _) = process_segment r s; (r2, out2) = process_segments r1 ss
      in (r2, out @ out2))"

section \<open>Specification: the messages of a fragment stream\<close>

text \<open>
  A fragment is a payload with its FIN bit. Reassembly cuts the concatenated payloads after
  every FIN; the second component is the unfinished message.
\<close>

type_synonym fragment = "bytes \<times> bool"

definition frag :: "RUDPPacket \<Rightarrow> fragment" where
  "frag p = (payload p, is_fin p)"

definition reassemble_step :: "bytes list \<times> bytes \<Rightarrow> fragment \<Rightarrow> bytes list \<times> bytes" where
  "reassemble_step st f =
     (if snd f then (fst st @ [snd st @ fst f], []) else (fst st, snd st @ fst f))"

definition reassemble :: "fragment list \<Rightarrow> bytes list \<times> bytes" where
  "reassemble fs = foldl reassemble_step ([], []) fs"

lemma reassemble_Nil [simp]: "reassemble [] = ([], [])"
  by (simp add: reassemble_def)

lemma reassemble_snoc: "reassemble (fs @ [f]) = reassemble_step (reassemble fs) f"
  by (simp add: reassemble_def)

text \<open>
  A segment belongs to the stream \<open>hist\<close> when it carries the fragment with its own number.
\<close>

definition of_stream :: "fragment list \<Rightarrow> RUDPPacket \<Rightarrow> bool" where
  "of_stream hist p \<longleftrightarrow>
     0 \<le> seq_num p \<and> seq_num p < int (length hist) \<and> frag p = hist ! nat (seq_num p)"

text \<open>
  The receiver invariant: with \<open>k\<close> fragments accepted, the delivered messages and the assembly
  buffer are the reassembly of the first \<open>k\<close> fragments, and the buffer holds later fragments of
  the stream, at distinct numbers at or above \<open>lo\<close> and inside the window.
\<close>

definition buffer_inv :: "fragment list \<Rightarrow> int \<Rightarrow> int \<Rightarrow> (int, RUDPPacket) dict \<Rightarrow> bool" where
  "buffer_inv hist lo hi buf \<longleftrightarrow>
     dict_ok buf \<and>
     (\<forall>(s, p) \<in> set buf. lo \<le> s \<and> s < hi \<and> seq_num p = s \<and> of_stream hist p)"

definition receiver_core :: "fragment list \<Rightarrow> bytes list \<Rightarrow> RUDPReceiver \<Rightarrow> bool" where
  "receiver_core hist out r \<longleftrightarrow>
     0 \<le> expected_seq r \<and> expected_seq r \<le> int (length hist) \<and>
     reassemble (take (nat (expected_seq r)) hist) = (out, assembly_buffer r)"

definition receiver_inv :: "fragment list \<Rightarrow> bytes list \<Rightarrow> RUDPReceiver \<Rightarrow> bool" where
  "receiver_inv hist out r \<longleftrightarrow>
     receiver_core hist out r \<and>
     buffer_inv hist (expected_seq r + 1) (expected_seq r + MAX_RWND) (ooo_buffer r)"

text \<open>The sequence numbers accepted so far: delivered ones and buffered ones.\<close>

definition seen :: "RUDPReceiver \<Rightarrow> int set" where
  "seen r = {0..<expected_seq r} \<union> fst ` set (ooo_buffer r)"

section \<open>Lemmas\<close>

lemma buffer_inv_Nil [simp]: "buffer_inv hist lo hi []"
  by (simp add: buffer_inv_def)

lemma buffer_inv_mono:
  "buffer_inv hist lo hi buf \<Longrightarrow> hi \<le> hi' \<Longrightarrow> buffer_inv hist lo hi' buf"
  by (fastforce simp: buffer_inv_def)

lemma buffer_inv_raise:
  assumes "buffer_inv hist lo hi buf" "\<not> dict_has buf lo"
  shows "buffer_inv hist (lo + 1) hi buf"
proof -
  have "s \<noteq> lo" if "(s, p) \<in> set buf" for s p
    using assms(2) that by (auto simp: dict_has_dom image_iff)
  then show ?thesis using assms(1) by (fastforce simp: buffer_inv_def)
qed

lemma set_dict_del: "set (AList.delete k d) = {x \<in> set d. fst x \<noteq> k}"
  by (auto simp: AList.delete_eq)

lemma buffer_inv_delete:
  assumes "buffer_inv hist lo hi buf"
  shows "buffer_inv hist (lo + 1) hi (AList.delete lo buf)"
proof -
  have "lo + 1 \<le> s \<and> s < hi \<and> seq_num p = s \<and> of_stream hist p"
    if "(s, p) \<in> set (AList.delete lo buf)" for s p
  proof -
    from that have "(s, p) \<in> set buf" "s \<noteq> lo" by (auto simp: set_dict_del)
    with assms show ?thesis by (force simp: buffer_inv_def)
  qed
  with assms show ?thesis unfolding buffer_inv_def by auto
qed

lemma buffer_inv_update:
  assumes "buffer_inv hist lo hi buf" "lo \<le> seq_num p" "seq_num p < hi" "of_stream hist p"
  shows "buffer_inv hist lo hi (AList.update (seq_num p) p buf)"
proof -
  have "set (AList.update (seq_num p) p buf) \<subseteq> insert (seq_num p, p) (set buf)"
    by (induction buf) auto
  with assms show ?thesis unfolding buffer_inv_def by fastforce
qed

lemma buffer_inv_length:
  assumes "buffer_inv hist lo hi buf" "lo \<le> hi"
  shows "int (length buf) \<le> hi - lo"
proof -
  have "fst ` set buf \<subseteq> {lo..<hi}" using assms(1) by (force simp: buffer_inv_def)
  then have "card (fst ` set buf) \<le> card {lo..<hi}" by (intro card_mono) auto
  moreover have "card (fst ` set buf) = length buf"
    using assms(1) by (simp add: buffer_inv_def dict_ok_def distinct_card flip: set_map)
  ultimately show ?thesis using assms(2) by simp
qed

lemma absorb_core:
  assumes "receiver_core hist out r" "of_stream hist p" "seq_num p = expected_seq r"
  shows "receiver_core hist (out @ snd (absorb_segment r p)) (fst (absorb_segment r p))"
    and "expected_seq (fst (absorb_segment r p)) = expected_seq r + 1"
proof -
  let ?k = "nat (expected_seq r)"
  have k: "?k < length hist" "hist ! ?k = frag p" "0 \<le> expected_seq r"
    using assms by (auto simp: receiver_core_def of_stream_def)
  then have "nat (expected_seq r + 1) = Suc ?k" by simp
  then have "reassemble (take (nat (expected_seq r + 1)) hist) =
      reassemble_step (out, assembly_buffer r) (frag p)"
    using assms(1) k by (simp add: take_Suc_conv_app_nth reassemble_snoc receiver_core_def)
  with k show "receiver_core hist (out @ snd (absorb_segment r p)) (fst (absorb_segment r p))"
    by (auto simp: receiver_core_def absorb_segment_def reassemble_step_def frag_def Let_def)
  show "expected_seq (fst (absorb_segment r p)) = expected_seq r + 1"
    by (simp add: absorb_segment_def Let_def split: prod.split)
qed

lemma drain_buffer_props:
  assumes "receiver_core hist out r" "buffer_inv hist (expected_seq r) hi (ooo_buffer r)"
  shows "receiver_core hist (out @ snd (drain_buffer r)) (fst (drain_buffer r)) \<and>
    buffer_inv hist (expected_seq (fst (drain_buffer r)) + 1) hi (ooo_buffer (fst (drain_buffer r))) \<and>
    expected_seq r \<le> expected_seq (fst (drain_buffer r)) \<and>
    seen (fst (drain_buffer r)) = seen r"
  using assms
proof (induction r arbitrary: out rule: drain_buffer.induct)
  case (1 r)
  show ?case
  proof (cases "dict_get (ooo_buffer r) (expected_seq r)")
    case None
    then have "buffer_inv hist (expected_seq r + 1) hi (ooo_buffer r)"
      using "1.prems"(2) by (intro buffer_inv_raise) (simp_all add: dict_has_def)
    with None "1.prems" show ?thesis by (simp add: drain_buffer.simps [of r])
  next
    case (Some p)
    let ?r0 = "r\<lparr>ooo_buffer := dict_del (expected_seq r) (ooo_buffer r)\<rparr>"
    let ?st = "absorb_segment ?r0 p"
    have mem: "(expected_seq r, p) \<in> set (ooo_buffer r)" using Some by (rule map_of_SomeD)
    then have p: "of_stream hist p" "seq_num p = expected_seq r"
      using "1.prems"(2) by (auto simp: buffer_inv_def)
    have core0: "receiver_core hist out ?r0" using "1.prems"(1) by (simp add: receiver_core_def)
    have "seq_num p = expected_seq ?r0" using p(2) by simp
    note ab = absorb_core [OF core0 p(1) this]
    have buf: "buffer_inv hist (expected_seq (fst ?st)) hi (ooo_buffer (fst ?st))"
      using buffer_inv_delete [OF "1.prems"(2)] ab(2) by simp
    note IH = "1.IH" [OF Some refl ab(1) buf]
    have e0: "0 \<le> expected_seq r" using "1.prems"(1) by (simp add: receiver_core_def)
    have e1: "expected_seq (fst ?st) = expected_seq r + 1" using ab(2) by simp
    have "{0..<expected_seq r + 1} = insert (expected_seq r) {0..<expected_seq r}"
      using e0 by auto
    then have "seen (fst ?st) = seen r"
      using mem e1 by (force simp: seen_def set_dict_del)
    with IH e1 Some show ?thesis by (simp add: drain_buffer.simps [of r] Let_def)
  qed
qed

lemma seen_stats [simp]: "seen (r\<lparr>stats := x\<rparr>) = seen r"
  by (simp add: seen_def)

lemma receiver_inv_stats [simp]: "receiver_inv hist out (r\<lparr>stats := x\<rparr>) = receiver_inv hist out r"
  by (simp add: receiver_inv_def receiver_core_def)

lemma in_order_segment:
  assumes inv: "receiver_inv hist out r" and p: "of_stream hist p" "seq_num p = expected_seq r"
    and st: "st = absorb_segment r p"
  shows "receiver_inv hist (out @ snd st @ snd (drain_buffer (fst st))) (fst (drain_buffer (fst st)))"
    and "expected_seq r + 1 \<le> expected_seq (fst (drain_buffer (fst st)))"
    and "seen (fst (drain_buffer (fst st))) = insert (seq_num p) (seen r)"
proof -
  from inv have core: "receiver_core hist out r"
    and buf: "buffer_inv hist (expected_seq r + 1) (expected_seq r + MAX_RWND) (ooo_buffer r)"
    by (simp_all add: receiver_inv_def)
  note ab = absorb_core [OF core p, folded st]
  have "buffer_inv hist (expected_seq (fst st)) (expected_seq r + MAX_RWND) (ooo_buffer (fst st))"
    using buf ab(2) by (simp add: st)
  note d = drain_buffer_props [OF ab(1) this]
  from d show "receiver_inv hist (out @ snd st @ snd (drain_buffer (fst st))) (fst (drain_buffer (fst st)))"
    using ab(2) by (auto simp: receiver_inv_def intro: buffer_inv_mono)
  from d ab(2) show "expected_seq r + 1 \<le> expected_seq (fst (drain_buffer (fst st)))" by simp
  have "0 \<le> expected_seq r" using core by (simp add: receiver_core_def)
  then have "{0..<expected_seq r + 1} = insert (expected_seq r) {0..<expected_seq r}" by auto
  then have "seen (fst st) = insert (seq_num p) (seen r)"
    using ab(2) p(2) by (simp add: seen_def st)
  with d show "seen (fst (drain_buffer (fst st))) = insert (seq_num p) (seen r)" by simp
qed

lemma receive_segment_props:
  assumes inv: "receiver_inv hist out r" and p: "of_stream hist p"
  shows "receiver_inv hist (out @ snd (receive_segment r p)) (fst (receive_segment r p)) \<and>
    expected_seq r \<le> expected_seq (fst (receive_segment r p)) \<and>
    (seq_num p < expected_seq r + MAX_RWND \<longrightarrow>
       seen (fst (receive_segment r p)) = insert (seq_num p) (seen r)) \<and>
    (seq_num p = expected_seq r \<longrightarrow> expected_seq r < expected_seq (fst (receive_segment r p)))"
proof -
  have seq0: "0 \<le> seq_num p" using p by (simp add: of_stream_def)
  consider (dup) "seq_num p < expected_seq r"
    | (drop) "expected_seq r + MAX_RWND \<le> seq_num p"
    | (inorder) "seq_num p = expected_seq r"
    | (buffer) "expected_seq r < seq_num p" "seq_num p < expected_seq r + MAX_RWND"
    by linarith
  then show ?thesis
  proof cases
    case dup
    with inv seq0 show ?thesis
      by (auto simp: receive_segment_def Let_def seen_def)
  next
    case drop
    with inv show ?thesis
      by (auto simp: receive_segment_def Let_def MAX_RWND_def)
  next
    case inorder
    with in_order_segment [OF inv p inorder refl] show ?thesis
      by (auto simp: receive_segment_def Let_def MAX_RWND_def)
  next
    case buffer
    have "buffer_inv hist (expected_seq r + 1) (expected_seq r + MAX_RWND)
        (AList.update (seq_num p) p (ooo_buffer r))"
      using buffer inv p by (intro buffer_inv_update) (auto simp: receiver_inv_def)
    moreover have "insert (seq_num p) (seen r) = seen r" if "dict_has (ooo_buffer r) (seq_num p)"
      using that by (auto simp: seen_def dict_has_dom)
    ultimately show ?thesis using buffer inv
      by (auto simp: receive_segment_def Let_def receiver_inv_def receiver_core_def seen_def
          AList.dom_update)
  qed
qed

lemma update_fc_state_frame [simp]:
  "expected_seq (update_fc_state r) = expected_seq r"
  "ooo_buffer (update_fc_state r) = ooo_buffer r"
  "assembly_buffer (update_fc_state r) = assembly_buffer r"
  "high_threshold (update_fc_state r) = high_threshold r"
  "low_threshold (update_fc_state r) = low_threshold r"
  by (simp_all add: update_fc_state_def Let_def)

lemma receiver_inv_cong:
  "expected_seq r' = expected_seq r \<Longrightarrow> ooo_buffer r' = ooo_buffer r \<Longrightarrow>
   assembly_buffer r' = assembly_buffer r \<Longrightarrow> receiver_inv hist out r' = receiver_inv hist out r"
  by (simp add: receiver_inv_def receiver_core_def)

lemma process_segment_eq:
  "process_segment r p =
     (update_fc_state (fst (receive_segment r p)), snd (receive_segment r p),
      (expected_seq (fst (receive_segment r p)),
       max 0 (MAX_RWND - int (length (ooo_buffer (fst (receive_segment r p))))), FLAG_ACK))"
  by (simp add: process_segment_def Let_def split: prod.split)

lemma receiver_inv_window:
  assumes "receiver_inv hist out r"
  shows "int (length (ooo_buffer r)) \<le> MAX_RWND - 1"
  using assms buffer_inv_length [of hist "expected_seq r + 1" "expected_seq r + MAX_RWND" "ooo_buffer r"]
  by (simp add: receiver_inv_def MAX_RWND_def)

lemma process_segment_props:
  assumes "receiver_inv hist out r" and "of_stream hist p"
    and "process_segment r p = (r', msgs, (ack, rw, fl))"
  shows "receiver_inv hist (out @ msgs) r'"
    and "expected_seq r \<le> expected_seq r'"
    and "ack = expected_seq r'" and "fl = FLAG_ACK"
    and "rw = MAX_RWND - int (length (ooo_buffer r'))" and "1 \<le> rw" and "rw \<le> MAX_RWND"
    and "seq_num p < expected_seq r + MAX_RWND \<Longrightarrow> seen r' = insert (seq_num p) (seen r)"
    and "seq_num p = expected_seq r \<Longrightarrow> expected_seq r < expected_seq r'"
proof -
  let ?s = "receive_segment r p"
  from assms(3) have r': "r' = update_fc_state (fst ?s)" and m: "msgs = snd ?s"
    and a: "ack = expected_seq (fst ?s)" "fl = FLAG_ACK"
    and w: "rw = max 0 (MAX_RWND - int (length (ooo_buffer (fst ?s))))"
    by (simp_all add: process_segment_eq)
  note props = receive_segment_props [OF assms(1,2)]
  then show inv: "receiver_inv hist (out @ msgs) r'"
    unfolding r' m by (subst receiver_inv_cong) auto
  show "expected_seq r \<le> expected_seq r'" "ack = expected_seq r'" "fl = FLAG_ACK"
    using props a r' by auto
  show "rw = MAX_RWND - int (length (ooo_buffer r'))" "1 \<le> rw" "rw \<le> MAX_RWND"
    using receiver_inv_window [OF inv] w r' by auto
  show "seq_num p < expected_seq r + MAX_RWND \<Longrightarrow> seen r' = insert (seq_num p) (seen r)"
    "seq_num p = expected_seq r \<Longrightarrow> expected_seq r < expected_seq r'"
    using props r' by (auto simp: seen_def)
qed

lemma receiver_inv_init: "receiver_inv hist [] init_receiver"
  by (simp add: receiver_inv_def receiver_core_def init_receiver_def)

lemma of_stream_mono: "of_stream hist p \<Longrightarrow> of_stream (hist @ hs) p"
  by (auto simp: of_stream_def nth_append)

lemma receiver_inv_mono: "receiver_inv hist out r \<Longrightarrow> receiver_inv (hist @ hs) out r"
  by (fastforce simp: receiver_inv_def receiver_core_def buffer_inv_def intro: of_stream_mono)

text \<open>
  Facts that need no assumption about the segments: the buffer stays inside the window, and the
  throttle state follows the watermarks.
\<close>

definition window_inv :: "RUDPReceiver \<Rightarrow> bool" where
  "window_inv r \<longleftrightarrow> dict_ok (ooo_buffer r) \<and>
     fst ` set (ooo_buffer r) \<subseteq> {expected_seq r + 1..<expected_seq r + MAX_RWND}"

lemma absorb_expected [simp]: "expected_seq (fst (absorb_segment r p)) = expected_seq r + 1"
  by (simp add: absorb_segment_def Let_def split: prod.split)

lemma drain_buffer_window:
  assumes "dict_ok (ooo_buffer r)" "fst ` set (ooo_buffer r) \<subseteq> {expected_seq r..<hi}"
  shows "dict_ok (ooo_buffer (fst (drain_buffer r))) \<and>
    fst ` set (ooo_buffer (fst (drain_buffer r))) \<subseteq> {expected_seq (fst (drain_buffer r)) + 1..<hi} \<and>
    expected_seq r \<le> expected_seq (fst (drain_buffer r))"
  using assms
proof (induction r rule: drain_buffer.induct)
  case (1 r)
  show ?case
  proof (cases "dict_get (ooo_buffer r) (expected_seq r)")
    case None
    then have "expected_seq r \<notin> fst ` set (ooo_buffer r)" by (simp add: map_of_eq_None_iff)
    with None "1.prems" show ?thesis by (force simp: drain_buffer.simps [of r])
  next
    case (Some p)
    let ?st = "absorb_segment (r\<lparr>ooo_buffer := dict_del (expected_seq r) (ooo_buffer r)\<rparr>) p"
    have "dict_ok (ooo_buffer (fst ?st))"
      "fst ` set (ooo_buffer (fst ?st)) \<subseteq> {expected_seq (fst ?st)..<hi}"
      using "1.prems" by (auto simp: set_dict_del)
    from "1.IH" [OF Some refl this] Some show ?thesis
      by (auto simp: drain_buffer.simps [of r] Let_def)
  qed
qed

lemma receive_segment_window:
  assumes "window_inv r"
  shows "window_inv (fst (receive_segment r p))"
proof (cases "seq_num p = expected_seq r")
  case True
  let ?st = "absorb_segment r p"
  have "dict_ok (ooo_buffer (fst ?st))"
    "fst ` set (ooo_buffer (fst ?st)) \<subseteq> {expected_seq (fst ?st)..<expected_seq r + MAX_RWND}"
    using assms by (auto simp: window_inv_def)
  from drain_buffer_window [OF this] have "window_inv (fst (drain_buffer (fst ?st)))"
    by (force simp: window_inv_def)
  with True show ?thesis by (simp add: receive_segment_def Let_def MAX_RWND_def)
next
  case False
  with assms show ?thesis
    by (auto simp: receive_segment_def window_inv_def Let_def AList.dom_update)
qed

lemma process_segment_window: "window_inv r \<Longrightarrow> window_inv (fst (process_segment r p))"
  using receive_segment_window [of r p] by (simp add: process_segment_eq window_inv_def)

lemma window_inv_length: "window_inv r \<Longrightarrow> int (length (ooo_buffer r)) \<le> MAX_RWND - 1"
proof -
  assume "window_inv r"
  then have "card (fst ` set (ooo_buffer r)) \<le> card {expected_seq r + 1..<expected_seq r + MAX_RWND}"
    by (intro card_mono) (auto simp: window_inv_def)
  moreover have "card (fst ` set (ooo_buffer r)) = length (ooo_buffer r)"
    using \<open>window_inv r\<close> by (simp add: window_inv_def dict_ok_def distinct_card flip: set_map)
  ultimately show ?thesis by (simp add: MAX_RWND_def)
qed

definition fc_inv :: "RUDPReceiver \<Rightarrow> bool" where
  "fc_inv r \<longleftrightarrow> high_threshold r = 52 \<and> low_threshold r = 13 \<and>
     (fc_state r = FC_NORMAL \<longrightarrow> length (ooo_buffer r) < 52) \<and>
     (fc_state r = FC_THROTTLE \<longrightarrow> 13 < length (ooo_buffer r))"

lemma init_thresholds:
  "high_threshold init_receiver = 52" "low_threshold init_receiver = 13"
  by (simp_all add: init_receiver_def HIGH_WATERMARK_def LOW_WATERMARK_def MAX_RWND_def)

lemma drain_buffer_frame:
  "fc_state (fst (drain_buffer r)) = fc_state r \<and>
   high_threshold (fst (drain_buffer r)) = high_threshold r \<and>
   low_threshold (fst (drain_buffer r)) = low_threshold r"
proof (induction r rule: drain_buffer.induct)
  case (1 r)
  then show ?case
    by (cases "dict_get (ooo_buffer r) (expected_seq r)")
       (simp_all add: drain_buffer.simps [of r] Let_def absorb_segment_def split: prod.splits)
qed

lemma receive_segment_frame:
  "high_threshold (fst (receive_segment r p)) = high_threshold r"
  "low_threshold (fst (receive_segment r p)) = low_threshold r"
  using drain_buffer_frame
  by (simp_all add: receive_segment_def absorb_segment_def Let_def split: prod.split)

lemma process_segment_fc:
  "fc_inv r \<Longrightarrow> fc_inv (fst (process_segment r p))"
  by (cases "fc_state (fst (receive_segment r p))")
     (auto simp: fc_inv_def process_segment_eq receive_segment_frame update_fc_state_def Let_def)

lemma process_segments_preserve:
  assumes "\<And>r p. I r \<Longrightarrow> I (fst (process_segment r p))" and "I r"
  shows "I (fst (process_segments r ss))"
  using assms(2)
proof (induction ss arbitrary: r)
  case (Cons s ss)
  from Cons.IH [OF assms(1) [OF Cons.prems, of s]] show ?case
    by (auto simp: Let_def split: prod.splits)
qed simp

lemma init_receiver_invs: "window_inv init_receiver" "fc_inv init_receiver"
  by (simp add: window_inv_def init_receiver_def)
     (simp add: fc_inv_def init_thresholds, simp add: init_receiver_def)

lemma process_segments_props:
  assumes "receiver_inv hist out r" and "\<forall>p \<in> set ss. of_stream hist p"
  shows "receiver_inv hist (out @ snd (process_segments r ss)) (fst (process_segments r ss)) \<and>
    (int (length hist) \<le> MAX_RWND \<longrightarrow>
       seen (fst (process_segments r ss)) = seen r \<union> seq_num ` set ss)"
  using assms
proof (induction ss arbitrary: r out)
  case (Cons p ss)
  obtain r1 msgs ack rw fl where st: "process_segment r p = (r1, msgs, (ack, rw, fl))"
    by (metis prod_cases3)
  have p: "of_stream hist p" using Cons.prems(2) by simp
  note ps = process_segment_props [OF Cons.prems(1) p st]
  have "0 \<le> expected_seq r" using Cons.prems(1) by (simp add: receiver_inv_def receiver_core_def)
  then have "seen r1 = insert (seq_num p) (seen r)" if "int (length hist) \<le> MAX_RWND"
    using that p by (intro ps(8)) (auto simp: of_stream_def)
  with Cons.IH [OF ps(1)] Cons.prems(2) st show ?case
    by (auto simp: Let_def split: prod.split)
qed simp

section \<open>Properties\<close>

text \<open>
  Let the segments that arrive, in any order and with any repetitions, carry fragments of
  one stream. The messages handed to the application, in order, and the bytes still being
  assembled are exactly the reassembly of the fragments below the acknowledged sequence number:
  nothing is lost, duplicated, reordered or altered.
\<close>

theorem receiver_delivers_prefix:
  assumes "\<forall>p \<in> set ss. of_stream hist p"
    and "process_segments init_receiver ss = (r, msgs)"
  shows "0 \<le> expected_seq r \<and> expected_seq r \<le> int (length hist) \<and>
    reassemble (take (nat (expected_seq r)) hist) = (msgs, assembly_buffer r)"
  using process_segments_props [OF receiver_inv_init assms(1)] assms(2)
  by (simp add: receiver_inv_def receiver_core_def)

definition data_segment :: "int \<Rightarrow> bytes \<Rightarrow> bool \<Rightarrow> RUDPPacket" where
  "data_segment n pl fin = \<lparr>seq_num = n, ack_num = 0, flags = (if fin then FLAG_FIN else 0),
     rwnd = 0, checksum = 0, msg_id = Some 1, offset = Some 0, payload = pl\<rparr>"

definition sample_stream :: "fragment list" where
  "sample_stream = [([1], False), ([2, 3], True), ([4], True)]"

definition sample_arrivals :: "RUDPPacket list" where
  "sample_arrivals = [data_segment 2 [4] True, data_segment 0 [1] False, data_segment 2 [4] True,
     data_segment 1 [2, 3] True, data_segment 0 [1] False]"

lemma data_segment_simps [simp]:
  "seq_num (data_segment n pl fin) = n" "payload (data_segment n pl fin) = pl"
  "is_fin (data_segment n pl fin) = fin" "frag (data_segment n pl fin) = (pl, fin)"
  by (simp_all add: data_segment_def is_fin_def frag_def FLAG_FIN_def)

lemma sample_arrivals_of_stream: "\<forall>p \<in> set sample_arrivals. of_stream sample_stream p"
  by (simp add: sample_arrivals_def sample_stream_def of_stream_def numeral_2_eq_2)

theorem receiver_delivers_prefix_witness:
  "of_stream sample_stream (data_segment 2 [4] True) \<and>
   of_stream sample_stream (data_segment 0 [1] False) \<and>
   (let (r, msgs) = process_segments init_receiver [data_segment 2 [4] True, data_segment 0 [1] False]
    in expected_seq r = 1 \<and> reassemble (take 1 sample_stream) = (msgs, assembly_buffer r))"
proof -
  let ?ss = "[data_segment 2 [4] True, data_segment 0 [1] False]"
  have s: "\<forall>p \<in> set ?ss. of_stream sample_stream p"
    by (simp add: sample_stream_def of_stream_def numeral_2_eq_2)
  obtain r msgs where run: "process_segments init_receiver ?ss = (r, msgs)" by fastforce
  then have "expected_seq r = 1"
    by (auto simp: process_segment_eq receive_segment_def absorb_segment_def drain_buffer.simps
        init_receiver_def update_fc_state_def MAX_RWND_def HIGH_WATERMARK_def LOW_WATERMARK_def
        dict_has_def Let_def)
  with receiver_delivers_prefix [OF s run] run s show ?thesis by simp
qed

text \<open>
  Within one window the order of arrival is irrelevant: once every fragment of a stream of
  at most 64 has arrived at least once, in whatever order and however often, the receiver has
  acknowledged them all and delivered all of the stream's messages.
\<close>

theorem receiver_order_independent:
  assumes "\<forall>p \<in> set ss. of_stream hist p"
    and "int (length hist) \<le> MAX_RWND"
    and "{0..<int (length hist)} \<subseteq> seq_num ` set ss"
    and "process_segments init_receiver ss = (r, msgs)"
  shows "expected_seq r = int (length hist) \<and> (msgs, assembly_buffer r) = reassemble hist"
proof -
  have inv: "receiver_inv hist msgs r" and seen: "seen r = seq_num ` set ss"
    using process_segments_props [OF receiver_inv_init assms(1)] assms(2,4)
    by (simp_all add: seen_def init_receiver_def)
  have e: "0 \<le> expected_seq r" "expected_seq r \<le> int (length hist)"
    using inv by (simp_all add: receiver_inv_def receiver_core_def)
  have "expected_seq r \<notin> seen r"
    using inv by (force simp: seen_def receiver_inv_def buffer_inv_def)
  with seen assms(3) e have "expected_seq r = int (length hist)" by fastforce
  with inv show ?thesis by (simp add: receiver_inv_def receiver_core_def)
qed

theorem receiver_order_independent_witness:
  "\<exists>r msgs. process_segments init_receiver sample_arrivals = (r, msgs) \<and>
     expected_seq r = 3 \<and> (msgs, assembly_buffer r) = ([[1, 2, 3], [4]], [])"
proof -
  obtain r msgs where run: "process_segments init_receiver sample_arrivals = (r, msgs)" by fastforce
  have "{0..<int (length sample_stream)} \<subseteq> seq_num ` set sample_arrivals"
    by (auto simp: sample_stream_def sample_arrivals_def)
  moreover have "int (length sample_stream) \<le> MAX_RWND"
    by (simp add: sample_stream_def MAX_RWND_def)
  moreover have "reassemble sample_stream = ([[1, 2, 3], [4]], [])"
    by (simp add: reassemble_def reassemble_step_def sample_stream_def)
  ultimately show ?thesis
    using receiver_order_independent [OF sample_arrivals_of_stream _ _ run] run
    by (simp add: sample_stream_def)
qed

text \<open>
  Whatever segments arrive, forged ones included, every acknowledgement carries the next
  expected number, the ACK flag and an advertised window of 64 minus the buffered segments, which
  is always between 1 and 64: the peer is never told to stop for good.
\<close>

theorem advertised_window_positive:
  "\<exists>used. snd (snd (process_segment (fst (process_segments init_receiver ss)) p)) =
     (expected_seq (fst (process_segment (fst (process_segments init_receiver ss)) p)),
      MAX_RWND - used, FLAG_ACK) \<and>
     used = int (length (ooo_buffer (fst (process_segment (fst (process_segments init_receiver ss)) p)))) \<and>
     1 \<le> MAX_RWND - used \<and> MAX_RWND - used \<le> 64"
proof -
  let ?r = "fst (process_segments init_receiver ss)"
  have "window_inv ?r"
    using process_segments_preserve [of window_inv] process_segment_window init_receiver_invs by blast
  then have "window_inv (fst (receive_segment ?r p))" by (rule receive_segment_window)
  from window_inv_length [OF this] show ?thesis
    by (simp add: process_segment_eq MAX_RWND_def)
qed

text \<open>
  Hysteresis of the flow-control state: in every state the receiver can be in after any
  sequence of segments, THROTTLE means that more than 13 segments are buffered and NORMAL that
  fewer than 52 are (the 20 and 80 percent watermarks of the 64-segment window).
\<close>

theorem flow_control_hysteresis:
  "case fc_state (fst (process_segments init_receiver ss)) of
     FC_NORMAL \<Rightarrow> length (ooo_buffer (fst (process_segments init_receiver ss))) < 52
   | FC_THROTTLE \<Rightarrow> 13 < length (ooo_buffer (fst (process_segments init_receiver ss)))"
proof -
  have "fc_inv (fst (process_segments init_receiver ss))"
    using process_segments_preserve [of fc_inv] process_segment_fc init_receiver_invs by blast
  then show ?thesis by (simp add: fc_inv_def split: FCState.split)
qed

end
