(* ===== verification/RudpSender.thy ===== *)
theory RudpSender
  imports RudpReceiver
begin

text \<open>
  The sending half of a connection, \<^verbatim>\<open>src/common/rudp_sender.py\<close>: fragmentation, the
  sliding window bounded by the congestion window (bytes) and the peer's advertised window
  (segments), cumulative acknowledgement, Jacobson/Karels RTT estimation with Karn's rule, the
  congestion-control state machine and the retransmission timer. The send callback becomes the
  list of datagrams put on the network by one call; a packet that cannot be serialised is
  logged and dropped by the code, so it contributes no datagram.
\<close>

section \<open>State\<close>

datatype CCState = CC_SLOW_START | CC_AVOIDANCE | CC_FAST_RECOVERY

record unacked_info =
  u_packet :: RUDPPacket
  sent_time :: real
  is_retransmitted :: bool

record RUDPSender =
  window_size :: int
  rto :: real
  base :: int
  next_seq :: int
  cc_state :: CCState
  cwnd :: real
  ssthresh :: real
  dup_ack_count :: int
  last_ack_received :: int
  inflight_bytes :: int
  peer_rwnd :: int
  effective_window :: int
  srtt :: "real option"
  rttvar :: "real option"
  min_rto :: real
  max_rto :: real
  unacked_packets :: "(int, unacked_info) dict"
  send_buffer :: "RUDPPacket list"

definition init_sender :: "int \<Rightarrow> RUDPSender" where
  "init_sender window =
     \<lparr>window_size = window, rto = INITIAL_RTO, base = 0, next_seq = 0,
      cc_state = CC_SLOW_START, cwnd = INITIAL_CWND, ssthresh = of_int INITIAL_SSTHRESH,
      dup_ack_count = 0, last_ack_received = 0, inflight_bytes = 0,
      peer_rwnd = window, effective_window = 0, srtt = None, rttvar = None,
      min_rto = 0.1, max_rto = MAX_RTO, unacked_packets = [], send_buffer = []\<rparr>"

section \<open>Transmission\<close>

text \<open>\<^verbatim>\<open>self.send_callback(packet.pack())\<close> inside its \<^verbatim>\<open>try\<close>.\<close>

definition transmit :: "RUDPPacket \<Rightarrow> RUDPPacket \<times> bytes list" where
  "transmit packet =
     (case pack packet of Inl _ \<Rightarrow> (packet, []) | Inr (packet', d) \<Rightarrow> (packet', [d]))"

definition payload_len_of :: "RUDPPacket \<Rightarrow> int" where
  "payload_len_of p = int (length (payload p))"

function try_send :: "RUDPSender \<Rightarrow> real \<Rightarrow> RUDPSender \<times> bytes list" where
  "try_send s current_time =
     (case send_buffer s of
        [] \<Rightarrow> (s, [])
      | packet # rest \<Rightarrow>
          (let next_len = payload_len_of packet
           in if of_int (inflight_bytes s + next_len) > cwnd s then (s, [])
              else
                (let cwnd_segments = max 1 \<lfloor>cwnd s / of_int MSS\<rfloor>;
                     s1 = s\<lparr>effective_window := min cwnd_segments (peer_rwnd s)\<rparr>
                 in if int (length (unacked_packets s1)) \<ge> effective_window s1 then (s1, [])
                    else
                      (let sent = transmit packet;
                           info = \<lparr>u_packet = fst sent, sent_time = current_time,
                                   is_retransmitted = False\<rparr>;
                           s2 = s1\<lparr>send_buffer := rest,
                                   unacked_packets := dict_set (seq_num packet) info (unacked_packets s1),
                                   inflight_bytes := inflight_bytes s1 + next_len\<rparr>;
                           more = try_send s2 current_time
                       in (fst more, snd sent @ snd more)))))"
  by pat_completeness auto
termination
  by (relation "measure (\<lambda>(s, t). length (send_buffer s))") (auto simp: Let_def)

declare try_send.simps [simp del]

section \<open>enqueue_data\<close>

text \<open>
  \<^verbatim>\<open>[data[i:i + MSS] for i in range(0, max(len(data), 1), MSS)]\<close>: at least one chunk,
  possibly empty.
\<close>

definition mss :: nat where "mss = nat MSS"

definition chunks_of :: "bytes \<Rightarrow> bytes list" where
  "chunks_of data =
     map (\<lambda>k. take mss (drop (k * mss) data)) [0..<(max (length data) 1 + (mss - 1)) div mss]"

fun make_packets :: "int \<Rightarrow> int \<Rightarrow> int \<Rightarrow> bytes list \<Rightarrow> RUDPPacket list" where
  "make_packets seq mid off [] = []"
| "make_packets seq mid off (chunk # chunks) =
     \<lparr>seq_num = seq, ack_num = 0, flags = (if chunks = [] then FLAG_FIN else 0), rwnd = 0,
      checksum = 0, msg_id = Some mid, offset = Some off, payload = chunk\<rparr>
     # make_packets (seq + 1) mid (off + int (length chunk)) chunks"

definition enqueue_data :: "RUDPSender \<Rightarrow> bytes \<Rightarrow> int \<Rightarrow> real \<Rightarrow> RUDPSender \<times> bytes list" where
  "enqueue_data s data mid current_time =
     (let packets = make_packets (next_seq s) mid 0 (chunks_of data)
      in try_send (s\<lparr>send_buffer := send_buffer s @ packets,
                     next_seq := next_seq s + int (length packets)\<rparr>) current_time)"

section \<open>on_ack_received\<close>

text \<open>The RTT estimator; \<^verbatim>\<open>srtt\<close> and \<^verbatim>\<open>rttvar\<close> are set together.\<close>

definition rtt_estimate :: "RUDPSender \<Rightarrow> real \<Rightarrow> real \<times> real" where
  "rtt_estimate s sample =
     (case (srtt s, rttvar s) of
        (Some sr, Some rv) \<Rightarrow>
          ((1.0 - ALPHA) * sr + ALPHA * sample, (1.0 - BETA) * rv + BETA * \<bar>sr - sample\<bar>)
      | _ \<Rightarrow> (sample, sample / 2.0))"

definition sample_rtt :: "RUDPSender \<Rightarrow> real \<Rightarrow> RUDPSender" where
  "sample_rtt s sample =
     (let (sr, rv) = rtt_estimate s sample;
          raw_rto = sr + 4.0 * rv
      in s\<lparr>srtt := Some sr, rttvar := Some rv, rto := max (min_rto s) (min raw_rto (max_rto s))\<rparr>)"

definition measure_rtt :: "RUDPSender \<Rightarrow> int \<Rightarrow> real \<Rightarrow> RUDPSender" where
  "measure_rtt s ack current_time =
     (let highest_acked = ack - 1
      in case dict_get (filter (\<lambda>(seq, _). seq < ack) (unacked_packets s)) highest_acked of
           None \<Rightarrow> s
         | Some info \<Rightarrow>
             if is_retransmitted info then s else sample_rtt s (current_time - sent_time info))"

definition remove_acked :: "RUDPSender \<Rightarrow> int \<Rightarrow> RUDPSender" where
  "remove_acked s ack =
     (let removed = filter (\<lambda>(seq, _). seq < ack) (unacked_packets s)
      in s\<lparr>inflight_bytes :=
             inflight_bytes s - sum_list (map (\<lambda>(_, info). payload_len_of (u_packet info)) removed),
           unacked_packets := filter (\<lambda>(seq, _). \<not> seq < ack) (unacked_packets s)\<rparr>)"

definition grow_window :: "RUDPSender \<Rightarrow> RUDPSender" where
  "grow_window s =
     (case cc_state s of
        CC_SLOW_START \<Rightarrow>
          (let w = cwnd s + of_int MSS
           in s\<lparr>cwnd := w, cc_state := (if w \<ge> ssthresh s then CC_AVOIDANCE else CC_SLOW_START)\<rparr>)
      | CC_AVOIDANCE \<Rightarrow> s\<lparr>cwnd := cwnd s + of_int (MSS * MSS) / cwnd s\<rparr>
      | CC_FAST_RECOVERY \<Rightarrow> s\<lparr>cwnd := ssthresh s, cc_state := CC_AVOIDANCE\<rparr>)"

definition on_new_ack :: "RUDPSender \<Rightarrow> int \<Rightarrow> real \<Rightarrow> RUDPSender \<times> bytes list" where
  "on_new_ack s ack current_time =
     (let s1 = s\<lparr>base := ack, dup_ack_count := 0, last_ack_received := ack\<rparr>;
          s2 = measure_rtt s1 ack current_time;
          s3 = remove_acked s2 ack;
          s4 = grow_window s3
      in try_send s4 current_time)"

text \<open>Retransmission of one in-flight packet: mark it, restart its timer, send it.\<close>

definition retransmit :: "RUDPSender \<Rightarrow> int \<Rightarrow> unacked_info \<Rightarrow> real \<Rightarrow> RUDPSender \<times> bytes list" where
  "retransmit s seq info current_time =
     (let sent = transmit (u_packet info)
      in (s\<lparr>unacked_packets :=
              dict_set seq (info\<lparr>is_retransmitted := True, sent_time := current_time,
                                 u_packet := fst sent\<rparr>) (unacked_packets s)\<rparr>, snd sent))"

definition enter_fast_recovery :: "RUDPSender \<Rightarrow> RUDPSender" where
  "enter_fast_recovery s =
     (let th = max (cwnd s / 2.0) (2.0 * of_int MSS)
      in s\<lparr>cc_state := CC_FAST_RECOVERY, ssthresh := th, cwnd := th + 3.0 * of_int MSS\<rparr>)"

definition on_dup_ack :: "RUDPSender \<Rightarrow> real \<Rightarrow> RUDPSender \<times> bytes list" where
  "on_dup_ack s current_time =
     (let s1 = s\<lparr>dup_ack_count := dup_ack_count s + 1\<rparr>
      in if dup_ack_count s1 = 3 \<and> cc_state s1 \<noteq> CC_FAST_RECOVERY
         then (let s2 = enter_fast_recovery s1
               in case dict_get (unacked_packets s2) (base s2) of
                    None \<Rightarrow> (s2, [])
                  | Some info \<Rightarrow> retransmit s2 (base s2) info current_time)
         else if dup_ack_count s1 > 3 \<and> cc_state s1 = CC_FAST_RECOVERY
         then try_send (s1\<lparr>cwnd := cwnd s1 + of_int MSS\<rparr>) current_time
         else (s1, []))"

definition on_ack_received :: "RUDPSender \<Rightarrow> int \<Rightarrow> int \<Rightarrow> real \<Rightarrow> RUDPSender \<times> bytes list" where
  "on_ack_received s ack rw current_time =
     (let s1 = s\<lparr>peer_rwnd := rw\<rparr>
      in if ack > base s1 then on_new_ack s1 ack current_time
         else if ack = last_ack_received s1 \<and> ack = base s1 then on_dup_ack s1 current_time
         else (s1, []))"

section \<open>check_timeouts\<close>

definition back_off :: "RUDPSender \<Rightarrow> RUDPSender" where
  "back_off s = s\<lparr>ssthresh := max (cwnd s / 2.0) (2.0 * of_int MSS),
     cwnd := of_int MSS, cc_state := CC_SLOW_START, rto := min (rto s * 2.0) (max_rto s)\<rparr>"

definition check_timeouts :: "RUDPSender \<Rightarrow> real \<Rightarrow> RUDPSender \<times> bytes list" where
  "check_timeouts s current_time =
     (if unacked_packets s = [] then (s, [])
      else case dict_get (unacked_packets s) (base s) of
             None \<Rightarrow> (s, [])
           | Some oldest_info \<Rightarrow>
               if current_time - sent_time oldest_info \<ge> rto s
               then retransmit (back_off s) (base s) oldest_info current_time
               else (s, []))"

section \<open>Invariant\<close>

text \<open>
  \<open>hist\<close> is the list of all packets the sender ever made, in order. The packets not yet sent are
  its last part; those in flight are numbered consecutively from \<^const>\<open>base\<close>.
\<close>

definition same_packet :: "RUDPPacket \<Rightarrow> RUDPPacket \<Rightarrow> bool" where
  "same_packet p q \<longleftrightarrow> p\<lparr>checksum := 0\<rparr> = q\<lparr>checksum := 0\<rparr>"

definition history_ok :: "RUDPPacket list \<Rightarrow> bool" where
  "history_ok hist \<longleftrightarrow>
     (\<forall>i < length hist. seq_num (hist ! i) = int i \<and> length (payload (hist ! i)) \<le> mss \<and>
        ack_num (hist ! i) = 0 \<and> rwnd (hist ! i) = 0 \<and> flags (hist ! i) \<in> {0, FLAG_FIN} \<and>
        msg_id (hist ! i) \<noteq> None \<and> offset (hist ! i) \<noteq> None)"

definition sent_count :: "RUDPSender \<Rightarrow> int" where
  "sent_count s = next_seq s - int (length (send_buffer s))"

definition inflight_of :: "(int, unacked_info) dict \<Rightarrow> int" where
  "inflight_of us = sum_list (map (\<lambda>(_, info). payload_len_of (u_packet info)) us)"

definition flight_inv :: "RUDPPacket list \<Rightarrow> RUDPSender \<Rightarrow> bool" where
  "flight_inv hist s \<longleftrightarrow>
     next_seq s = int (length hist) \<and>
     send_buffer s = drop (nat (sent_count s)) hist \<and>
     0 \<le> base s \<and> base s \<le> sent_count s \<and> last_ack_received s = base s \<and>
     map fst (unacked_packets s) = [base s..sent_count s - 1] \<and>
     (\<forall>(q, info) \<in> set (unacked_packets s). same_packet (u_packet info) (hist ! nat q)) \<and>
     inflight_bytes s = inflight_of (unacked_packets s)"

definition cc_inv :: "RUDPSender \<Rightarrow> bool" where
  "cc_inv s \<longleftrightarrow> of_int MSS \<le> cwnd s \<and> 2 * of_int MSS \<le> ssthresh s \<and>
     min_rto s = 0.1 \<and> max_rto s = 4 \<and> 0.1 \<le> rto s \<and> rto s \<le> 4"

definition sender_inv :: "RUDPPacket list \<Rightarrow> RUDPSender \<Rightarrow> bool" where
  "sender_inv hist s \<longleftrightarrow> history_ok hist \<and> flight_inv hist s \<and> cc_inv s"

text \<open>The datagrams of the first \<open>m\<close> packets of a history.\<close>

definition wire_of :: "RUDPPacket list \<Rightarrow> int \<Rightarrow> bytes set" where
  "wire_of hist m = {d. \<exists>i. int i < m \<and> i < length hist \<and> pack_bytes (hist ! i) = Inr d}"

text \<open>Work waiting in the send buffer always has a packet in flight whose timer will fire.\<close>

definition not_stalled :: "RUDPSender \<Rightarrow> bool" where
  "not_stalled s \<longleftrightarrow> send_buffer s = [] \<or> dict_has (unacked_packets s) (base s)"

section \<open>Lemmas\<close>

lemma same_packet_refl [simp]: "same_packet p p"
  by (simp add: same_packet_def)

lemma same_packet_pack_bytes:
  assumes "same_packet p q"
  shows "pack_bytes p = pack_bytes q"
proof -
  have "pack_bytes (x\<lparr>checksum := c\<rparr>) = pack_bytes x" for x c
    by (auto simp: pack_bytes_def pack_def Let_def split: sum.split)
  with assms show ?thesis unfolding same_packet_def by metis
qed

lemma same_packet_payload: "same_packet p q \<Longrightarrow> payload p = payload q"
  unfolding same_packet_def by (drule arg_cong [where f = payload]) simp

lemma transmit_same: "same_packet (fst (transmit p)) p"
  by (auto simp: transmit_def same_packet_def pack_def Let_def split: sum.splits)

lemma same_packet_trans: "same_packet p q \<Longrightarrow> same_packet q r \<Longrightarrow> same_packet p r"
  by (simp add: same_packet_def)

lemma transmit_wire: "set (snd (transmit p)) = {d. pack_bytes p = Inr d}"
  by (auto simp: transmit_def pack_bytes_def split: sum.splits prod.splits)

lemma wire_of_mono: "m \<le> n \<Longrightarrow> wire_of hist m \<subseteq> wire_of hist n"
  by (force simp: wire_of_def)

lemma wire_of_append: "m \<le> int (length hist) \<Longrightarrow> wire_of (hist @ hs) m = wire_of hist m"
  by (auto simp: wire_of_def nth_append)

lemma transmit_wire_of:
  assumes "same_packet p (hist ! nat q)" "0 \<le> q" "q < m" "q < int (length hist)"
  shows "set (snd (transmit p)) \<subseteq> wire_of hist m"
  using assms
  by (auto simp: transmit_wire wire_of_def same_packet_pack_bytes intro!: exI [of _ "nat q"])

lemma mss_eq: "mss = 1200" "int mss = MSS" "MSS = 1200"
  by (simp_all add: mss_def MSS_def)

lemma inflight_of_append [simp]:
  "inflight_of (us @ [(q, info)]) = inflight_of us + payload_len_of (u_packet info)"
  by (simp add: inflight_of_def)

lemma flight_keys:
  assumes "flight_inv hist s"
  shows "dict_ok (unacked_packets s)"
    and "dict_has (unacked_packets s) q \<longleftrightarrow> base s \<le> q \<and> q < sent_count s"
    and "length (unacked_packets s) = nat (sent_count s - base s)"
proof -
  from assms have m: "map fst (unacked_packets s) = [base s..sent_count s - 1]"
    by (simp add: flight_inv_def)
  show "dict_ok (unacked_packets s)" by (simp add: dict_ok_def m)
  show "dict_has (unacked_packets s) q \<longleftrightarrow> base s \<le> q \<and> q < sent_count s"
    using arg_cong [OF m, of set] by (auto simp: dict_has_dom)
  show "length (unacked_packets s) = nat (sent_count s - base s)"
    using arg_cong [OF m, of length] by simp
qed

lemma flight_sent_count:
  assumes "flight_inv hist s"
  shows "0 \<le> sent_count s" "sent_count s \<le> int (length hist)"
  using assms by (auto simp: flight_inv_def sent_count_def)

lemma flight_next:
  assumes "history_ok hist" "flight_inv hist s" "send_buffer s = p # rest"
  shows "p = hist ! nat (sent_count s)" "seq_num p = sent_count s"
    "sent_count s < int (length hist)" "rest = drop (nat (sent_count s + 1)) hist"
    "\<not> dict_has (unacked_packets s) (seq_num p)" "length (payload p) \<le> mss"
proof -
  let ?m = "nat (sent_count s)"
  have d: "p # rest = drop ?m hist" using assms by (simp add: flight_inv_def)
  then have lt: "?m < length hist" by (metis drop_eq_Nil list.distinct(1) not_le)
  then have dd: "drop ?m hist = hist ! ?m # drop (Suc ?m) hist" by (simp add: Cons_nth_drop_Suc)
  with d show p: "p = hist ! nat (sent_count s)" by simp
  have nn: "0 \<le> sent_count s" using flight_sent_count [OF assms(2)] by simp
  then have "nat (sent_count s + 1) = Suc ?m" by simp
  with d dd show "rest = drop (nat (sent_count s + 1)) hist" by simp
  show seq: "seq_num p = sent_count s" using assms(1) lt nn p by (simp add: history_ok_def)
  show "sent_count s < int (length hist)" using lt nn by simp
  show "\<not> dict_has (unacked_packets s) (seq_num p)"
    using flight_keys(2) [OF assms(2)] seq by simp
  show "length (payload p) \<le> mss" using assms(1) lt p by (simp add: history_ok_def)
qed

lemma flight_inv_send:
  assumes h: "history_ok hist" and f: "flight_inv hist s" and sb: "send_buffer s = p # rest"
    and p': "same_packet (u_packet info) p"
    and s': "s' = s\<lparr>effective_window := w, send_buffer := rest,
       unacked_packets := dict_set (seq_num p) info (unacked_packets s),
       inflight_bytes := inflight_bytes s + payload_len_of p\<rparr>"
  shows "flight_inv hist s' \<and> sent_count s' = sent_count s + 1 \<and> base s' = base s"
proof -
  note nx = flight_next [OF h f sb]
  have un: "unacked_packets s' = unacked_packets s @ [(sent_count s, info)]"
    using nx(2,5) by (simp add: s' length_update_new)
  have sc: "sent_count s' = sent_count s + 1" by (simp add: sent_count_def s' sb)
  have keys: "map fst (unacked_packets s') = [base s..sent_count s]"
    using f by (simp add: un flight_inv_def upto_rec2)
  have same: "\<forall>(q, i) \<in> set (unacked_packets s'). same_packet (u_packet i) (hist ! nat q)"
    using f p' nx(1) by (auto simp: un flight_inv_def)
  have "inflight_bytes s' = inflight_bytes s + payload_len_of p" by (simp add: s')
  then have "inflight_bytes s' = inflight_of (unacked_packets s')"
    using f same_packet_payload [OF p'] unfolding un by (simp add: flight_inv_def payload_len_of_def)
  then show ?thesis using f keys same sc nx(4)
    by (simp add: flight_inv_def) (simp add: s')
qed

text \<open>One iteration of the send loop, and the loop's invariants.\<close>

definition may_send :: "RUDPSender \<Rightarrow> RUDPPacket \<Rightarrow> bool" where
  "may_send s p \<longleftrightarrow> of_int (inflight_bytes s + payload_len_of p) \<le> cwnd s \<and>
     int (length (unacked_packets s)) < min (max 1 \<lfloor>cwnd s / of_int MSS\<rfloor>) (peer_rwnd s)"

definition send_one :: "RUDPSender \<Rightarrow> RUDPPacket \<Rightarrow> RUDPPacket list \<Rightarrow> real \<Rightarrow> RUDPSender" where
  "send_one s p rest t = s\<lparr>effective_window := min (max 1 \<lfloor>cwnd s / of_int MSS\<rfloor>) (peer_rwnd s),
     send_buffer := rest,
     unacked_packets := dict_set (seq_num p) \<lparr>u_packet = fst (transmit p), sent_time = t,
        is_retransmitted = False\<rparr> (unacked_packets s),
     inflight_bytes := inflight_bytes s + payload_len_of p\<rparr>"

lemma try_send_cases:
  obtains "send_buffer s = []" "try_send s t = (s, [])"
  | p rest w where "send_buffer s = p # rest" "\<not> may_send s p"
      "try_send s t = (s\<lparr>effective_window := w\<rparr>, [])"
  | p rest where "send_buffer s = p # rest" "may_send s p"
      "try_send s t = (fst (try_send (send_one s p rest t) t),
         snd (transmit p) @ snd (try_send (send_one s p rest t) t))"
proof (cases "send_buffer s")
  case Nil
  with that(1) show ?thesis by (simp add: try_send.simps [of s t])
next
  case (Cons p rest)
  consider (big) "of_int (inflight_bytes s + payload_len_of p) > cwnd s"
    | (full) "of_int (inflight_bytes s + payload_len_of p) \<le> cwnd s"
        "int (length (unacked_packets s)) \<ge> min (max 1 \<lfloor>cwnd s / of_int MSS\<rfloor>) (peer_rwnd s)"
    | (send) "may_send s p"
    unfolding may_send_def by linarith
  then show ?thesis
  proof cases
    case big
    with Cons have "try_send s t = (s\<lparr>effective_window := effective_window s\<rparr>, [])"
      by (simp add: try_send.simps [of s t])
    moreover have "\<not> may_send s p" using big by (simp add: may_send_def)
    ultimately show ?thesis using Cons that(2) by blast
  next
    case full
    with Cons have "try_send s t =
        (s\<lparr>effective_window := min (max 1 \<lfloor>cwnd s / of_int MSS\<rfloor>) (peer_rwnd s)\<rparr>, [])"
      by (simp add: try_send.simps [of s t] Let_def)
    moreover have "\<not> may_send s p" using full by (auto simp: may_send_def)
    ultimately show ?thesis using Cons that(2) by blast
  next
    case send
    then have "\<not> min (max 1 \<lfloor>cwnd s / of_int MSS\<rfloor>) (peer_rwnd s) \<le> int (length (unacked_packets s))"
      by (auto simp: may_send_def)
    with Cons send have "try_send s t = (fst (try_send (send_one s p rest t) t),
        snd (transmit p) @ snd (try_send (send_one s p rest t) t))"
      by (simp add: try_send.simps [of s t] Let_def may_send_def send_one_def)
    with Cons send that(3) show ?thesis by blast
  qed
qed

lemma flight_inv_window [simp]: "flight_inv hist (s\<lparr>effective_window := w\<rparr>) = flight_inv hist s"
  by (simp add: flight_inv_def sent_count_def)

lemma sent_count_window [simp]: "sent_count (s\<lparr>effective_window := w\<rparr>) = sent_count s"
  by (simp add: sent_count_def)

lemma cc_inv_window [simp]: "cc_inv (s\<lparr>effective_window := w\<rparr>) = cc_inv s"
  by (simp add: cc_inv_def)

lemma cc_inv_send_one [simp]: "cc_inv (send_one s p rest t) = cc_inv s"
  by (simp add: cc_inv_def send_one_def)

lemma send_one_frame [simp]:
  "cwnd (send_one s p rest t) = cwnd s" "peer_rwnd (send_one s p rest t) = peer_rwnd s"
  "next_seq (send_one s p rest t) = next_seq s" "base (send_one s p rest t) = base s"
  "send_buffer (send_one s p rest t) = rest"
  by (simp_all add: send_one_def)

lemma transmit_next_wire:
  assumes "history_ok hist" "flight_inv hist s" "send_buffer s = p # rest"
  shows "set (snd (transmit p)) \<subseteq> wire_of hist (sent_count s + 1)"
  using flight_next [OF assms] flight_sent_count [OF assms(2)]
  by (intro transmit_wire_of [of _ _ "sent_count s"]) auto

lemma try_send_base: "base (fst (try_send s t)) = base s"
proof (induction "length (send_buffer s)" arbitrary: s rule: less_induct)
  case less
  show ?case
    by (cases rule: try_send_cases [of s t]) (simp_all add: less.hyps)
qed

lemma send_one_inv:
  assumes "history_ok hist" "flight_inv hist s" "send_buffer s = p # rest"
  shows "flight_inv hist (send_one s p rest t)" "sent_count (send_one s p rest t) = sent_count s + 1"
    "inflight_bytes (send_one s p rest t) = inflight_bytes s + payload_len_of p"
    "length (unacked_packets (send_one s p rest t)) = Suc (length (unacked_packets s))"
proof -
  note nx = flight_next [OF assms]
  have "same_packet (u_packet \<lparr>u_packet = fst (transmit p), sent_time = t, is_retransmitted = False\<rparr>) p"
    by (simp add: transmit_same)
  from flight_inv_send [OF assms this] show "flight_inv hist (send_one s p rest t)"
    "sent_count (send_one s p rest t) = sent_count s + 1"
    by (auto simp: send_one_def)
  show "inflight_bytes (send_one s p rest t) = inflight_bytes s + payload_len_of p"
    by (simp add: send_one_def)
  show "length (unacked_packets (send_one s p rest t)) = Suc (length (unacked_packets s))"
    using nx(5) by (simp add: send_one_def length_update_new)
qed

lemma try_send_props:
  assumes "history_ok hist" "flight_inv hist s" "cc_inv s"
  shows "flight_inv hist (fst (try_send s t)) \<and> cc_inv (fst (try_send s t)) \<and>
    base (fst (try_send s t)) = base s \<and> sent_count s \<le> sent_count (fst (try_send s t)) \<and>
    peer_rwnd (fst (try_send s t)) = peer_rwnd s \<and> cwnd (fst (try_send s t)) = cwnd s \<and>
    set (snd (try_send s t)) \<subseteq> wire_of hist (sent_count (fst (try_send s t)))"
  using assms(2,3)
proof (induction "length (send_buffer s)" arbitrary: s rule: less_induct)
  case less
  show ?case
  proof (cases rule: try_send_cases [of s t])
    case (3 p rest)
    let ?s1 = "send_one s p rest t"
    note so = send_one_inv [OF assms(1) less.prems(1) 3(1), of t]
    have IH: "flight_inv hist (fst (try_send ?s1 t)) \<and> cc_inv (fst (try_send ?s1 t)) \<and>
        base (fst (try_send ?s1 t)) = base ?s1 \<and> sent_count ?s1 \<le> sent_count (fst (try_send ?s1 t)) \<and>
        peer_rwnd (fst (try_send ?s1 t)) = peer_rwnd ?s1 \<and> cwnd (fst (try_send ?s1 t)) = cwnd ?s1 \<and>
        set (snd (try_send ?s1 t)) \<subseteq> wire_of hist (sent_count (fst (try_send ?s1 t)))"
      using so(1) less.prems(2) 3(1) by (intro less.hyps) simp_all
    moreover have "wire_of hist (sent_count s + 1) \<subseteq> wire_of hist (sent_count (fst (try_send ?s1 t)))"
      using IH so(2) by (intro wire_of_mono) simp
    ultimately show ?thesis
      using so(2) transmit_next_wire [OF assms(1) less.prems(1) 3(1)] by (auto simp: 3(3))
  qed (use less.prems in \<open>simp_all\<close>)
qed

text \<open>The loop never stops with an empty flight while work remains.\<close>

lemma try_send_not_stalled:
  assumes "history_ok hist" "flight_inv hist s" "cc_inv s" "1 \<le> peer_rwnd s"
  shows "not_stalled (fst (try_send s t))"
  using assms(2-)
proof (induction "length (send_buffer s)" arbitrary: s rule: less_induct)
  case less
  show ?case
  proof (cases rule: try_send_cases [of s t])
    case 1
    then show ?thesis by (simp add: not_stalled_def)
  next
    case (2 p rest w)
    have "unacked_packets s \<noteq> []"
    proof
      assume e: "unacked_packets s = []"
      then have "inflight_bytes s = 0" using less.prems(1) by (simp add: flight_inv_def inflight_of_def)
      moreover have "payload_len_of p \<le> MSS"
        using flight_next(6) [OF assms(1) less.prems(1) 2(1)] mss_eq by (simp add: payload_len_of_def)
      then have "real_of_int (payload_len_of p) \<le> of_int MSS" by (simp only: of_int_le_iff)
      ultimately have "may_send s p"
        using e less.prems(2,3) by (simp add: may_send_def cc_inv_def)
      with 2 show False by simp
    qed
    then have "base s < sent_count s" using flight_keys(3) [OF less.prems(1)]
      by (simp flip: length_greater_0_conv)
    then have "dict_has (unacked_packets s) (base s)"
      using flight_keys(2) [OF less.prems(1)] by simp
    then show ?thesis by (simp add: 2(3) not_stalled_def)
  next
    case (3 p rest)
    have "not_stalled (fst (try_send (send_one s p rest t) t))"
      using send_one_inv(1) [OF assms(1) less.prems(1) 3(1)] less.prems(2,3) 3(1)
      by (intro less.hyps) simp_all
    then show ?thesis by (simp add: 3(3))
  qed
qed

text \<open>What the loop sends fits both windows.\<close>

lemma try_send_bounds:
  assumes "history_ok hist" "flight_inv hist s" "cc_inv s" "fst (try_send s t) = s'"
  shows "unacked_packets s' = unacked_packets s \<or>
    (int (length (unacked_packets s')) \<le> min (max 1 \<lfloor>cwnd s / of_int MSS\<rfloor>) (peer_rwnd s) \<and>
     of_int (inflight_bytes s') \<le> cwnd s)"
  using assms(2-)
proof (induction "length (send_buffer s)" arbitrary: s rule: less_induct)
  case less
  show ?case
  proof (cases rule: try_send_cases [of s t])
    case (3 p rest)
    let ?s1 = "send_one s p rest t"
    note so = send_one_inv [OF assms(1) less.prems(1) 3(1), of t]
    have "unacked_packets s' = unacked_packets ?s1 \<or>
        (int (length (unacked_packets s')) \<le> min (max 1 \<lfloor>cwnd ?s1 / of_int MSS\<rfloor>) (peer_rwnd ?s1) \<and>
         of_int (inflight_bytes s') \<le> cwnd ?s1)"
      using so(1) 3 less.prems(2,3) by (intro less.hyps) simp_all
    then show ?thesis
    proof
      assume eq: "unacked_packets s' = unacked_packets ?s1"
      have "flight_inv hist s'"
        using try_send_props [OF assms(1) so(1)] less.prems(2,3) by (auto simp: 3(3))
      with eq so(1) have "inflight_bytes s' = inflight_bytes ?s1" by (simp add: flight_inv_def)
      then show ?thesis using eq so(3,4) 3(2) by (auto simp: may_send_def)
    qed simp
  qed (use less.prems in \<open>auto\<close>)
qed

subsection \<open>Fragmentation\<close>

lemma concat_slices:
  "concat (map (\<lambda>k. take n (drop (k * n) xs)) [0..<m]) = take (m * n) xs"
proof (induction m)
  case (Suc m)
  have "take (m * n) xs @ take n (drop (m * n) xs) = take (m * n + n) xs"
    by (simp add: take_add)
  with Suc show ?case by (simp add: add.commute)
qed simp

lemma concat_chunks_of: "concat (chunks_of data) = data"
proof -
  let ?m = "(max (length data) 1 + (mss - 1)) div mss"
  have "length data \<le> ?m * mss" by (simp add: mss_eq)
  then show ?thesis by (simp add: chunks_of_def concat_slices)
qed

lemma chunks_of_not_Nil: "chunks_of data \<noteq> []"
  by (simp add: chunks_of_def mss_eq)

lemma chunks_of_length: "c \<in> set (chunks_of data) \<Longrightarrow> length c \<le> mss"
  by (auto simp: chunks_of_def)

lemma length_make_packets [simp]: "length (make_packets seq mid off cs) = length cs"
  by (induction seq mid off cs rule: make_packets.induct) auto

lemma make_packets_nth:
  "i < length cs \<Longrightarrow> make_packets seq mid off cs ! i =
     \<lparr>seq_num = seq + int i, ack_num = 0, flags = (if Suc i = length cs then FLAG_FIN else 0),
      rwnd = 0, checksum = 0, msg_id = Some mid,
      offset = Some (off + int (length (concat (take i cs)))), payload = cs ! i\<rparr>"
proof (induction seq mid off cs arbitrary: i rule: make_packets.induct)
  case (2 seq mid off c cs)
  then show ?case by (cases i) auto
qed simp

lemma reassemble_make_packets:
  assumes "cs \<noteq> []"
  shows "foldl reassemble_step (ms, asm) (map frag (make_packets seq mid off cs)) =
    (ms @ [asm @ concat cs], [])"
  using assms
proof (induction seq mid off cs arbitrary: asm rule: make_packets.induct)
  case (2 seq mid off c cs)
  show ?case
  proof (cases "cs = []")
    case True
    then show ?thesis by (simp add: frag_def is_fin_def FLAG_FIN_def reassemble_step_def)
  next
    case False
    with 2 show ?thesis by (simp add: frag_def is_fin_def reassemble_step_def)
  qed
qed simp

subsection \<open>Every operation keeps the invariant\<close>

text \<open>What one call of the sender guarantees: the new state, and the datagrams it emitted.\<close>

definition sender_post :: "RUDPPacket list \<Rightarrow> RUDPSender \<Rightarrow> RUDPSender \<times> bytes list \<Rightarrow> bool" where
  "sender_post hist s r \<longleftrightarrow> sender_inv hist (fst r) \<and> sent_count s \<le> sent_count (fst r) \<and>
     base s \<le> base (fst r) \<and> set (snd r) \<subseteq> wire_of hist (sent_count (fst r))"

lemma sender_inv_init: "sender_inv [] (init_sender w)"
  by (simp add: sender_inv_def history_ok_def flight_inv_def cc_inv_def init_sender_def
      sent_count_def inflight_of_def INITIAL_RTO_def INITIAL_CWND_def INITIAL_SSTHRESH_def
      MAX_RTO_def MSS_def)

lemma sender_post_refl: "sender_inv hist s \<Longrightarrow> sender_post hist s (s, [])"
  by (simp add: sender_post_def)

lemma sender_post_try_send:
  assumes "sender_inv hist s" "sent_count s0 \<le> sent_count s" "base s0 \<le> base s"
  shows "sender_post hist s0 (try_send s t)"
proof -
  have "history_ok hist" "flight_inv hist s" "cc_inv s" using assms by (simp_all add: sender_inv_def)
  from this(1) try_send_props [OF this, of t] assms(2,3) show ?thesis
    by (auto simp: sender_post_def sender_inv_def)
qed

lemma history_ok_append:
  assumes "history_ok hist" "seq = int (length hist)" "\<forall>c \<in> set cs. length c \<le> mss"
  shows "history_ok (hist @ make_packets seq mid off cs)"
  unfolding history_ok_def
proof (intro allI impI)
  fix i assume i: "i < length (hist @ make_packets seq mid off cs)"
  let ?p = "(hist @ make_packets seq mid off cs) ! i"
  show "seq_num ?p = int i \<and> length (payload ?p) \<le> mss \<and> ack_num ?p = 0 \<and> rwnd ?p = 0 \<and>
      flags ?p \<in> {0, FLAG_FIN} \<and> msg_id ?p \<noteq> None \<and> offset ?p \<noteq> None"
  proof (cases "i < length hist")
    case True
    then show ?thesis using assms(1) by (simp add: history_ok_def nth_append)
  next
    case False
    then have "i - length hist < length cs" using i by simp
    then show ?thesis using False assms(2,3) by (auto simp: nth_append make_packets_nth)
  qed
qed

definition packets_of :: "RUDPPacket list \<Rightarrow> int \<Rightarrow> bytes \<Rightarrow> RUDPPacket list" where
  "packets_of hist mid data = make_packets (int (length hist)) mid 0 (chunks_of data)"

lemma flight_inv_enqueue:
  assumes "flight_inv hist s"
  shows "flight_inv (hist @ ps)
    (s\<lparr>send_buffer := send_buffer s @ ps, next_seq := next_seq s + int (length ps)\<rparr>)"
proof -
  let ?s' = "s\<lparr>send_buffer := send_buffer s @ ps, next_seq := next_seq s + int (length ps)\<rparr>"
  have sc: "sent_count ?s' = sent_count s" by (simp add: sent_count_def)
  have le: "nat (sent_count s) \<le> length hist" using flight_sent_count [OF assms] by simp
  have keys: "q \<in> fst ` set (unacked_packets s) \<Longrightarrow> nat q < length hist" for q
    using flight_keys(2) [OF assms, of q] flight_sent_count [OF assms] assms
    by (auto simp: dict_has_dom flight_inv_def)
  have "\<forall>(q, info) \<in> set (unacked_packets s). same_packet (u_packet info) ((hist @ ps) ! nat q)"
    using assms keys by (force simp: flight_inv_def nth_append)
  with assms le show ?thesis unfolding flight_inv_def sc by simp
qed

lemma enqueue_data_post:
  assumes "sender_inv hist s"
  shows "sender_post (hist @ packets_of hist mid data) s (enqueue_data s data mid t)"
proof -
  let ?ps = "packets_of hist mid data"
  let ?s' = "s\<lparr>send_buffer := send_buffer s @ ?ps, next_seq := next_seq s + int (length ?ps)\<rparr>"
  have ns: "next_seq s = int (length hist)" using assms by (simp add: sender_inv_def flight_inv_def)
  have "sender_inv (hist @ ?ps) ?s'"
    using assms flight_inv_enqueue [of hist s ?ps] history_ok_append [of hist _ "chunks_of data"]
    by (simp add: sender_inv_def cc_inv_def packets_of_def chunks_of_length)
  moreover have "enqueue_data s data mid t = try_send ?s' t"
    by (simp add: enqueue_data_def Let_def packets_of_def ns)
  ultimately show ?thesis
    using sender_post_try_send [of "hist @ ?ps" ?s' s t] by (simp add: sent_count_def)
qed

text \<open>Cumulative acknowledgement removes exactly the front of the flight.\<close>

lemma filter_upto: "filter (\<lambda>q. \<not> q < a) [b..m] = [max a b..m]" for a b m :: int
proof (induction "nat (m - b + 1)" arbitrary: b)
  case 0
  then show ?case by simp
next
  case (Suc n)
  then have "b \<le> m" "n = nat (m - (b + 1) + 1)" by linarith+
  moreover have "b < a \<Longrightarrow> max a b = max a (b + 1)" "\<not> b < a \<Longrightarrow> max a b = b"
    "\<not> b < a \<Longrightarrow> max a (b + 1) = b + 1" by linarith+
  ultimately show ?case using Suc(1) [of "b + 1"] by (cases "b < a") (simp_all add: upto_rec1 [of b m])
qed

lemma inflight_split:
  "inflight_of us - inflight_of (filter P us) = inflight_of (filter (\<lambda>x. \<not> P x) us)"
  by (induction us) (auto simp: inflight_of_def)

lemma map_fst_filter: "map fst (filter (\<lambda>(q, _). P q) us) = filter P (map fst us)"
  by (induction us) auto

lemma remove_acked_flight:
  assumes f: "flight_inv hist s" and a: "base s \<le> ack" "ack \<le> sent_count s"
  shows "flight_inv hist (remove_acked (s\<lparr>base := ack, last_ack_received := ack\<rparr>) ack)"
proof -
  let ?us = "filter (\<lambda>(q, _). \<not> q < ack) (unacked_packets s)"
  have "map fst ?us = [ack..sent_count s - 1]"
    using f a by (simp add: map_fst_filter filter_upto flight_inv_def)
  moreover have "inflight_bytes s - inflight_of (filter (\<lambda>(q, _). q < ack) (unacked_packets s))
      = inflight_of ?us"
    using f inflight_split [of "unacked_packets s" "\<lambda>(q, _). q < ack"]
    by (simp add: flight_inv_def case_prod_unfold)
  ultimately show ?thesis
    using f a by (auto simp: remove_acked_def Let_def flight_inv_def sent_count_def inflight_of_def)
qed

lemma flight_inv_cong:
  assumes "next_seq s' = next_seq s" "send_buffer s' = send_buffer s" "base s' = base s"
    "last_ack_received s' = last_ack_received s" "unacked_packets s' = unacked_packets s"
    "inflight_bytes s' = inflight_bytes s"
  shows "flight_inv hist s' = flight_inv hist s"
  using assms by (simp add: flight_inv_def sent_count_def)

text \<open>The timer and congestion fields that \<open>measure_rtt\<close> and \<open>grow_window\<close> touch.\<close>

lemma sample_rtt_frame [simp]:
  "next_seq (sample_rtt s x) = next_seq s" "send_buffer (sample_rtt s x) = send_buffer s"
  "base (sample_rtt s x) = base s" "last_ack_received (sample_rtt s x) = last_ack_received s"
  "unacked_packets (sample_rtt s x) = unacked_packets s"
  "inflight_bytes (sample_rtt s x) = inflight_bytes s" "peer_rwnd (sample_rtt s x) = peer_rwnd s"
  by (simp_all add: sample_rtt_def Let_def split: prod.splits)

lemma measure_rtt_cases:
  obtains "measure_rtt s a t = s" | x where "measure_rtt s a t = sample_rtt s x"
proof -
  have "measure_rtt s a t = s \<or> (\<exists>x. measure_rtt s a t = sample_rtt s x)"
    by (auto simp: measure_rtt_def Let_def split: option.split)
  with that show ?thesis by blast
qed

lemma measure_rtt_frame [simp]:
  "next_seq (measure_rtt s a t) = next_seq s" "send_buffer (measure_rtt s a t) = send_buffer s"
  "base (measure_rtt s a t) = base s" "last_ack_received (measure_rtt s a t) = last_ack_received s"
  "unacked_packets (measure_rtt s a t) = unacked_packets s"
  "inflight_bytes (measure_rtt s a t) = inflight_bytes s" "peer_rwnd (measure_rtt s a t) = peer_rwnd s"
  by (cases rule: measure_rtt_cases [of s a t], simp, simp)+

lemma grow_window_frame [simp]:
  "next_seq (grow_window s) = next_seq s" "send_buffer (grow_window s) = send_buffer s"
  "base (grow_window s) = base s" "last_ack_received (grow_window s) = last_ack_received s"
  "unacked_packets (grow_window s) = unacked_packets s"
  "inflight_bytes (grow_window s) = inflight_bytes s" "peer_rwnd (grow_window s) = peer_rwnd s"
  by (simp_all add: grow_window_def Let_def split: CCState.split)

lemma cc_inv_sample_rtt:
  assumes c: "cc_inv s"
  shows "cc_inv (sample_rtt s x)"
proof -
  obtain a b where e: "rtt_estimate s x = (a, b)" by fastforce
  define y where "y = max (min_rto s) (min (a + 4 * b) (max_rto s))"
  have "min_rto s \<le> y" "y \<le> max_rto s" using c by (simp_all add: cc_inv_def y_def)
  moreover have "sample_rtt s x = s\<lparr>srtt := Some a, rttvar := Some b, rto := y\<rparr>"
    by (simp add: sample_rtt_def e y_def)
  ultimately show ?thesis using c by (simp add: cc_inv_def)
qed

lemma cc_inv_measure_rtt: "cc_inv s \<Longrightarrow> cc_inv (measure_rtt s a t)"
  by (cases rule: measure_rtt_cases [of s a t]) (simp_all add: cc_inv_sample_rtt)

lemma cc_inv_grow_window: "cc_inv s \<Longrightarrow> cc_inv (grow_window s)"
  by (auto simp: cc_inv_def grow_window_def Let_def MSS_def intro: add_increasing2
      split: CCState.splits)

lemma cc_inv_remove_acked [simp]: "cc_inv (remove_acked s a) = cc_inv s"
  by (simp add: cc_inv_def remove_acked_def Let_def)

lemma on_new_ack_try_send:
  assumes "sender_inv hist s" "base s \<le> ack" "ack \<le> sent_count s"
  obtains s4 where "on_new_ack s ack t = try_send s4 t" "sender_inv hist s4"
    "sent_count s4 = sent_count s" "base s4 = ack" "peer_rwnd s4 = peer_rwnd s"
proof -
  let ?s1 = "s\<lparr>base := ack, dup_ack_count := 0, last_ack_received := ack\<rparr>"
  let ?s4 = "grow_window (remove_acked (measure_rtt ?s1 ack t) ack)"
  have f: "flight_inv hist s" and c: "cc_inv s" and h: "history_ok hist"
    using assms by (simp_all add: sender_inv_def)
  have "flight_inv hist ?s4 = flight_inv hist
      (remove_acked (s\<lparr>base := ack, last_ack_received := ack\<rparr>) ack)"
    by (rule flight_inv_cong) (simp_all add: remove_acked_def Let_def)
  then have "flight_inv hist ?s4" using remove_acked_flight [OF f assms(2,3)] by simp
  moreover have "cc_inv ?s1" using c by (simp add: cc_inv_def)
  then have "cc_inv ?s4" by (intro cc_inv_grow_window) (simp add: cc_inv_measure_rtt)
  ultimately have "sender_inv hist ?s4" using h by (simp add: sender_inv_def)
  then show ?thesis
    by (rule that [rotated]) (simp_all add: on_new_ack_def Let_def sent_count_def remove_acked_def)
qed

text \<open>Retransmission changes neither the flight's keys nor its bytes.\<close>

lemma update_flight:
  assumes "dict_get us q = Some info" "payload_len_of (u_packet info') = payload_len_of (u_packet info)"
  shows "map fst (dict_set q info' us) = map fst us \<and>
    inflight_of (dict_set q info' us) = inflight_of us"
  using assms by (induction us) (auto simp: inflight_of_def)

lemma retransmit_post:
  assumes i: "sender_inv hist s" and g: "dict_get (unacked_packets s) q = Some info"
  shows "sender_post hist s (retransmit s q info t)"
proof -
  let ?us = "unacked_packets s"
  let ?info' = "info\<lparr>is_retransmitted := True, sent_time := t, u_packet := fst (transmit (u_packet info))\<rparr>"
  let ?s' = "fst (retransmit s q info t)"
  have f: "flight_inv hist s" using i by (simp add: sender_inv_def)
  have qi: "(q, info) \<in> set ?us" using g by (rule map_of_SomeD)
  then have sp: "same_packet (u_packet info) (hist ! nat q)" using f by (auto simp: flight_inv_def)
  then have sp': "same_packet (u_packet ?info') (hist ! nat q)"
    by (simp add: same_packet_trans [OF transmit_same])
  have q: "0 \<le> q" "q < sent_count s"
    using flight_keys(2) [OF f, of q] imageI [OF qi, of fst] f by (auto simp: flight_inv_def dict_has_dom)
  have pl: "payload_len_of (u_packet ?info') = payload_len_of (u_packet info)"
    using same_packet_payload [OF transmit_same, of "u_packet info"] by (simp add: payload_len_of_def)
  have un: "unacked_packets ?s' = dict_set q ?info' ?us" and sc: "sent_count ?s' = sent_count s"
    by (simp_all add: retransmit_def Let_def sent_count_def)
  have same: "\<forall>(k, i) \<in> set (dict_set q ?info' ?us). same_packet (u_packet i) (hist ! nat k)"
  proof (clarify)
    fix k i assume "(k, i) \<in> set (dict_set q ?info' ?us)"
    then have "(k, i) \<in> set ?us \<or> (k = q \<and> i = ?info')" by (rule set_dict_setD)
    then show "same_packet (u_packet i) (hist ! nat k)" using f sp' by (auto simp: flight_inv_def)
  qed
  have "flight_inv hist ?s'"
    using f same update_flight [OF g pl] unfolding flight_inv_def un sc
    by (simp add: retransmit_def Let_def)
  moreover have "cc_inv ?s'" using i by (simp add: sender_inv_def cc_inv_def retransmit_def Let_def)
  moreover have "set (snd (retransmit s q info t)) \<subseteq> wire_of hist (sent_count s)"
    using transmit_wire_of [OF sp q] flight_sent_count [OF f] q by (simp add: retransmit_def Let_def)
  moreover have "base ?s' = base s" by (simp add: retransmit_def Let_def)
  ultimately show ?thesis using i by (simp add: sender_post_def sender_inv_def sc)
qed

lemma sender_post_weaken:
  assumes "sender_post hist s r" "sent_count s = sent_count s0" "base s = base s0"
  shows "sender_post hist s0 r"
  using assms by (simp add: sender_post_def)

lemma sender_inv_cong:
  assumes "sender_inv hist s" "flight_inv hist s' = flight_inv hist s" "cc_inv s'"
  shows "sender_inv hist s'"
  using assms by (simp add: sender_inv_def)

lemma sender_inv_dup_count: "sender_inv hist (s\<lparr>dup_ack_count := n\<rparr>) = sender_inv hist s"
  by (simp add: sender_inv_def flight_inv_def cc_inv_def sent_count_def)

lemma sender_inv_peer_rwnd: "sender_inv hist (s\<lparr>peer_rwnd := n\<rparr>) = sender_inv hist s"
  by (simp add: sender_inv_def flight_inv_def cc_inv_def sent_count_def)

lemma sender_inv_inflate:
  assumes "sender_inv hist s"
  shows "sender_inv hist (s\<lparr>cwnd := cwnd s + of_int MSS\<rparr>)"
  by (rule sender_inv_cong [OF assms flight_inv_cong])
    (use assms in \<open>simp_all add: sender_inv_def cc_inv_def MSS_def\<close>)

lemma sender_inv_fast_recovery:
  assumes "sender_inv hist s"
  shows "sender_inv hist (enter_fast_recovery s)"
  by (rule sender_inv_cong [OF assms flight_inv_cong])
    (use assms in \<open>simp_all add: sender_inv_def cc_inv_def enter_fast_recovery_def Let_def MSS_def\<close>)

lemma sender_inv_back_off:
  assumes "sender_inv hist s"
  shows "sender_inv hist (back_off s)"
  by (rule sender_inv_cong [OF assms flight_inv_cong])
    (use assms in \<open>simp_all add: sender_inv_def cc_inv_def back_off_def MSS_def\<close>)

lemma sent_count_frame [simp]:
  "sent_count (s\<lparr>dup_ack_count := n\<rparr>) = sent_count s" "sent_count (s\<lparr>peer_rwnd := n\<rparr>) = sent_count s"
  "sent_count (s\<lparr>cwnd := w\<rparr>) = sent_count s" "sent_count (enter_fast_recovery s) = sent_count s"
  "sent_count (back_off s) = sent_count s" "base (enter_fast_recovery s) = base s"
  "base (back_off s) = base s" "unacked_packets (enter_fast_recovery s) = unacked_packets s"
  "unacked_packets (back_off s) = unacked_packets s"
  by (simp_all add: sent_count_def enter_fast_recovery_def back_off_def Let_def)

lemma retransmit_base_post:
  assumes "sender_inv hist s"
  shows "sender_post hist s (case dict_get (unacked_packets s) (base s) of
      None \<Rightarrow> (s, []) | Some info \<Rightarrow> retransmit s (base s) info t)"
  using sender_post_refl [OF assms] retransmit_post [OF assms]
  by (cases "dict_get (unacked_packets s) (base s)") (simp_all only: option.case)

lemma on_dup_ack_post:
  assumes i: "sender_inv hist s"
  shows "sender_post hist s (on_dup_ack s t)"
proof -
  let ?s1 = "s\<lparr>dup_ack_count := dup_ack_count s + 1\<rparr>"
  have i1: "sender_inv hist ?s1" using i by (simp add: sender_inv_dup_count)
  note p2 = sender_post_weaken [OF retransmit_base_post [OF sender_inv_fast_recovery [OF i1]], of s t]
  note p3 = sender_post_try_send [OF sender_inv_inflate [OF i1], of s t]
  note p1 = sender_post_weaken [OF sender_post_refl [OF i1], of s]
  show ?thesis unfolding on_dup_ack_def Let_def using p1 p2 p3 by simp
qed

text \<open>Acknowledgements of data that was sent, and the retransmission timer.\<close>

lemma on_ack_received_post:
  assumes i: "sender_inv hist s" and a: "ack \<le> sent_count s"
  shows "sender_post hist s (on_ack_received s ack rw t)"
proof -
  let ?s1 = "s\<lparr>peer_rwnd := rw\<rparr>"
  have i1: "sender_inv hist ?s1" using i by (simp add: sender_inv_peer_rwnd)
  have "sender_post hist s (on_new_ack ?s1 ack t)" if "base s < ack"
  proof (rule on_new_ack_try_send [OF i1, of ack t])
    fix s4
    assume s4: "on_new_ack ?s1 ack t = try_send s4 t" "sender_inv hist s4"
      "sent_count s4 = sent_count ?s1" "base s4 = ack"
    then show ?thesis using that by (simp add: sender_post_try_send)
  qed (use that a in simp_all)
  moreover have "sender_post hist s (on_dup_ack ?s1 t)"
    by (rule sender_post_weaken [OF on_dup_ack_post [OF i1]]) simp_all
  moreover have "sender_post hist s (?s1, [])"
    by (rule sender_post_weaken [OF sender_post_refl [OF i1]]) simp_all
  ultimately show ?thesis by (simp add: on_ack_received_def Let_def)
qed

lemma check_timeouts_post:
  assumes i: "sender_inv hist s"
  shows "sender_post hist s (check_timeouts s t)"
proof (cases "dict_get (unacked_packets s) (base s)")
  case None
  then show ?thesis using sender_post_refl [OF i] by (simp add: check_timeouts_def)
next
  case (Some info)
  have "sender_post hist s (retransmit (back_off s) (base s) info t)"
    by (rule sender_post_weaken [OF retransmit_post [OF sender_inv_back_off [OF i]]])
      (use Some in simp_all)
  then show ?thesis using Some sender_post_refl [OF i]
    by (simp only: check_timeouts_def option.case) simp
qed

text \<open>No operation strands queued data while the peer advertises at least one segment.\<close>

lemma sender_inv_parts:
  assumes "sender_inv hist s"
  shows "history_ok hist" "flight_inv hist s" "cc_inv s"
  using assms by (simp_all add: sender_inv_def)

lemma enqueue_data_not_stalled:
  assumes i: "sender_inv hist s" and "1 \<le> peer_rwnd s"
  shows "not_stalled (fst (enqueue_data s data mid t))"
proof -
  let ?ps = "packets_of hist mid data"
  let ?s' = "s\<lparr>send_buffer := send_buffer s @ ?ps, next_seq := next_seq s + int (length ?ps)\<rparr>"
  have ns: "next_seq s = int (length hist)" using i by (simp add: sender_inv_def flight_inv_def)
  have "history_ok (hist @ ?ps)"
    using history_ok_append [of hist _ "chunks_of data"] sender_inv_parts(1) [OF i]
    by (simp add: packets_of_def chunks_of_length)
  then have "not_stalled (fst (try_send ?s' t))"
    using flight_inv_enqueue [OF sender_inv_parts(2) [OF i], of ?ps] sender_inv_parts(3) [OF i] assms(2)
    by (intro try_send_not_stalled [of "hist @ ?ps"]) (simp_all add: cc_inv_def)
  then show ?thesis by (simp add: enqueue_data_def Let_def packets_of_def ns)
qed

lemma retransmit_not_stalled:
  "not_stalled s \<Longrightarrow> not_stalled (fst (retransmit s q info t))"
  by (auto simp: not_stalled_def retransmit_def Let_def dict_simps)

lemma not_stalled_frame [simp]:
  "not_stalled (s\<lparr>dup_ack_count := n\<rparr>) = not_stalled s" "not_stalled (s\<lparr>peer_rwnd := n\<rparr>) = not_stalled s"
  "not_stalled (enter_fast_recovery s) = not_stalled s" "not_stalled (back_off s) = not_stalled s"
  by (simp_all add: not_stalled_def enter_fast_recovery_def back_off_def Let_def)

lemma on_dup_ack_not_stalled:
  assumes i: "sender_inv hist s" and "1 \<le> peer_rwnd s" "not_stalled s"
  shows "not_stalled (fst (on_dup_ack s t))"
proof -
  let ?s1 = "s\<lparr>dup_ack_count := dup_ack_count s + 1\<rparr>"
  note i3 = sender_inv_parts [OF sender_inv_inflate [of hist ?s1]]
  have "not_stalled (fst (try_send (?s1\<lparr>cwnd := cwnd ?s1 + of_int MSS\<rparr>) t))"
    using i assms(2) by (intro try_send_not_stalled [of hist] i3) (simp_all add: sender_inv_dup_count)
  then show ?thesis
    using assms(3) retransmit_not_stalled [of "enter_fast_recovery ?s1"]
    by (auto simp: on_dup_ack_def Let_def split: option.split)
qed

lemma on_ack_received_not_stalled:
  assumes i: "sender_inv hist s" and a: "ack \<le> sent_count s" and "1 \<le> rw" "not_stalled s"
  shows "not_stalled (fst (on_ack_received s ack rw t))"
proof -
  let ?s1 = "s\<lparr>peer_rwnd := rw\<rparr>"
  have i1: "sender_inv hist ?s1" using i by (simp add: sender_inv_peer_rwnd)
  have "not_stalled (fst (on_new_ack ?s1 ack t))" if "base s < ack"
  proof (rule on_new_ack_try_send [OF i1, of ack t])
    fix s4 assume "on_new_ack ?s1 ack t = try_send s4 t" "sender_inv hist s4" "peer_rwnd s4 = peer_rwnd ?s1"
    then show ?thesis using sender_inv_parts [of hist s4] assms(3) by (simp add: try_send_not_stalled)
  qed (use that a in simp_all)
  moreover have "not_stalled (fst (on_dup_ack ?s1 t))"
    using on_dup_ack_not_stalled [OF i1] assms(3,4) by simp
  ultimately show ?thesis using assms(4) by (simp add: on_ack_received_def Let_def)
qed

lemma check_timeouts_not_stalled: "not_stalled s \<Longrightarrow> not_stalled (fst (check_timeouts s t))"
  using retransmit_not_stalled [of "back_off s"]
  by (auto simp: check_timeouts_def split: option.split)

lemma peer_rwnd_frame:
  "peer_rwnd (fst (retransmit s q info t)) = peer_rwnd s"
  "peer_rwnd (fst (check_timeouts s t)) = peer_rwnd s"
  by (auto simp: retransmit_def check_timeouts_def back_off_def Let_def split: option.split)

text \<open>Only acknowledgements move \<^const>\<open>base\<close>.\<close>

lemma enqueue_data_base: "base (fst (enqueue_data s data mid t)) = base s"
  by (simp add: enqueue_data_def Let_def try_send_base)

lemma check_timeouts_base: "base (fst (check_timeouts s t)) = base s"
  by (auto simp: check_timeouts_def retransmit_def Let_def split: option.split)

lemma on_dup_ack_base: "base (fst (on_dup_ack s t)) = base s"
  by (auto simp: on_dup_ack_def retransmit_def try_send_base Let_def split: option.split)

lemma on_ack_received_base: "base (fst (on_ack_received s a rw t)) = max (base s) a"
  by (auto simp: on_ack_received_def on_new_ack_def on_dup_ack_base try_send_base remove_acked_def Let_def)

section \<open>Runs of the sender\<close>

text \<open>
  \<open>sender_run w hist s ds\<close>: a sender created with window \<open>w\<close> has made the packets \<open>hist\<close>, is in
  state \<open>s\<close> and has put the datagrams \<open>ds\<close> on the network. Acknowledgements cover data that
  was sent and advertise at least one segment, which is what the receiver guarantees.
\<close>

inductive sender_run :: "int \<Rightarrow> RUDPPacket list \<Rightarrow> RUDPSender \<Rightarrow> bytes list \<Rightarrow> bool" for w where
  start: "sender_run w [] (init_sender w) []"
| enqueue: "sender_run w hist s ds \<Longrightarrow> enqueue_data s data mid t = (s', out) \<Longrightarrow>
    sender_run w (hist @ packets_of hist mid data) s' (ds @ out)"
| ack: "sender_run w hist s ds \<Longrightarrow> a \<le> sent_count s \<Longrightarrow> 1 \<le> rw \<Longrightarrow>
    on_ack_received s a rw t = (s', out) \<Longrightarrow> sender_run w hist s' (ds @ out)"
| tick: "sender_run w hist s ds \<Longrightarrow> check_timeouts s t = (s', out) \<Longrightarrow>
    sender_run w hist s' (ds @ out)"

lemma try_send_peer_rwnd: "peer_rwnd (fst (try_send s t)) = peer_rwnd s"
proof (induction "length (send_buffer s)" arbitrary: s rule: less_induct)
  case less
  show ?case
    by (cases rule: try_send_cases [of s t]) (simp_all add: less.hyps)
qed

lemma enqueue_data_peer_rwnd: "peer_rwnd (fst (enqueue_data s data mid t)) = peer_rwnd s"
  by (simp add: enqueue_data_def Let_def try_send_peer_rwnd)

lemma on_ack_received_peer_rwnd: "peer_rwnd (fst (on_ack_received s a rw t)) = rw"
  by (auto simp: on_ack_received_def on_new_ack_def on_dup_ack_def enter_fast_recovery_def Let_def
      remove_acked_def try_send_peer_rwnd peer_rwnd_frame split: option.split)

lemma sender_run_inv:
  assumes "sender_run w hist s ds" "1 \<le> w"
  shows "sender_inv hist s \<and> set ds \<subseteq> wire_of hist (sent_count s) \<and> not_stalled s \<and> 1 \<le> peer_rwnd s"
  using assms
proof (induction rule: sender_run.induct)
  case start
  then show ?case
    using sender_inv_init [of w] by (simp add: not_stalled_def init_sender_def wire_of_def)
next
  case (enqueue hist s ds data mid t s' out)
  let ?hist' = "hist @ packets_of hist mid data"
  have post: "sender_post ?hist' s (s', out)"
    using enqueue_data_post [of hist s mid data t] enqueue by simp
  have "not_stalled s'" using enqueue_data_not_stalled [of hist s data mid t] enqueue by simp
  moreover have "peer_rwnd s' = peer_rwnd s"
    using enqueue_data_peer_rwnd [of s data mid t] enqueue(2) by simp
  moreover have "wire_of hist (sent_count s) \<subseteq> wire_of ?hist' (sent_count s')"
    using post enqueue.IH enqueue.prems flight_sent_count(2) [OF sender_inv_parts(2), of hist s]
      wire_of_append [of "sent_count s" hist] wire_of_mono [of "sent_count s" "sent_count s'" ?hist']
    by (auto simp: sender_post_def)
  ultimately show ?case using post enqueue by (auto simp: sender_post_def)
next
  case (ack hist s ds a rw t s' out)
  have "sender_post hist s (s', out)"
    using on_ack_received_post [of hist s a rw t] ack by simp
  moreover have "not_stalled s'" "peer_rwnd s' = rw"
    using on_ack_received_not_stalled [of hist s a rw t] on_ack_received_peer_rwnd [of s a rw t] ack
    by simp_all
  ultimately show ?case
    using ack wire_of_mono [of "sent_count s" "sent_count s'" hist] by (auto simp: sender_post_def)
next
  case (tick hist s ds t s' out)
  have "sender_post hist s (s', out)" using check_timeouts_post [of hist s t] tick by simp
  moreover have "not_stalled s'" "peer_rwnd s' = peer_rwnd s"
    using check_timeouts_not_stalled [of s t] peer_rwnd_frame(2) [of s t] tick by simp_all
  ultimately show ?case
    using tick wire_of_mono [of "sent_count s" "sent_count s'" hist] by (auto simp: sender_post_def)
qed

lemma transmit_cong: "pack_bytes p = pack_bytes q \<Longrightarrow> snd (transmit p) = snd (transmit q)"
  by (auto simp: transmit_def pack_bytes_def split: sum.splits)

lemma transmit_ok: "pack_bytes p = Inr d \<Longrightarrow> snd (transmit p) = [d]"
  by (auto simp: transmit_def pack_bytes_def split: sum.splits)

lemma outstanding_in_flight:
  assumes "sender_inv hist s" "not_stalled s" "base s < int (length hist)"
  obtains info where "dict_get (unacked_packets s) (base s) = Some info"
    "same_packet (u_packet info) (hist ! nat (base s))"
proof -
  note f = sender_inv_parts(2) [OF assms(1)]
  have "send_buffer s = [] \<Longrightarrow> sent_count s = int (length hist)"
    using f by (simp add: flight_inv_def sent_count_def)
  then have "dict_has (unacked_packets s) (base s)"
    using assms(2,3) flight_keys(2) [OF f, of "base s"] by (auto simp: not_stalled_def)
  then obtain info where g: "dict_get (unacked_packets s) (base s) = Some info"
    by (auto simp: dict_has_def)
  then have "(base s, info) \<in> set (unacked_packets s)" by (rule map_of_SomeD)
  then have "same_packet (u_packet info) (hist ! nat (base s))" using f by (auto simp: flight_inv_def)
  with g that show ?thesis by blast
qed

section \<open>Properties\<close>

text \<open>
  Fragmentation and reassembly are inverse: the packets made for a message, reassembled in
  order, give back exactly that message and nothing else, whatever its length; none carries more
  than 1200 bytes of payload, and their sequence numbers are consecutive.
\<close>

theorem fragmentation_round_trip:
  "reassemble (map frag (make_packets seq mid 0 (chunks_of data))) = ([data], []) \<and>
   list_all (\<lambda>p. length (payload p) \<le> 1200) (make_packets seq mid 0 (chunks_of data)) \<and>
   map seq_num (make_packets seq mid 0 (chunks_of data)) =
     map (\<lambda>i. seq + int i) [0..<length (chunks_of data)]"
proof (intro conjI)
  show "reassemble (map frag (make_packets seq mid 0 (chunks_of data))) = ([data], [])"
    using reassemble_make_packets [OF chunks_of_not_Nil, of "[]" "[]"]
    by (simp add: reassemble_def concat_chunks_of)
  show "list_all (\<lambda>p. length (payload p) \<le> 1200) (make_packets seq mid 0 (chunks_of data))"
    using chunks_of_length [of _ data]
    by (simp add: list_all_length make_packets_nth mss_eq)
  show "map seq_num (make_packets seq mid 0 (chunks_of data)) =
     map (\<lambda>i. seq + int i) [0..<length (chunks_of data)]"
    by (rule nth_equalityI) (simp_all add: make_packets_nth)
qed

text \<open>
  C21. The invariant of the sender, in every state that enqueued messages, acknowledgements of
  sent data and timer ticks can produce: the packets in flight are exactly those numbered from
  \<^verbatim>\<open>base\<close> to the last one sent, the in-flight byte counter is the sum of their payloads, the
  packets not yet sent are the rest of the history, the congestion window is at least one MSS,
  the threshold at least two, the retransmission timeout lies between 0.1 and 4 seconds, and only
  datagrams of packets that the sender made are on the network.
\<close>

theorem sender_invariant:
  assumes "sender_run w hist s ds" "1 \<le> w"
  shows "map fst (unacked_packets s) = [base s..sent_count s - 1] \<and>
    inflight_bytes s = sum_list (map (\<lambda>(q, info). int (length (payload (u_packet info)))) (unacked_packets s)) \<and>
    send_buffer s = drop (nat (sent_count s)) hist \<and> next_seq s = int (length hist) \<and>
    of_int MSS \<le> cwnd s \<and> 2 * of_int MSS \<le> ssthresh s \<and> 0.1 \<le> rto s \<and> rto s \<le> 4 \<and>
    set ds \<subseteq> wire_of hist (sent_count s)"
  using sender_run_inv [OF assms]
  by (simp add: sender_inv_def flight_inv_def cc_inv_def inflight_of_def payload_len_of_def)

definition sample_sender :: RUDPSender where
  "sample_sender = fst (enqueue_data (init_sender 64) [1, 2, 3] 7 0)"

definition sample_history :: "RUDPPacket list" where
  "sample_history = packets_of [] 7 [1, 2, 3]"

lemma sample_run: "sender_run 64 sample_history sample_sender (snd (enqueue_data (init_sender 64) [1, 2, 3] 7 0))"
  using sender_run.enqueue [OF sender_run.start, of 64 "[1, 2, 3]" 7 0]
  by (simp add: sample_history_def sample_sender_def)

lemma sample_history_eq: "sample_history =
  [\<lparr>seq_num = 0, ack_num = 0, flags = FLAG_FIN, rwnd = 0, checksum = 0, msg_id = Some 7,
    offset = Some 0, payload = [1, 2, 3]\<rparr>]"
  by (simp add: sample_history_def packets_of_def chunks_of_def mss_eq)

lemma sample_sender_props:
  "base sample_sender = 0" "length (unacked_packets sample_sender) = 1" "sent_count sample_sender = 1"
proof -
  show b: "base sample_sender = 0" and n: "length (unacked_packets sample_sender) = 1"
    by (simp_all add: sample_sender_def enqueue_data_def init_sender_def Let_def chunks_of_def mss_eq
        try_send.simps INITIAL_CWND_def MSS_def payload_len_of_def)
  show "sent_count sample_sender = 1"
    using flight_keys(3) [OF sender_inv_parts(2)] sender_run_inv [OF sample_run] b n by fastforce
qed

theorem sender_invariant_witness:
  "sender_run 64 sample_history sample_sender (snd (enqueue_data (init_sender 64) [1, 2, 3] 7 0)) \<and>
   map fst (unacked_packets sample_sender) = [0] \<and> inflight_bytes sample_sender =
     sum_list (map (\<lambda>(q, info). int (length (payload (u_packet info)))) (unacked_packets sample_sender)) \<and>
   send_buffer sample_sender = []"
  using sender_invariant [OF sample_run] sample_run sample_sender_props
  by (simp add: sample_history_eq)

text \<open>
  C30. The sliding window: a pass of the send loop that puts anything in flight leaves at most
  \<^verbatim>\<open>min(max(1, cwnd // MSS), peer_rwnd)\<close> packets and at most \<^verbatim>\<open>cwnd\<close> payload bytes in flight.
\<close>

theorem send_loop_respects_windows:
  assumes "sender_inv hist s"
  shows "unacked_packets (fst (try_send s t)) = unacked_packets s \<or>
    (int (length (unacked_packets (fst (try_send s t)))) \<le>
       min (max 1 \<lfloor>cwnd s / of_int MSS\<rfloor>) (peer_rwnd s) \<and>
     of_int (inflight_bytes (fst (try_send s t))) \<le> cwnd s)"
  by (rule try_send_bounds [OF sender_inv_parts [OF assms]]) simp

definition queued_sender :: RUDPSender where
  "queued_sender = (init_sender 1)\<lparr>send_buffer := make_packets 0 7 0 [[1], [2]], next_seq := 2\<rparr>"

lemma queued_sender_inv: "sender_inv (make_packets 0 7 0 [[1], [2]]) queued_sender"
proof -
  let ?ps = "make_packets 0 7 0 [[1], [2]]"
  note i = sender_inv_parts [OF sender_inv_init [of 1]]
  have "queued_sender = (init_sender 1)\<lparr>send_buffer := send_buffer (init_sender 1) @ ?ps,
      next_seq := next_seq (init_sender 1) + int (length ?ps)\<rparr>"
    by (simp add: queued_sender_def init_sender_def)
  then have "flight_inv ([] @ ?ps) queued_sender" using flight_inv_enqueue [OF i(2), of ?ps] by simp
  moreover have "history_ok ([] @ ?ps)" by (rule history_ok_append [OF i(1)]) (simp_all add: mss_eq)
  moreover have "cc_inv queued_sender" using i(3) by (simp add: queued_sender_def cc_inv_def)
  ultimately show ?thesis by (simp add: sender_inv_def)
qed

theorem send_loop_respects_windows_witness:
  "sender_inv (make_packets 0 7 0 [[1], [2]]) queued_sender \<and>
   unacked_packets (fst (try_send queued_sender 0)) \<noteq> unacked_packets queued_sender \<and>
   int (length (unacked_packets (fst (try_send queued_sender 0)))) \<le> 1"
proof -
  have p: "peer_rwnd queued_sender = 1" by (simp add: queued_sender_def init_sender_def)
  have n: "unacked_packets (fst (try_send queued_sender 0)) \<noteq> unacked_packets queued_sender"
    by (simp add: queued_sender_def init_sender_def try_send.simps [of _ 0] Let_def INITIAL_CWND_def
        MSS_def payload_len_of_def)
  from send_loop_respects_windows [OF queued_sender_inv, of 0] n p queued_sender_inv show ?thesis
    by (simp add: min_def split: if_splits)
qed

text \<open>
  The retransmission timer never strands data: while some packet is not acknowledged, the
  oldest such packet is in flight, and every tick that comes 4 seconds or more after its last
  transmission sends exactly that packet's datagram again.
\<close>

theorem timer_retransmits_oldest:
  assumes "sender_run w hist s ds" "1 \<le> w" "base s < int (length hist)"
    and "pack_bytes (hist ! nat (base s)) = Inr d"
  shows "\<exists>info. dict_get (unacked_packets s) (base s) = Some info \<and>
    (\<forall>t. sent_time info + 4 \<le> t \<longrightarrow> snd (check_timeouts s t) = [d])"
proof -
  note i = sender_run_inv [OF assms(1,2)]
  obtain info where g: "dict_get (unacked_packets s) (base s) = Some info"
    and sp: "same_packet (u_packet info) (hist ! nat (base s))"
    using outstanding_in_flight [of hist s] i assms(3) by blast
  have "rto s \<le> 4" using i by (simp add: sender_inv_def cc_inv_def)
  moreover have "snd (transmit (u_packet info)) = [d]"
    using transmit_ok assms(4) same_packet_pack_bytes [OF sp] by simp
  ultimately have "snd (check_timeouts s t) = [d]" if "sent_time info + 4 \<le> t" for t
    using g that by (cases "unacked_packets s") (auto simp: check_timeouts_def retransmit_def Let_def)
  with g show ?thesis by blast
qed

theorem timer_retransmits_oldest_witness:
  "\<exists>info d. pack_bytes (hd sample_history) = Inr d \<and>
     dict_get (unacked_packets sample_sender) 0 = Some info \<and>
     snd (check_timeouts sample_sender (sent_time info + 4)) = [d]"
proof -
  have "packet_ok (hd sample_history)"
    by (simp add: sample_history_eq packet_ok_def layout_defs fits_def FLAG_FIN_def)
  then obtain d where d: "pack_bytes (hd sample_history) = Inr d" using pack_bytes_ok by blast
  moreover have "hd sample_history = sample_history ! nat (base sample_sender)"
    by (simp add: sample_history_eq sample_sender_props)
  ultimately show ?thesis
    using timer_retransmits_oldest [OF sample_run, of d] sample_sender_props
    by (auto simp: sample_history_eq)
qed

definition dup_ack :: "RUDPSender \<Rightarrow> int \<Rightarrow> real \<Rightarrow> RUDPSender \<times> bytes list" where
  "dup_ack s rw t = on_ack_received s (base s) rw t"

lemma dup_ack_quiet:
  assumes "last_ack_received s = base s" "dup_ack_count s < 2" "dup_ack_count s \<ge> 0"
  shows "dup_ack s rw t = (s\<lparr>peer_rwnd := rw, dup_ack_count := dup_ack_count s + 1\<rparr>, [])"
  using assms by (simp add: dup_ack_def on_ack_received_def on_dup_ack_def Let_def)

text \<open>
  Fast retransmit: from a state outside fast recovery with a fresh duplicate counter and
  data in flight, the first two duplicate acknowledgements send nothing, and the third sends
  exactly the oldest unacknowledged packet, halves the window into the threshold (not below two
  MSS) and inflates the window by three MSS.
\<close>

theorem third_duplicate_ack_retransmits:
  assumes "sender_inv hist s" "dup_ack_count s = 0" "cc_state s \<noteq> CC_FAST_RECOVERY"
    and "base s < sent_count s" "pack_bytes (hist ! nat (base s)) = Inr d"
    and "dup_ack s rw1 t1 = (s1, out1)" "dup_ack s1 rw2 t2 = (s2, out2)" "dup_ack s2 rw3 t3 = (s3, out3)"
  shows "out1 = [] \<and> out2 = [] \<and> out3 = [d] \<and> cc_state s3 = CC_FAST_RECOVERY \<and>
    ssthresh s3 = max (cwnd s / 2) (2 * of_int MSS) \<and> cwnd s3 = ssthresh s3 + 3 * of_int MSS \<and>
    base s3 = base s"
proof -
  have la: "last_ack_received s = base s" using assms(1) by (simp add: sender_inv_def flight_inv_def)
  have s1: "s1 = s\<lparr>peer_rwnd := rw1, dup_ack_count := 1\<rparr>" "out1 = []"
    using dup_ack_quiet [OF la] assms(2,6) by simp_all
  have s2: "s2 = s\<lparr>peer_rwnd := rw2, dup_ack_count := 2\<rparr>" "out2 = []"
    using dup_ack_quiet [of s1] la assms(7) by (simp_all add: s1(1))
  note f = sender_inv_parts(2) [OF assms(1)]
  have "not_stalled s" using flight_keys(2) [OF f] assms(4) by (simp add: not_stalled_def)
  moreover have "base s < int (length hist)" using flight_sent_count(2) [OF f] assms(4) by simp
  ultimately obtain info where g: "dict_get (unacked_packets s) (base s) = Some info"
    and sp: "same_packet (u_packet info) (hist ! nat (base s))"
    using outstanding_in_flight [OF assms(1)] by blast
  have d: "snd (transmit (u_packet info)) = [d]"
    using transmit_ok assms(5) same_packet_pack_bytes [OF sp] by simp
  have "dup_ack s2 rw3 t3 =
      retransmit (enter_fast_recovery (s2\<lparr>peer_rwnd := rw3, dup_ack_count := 3\<rparr>)) (base s) info t3"
    using la g assms(3) by (simp add: dup_ack_def on_ack_received_def on_dup_ack_def Let_def s2(1))
  then show ?thesis
    using assms(8) d s1(2) s2(2) by (auto simp: retransmit_def enter_fast_recovery_def Let_def s2(1))
qed

theorem third_duplicate_ack_retransmits_witness:
  "\<exists>d s1 s2 s3. pack_bytes (hd sample_history) = Inr d \<and> dup_ack sample_sender 64 1 = (s1, []) \<and>
     dup_ack s1 64 2 = (s2, []) \<and> dup_ack s2 64 3 = (s3, [d]) \<and> cwnd s3 = 6000"
proof -
  have "packet_ok (hd sample_history)"
    by (simp add: sample_history_eq packet_ok_def layout_defs fits_def FLAG_FIN_def)
  then obtain d where d: "pack_bytes (hd sample_history) = Inr d" using pack_bytes_ok by blast
  obtain s1 o1 where r1: "dup_ack sample_sender 64 1 = (s1, o1)" by fastforce
  obtain s2 o2 where r2: "dup_ack s1 64 2 = (s2, o2)" by fastforce
  obtain s3 o3 where r3: "dup_ack s2 64 3 = (s3, o3)" by fastforce
  have i: "sender_inv sample_history sample_sender" using sender_run_inv [OF sample_run] by simp
  have c: "dup_ack_count sample_sender = 0" "cc_state sample_sender = CC_SLOW_START"
      "cwnd sample_sender = 1200"
    by (simp_all add: sample_sender_def enqueue_data_def init_sender_def Let_def chunks_of_def mss_eq
        try_send.simps INITIAL_CWND_def MSS_def payload_len_of_def)
  from third_duplicate_ack_retransmits [OF i c(1) _ _ _ r1 r2 r3, of d] c(2,3) sample_sender_props d r1 r2 r3
  show ?thesis by (simp add: sample_history_eq MSS_def)
qed

lemma try_send_timer:
  "srtt (fst (try_send s t)) = srtt s \<and> rttvar (fst (try_send s t)) = rttvar s \<and>
   rto (fst (try_send s t)) = rto s"
proof (induction "length (send_buffer s)" arbitrary: s rule: less_induct)
  case less
  show ?case
  proof (cases rule: try_send_cases [of s t])
    case (3 p rest)
    then show ?thesis using less.hyps [of "send_one s p rest t"] by (simp add: send_one_def)
  qed simp_all
qed

text \<open>
  Karn's rule: an acknowledgement whose highest covered packet was ever retransmitted leaves
  the smoothed RTT, its variance and the (backed-off) timeout as they were.
\<close>

theorem karn_ignores_retransmitted:
  assumes "base s < ack" "dict_get (unacked_packets s) (ack - 1) = Some info" "is_retransmitted info"
  shows "srtt (fst (on_ack_received s ack rw t)) = srtt s \<and>
    rttvar (fst (on_ack_received s ack rw t)) = rttvar s \<and>
    rto (fst (on_ack_received s ack rw t)) = rto s"
proof -
  have "dict_get (filter (\<lambda>(q, _). q < ack) (unacked_packets s)) (ack - 1) = Some info"
    using assms(2) by (simp add: map_of_filter_key)
  with assms show ?thesis
    by (simp add: on_ack_received_def on_new_ack_def measure_rtt_def Let_def try_send_timer
        grow_window_def remove_acked_def split: CCState.split)
qed

theorem karn_ignores_retransmitted_witness:
  "let s = (init_sender 64)\<lparr>rto := 2, srtt := Some 1, rttvar := Some (1 / 4), unacked_packets :=
       [(0, \<lparr>u_packet = data_segment 0 [1] True, sent_time = 0, is_retransmitted = True\<rparr>)]\<rparr>
   in base s < 1 \<and> rto (fst (on_ack_received s 1 64 9)) = 2 \<and> srtt (fst (on_ack_received s 1 64 9)) = Some 1"
proof -
  let ?s = "(init_sender 64)\<lparr>rto := 2, srtt := Some 1, rttvar := Some (1 / 4), unacked_packets :=
       [(0, \<lparr>u_packet = data_segment 0 [1] True, sent_time = 0, is_retransmitted = True\<rparr>)]\<rparr>"
  have b: "base ?s < 1" by (simp add: init_sender_def)
  have "dict_get (unacked_packets ?s) (1 - 1) =
      Some \<lparr>u_packet = data_segment 0 [1] True, sent_time = 0, is_retransmitted = True\<rparr>" by simp
  from karn_ignores_retransmitted [OF b this, of 64 9] b show ?thesis by (simp add: Let_def)
qed

end
