(* ===== verification/FailureSim.thy ===== *)
theory FailureSim
  imports Prelude
begin

text \<open>
  The failure-injection engine, \<^verbatim>\<open>src/simulations/failure_engine.py\<close>. Each call of
  \<^verbatim>\<open>random.random()\<close> is an argument \<open>u\<close>; an outbound datagram becomes the list of
  transmissions, each with the delay in milliseconds after which it is made.
\<close>

record FailureEngine =
  drop_rate :: real
  latency_ms :: int
  dup_rate :: real

definition make_FailureEngine :: "real \<Rightarrow> int \<Rightarrow> real \<Rightarrow> FailureEngine" where
  "make_FailureEngine dr latency du =
     \<lparr>drop_rate = max 0 (min 1 dr), latency_ms = max 0 latency, dup_rate = max 0 (min 1 du)\<rparr>"

text \<open>The failure engine that the flags \<^verbatim>\<open>--loss\<close>, \<^verbatim>\<open>--latency\<close> and \<^verbatim>\<open>--dup\<close> ask for, in both entry points.\<close>

definition engine_of_flags :: "int \<Rightarrow> int \<Rightarrow> int \<Rightarrow> FailureEngine option" where
  "engine_of_flags loss latency dup =
     (if loss > 0 \<or> latency > 0 \<or> dup > 0
      then Some (make_FailureEngine (of_int loss / 100) latency (of_int dup / 100)) else None)"

definition should_drop_inbound :: "FailureEngine \<Rightarrow> real \<Rightarrow> bool" where
  "should_drop_inbound e u \<longleftrightarrow> drop_rate e > 0 \<and> u < drop_rate e"

definition apply_outbound :: "FailureEngine \<Rightarrow> real \<Rightarrow> bytes \<Rightarrow> (int \<times> bytes) list" where
  "apply_outbound e u data =
     (if dup_rate e > 0 \<and> u < dup_rate e then [(0, data)] else []) @
     (if latency_ms e > 0 then [(latency_ms e, data)] else [(0, data)])"

text \<open>An optional engine, as the transports hold it.\<close>

definition dropped :: "FailureEngine option \<Rightarrow> real \<Rightarrow> bool" where
  "dropped fe u \<longleftrightarrow> (case fe of None \<Rightarrow> False | Some e \<Rightarrow> should_drop_inbound e u)"

definition outbound :: "FailureEngine option \<Rightarrow> real \<Rightarrow> bytes \<Rightarrow> (int \<times> bytes) list" where
  "outbound fe u data = (case fe of None \<Rightarrow> [(0, data)] | Some e \<Rightarrow> apply_outbound e u data)"

lemma outbound_copies:
  "set (map snd (outbound fe u data)) = {data}"
  by (auto simp: outbound_def apply_outbound_def split: option.split)

section \<open>Properties\<close>

text \<open>
  The engine never invents or alters traffic: an outbound datagram is transmitted once or
  twice, unchanged, never in the past; with zero rates and zero latency the engine is transparent
  in both directions, and a drop rate of at least 1 discards every inbound datagram.
\<close>

theorem failure_engine_faithful:
  "set (map snd (apply_outbound (make_FailureEngine dr l du) u data)) = {data} \<and>
   length (apply_outbound (make_FailureEngine dr l du) u data) \<in> {1, 2} \<and>
   list_all (\<lambda>(delay, _). 0 \<le> delay) (apply_outbound (make_FailureEngine dr l du) u data) \<and>
   apply_outbound (make_FailureEngine dr 0 0) u data = [(0, data)] \<and>
   \<not> should_drop_inbound (make_FailureEngine 0 l du) u \<and>
   should_drop_inbound (make_FailureEngine (1 + \<bar>dr\<bar>) l du) (frac u)"
proof -
  have "frac u < 1" by (rule frac_lt_1)
  then show ?thesis
    by (auto simp: apply_outbound_def make_FailureEngine_def should_drop_inbound_def)
qed

end
