(* ===== verification/RudpTransport.thy ===== *)
theory RudpTransport
  imports RudpSender FailureSim
begin

text \<open>
  The two transports, \<^verbatim>\<open>src/client/transport/rudp_client.py\<close> and
  \<^verbatim>\<open>src/server/transport/rudp_server.py\<close>: the demultiplexing of a datagram between the
  sender and the receiver of a connection, one iteration of each receive loop, the table of
  connections that the server keeps by peer address, and the application-facing \<^verbatim>\<open>send\<close>. A call
  returns the new state, the messages handed to the application and the datagrams handed to the
  socket. Shown: the server keeps its peers isolated from one another, and neither loop changes
  anything on a datagram that does not parse.
\<close>

section \<open>One connection\<close>

type_synonym endpoint = "RUDPSender \<times> RUDPReceiver"

record RUDPConnection =
  con_endpoint :: endpoint
  last_seen :: real

definition new_endpoint :: endpoint where
  "new_endpoint = (init_sender MAX_RWND, init_receiver)"

definition new_connection :: "real \<Rightarrow> RUDPConnection" where
  "new_connection t = \<lparr>con_endpoint = new_endpoint, last_seen = t\<rparr>"

definition ack_packet :: "int \<Rightarrow> int \<Rightarrow> int \<Rightarrow> RUDPPacket" where
  "ack_packet a rw f = \<lparr>seq_num = 0, ack_num = a, flags = f, rwnd = rw, checksum = 0,
     msg_id = None, offset = None, payload = []\<rparr>"

text \<open>
  The routing of a parsed packet, the same code in both transports: acknowledgements to the
  sender, data to the receiver followed by an acknowledgement. The last component is the
  exception that \<^verbatim>\<open>ack_packet.pack()\<close> raises when the number does not fit 32 bits.
\<close>

definition demultiplex ::
  "endpoint \<Rightarrow> RUDPPacket \<Rightarrow> real \<Rightarrow> endpoint \<times> bytes list \<times> bytes list \<times> py_error option" where
  "demultiplex ep packet current_time =
     (let (s1, out1) = (if is_ack packet
                        then on_ack_received (fst ep) (ack_num packet) (rwnd packet) current_time
                        else (fst ep, []))
      in if has_data packet
         then (let (r1, msgs, (a, rw, f)) = process_segment (snd ep) packet
               in case pack_bytes (ack_packet a rw f) of
                    Inl e \<Rightarrow> ((s1, r1), msgs, out1, Some e)
                  | Inr d \<Rightarrow> ((s1, r1), msgs, out1 @ [d], None))
         else ((s1, snd ep), [], out1, None))"

definition endpoint_tick :: "endpoint \<Rightarrow> real \<Rightarrow> endpoint \<times> bytes list" where
  "endpoint_tick ep t = (let (s, out) = check_timeouts (fst ep) t in ((s, snd ep), out))"

section \<open>The client transport\<close>

text \<open>
  \<open>cl_open\<close>: the socket is open. \<open>cl_running\<close>: the receive thread runs. An exception that
  escapes the loop body ends that thread.
\<close>

record RUDPClientTransport =
  cl_endpoint :: endpoint
  cl_open :: bool
  cl_running :: bool

definition new_client :: RUDPClientTransport where
  "new_client = \<lparr>cl_endpoint = new_endpoint, cl_open = True, cl_running = False\<rparr>"

definition client_start :: "RUDPClientTransport \<Rightarrow> RUDPClientTransport" where
  "client_start c = c\<lparr>cl_running := True\<rparr>"

definition client_close :: "RUDPClientTransport \<Rightarrow> RUDPClientTransport" where
  "client_close c = c\<lparr>cl_running := False, cl_open := False\<rparr>"

definition client_raw :: "RUDPClientTransport \<Rightarrow> bytes list \<Rightarrow> bytes list" where
  "client_raw c ds = (if cl_open c then ds else [])"

definition client_send ::
  "RUDPClientTransport \<Rightarrow> bytes \<Rightarrow> int \<Rightarrow> real \<Rightarrow> RUDPClientTransport \<times> bytes list" where
  "client_send c data request_id t =
     (let (s, out) = enqueue_data (fst (cl_endpoint c)) data request_id t
      in (c\<lparr>cl_endpoint := (s, snd (cl_endpoint c))\<rparr>, client_raw c out))"

text \<open>
  One iteration of \<^verbatim>\<open>_receive_loop\<close>: \<open>data\<close> is what \<^verbatim>\<open>recv\<close> returned (\<open>None\<close> on a
  timeout or a socket error), \<open>lost\<close> the decision of the failure engine, \<open>t\<close> the clock at the
  start and \<open>t'\<close> at the final tick.
\<close>

definition client_iteration ::
  "RUDPClientTransport \<Rightarrow> bytes option \<Rightarrow> bool \<Rightarrow> real \<Rightarrow> real
    \<Rightarrow> RUDPClientTransport \<times> bytes list \<times> bytes list" where
  "client_iteration c data lost t t' =
     (let (ep, msgs, out, err) =
            (case data of
               None \<Rightarrow> (cl_endpoint c, [], [], None)
             | Some d \<Rightarrow>
                 if d = [] \<or> lost then (cl_endpoint c, [], [], None)
                 else (case unpack d of
                         Inl e \<Rightarrow> (cl_endpoint c, [], [], if is_ValueError e then None else Some e)
                       | Inr packet \<Rightarrow>
                           (let (ep, msgs, out, err) = demultiplex (cl_endpoint c) packet t
                            in (ep, msgs, out, case err of
                                  Some e \<Rightarrow> if is_ValueError e then None else Some e
                                | None \<Rightarrow> None))))
      in if err = None
         then (let (ep', out') = endpoint_tick ep t'
               in (c\<lparr>cl_endpoint := ep'\<rparr>, msgs, client_raw c (out @ out')))
         else (c\<lparr>cl_endpoint := ep, cl_running := False\<rparr>, msgs, client_raw c out))"

section \<open>The server transport\<close>

record RUDPServerTransport =
  connections :: "(addr, RUDPConnection) dict"
  sock_open :: bool
  srv_running :: bool

definition new_server :: RUDPServerTransport where
  "new_server = \<lparr>connections = [], sock_open = False, srv_running = False\<rparr>"

definition server_start :: "RUDPServerTransport \<Rightarrow> RUDPServerTransport" where
  "server_start sv = sv\<lparr>sock_open := True, srv_running := True\<rparr>"

definition server_close :: "RUDPServerTransport \<Rightarrow> RUDPServerTransport" where
  "server_close sv = sv\<lparr>srv_running := False, sock_open := False\<rparr>"

text \<open>\<^verbatim>\<open>send_raw_packet\<close>: nothing leaves without a socket.\<close>

definition server_raw :: "RUDPServerTransport \<Rightarrow> addr \<Rightarrow> bytes list \<Rightarrow> (addr \<times> bytes) list" where
  "server_raw sv a ds = (if sock_open sv then map (Pair a) ds else [])"

text \<open>\<^verbatim>\<open>if addr not in self.connections\<close>: the connection of a peer, created on first contact.\<close>

definition ensure_connection :: "RUDPServerTransport \<Rightarrow> addr \<Rightarrow> real \<Rightarrow> RUDPServerTransport" where
  "ensure_connection sv a t =
     (if dict_has (connections sv) a then sv
      else sv\<lparr>connections := dict_set a (new_connection t) (connections sv)\<rparr>)"

definition server_send ::
  "RUDPServerTransport \<Rightarrow> bytes \<Rightarrow> int \<Rightarrow> addr \<Rightarrow> real \<Rightarrow> RUDPServerTransport \<times> (addr \<times> bytes) list" where
  "server_send sv data request_id a t =
     (let sv1 = ensure_connection sv a t
      in case dict_get (connections sv1) a of
           None \<Rightarrow> (sv1, [])
         | Some conn \<Rightarrow>
             (let (s, out) = enqueue_data (fst (con_endpoint conn)) data request_id t
              in (sv1\<lparr>connections := dict_set a
                     (conn\<lparr>con_endpoint := (s, snd (con_endpoint conn))\<rparr>) (connections sv1)\<rparr>,
                  server_raw sv1 a out)))"

definition handle_datagram ::
  "RUDPServerTransport \<Rightarrow> bytes \<Rightarrow> addr \<Rightarrow> real
    \<Rightarrow> RUDPServerTransport \<times> (addr \<times> bytes) list \<times> (addr \<times> bytes) list \<times> py_error option" where
  "handle_datagram sv data a current_time =
     (case unpack data of
        Inl e \<Rightarrow> (sv, [], [], if is_ValueError e then None else Some e)
      | Inr packet \<Rightarrow>
          (let sv1 = ensure_connection sv a current_time
           in case dict_get (connections sv1) a of
                None \<Rightarrow> (sv1, [], [], None)
              | Some conn \<Rightarrow>
                  (let (ep, msgs, out, err) = demultiplex (con_endpoint conn) packet current_time
                   in (sv1\<lparr>connections :=
                          dict_set a \<lparr>con_endpoint = ep, last_seen = current_time\<rparr> (connections sv1)\<rparr>,
                       map (Pair a) msgs, server_raw sv1 a out, err))))"

fun tick_all ::
  "(addr, RUDPConnection) dict \<Rightarrow> real \<Rightarrow> (addr, RUDPConnection) dict \<times> (addr \<times> bytes) list" where
  "tick_all [] t = ([], [])"
| "tick_all ((a, conn) # cs) t =
     (let (ep, out) = endpoint_tick (con_endpoint conn) t;
          (cs', outs) = tick_all cs t
      in ((a, conn\<lparr>con_endpoint := ep\<rparr>) # cs', map (Pair a) out @ outs))"

definition tick_connections ::
  "RUDPServerTransport \<Rightarrow> real \<Rightarrow> RUDPServerTransport \<times> (addr \<times> bytes) list" where
  "tick_connections sv t =
     (let (cs, outs) = tick_all (connections sv) t
      in (sv\<lparr>connections := cs\<rparr>, if sock_open sv then outs else []))"

text \<open>
  One iteration of the server's \<^verbatim>\<open>_receive_loop\<close>; an exception that escapes it is caught by
  \<^verbatim>\<open>start\<close>, which closes the transport.
\<close>

definition server_iteration ::
  "RUDPServerTransport \<Rightarrow> (addr \<times> bytes) option \<Rightarrow> bool \<Rightarrow> real \<Rightarrow> real
    \<Rightarrow> RUDPServerTransport \<times> (addr \<times> bytes) list \<times> (addr \<times> bytes) list" where
  "server_iteration sv arrival lost t t' =
     (let (sv1, msgs, out, err) =
            (case arrival of
               None \<Rightarrow> (sv, [], [], None)
             | Some (a, d) \<Rightarrow>
                 if d = [] \<or> lost then (sv, [], [], None) else handle_datagram sv d a t)
      in if err = None
         then (let (sv2, out') = tick_connections sv1 t' in (sv2, msgs, out @ out'))
         else (server_close sv1, msgs, out))"

section \<open>The server seen from one peer\<close>

text \<open>
  The endpoint that the server has, or would create, for a peer. Each operation of the server is
  an operation on the endpoint of one peer, or the same operation on all of them.
\<close>

definition endpoint_of :: "RUDPServerTransport \<Rightarrow> addr \<Rightarrow> endpoint" where
  "endpoint_of sv a =
     (case dict_get (connections sv) a of None \<Rightarrow> new_endpoint | Some conn \<Rightarrow> con_endpoint conn)"

definition sends_to :: "(addr \<times> bytes) list \<Rightarrow> addr \<Rightarrow> bytes list" where
  "sends_to xs a = map snd (filter (\<lambda>x. fst x = a) xs)"

lemma sends_to_simps [simp]:
  "sends_to [] a = []" "sends_to (xs @ ys) a = sends_to xs a @ sends_to ys a"
  "sends_to (map (Pair b) ds) a = (if a = b then ds else [])"
  by (auto simp: sends_to_def o_def filter_map)

lemma set_sends_to: "d \<in> set (sends_to xs a) \<longleftrightarrow> (a, d) \<in> set xs"
  by (force simp: sends_to_def)

lemma ensure_connection_props:
  "endpoint_of (ensure_connection sv a t) b = endpoint_of sv b"
  "\<exists>conn. dict_get (connections (ensure_connection sv a t)) a = Some conn \<and> con_endpoint conn = endpoint_of sv a"
  "sock_open (ensure_connection sv a t) = sock_open sv"
  "srv_running (ensure_connection sv a t) = srv_running sv"
  "dict_ok (connections sv) \<Longrightarrow> dict_ok (connections (ensure_connection sv a t))"
  by (auto simp: endpoint_of_def ensure_connection_def dict_has_def map_of_update new_connection_def
      split: option.splits)

lemma server_send_props:
  assumes "server_send sv data rid a t = (sv', out)"
    and "enqueue_data (fst (endpoint_of sv a)) data rid t = (s', ds)"
  shows "endpoint_of sv' b = (if b = a then (s', snd (endpoint_of sv a)) else endpoint_of sv b)"
    and "sends_to out b = (if b = a \<and> sock_open sv then ds else [])"
    and "dict_ok (connections sv) \<Longrightarrow> dict_ok (connections sv')"
    and "sock_open sv' = sock_open sv" and "srv_running sv' = srv_running sv"
proof -
  let ?sv1 = "ensure_connection sv a t"
  note e = ensure_connection_props [of sv a t]
  obtain conn where c: "dict_get (connections ?sv1) a = Some conn" "con_endpoint conn = endpoint_of sv a"
    using e(2) by blast
  have r: "sv' = ?sv1\<lparr>connections := dict_set a (conn\<lparr>con_endpoint := (s', snd (endpoint_of sv a))\<rparr>)
      (connections ?sv1)\<rparr>" "out = server_raw ?sv1 a ds"
    using assms by (simp_all add: server_send_def Let_def c)
  show "endpoint_of sv' b = (if b = a then (s', snd (endpoint_of sv a)) else endpoint_of sv b)"
    using e(1) [of b] by (simp add: r(1) endpoint_of_def map_of_update)
  show "sends_to out b = (if b = a \<and> sock_open sv then ds else [])"
    by (simp add: r(2) server_raw_def e(3))
  show "dict_ok (connections sv')" if "dict_ok (connections sv)" using e(5) [OF that] by (simp add: r(1))
  show "sock_open sv' = sock_open sv" "srv_running sv' = srv_running sv" by (simp_all add: r(1) e)
qed

lemma handle_datagram_props:
  assumes "handle_datagram sv d a t = (sv', msgs, out, err)" and "unpack d = Inr p"
    and "demultiplex (endpoint_of sv a) p t = (ep, ms, ds, er)"
  shows "endpoint_of sv' b = (if b = a then ep else endpoint_of sv b)"
    and "sends_to msgs b = (if b = a then ms else [])"
    and "sends_to out b = (if b = a \<and> sock_open sv then ds else [])" and "err = er"
    and "dict_ok (connections sv) \<Longrightarrow> dict_ok (connections sv')"
    and "sock_open sv' = sock_open sv" and "srv_running sv' = srv_running sv"
proof -
  let ?sv1 = "ensure_connection sv a t"
  note e = ensure_connection_props [of sv a t]
  obtain conn where c: "dict_get (connections ?sv1) a = Some conn" "con_endpoint conn = endpoint_of sv a"
    using e(2) by blast
  have r: "sv' = ?sv1\<lparr>connections := dict_set a \<lparr>con_endpoint = ep, last_seen = t\<rparr> (connections ?sv1)\<rparr>"
    "msgs = map (Pair a) ms" "out = server_raw ?sv1 a ds" "err = er"
    using assms by (simp_all add: handle_datagram_def Let_def c)
  show "endpoint_of sv' b = (if b = a then ep else endpoint_of sv b)"
    using e(1) [of b] by (simp add: r(1) endpoint_of_def map_of_update)
  show "sends_to msgs b = (if b = a then ms else [])" by (simp add: r(2))
  show "sends_to out b = (if b = a \<and> sock_open sv then ds else [])"
    by (simp add: r(3) server_raw_def e(3))
  show "err = er" by (rule r(4))
  show "dict_ok (connections sv')" if "dict_ok (connections sv)" using e(5) [OF that] by (simp add: r(1))
  show "sock_open sv' = sock_open sv" "srv_running sv' = srv_running sv" by (simp_all add: r(1) e)
qed

lemma endpoint_tick_new [simp]: "endpoint_tick new_endpoint t = (new_endpoint, [])"
  by (simp add: endpoint_tick_def new_endpoint_def check_timeouts_def init_sender_def)

lemma tick_all_props:
  assumes "dict_ok cs" "tick_all cs t = (cs', outs)"
  shows "map fst cs' = map fst cs"
    and "map_of cs' b = map_option (\<lambda>conn. conn\<lparr>con_endpoint := fst (endpoint_tick (con_endpoint conn) t)\<rparr>) (map_of cs b)"
    and "sends_to outs b = (case map_of cs b of None \<Rightarrow> [] | Some conn \<Rightarrow> snd (endpoint_tick (con_endpoint conn) t))"
proof -
  have "map fst cs' = map fst cs \<and>
    map_of cs' b = map_option (\<lambda>conn. conn\<lparr>con_endpoint := fst (endpoint_tick (con_endpoint conn) t)\<rparr>) (map_of cs b) \<and>
    sends_to outs b = (case map_of cs b of None \<Rightarrow> [] | Some conn \<Rightarrow> snd (endpoint_tick (con_endpoint conn) t))"
    using assms
  proof (induction cs arbitrary: cs' outs)
    case (Cons x cs)
    obtain a conn where x: "x = (a, conn)" by fastforce
    obtain ep o1 where tk: "endpoint_tick (con_endpoint conn) t = (ep, o1)" by fastforce
    obtain cs2 o2 where ta: "tick_all cs t = (cs2, o2)" by fastforce
    have "dict_ok cs" "a \<notin> fst ` set cs" using Cons.prems(1) by (auto simp: dict_ok_def x)
    with Cons.IH [OF _ ta] have IH: "map fst cs2 = map fst cs"
      "map_of cs2 b = map_option (\<lambda>conn. conn\<lparr>con_endpoint := fst (endpoint_tick (con_endpoint conn) t)\<rparr>) (map_of cs b)"
      "sends_to o2 b = (case map_of cs b of None \<Rightarrow> [] | Some conn \<Rightarrow> snd (endpoint_tick (con_endpoint conn) t))"
      and n: "map_of cs a = None" by (auto simp: map_of_eq_None_iff)
    have "cs' = (a, conn\<lparr>con_endpoint := ep\<rparr>) # cs2" "outs = map (Pair a) o1 @ o2"
      using Cons.prems(2) by (simp_all add: x tk ta)
    with IH n show ?case by (auto simp: x tk)
  qed simp
  then show "map fst cs' = map fst cs"
    and "map_of cs' b = map_option (\<lambda>conn. conn\<lparr>con_endpoint := fst (endpoint_tick (con_endpoint conn) t)\<rparr>) (map_of cs b)"
    and "sends_to outs b = (case map_of cs b of None \<Rightarrow> [] | Some conn \<Rightarrow> snd (endpoint_tick (con_endpoint conn) t))"
    by blast+
qed

lemma tick_connections_props:
  assumes "tick_connections sv t = (sv', outs)" "dict_ok (connections sv)"
  shows "endpoint_of sv' b = fst (endpoint_tick (endpoint_of sv b) t)"
    and "sends_to outs b = (if sock_open sv then snd (endpoint_tick (endpoint_of sv b) t) else [])"
    and "dict_ok (connections sv')" and "sock_open sv' = sock_open sv" and "srv_running sv' = srv_running sv"
proof -
  obtain cs os where ta: "tick_all (connections sv) t = (cs, os)" by fastforce
  have r: "sv' = sv\<lparr>connections := cs\<rparr>" "outs = (if sock_open sv then os else [])"
    using assms(1) by (simp_all add: tick_connections_def ta)
  note p = tick_all_props [OF assms(2) ta]
  show "endpoint_of sv' b = fst (endpoint_tick (endpoint_of sv b) t)"
    by (simp add: endpoint_of_def r p(2) split: option.split)
  show "sends_to outs b = (if sock_open sv then snd (endpoint_tick (endpoint_of sv b) t) else [])"
    by (simp add: endpoint_of_def r p(3) split: option.split)
  show "dict_ok (connections sv')" using assms(2) p(1) by (simp add: r dict_ok_def)
  show "sock_open sv' = sock_open sv" "srv_running sv' = srv_running sv" by (simp_all add: r)
qed

lemma corrupt_handle_datagram:
  assumes "unpack d = Inr p" "i < length d" "b \<noteq> d ! i"
  shows "handle_datagram sv (d[i := b]) a t = (sv, [], [], None)"
  using corrupt_byte_fails [OF assms] by (auto simp: handle_datagram_def)

lemma corrupt_client_iteration:
  assumes "unpack d = Inr p" "i < length d" "b \<noteq> d ! i"
  shows "client_iteration c (Some (d[i := b])) lost t t' = client_iteration c None lost t t'"
  using corrupt_byte_fails [OF assms] by (auto simp: client_iteration_def)

section \<open>Properties\<close>

text \<open>
  Peers are isolated: a datagram from one address, well-formed or forged, leaves the
  connection of every other address exactly as it was, delivers no message in another address's
  name and sends nothing to another address.
\<close>

theorem peer_isolation:
  assumes "handle_datagram sv d a t = (sv', msgs, out, err)" and "b \<noteq> a"
  shows "dict_get (connections sv') b = dict_get (connections sv) b \<and> sends_to msgs b = [] \<and>
    sends_to out b = []"
proof (cases "unpack d")
  case (Inl e)
  then show ?thesis using assms(1) by (auto simp: handle_datagram_def)
next
  case (Inr p)
  let ?sv1 = "ensure_connection sv a t"
  obtain ep ms ds er where dm: "demultiplex (endpoint_of sv a) p t = (ep, ms, ds, er)"
    using prod_cases4 by blast
  obtain conn where c: "dict_get (connections ?sv1) a = Some conn" "con_endpoint conn = endpoint_of sv a"
    using ensure_connection_props(2) by blast
  have "dict_get (connections sv') b = dict_get (connections ?sv1) b"
    using assms Inr dm by (auto simp: handle_datagram_def Let_def c map_of_update)
  also have "\<dots> = dict_get (connections sv) b"
    using assms(2) by (simp add: ensure_connection_def map_of_update)
  finally show ?thesis using handle_datagram_props(2,3) [OF assms(1) Inr dm, of b] assms(2) by simp
qed

theorem peer_isolation_witness:
  "let (sv', msgs, out, err) = handle_datagram new_server sample_datagram (''10.0.0.1'', 1) 0
   in dict_get (connections sv') (''10.0.0.2'', 1) = None \<and> sends_to msgs (''10.0.0.2'', 1) = [] \<and>
      (''10.0.0.2'', 1) \<noteq> (''10.0.0.1'', 1 :: int)"
proof -
  obtain sv' msgs out err where
    h: "handle_datagram new_server sample_datagram (''10.0.0.1'', 1) 0 = (sv', msgs, out, err)"
    using prod_cases4 by blast
  have "connections new_server = []" by (simp add: new_server_def)
  with peer_isolation [OF h, of "(''10.0.0.2'', 1)"] show ?thesis by (simp add: h)
qed

text \<open>
  A datagram with one byte changed in transit has no effect on either side: the server's
  table of connections is untouched and it sends and delivers nothing; the client's iteration is
  that of a receive timeout.
\<close>

theorem corrupted_datagram_ignored:
  assumes "unpack d = Inr p" and "i < length d" and "b \<noteq> d ! i"
  shows "handle_datagram sv (d[i := b]) a t = (sv, [], [], None) \<and>
    client_iteration c (Some (d[i := b])) lost t t' = client_iteration c None lost t t'"
  using corrupt_handle_datagram [OF assms] corrupt_client_iteration [OF assms] by blast

theorem corrupted_datagram_ignored_witness:
  "handle_datagram new_server (sample_datagram[22 := 0x58]) (''10.0.0.1'', 1) 0 = (new_server, [], [], None) \<and>
   client_iteration new_client (Some (sample_datagram[22 := 0x58])) False 0 1 =
     client_iteration new_client None False 0 1"
proof -
  have "22 < length sample_datagram" "0x58 \<noteq> sample_datagram ! 22"
    by (simp_all add: sample_datagram_def)
  then show ?thesis using corrupted_datagram_ignored [OF sample_datagram_unpacks] by blast
qed

end
