(* ===== verification/RudpLink.thy ===== *)
theory RudpLink
  imports RudpTransport
begin

text \<open>
  The whole transport: any number of clients and one server, joined by a network that may lose,
  duplicate, delay and reorder datagrams and change a byte of them. The state carries, as ghosts,
  the messages each side was asked to send and the messages each side handed to its application.
  Shown: in every reachable state and in both directions of every peer, the messages delivered are
  a prefix of the messages sent; the system refines an abstract FIFO channel per peer and direction;
  and from every reachable state the messages sent so far can still all be delivered, in both directions.
\<close>

section \<open>One direction of one connection\<close>

text \<open>The packets made for a list of (request id, data) messages, in order.\<close>

definition hist_of :: "(int \<times> bytes) list \<Rightarrow> RUDPPacket list" where
  "hist_of msgs = foldl (\<lambda>h (mid, data). h @ packets_of h mid data) [] msgs"

lemma hist_of_Nil [simp]: "hist_of [] = []"
  by (simp add: hist_of_def)

lemma hist_of_snoc [simp]:
  "hist_of (msgs @ [(mid, data)]) = hist_of msgs @ packets_of (hist_of msgs) mid data"
  by (simp add: hist_of_def)

definition transmitted :: "RUDPPacket list \<Rightarrow> RUDPSender \<Rightarrow> fragment list" where
  "transmitted hist s = map frag (take (nat (sent_count s)) hist)"

text \<open>Sender and receiver of one direction agree; \<open>got\<close> is what the receiver delivered.\<close>

definition data_inv :: "(int \<times> bytes) list \<Rightarrow> RUDPSender \<Rightarrow> RUDPReceiver \<Rightarrow> bytes list \<Rightarrow> bool" where
  "data_inv msgs s r got \<longleftrightarrow>
     sender_inv (hist_of msgs) s \<and> not_stalled s \<and> 1 \<le> peer_rwnd s \<and>
     receiver_inv (transmitted (hist_of msgs) s) got r \<and> base s \<le> expected_seq r"

definition data_wire :: "(int \<times> bytes) list \<Rightarrow> RUDPSender \<Rightarrow> bytes set" where
  "data_wire msgs s = wire_of (hist_of msgs) (sent_count s)"

definition ack_wire :: "RUDPReceiver \<Rightarrow> bytes set" where
  "ack_wire r = {d. \<exists>a rw. 0 \<le> a \<and> a \<le> expected_seq r \<and> 1 \<le> rw \<and> rw \<le> MAX_RWND \<and>
     pack_bytes (ack_packet a rw FLAG_ACK) = Inr d}"

lemma transmitted_mono:
  assumes "sent_count s \<le> sent_count s'" "sent_count s \<le> int (length hist)"
  shows "\<exists>fs. transmitted (hist @ ps) s' = transmitted hist s @ fs"
proof -
  let ?n = "nat (sent_count s)" and ?n' = "nat (sent_count s')"
  have n: "?n + (?n' - ?n) = ?n'" "?n \<le> length hist" using assms by simp_all
  have "take ?n' (hist @ ps) = take ?n (hist @ ps) @ take (?n' - ?n) (drop ?n (hist @ ps))"
    using take_add [of ?n "?n' - ?n" "hist @ ps"] n(1) by simp
  then have "take ?n' (hist @ ps) = take ?n hist @ take (?n' - ?n) (drop ?n (hist @ ps))"
    using n(2) by simp
  then show ?thesis by (simp add: transmitted_def)
qed

lemma data_inv_step:
  assumes i: "data_inv msgs s r got"
    and post: "sender_post (hist_of msgs @ ps) s (s', out)" and m: "hist_of msgs' = hist_of msgs @ ps"
    and "not_stalled s'" "1 \<le> peer_rwnd s'" "base s' \<le> expected_seq r"
  shows "data_inv msgs' s' r got" and "set out \<subseteq> data_wire msgs' s'"
    and "data_wire msgs s \<subseteq> data_wire msgs' s'"
proof -
  have sc: "sent_count s \<le> sent_count s'" using post by (simp add: sender_post_def)
  have le: "sent_count s \<le> int (length (hist_of msgs))"
    using i flight_sent_count(2) [OF sender_inv_parts(2)] by (auto simp: data_inv_def)
  obtain fs where "transmitted (hist_of msgs') s' = transmitted (hist_of msgs) s @ fs"
    using transmitted_mono [OF sc le, of ps] m by auto
  then show "data_inv msgs' s' r got"
    using assms receiver_inv_mono by (auto simp: data_inv_def sender_post_def)
  show "set out \<subseteq> data_wire msgs' s'" using post m by (simp add: sender_post_def data_wire_def)
  show "data_wire msgs s \<subseteq> data_wire msgs' s'"
    unfolding data_wire_def m using wire_of_append [OF le, of ps] wire_of_mono [OF sc] by blast
qed

lemma data_inv_init: "data_inv [] (init_sender MAX_RWND) init_receiver []"
  using sender_inv_init [of MAX_RWND]
  by (simp add: data_inv_def not_stalled_def transmitted_def receiver_inv_init)
    (simp add: init_sender_def init_receiver_def MAX_RWND_def)

lemma data_inv_send:
  assumes "data_inv msgs s r got" "enqueue_data s data mid t = (s', out)"
  shows "data_inv (msgs @ [(mid, data)]) s' r got" "set out \<subseteq> data_wire (msgs @ [(mid, data)]) s'"
    "data_wire msgs s \<subseteq> data_wire (msgs @ [(mid, data)]) s'"
proof -
  have i: "sender_inv (hist_of msgs) s" "1 \<le> peer_rwnd s" "base s \<le> expected_seq r"
    using assms(1) by (simp_all add: data_inv_def)
  have "sender_post (hist_of msgs @ packets_of (hist_of msgs) mid data) s (s', out)"
    using enqueue_data_post [OF i(1), of mid data t] assms(2) by simp
  moreover have "not_stalled s'" using enqueue_data_not_stalled [OF i(1,2), of data mid t] assms(2) by simp
  moreover have "1 \<le> peer_rwnd s'" using enqueue_data_peer_rwnd [of s data mid t] i(2) assms(2) by simp
  moreover have "base s' = base s" using enqueue_data_base [of s data mid t] assms(2) by simp
  ultimately show "data_inv (msgs @ [(mid, data)]) s' r got"
      "set out \<subseteq> data_wire (msgs @ [(mid, data)]) s'"
      "data_wire msgs s \<subseteq> data_wire (msgs @ [(mid, data)]) s'"
    using i(3) data_inv_step [OF assms(1), of "packets_of (hist_of msgs) mid data" s' out "msgs @ [(mid, data)]"]
    by simp_all
qed

lemma data_inv_tick:
  assumes "data_inv msgs s r got" "check_timeouts s t = (s', out)"
  shows "data_inv msgs s' r got" "set out \<subseteq> data_wire msgs s'" "data_wire msgs s \<subseteq> data_wire msgs s'"
proof -
  have i: "sender_inv (hist_of msgs) s" "1 \<le> peer_rwnd s" "base s \<le> expected_seq r" "not_stalled s"
    using assms(1) by (simp_all add: data_inv_def)
  have "sender_post (hist_of msgs @ []) s (s', out)"
    using check_timeouts_post [OF i(1), of t] assms(2) by simp
  moreover have "not_stalled s'" using check_timeouts_not_stalled [OF i(4), of t] assms(2) by simp
  moreover have "1 \<le> peer_rwnd s'" using peer_rwnd_frame(2) [of s t] i(2) assms(2) by simp
  moreover have "base s' = base s" using check_timeouts_base [of s t] assms(2) by simp
  ultimately show "data_inv msgs s' r got" "set out \<subseteq> data_wire msgs s'"
      "data_wire msgs s \<subseteq> data_wire msgs s'"
    using i(3) data_inv_step [OF assms(1), of "[]" s' out msgs] by simp_all
qed

lemma data_inv_ack:
  assumes "data_inv msgs s r got" "on_ack_received s a rw t = (s', out)"
    and "a \<le> expected_seq r" "1 \<le> rw"
  shows "data_inv msgs s' r got" "set out \<subseteq> data_wire msgs s'" "data_wire msgs s \<subseteq> data_wire msgs s'"
proof -
  have i: "sender_inv (hist_of msgs) s" "not_stalled s" "base s \<le> expected_seq r"
    using assms(1) by (simp_all add: data_inv_def)
  note f = flight_sent_count [OF sender_inv_parts(2) [OF i(1)]]
  have "expected_seq r \<le> int (length (transmitted (hist_of msgs) s))"
    using assms(1) by (simp add: data_inv_def receiver_inv_def receiver_core_def)
  then have a: "a \<le> sent_count s" using assms(3) f by (simp add: transmitted_def)
  have "sender_post (hist_of msgs @ []) s (s', out)"
    using on_ack_received_post [OF i(1) a, of rw t] assms(2) by simp
  moreover have "not_stalled s'" "peer_rwnd s' = rw"
    using on_ack_received_not_stalled [OF i(1) a assms(4) i(2), of t]
      on_ack_received_peer_rwnd [of s a rw t] assms(2) by simp_all
  moreover have "base s' = max (base s) a"
    using on_ack_received_base [of s a rw t] assms(2) by simp
  ultimately show "data_inv msgs s' r got" "set out \<subseteq> data_wire msgs s'"
      "data_wire msgs s \<subseteq> data_wire msgs s'"
    using i(3) assms(3,4) data_inv_step [OF assms(1), of "[]" s' out msgs] by simp_all
qed

text \<open>What the datagrams of one direction parse to.\<close>

lemma stamped_simps [simp]:
  "seq_num (stamped p) = seq_num p" "ack_num (stamped p) = ack_num p" "flags (stamped p) = flags p"
  "rwnd (stamped p) = rwnd p" "payload (stamped p) = payload p" "msg_id (stamped p) = msg_id p"
  "offset (stamped p) = offset p"
  by (simp_all add: stamped_def split: sum.split)

lemma stamped_flags [simp]:
  "is_ack (stamped p) = is_ack p" "is_fin (stamped p) = is_fin p" "has_data (stamped p) = has_data p"
  "frag (stamped p) = frag p"
  by (simp_all add: is_ack_def is_fin_def has_data_def frag_def)

lemma data_wire_unpack:
  assumes "data_inv msgs s r got" "d \<in> data_wire msgs s"
  obtains p where "unpack d = Inr p" "\<not> is_ack p" "has_data p" "of_stream (transmitted (hist_of msgs) s) p"
proof -
  let ?hist = "hist_of msgs"
  obtain i where i: "int i < sent_count s" "i < length ?hist" "pack_bytes (?hist ! i) = Inr d"
    using assms(2) by (auto simp: data_wire_def wire_of_def)
  let ?p = "?hist ! i"
  have h: "seq_num ?p = int i" "flags ?p \<in> {0, FLAG_FIN}" "msg_id ?p \<noteq> None" "offset ?p \<noteq> None"
    using assms(1) i(2) by (simp_all add: data_inv_def sender_inv_def history_ok_def)
  have "unpack d = Inr (stamped ?p)"
    using packet_codec.dec_enc [OF pack_bytes_packet_ok [OF i(3)] i(3)] h by simp
  moreover have "\<not> is_ack (stamped ?p)" "has_data (stamped ?p)"
    using h by (auto simp: is_ack_def has_data_def FLAG_ACK_def FLAG_FIN_def)
  moreover have "of_stream (transmitted ?hist s) (stamped ?p)"
    using i h(1) by (simp add: of_stream_def transmitted_def)
  ultimately show ?thesis using that by blast
qed

lemma ack_wire_unpack:
  assumes "d \<in> ack_wire r"
  obtains p where "unpack d = Inr p" "is_ack p" "\<not> has_data p" "ack_num p \<le> expected_seq r" "1 \<le> rwnd p"
proof -
  obtain a rw where a: "a \<le> expected_seq r" "1 \<le> rw" "pack_bytes (ack_packet a rw FLAG_ACK) = Inr d"
    using assms by (auto simp: ack_wire_def)
  have "packet_ok (ack_packet a rw FLAG_ACK)"
    by (rule pack_bytes_packet_ok [OF a(3)]) (simp add: ack_packet_def)
  then have "unpack d = Inr (stamped (ack_packet a rw FLAG_ACK))"
    using a(3) by (rule packet_codec.dec_enc)
  then show ?thesis
    using a by (intro that) (auto simp: ack_packet_def is_ack_def has_data_def FLAG_ACK_def)
qed

lemma ack_wire_mono: "expected_seq r \<le> expected_seq r' \<Longrightarrow> ack_wire r \<subseteq> ack_wire r'"
  by (fastforce simp: ack_wire_def)

section \<open>Both directions of one connection\<close>

text \<open>
  Two endpoints \<open>A\<close> and \<open>B\<close> with the messages each was asked to send (\<open>mA\<close>, \<open>mB\<close>), what each
  delivered (\<open>gA\<close>, \<open>gB\<close>) and the datagrams each put on the network (\<open>wA\<close>, \<open>wB\<close>).
\<close>

definition link_inv ::
  "(int \<times> bytes) list \<Rightarrow> endpoint \<Rightarrow> bytes list \<Rightarrow> bytes set \<Rightarrow>
   (int \<times> bytes) list \<Rightarrow> endpoint \<Rightarrow> bytes list \<Rightarrow> bytes set \<Rightarrow> bool" where
  "link_inv mA A gA wA mB B gB wB \<longleftrightarrow>
     data_inv mA (fst A) (snd B) gB \<and> data_inv mB (fst B) (snd A) gA \<and>
     wA \<subseteq> data_wire mA (fst A) \<union> ack_wire (snd A) \<and> wB \<subseteq> data_wire mB (fst B) \<union> ack_wire (snd B)"

lemma link_inv_sym: "link_inv mA A gA wA mB B gB wB \<Longrightarrow> link_inv mB B gB wB mA A gA wA"
  by (simp add: link_inv_def)

lemma link_inv_init: "link_inv [] new_endpoint [] {} [] new_endpoint [] {}"
  by (simp add: link_inv_def new_endpoint_def data_inv_init)

lemma link_inv_send:
  assumes "link_inv mA (s, r) gA wA mB B gB wB" "enqueue_data s data mid t = (s', out)"
    and "w \<subseteq> wA \<union> set out"
  shows "link_inv (mA @ [(mid, data)]) (s', r) gA w mB B gB wB"
  using assms data_inv_send [OF _ assms(2), of mA "snd B" gB] unfolding link_inv_def by auto

lemma link_inv_tick:
  assumes "link_inv mA A gA wA mB B gB wB" "endpoint_tick A t = (A', out)" "w \<subseteq> wA \<union> set out"
  shows "link_inv mA A' gA w mB B gB wB"
proof -
  obtain s' where c: "check_timeouts (fst A) t = (s', out)" "A' = (s', snd A)"
    using assms(2) by (auto simp: endpoint_tick_def split: prod.splits)
  then show ?thesis
    using assms(1,3) data_inv_tick [OF _ c(1), of mA "snd B" gB] unfolding link_inv_def by auto
qed

lemma link_inv_receive:
  assumes l: "link_inv mA A gA wA mB B gB wB" and d: "d \<in> wB" "unpack d = Inr p"
    and dm: "demultiplex A p t = (A', msgs, out, err)" and w: "w \<subseteq> wA \<union> set out"
  shows "link_inv mA A' (gA @ msgs) w mB B gB wB"
proof -
  have A: "data_inv mA (fst A) (snd B) gB" and B: "data_inv mB (fst B) (snd A) gA"
    and wA: "wA \<subseteq> data_wire mA (fst A) \<union> ack_wire (snd A)"
    and wB: "wB \<subseteq> data_wire mB (fst B) \<union> ack_wire (snd B)"
    using l by (simp_all add: link_inv_def)
  consider (data) "d \<in> data_wire mB (fst B)" | (ack) "d \<in> ack_wire (snd B)" using d(1) wB by blast
  then show ?thesis
  proof cases
    case data
    then have p: "\<not> is_ack p" "has_data p" "of_stream (transmitted (hist_of mB) (fst B)) p"
      using data_wire_unpack [OF B] d(2) by (metis sum.inject(2))+
    obtain r' ms a rw f where ps: "process_segment (snd A) p = (r', ms, a, rw, f)"
      using prod_cases5 by blast
    have ri: "receiver_inv (transmitted (hist_of mB) (fst B)) gA (snd A)" using B by (simp add: data_inv_def)
    note pp = process_segment_props [OF ri p(3) ps]
    have A': "A' = (fst A, r')" "msgs = ms" "set out \<subseteq> {d. pack_bytes (ack_packet a rw f) = Inr d}"
      using dm p(1,2) by (auto simp: demultiplex_def ps split: sum.splits)
    have "0 \<le> a" using pp(1,3) by (simp add: receiver_inv_def receiver_core_def)
    then have "x \<in> ack_wire r'" if "x \<in> set out" for x
      unfolding ack_wire_def using A'(3) pp(3,4,6,7) that by (intro CollectI exI [of _ a] exI [of _ rw]) auto
    then have "set out \<subseteq> ack_wire r'" by blast
    moreover have "data_inv mB (fst B) r' (gA @ ms)" using B pp(1,2) by (simp add: data_inv_def)
    moreover have "w \<subseteq> data_wire mA (fst A) \<union> ack_wire r'"
      using calculation(1) wA w ack_wire_mono [OF pp(2)] by blast
    ultimately show ?thesis using A wB A'(1,2) by (simp add: link_inv_def)
  next
    case ack
    then have p: "is_ack p" "\<not> has_data p" "ack_num p \<le> expected_seq (snd B)" "1 \<le> rwnd p"
      using ack_wire_unpack d(2) by (metis sum.inject(2))+
    obtain s' o' where oa: "on_ack_received (fst A) (ack_num p) (rwnd p) t = (s', o')" by fastforce
    have A': "A' = (s', snd A)" "msgs = []" "out = o'"
      using dm p(1,2) by (auto simp: demultiplex_def oa)
    note da = data_inv_ack [OF A oa p(3,4)]
    have "w \<subseteq> data_wire mA s' \<union> ack_wire (snd A)" using da(2,3) wA w A'(3) by blast
    then show ?thesis using da(1) B wB A'(1,2) by (simp add: link_inv_def)
  qed
qed

lemma link_inv_wire_unpack:
  assumes "link_inv mA A gA wA mB B gB wB" "d \<in> wA"
  obtains p where "unpack d = Inr p"
proof -
  have "data_inv mA (fst A) (snd B) gB" "d \<in> data_wire mA (fst A) \<union> ack_wire (snd A)"
    using assms by (auto simp: link_inv_def)
  then show ?thesis using data_wire_unpack ack_wire_unpack that by (metis UnE)
qed

section \<open>The system\<close>

text \<open>
  \<open>net_up\<close> and \<open>net_down\<close> hold every datagram ever sent, with the client's address; a datagram
  may be delivered at any time, any number of times or never. The last four fields are ghosts.
\<close>

record rudp_system =
  clients :: "addr \<Rightarrow> RUDPClientTransport"
  server :: RUDPServerTransport
  net_up :: "(addr \<times> bytes) set"
  net_down :: "(addr \<times> bytes) set"
  up_sent :: "addr \<Rightarrow> (int \<times> bytes) list"
  up_got :: "addr \<Rightarrow> bytes list"
  down_sent :: "addr \<Rightarrow> (int \<times> bytes) list"
  down_got :: "addr \<Rightarrow> bytes list"

definition init_system :: rudp_system where
  "init_system = \<lparr>clients = (\<lambda>_. new_client), server = new_server, net_up = {}, net_down = {},
     up_sent = (\<lambda>_. []), up_got = (\<lambda>_. []), down_sent = (\<lambda>_. []), down_got = (\<lambda>_. [])\<rparr>"

text \<open>A datagram as it may arrive: as it was sent, or with one byte changed.\<close>

definition arrives :: "(addr \<times> bytes) set \<Rightarrow> addr \<Rightarrow> bytes \<Rightarrow> bool" where
  "arrives net a d \<longleftrightarrow> (a, d) \<in> net \<or>
     (\<exists>d0 i b. (a, d0) \<in> net \<and> i < length d0 \<and> b \<noteq> d0 ! i \<and> d = d0[i := b])"

inductive rudp_step :: "rudp_system \<Rightarrow> rudp_system \<Rightarrow> bool" where
  client_start: "rudp_step S (S\<lparr>clients := (clients S)(a := RudpTransport.client_start (clients S a))\<rparr>)"
| client_close: "rudp_step S (S\<lparr>clients := (clients S)(a := RudpTransport.client_close (clients S a))\<rparr>)"
| client_send: "RudpTransport.client_send (clients S a) data mid t = (c', out) \<Longrightarrow>
    rudp_step S (S\<lparr>clients := (clients S)(a := c'), net_up := net_up S \<union> Pair a ` set out,
      up_sent := (up_sent S)(a := up_sent S a @ [(mid, data)])\<rparr>)"
| client_loop: "cl_running (clients S a) \<Longrightarrow> pred_option (arrives (net_down S) a) data \<Longrightarrow>
    client_iteration (clients S a) data lost t t' = (c', msgs, out) \<Longrightarrow>
    rudp_step S (S\<lparr>clients := (clients S)(a := c'), net_up := net_up S \<union> Pair a ` set out,
      down_got := (down_got S)(a := down_got S a @ msgs)\<rparr>)"
| server_start: "rudp_step S (S\<lparr>server := RudpTransport.server_start (server S)\<rparr>)"
| server_close: "rudp_step S (S\<lparr>server := RudpTransport.server_close (server S)\<rparr>)"
| server_send: "RudpTransport.server_send (server S) data mid a t = (sv', out) \<Longrightarrow>
    rudp_step S (S\<lparr>server := sv', net_down := net_down S \<union> set out,
      down_sent := (down_sent S)(a := down_sent S a @ [(mid, data)])\<rparr>)"
| server_loop: "srv_running (server S) \<Longrightarrow> pred_option (\<lambda>(a, d). arrives (net_up S) a d) arrival \<Longrightarrow>
    server_iteration (server S) arrival lost t t' = (sv', msgs, out) \<Longrightarrow>
    rudp_step S (S\<lparr>server := sv', net_down := net_down S \<union> set out,
      up_got := (\<lambda>b. up_got S b @ sends_to msgs b)\<rparr>)"

text \<open>The invariant: the link invariant for every peer.\<close>

definition peer_inv :: "rudp_system \<Rightarrow> addr \<Rightarrow> bool" where
  "peer_inv S a \<longleftrightarrow>
     link_inv (up_sent S a) (cl_endpoint (clients S a)) (down_got S a) {d. (a, d) \<in> net_up S}
       (down_sent S a) (endpoint_of (server S) a) (up_got S a) {d. (a, d) \<in> net_down S}"

definition system_inv :: "rudp_system \<Rightarrow> bool" where
  "system_inv S \<longleftrightarrow> dict_ok (connections (server S)) \<and> (\<forall>a. peer_inv S a)"

lemma system_inv_peer: "system_inv S \<Longrightarrow> peer_inv S a"
  unfolding system_inv_def by blast

lemma system_inv_init: "system_inv init_system"
proof -
  have "endpoint_of new_server a = new_endpoint" for a by (simp add: endpoint_of_def new_server_def)
  moreover have "connections new_server = []" by (simp add: new_server_def)
  ultimately show ?thesis
    by (simp add: system_inv_def peer_inv_def init_system_def new_client_def link_inv_init)
qed

text \<open>What one iteration of a client does to its link, whatever arrived.\<close>

lemma client_iteration_cases:
  assumes "client_iteration c data lost t t' = (c', msgs, out)"
  obtains ep out2 where "endpoint_tick (cl_endpoint c) t' = (ep, out2)" "cl_endpoint c' = ep"
      "msgs = []" "set out \<subseteq> set out2"
  | d e where "data = Some d" "unpack d = Inl e" "\<not> is_ValueError e" "cl_endpoint c' = cl_endpoint c"
      "msgs = []" "out = []"
  | d p ep1 out1 err where "data = Some d" "unpack d = Inr p"
      "demultiplex (cl_endpoint c) p t = (ep1, msgs, out1, err)" "cl_endpoint c' = ep1" "set out \<subseteq> set out1"
  | d p ep1 out1 err ep2 out2 where "data = Some d" "unpack d = Inr p"
      "demultiplex (cl_endpoint c) p t = (ep1, msgs, out1, err)" "endpoint_tick ep1 t' = (ep2, out2)"
      "cl_endpoint c' = ep2" "set out \<subseteq> set out1 \<union> set out2"
proof -
  obtain ep0 o0 where tk: "endpoint_tick (cl_endpoint c) t' = (ep0, o0)" by fastforce
  show ?thesis
  proof (cases "\<exists>d. data = Some d \<and> d \<noteq> [] \<and> \<not> lost")
    case False
    then have "client_iteration c data lost t t' = (c\<lparr>cl_endpoint := ep0\<rparr>, [], client_raw c o0)"
      by (cases data) (auto simp: client_iteration_def tk)
    with assms show ?thesis using that(1) [OF tk] by (auto simp: client_raw_def split: if_splits)
  next
    case True
    then obtain d where d: "data = Some d" "d \<noteq> []" "\<not> lost" by blast
    show ?thesis
    proof (cases "unpack d")
      case (Inl e)
      with assms d tk that(1) [OF tk] that(2) [OF d(1) Inl] show ?thesis
        by (cases "is_ValueError e") (auto simp: client_iteration_def client_raw_def split: if_splits)
    next
      case (Inr p)
      obtain ep1 ms o1 er where dm: "demultiplex (cl_endpoint c) p t = (ep1, ms, o1, er)"
        using prod_cases4 by blast
      obtain ep2 o2 where tk2: "endpoint_tick ep1 t' = (ep2, o2)" by fastforce
      show ?thesis
      proof (cases "case er of None \<Rightarrow> True | Some e \<Rightarrow> is_ValueError e")
        case True
        then have "msgs = ms" "cl_endpoint c' = ep2" "set out \<subseteq> set o1 \<union> set o2"
          using assms d Inr by (auto simp: client_iteration_def dm tk2 client_raw_def split: option.splits if_splits)
        then show ?thesis using that(4) [OF d(1) Inr _ tk2] dm by blast
      next
        case False
        then have "msgs = ms" "cl_endpoint c' = ep1" "set out \<subseteq> set o1"
          using assms d Inr by (auto simp: client_iteration_def dm client_raw_def split: option.splits if_splits)
        then show ?thesis using that(3) [OF d(1) Inr] dm by blast
      qed
    qed
  qed
qed

lemma link_client_iteration:
  assumes l: "link_inv mA (cl_endpoint c) gA wA mB B gB wB"
    and it: "client_iteration c data lost t t' = (c', msgs, out)"
    and data: "\<And>d. data = Some d \<Longrightarrow> d \<in> wB" and w: "w \<subseteq> wA \<union> set out"
  shows "link_inv mA (cl_endpoint c') (gA @ msgs) w mB B gB wB"
  using it
proof (cases rule: client_iteration_cases)
  case (1 ep out2)
  then show ?thesis using link_inv_tick [OF l 1(1), of w] w by auto
next
  case (2 d e)
  obtain p where "unpack d = Inr p" using link_inv_wire_unpack [OF link_inv_sym [OF l] data [OF 2(1)]] .
  with 2 show ?thesis by simp
next
  case (3 d p ep1 out1 err)
  then show ?thesis using link_inv_receive [OF l data [OF 3(1)] 3(2,3), of w] w by auto
next
  case (4 d p ep1 out1 err ep2 out2)
  have "link_inv mA ep1 (gA @ msgs) (wA \<union> set out1) mB B gB wB"
    using link_inv_receive [OF l data [OF 4(1)] 4(2,3)] by simp
  then show ?thesis using link_inv_tick [OF _ 4(4), of mA "gA @ msgs" "wA \<union> set out1" mB B gB wB w] 4(5,6) w
    by auto
qed

lemma link_client_loop:
  assumes l: "link_inv mA (cl_endpoint c) gA {d. (a, d) \<in> nu} mB B gB {d. (a, d) \<in> nd}"
    and it: "client_iteration c data lost t t' = (c', msgs, out)"
    and arr: "pred_option (arrives nd a) data"
  shows "link_inv mA (cl_endpoint c') (gA @ msgs) {d. (a, d) \<in> nu \<union> Pair a ` set out} mB B gB {d. (a, d) \<in> nd}"
proof (cases "\<exists>d. data = Some d \<and> (a, d) \<notin> nd")
  case True
  then obtain d0 i b where d0: "(a, d0) \<in> nd" "i < length d0" "b \<noteq> d0 ! i" "data = Some (d0[i := b])"
    using arr by (auto simp: arrives_def)
  obtain p where "unpack d0 = Inr p" using link_inv_wire_unpack [OF link_inv_sym [OF l]] d0(1) by blast
  from corrupt_client_iteration [OF this d0(2,3)] it d0(4)
  have "client_iteration c None lost t t' = (c', msgs, out)" by simp
  then show ?thesis by (rule link_client_iteration [OF l]) auto
next
  case False
  then show ?thesis by (intro link_client_iteration [OF l it]) auto
qed

text \<open>The same for an iteration of the server, for the peer it heard from and for the others.\<close>

lemma link_server_handle:
  assumes l: "link_inv mA A gA wA mB (endpoint_of sv b) gB wB"
    and h: "handle_datagram sv d a t = (sv', msgs, out, err)" and p: "unpack d = Inr p"
    and d: "b = a \<Longrightarrow> d \<in> wA"
  shows "link_inv mA A gA wA mB (endpoint_of sv' b) (gB @ sends_to msgs b) (wB \<union> set (sends_to out b))"
proof -
  obtain ep ms ds er where dm: "demultiplex (endpoint_of sv a) p t = (ep, ms, ds, er)"
    using prod_cases4 by blast
  note hp = handle_datagram_props(1-3) [OF h p dm, of b]
  show ?thesis
  proof (cases "b = a")
    case True
    have "link_inv mB ep (gB @ ms) (wB \<union> set (sends_to out b)) mA A gA wA"
      by (rule link_inv_receive [OF link_inv_sym [OF l] d [OF True] p, of t ep ms ds er])
        (use dm True hp(3) in auto)
    then show ?thesis using True hp(1,2) by (simp add: link_inv_sym)
  next
    case False
    then show ?thesis using l hp by simp
  qed
qed

lemma link_server_tick:
  assumes l: "link_inv mA A gA wA mB (endpoint_of sv b) gB wB"
    and tk: "tick_connections sv t = (sv', out)" and ok: "dict_ok (connections sv)"
  shows "link_inv mA A gA wA mB (endpoint_of sv' b) gB (wB \<union> set (sends_to out b))"
proof -
  note tp = tick_connections_props(1,2) [OF tk ok, of b]
  obtain ep o2 where e: "endpoint_tick (endpoint_of sv b) t = (ep, o2)" by fastforce
  have "link_inv mB ep gB (wB \<union> set (sends_to out b)) mA A gA wA"
    by (rule link_inv_tick [OF link_inv_sym [OF l] e]) (use e tp(2) in auto)
  then show ?thesis using tp(1) e by (simp add: link_inv_sym)
qed

lemma link_server_iteration:
  assumes l: "\<And>b. link_inv (mA b) (A b) (gA b) (wA b) (mB b) (endpoint_of sv b) (gB b) (wB b)"
    and it: "server_iteration sv arrival lost t t' = (sv', msgs, out)" and ok: "dict_ok (connections sv)"
    and arr: "\<And>a d. arrival = Some (a, d) \<Longrightarrow> d \<in> wA a"
  shows "link_inv (mA b) (A b) (gA b) (wA b) (mB b) (endpoint_of sv' b) (gB b @ sends_to msgs b)
      (wB b \<union> set (sends_to out b)) \<and> dict_ok (connections sv')"
proof (cases "\<exists>a d. arrival = Some (a, d) \<and> d \<noteq> [] \<and> \<not> lost")
  case False
  obtain sv2 o2 where tk: "tick_connections sv t' = (sv2, o2)" by fastforce
  have "server_iteration sv arrival lost t t' = (sv2, [], o2)"
    using False by (cases arrival) (auto simp: server_iteration_def tk)
  with it show ?thesis
    using link_server_tick [OF l tk ok, of b] tick_connections_props(3) [OF tk ok] by simp
next
  case True
  then obtain a d where d: "arrival = Some (a, d)" "d \<noteq> []" "\<not> lost" by blast
  obtain p where p: "unpack d = Inr p" using link_inv_wire_unpack [OF l arr [OF d(1)]] .
  obtain sv1 ms o1 er where h: "handle_datagram sv d a t = (sv1, ms, o1, er)"
    using prod_cases4 by blast
  obtain ep m' ds er' where dm: "demultiplex (endpoint_of sv a) p t = (ep, m', ds, er')"
    using prod_cases4 by blast
  have ok1: "dict_ok (connections sv1)" using handle_datagram_props(5) [OF h p dm ok] .
  have l1: "link_inv (mA b) (A b) (gA b) (wA b) (mB b) (endpoint_of sv1 b) (gB b @ sends_to ms b)
      (wB b \<union> set (sends_to o1 b))"
    using link_server_handle [OF l h p] arr [OF d(1)] by simp
  show ?thesis
  proof (cases er)
    case None
    obtain sv2 o2 where tk: "tick_connections sv1 t' = (sv2, o2)" by fastforce
    have "sv' = sv2" "msgs = ms" "out = o1 @ o2"
      using it d None by (simp_all add: server_iteration_def h tk)
    then show ?thesis
      using link_server_tick [OF l1 tk ok1] tick_connections_props(3) [OF tk ok1] by (simp add: Un_assoc)
  next
    case (Some e)
    then have "sv' = RudpTransport.server_close sv1" "msgs = ms" "out = o1"
      using it d by (simp_all add: server_iteration_def h)
    then show ?thesis using l1 ok1 by (simp add: server_close_def endpoint_of_def)
  qed
qed

lemma corrupt_server_iteration:
  assumes "unpack d = Inr p" "i < length d" "b \<noteq> d ! i"
  shows "server_iteration sv (Some (a, d[i := b])) lost t t' = server_iteration sv None lost t t'"
  using corrupt_handle_datagram [OF assms] by (simp add: server_iteration_def)

text \<open>Every step keeps the invariant.\<close>

lemma peer_inv_client_loop:
  assumes "system_inv S" "client_iteration (clients S a) data lost t t' = (c', msgs, out)"
    and "pred_option (arrives (net_down S) a) data"
  shows "system_inv (S\<lparr>clients := (clients S)(a := c'), net_up := net_up S \<union> Pair a ` set out,
      down_got := (down_got S)(a := down_got S a @ msgs)\<rparr>)" (is "system_inv ?S'")
proof -
  have "peer_inv ?S' b" for b
  proof (cases "b = a")
    case True
    have "peer_inv S a" using assms(1) by (rule system_inv_peer)
    then show ?thesis using link_client_loop [OF _ assms(2,3)] True by (simp add: peer_inv_def)
  next
    case False
    then have "{d. (b, d) \<in> net_up S \<union> Pair a ` set out} = {d. (b, d) \<in> net_up S}" by auto
    then show ?thesis using system_inv_peer [OF assms(1), of b] False by (simp add: peer_inv_def)
  qed
  then show ?thesis using assms(1) by (simp add: system_inv_def)
qed

lemma peer_inv_client_send:
  assumes "system_inv S" "RudpTransport.client_send (clients S a) data mid t = (c', out)"
  shows "system_inv (S\<lparr>clients := (clients S)(a := c'), net_up := net_up S \<union> Pair a ` set out,
      up_sent := (up_sent S)(a := up_sent S a @ [(mid, data)])\<rparr>)" (is "system_inv ?S'")
proof -
  have "peer_inv ?S' b" for b
  proof (cases "b = a")
    case True
    obtain s r where ep: "cl_endpoint (clients S a) = (s, r)" by fastforce
    obtain s' ds where e: "enqueue_data s data mid t = (s', ds)" by fastforce
    have c': "cl_endpoint c' = (s', r)" "set out \<subseteq> set ds"
      using assms(2) by (auto simp: client_send_def ep e client_raw_def split: if_splits)
    have "peer_inv S a" using assms(1) by (rule system_inv_peer)
    then have "link_inv (up_sent S a @ [(mid, data)]) (s', r) (down_got S a)
       {d. (a, d) \<in> net_up S \<union> Pair a ` set out} (down_sent S a) (endpoint_of (server S) a) (up_got S a)
       {d. (a, d) \<in> net_down S}"
      unfolding peer_inv_def ep by (rule link_inv_send [OF _ e]) (use c'(2) in auto)
    then show ?thesis using True c'(1) by (simp add: peer_inv_def)
  next
    case False
    then have "{d. (b, d) \<in> net_up S \<union> Pair a ` set out} = {d. (b, d) \<in> net_up S}" by auto
    then show ?thesis using system_inv_peer [OF assms(1), of b] False by (simp add: peer_inv_def)
  qed
  then show ?thesis using assms(1) by (simp add: system_inv_def)
qed

lemma peer_inv_server_send:
  assumes "system_inv S" "RudpTransport.server_send (server S) data mid a t = (sv', out)"
  shows "system_inv (S\<lparr>server := sv', net_down := net_down S \<union> set out,
      down_sent := (down_sent S)(a := down_sent S a @ [(mid, data)])\<rparr>)" (is "system_inv ?S'")
proof -
  obtain s r where ep: "endpoint_of (server S) a = (s, r)" by fastforce
  obtain s' ds where e: "enqueue_data s data mid t = (s', ds)" by fastforce
  have e': "enqueue_data (fst (endpoint_of (server S) a)) data mid t = (s', ds)" by (simp add: ep e)
  note sp = server_send_props [OF assms(2) e']
  have net: "{d. (b, d) \<in> net_down S \<or> (b, d) \<in> set out} = {d. (b, d) \<in> net_down S} \<union> set (sends_to out b)" for b
    by (auto simp: set_sends_to)
  have "peer_inv ?S' b" for b
  proof (cases "b = a")
    case True
    have "link_inv (down_sent S a) (s, r) (up_got S a) {d. (a, d) \<in> net_down S}
        (up_sent S a) (cl_endpoint (clients S a)) (down_got S a) {d. (a, d) \<in> net_up S}"
      using system_inv_peer [OF assms(1), of a] by (simp add: peer_inv_def ep link_inv_sym)
    then have "link_inv (down_sent S a @ [(mid, data)]) (s', r) (up_got S a)
        ({d. (a, d) \<in> net_down S} \<union> set (sends_to out a))
        (up_sent S a) (cl_endpoint (clients S a)) (down_got S a) {d. (a, d) \<in> net_up S}"
      by (rule link_inv_send [OF _ e]) (use sp(2) [of a] in auto)
    then show ?thesis using True sp(1) [of a] by (simp add: peer_inv_def ep net link_inv_sym)
  next
    case False
    then show ?thesis
      using system_inv_peer [OF assms(1), of b] sp(1,2) [of b] by (simp add: peer_inv_def net)
  qed
  moreover have "dict_ok (connections (server S))" using assms(1) by (simp add: system_inv_def)
  ultimately show ?thesis using sp(3) by (simp add: system_inv_def)
qed

lemma peer_inv_server_loop:
  assumes "system_inv S" "server_iteration (server S) arrival lost t t' = (sv', msgs, out)"
    and arr: "pred_option (\<lambda>(a, d). arrives (net_up S) a d) arrival"
  shows "system_inv (S\<lparr>server := sv', net_down := net_down S \<union> set out,
      up_got := (\<lambda>b. up_got S b @ sends_to msgs b)\<rparr>)" (is "system_inv ?S'")
proof -
  have l: "link_inv (up_sent S b) (cl_endpoint (clients S b)) (down_got S b) {d. (b, d) \<in> net_up S}
      (down_sent S b) (endpoint_of (server S) b) (up_got S b) {d. (b, d) \<in> net_down S}" for b
    using system_inv_peer [OF assms(1), of b] by (simp add: peer_inv_def)
  obtain arrival' where it: "server_iteration (server S) arrival' lost t t' = (sv', msgs, out)"
    and arr': "\<And>a d. arrival' = Some (a, d) \<Longrightarrow> d \<in> {d. (a, d) \<in> net_up S}"
  proof (cases "\<exists>a d. arrival = Some (a, d) \<and> (a, d) \<notin> net_up S")
    case True
    then obtain a d0 i b where d0: "(a, d0) \<in> net_up S" "i < length d0" "b \<noteq> d0 ! i"
      "arrival = Some (a, d0[i := b])" using arr by (auto simp: arrives_def)
    obtain p where "unpack d0 = Inr p" using link_inv_wire_unpack [OF l] d0(1) by blast
    from corrupt_server_iteration [OF this d0(2,3)] assms(2) d0(4) that [of None] show thesis by simp
  next
    case False
    with assms(2) that [of arrival] show thesis by blast
  qed
  have ok: "dict_ok (connections (server S))" using assms(1) by (simp add: system_inv_def)
  have net: "{d. (b, d) \<in> net_down S \<or> (b, d) \<in> set out} = {d. (b, d) \<in> net_down S} \<union> set (sends_to out b)" for b
    by (auto simp: set_sends_to)
  note li = link_server_iteration [OF l it ok arr']
  have "peer_inv ?S' b" for b using li [of b] by (simp add: peer_inv_def net)
  moreover have "dict_ok (connections sv')" using li by blast
  ultimately show ?thesis by (simp add: system_inv_def)
qed

lemma system_inv_step:
  assumes "system_inv S" "rudp_step S S'"
  shows "system_inv S'"
  using assms(2,1)
proof (cases rule: rudp_step.cases)
  case (client_start a)
  then show ?thesis using assms(1) by (simp add: system_inv_def peer_inv_def client_start_def del: split_paired_All)
next
  case (client_close a)
  then show ?thesis using assms(1) by (simp add: system_inv_def peer_inv_def client_close_def del: split_paired_All)
next
  case (client_send a data mid t c' out)
  then show ?thesis using peer_inv_client_send assms(1) by blast
next
  case (client_loop a data lost t t' c' msgs out)
  then show ?thesis using peer_inv_client_loop assms(1) by blast
next
  case server_start
  then show ?thesis using assms(1) by (simp add: system_inv_def peer_inv_def server_start_def endpoint_of_def)
next
  case server_close
  then show ?thesis using assms(1) by (simp add: system_inv_def peer_inv_def server_close_def endpoint_of_def)
next
  case (server_send data mid a t sv' out)
  then show ?thesis using peer_inv_server_send assms(1) by blast
next
  case (server_loop arrival lost t t' sv' msgs out)
  then show ?thesis using peer_inv_server_loop assms(1) by blast
qed

interpretation rudp_system_inv: invariant_system "\<lambda>S. S = init_system" rudp_step system_inv
  by unfold_locales (use system_inv_init system_inv_step in auto)

section \<open>Delivered messages are a prefix of the sent ones\<close>

lemma reassemble_append: "reassemble (fs @ gs) = foldl reassemble_step (reassemble fs) gs"
  by (simp add: reassemble_def)

lemma reassemble_hist_of: "reassemble (map frag (hist_of msgs)) = (map snd msgs, [])"
proof (induction msgs rule: rev_induct)
  case (snoc m msgs)
  obtain mid data where m: "m = (mid, data)" by fastforce
  show ?case
    using snoc reassemble_make_packets [OF chunks_of_not_Nil, of "map snd msgs" "[]"]
    by (simp add: m reassemble_append packets_of_def concat_chunks_of)
qed simp

lemma reassemble_foldl_prefix: "prefix (fst st) (fst (foldl reassemble_step st fs))"
proof (induction fs arbitrary: st)
  case (Cons f fs)
  have "prefix (fst st) (fst (reassemble_step st f))" by (simp add: reassemble_step_def)
  from prefix_order.trans [OF this Cons [of "reassemble_step st f"]] show ?case by simp
qed simp

lemma reassemble_prefix: "prefix (fst (reassemble (take n fs))) (fst (reassemble fs))"
  using reassemble_foldl_prefix [of "reassemble (take n fs)" "drop n fs"]
    reassemble_append [of "take n fs" "drop n fs"] by simp

lemma data_inv_prefix:
  assumes "data_inv msgs s r got"
  shows "prefix got (map snd msgs)"
proof -
  let ?n = "nat (expected_seq r)" and ?m = "nat (sent_count s)"
  have "reassemble (take ?n (map frag (take ?m (hist_of msgs)))) = (got, assembly_buffer r)"
    using assms by (simp add: data_inv_def receiver_inv_def receiver_core_def transmitted_def)
  then have "got = fst (reassemble (take (min ?n ?m) (map frag (hist_of msgs))))"
    by (simp add: take_map)
  then show ?thesis using reassemble_prefix [of _ "map frag (hist_of msgs)"] by (simp add: reassemble_hist_of)
qed

lemma system_inv_prefix:
  assumes "system_inv S"
  shows "prefix (up_got S a) (map snd (up_sent S a))" "prefix (down_got S a) (map snd (down_sent S a))"
  using system_inv_peer [OF assms, of a] data_inv_prefix by (auto simp: peer_inv_def link_inv_def)

section \<open>Refinement of a FIFO channel\<close>

text \<open>
  The contract of one direction: a queue of messages. The application appends; the channel
  hands out the next message that was not handed out yet.
\<close>

type_synonym channel = "bytes list \<times> bytes list"

inductive channel_step :: "channel \<Rightarrow> channel \<Rightarrow> bool" where
  chan_send: "channel_step (sent, got) (sent @ [m], got)"
| chan_deliver: "length got < length sent \<Longrightarrow> channel_step (sent, got) (sent, got @ [sent ! length got])"

definition up_channel :: "addr \<Rightarrow> rudp_system \<Rightarrow> channel" where
  "up_channel a S = (map snd (up_sent S a), up_got S a)"

definition down_channel :: "addr \<Rightarrow> rudp_system \<Rightarrow> channel" where
  "down_channel a S = (map snd (down_sent S a), down_got S a)"

lemma channel_sends: "channel_step\<^sup>*\<^sup>* (sent, got) (sent @ ms, got)"
proof (induction ms rule: rev_induct)
  case (snoc m ms)
  then show ?case using chan_send [of "sent @ ms" got m] by (simp add: rtranclp.rtrancl_into_rtrancl)
qed simp

lemma channel_delivers:
  "prefix (got @ ms) sent \<Longrightarrow> channel_step\<^sup>*\<^sup>* (sent, got) (sent, got @ ms)"
proof (induction ms rule: rev_induct)
  case (snoc m ms)
  then obtain zs where z: "sent = (got @ ms) @ m # zs" by (auto simp: prefix_def)
  then have "channel_step\<^sup>*\<^sup>* (sent, got) (sent, got @ ms)" by (intro snoc.IH) (simp add: prefix_def)
  moreover have "channel_step (sent, got @ ms) (sent, (got @ ms) @ [sent ! length (got @ ms)])"
    by (rule chan_deliver) (simp add: z)
  ultimately show ?case by (simp add: z nth_append rtranclp.rtrancl_into_rtrancl)
qed simp

lemma channel_moves:
  assumes "prefix (got @ gs) (sent @ ms)"
  shows "channel_step\<^sup>*\<^sup>* (sent, got) (sent @ ms, got @ gs)"
  using channel_sends channel_delivers [OF assms] by (rule rtranclp_trans)

lemma rudp_step_ghosts:
  assumes "rudp_step S S'"
  obtains us ug ds dg where "up_sent S' a = up_sent S a @ us" "up_got S' a = up_got S a @ ug"
    "down_sent S' a = down_sent S a @ ds" "down_got S' a = down_got S a @ dg"
  using assms by (cases rule: rudp_step.cases) (force split: if_splits)+

lemma rudp_simulates:
  assumes "system_inv S" "rudp_step S S'"
  shows "channel_step\<^sup>*\<^sup>* (up_channel a S) (up_channel a S')"
    and "channel_step\<^sup>*\<^sup>* (down_channel a S) (down_channel a S')"
proof -
  obtain us ug ds dg where g: "up_sent S' a = up_sent S a @ us" "up_got S' a = up_got S a @ ug"
    "down_sent S' a = down_sent S a @ ds" "down_got S' a = down_got S a @ dg"
    using rudp_step_ghosts [OF assms(2)] .
  note p = system_inv_prefix [OF system_inv_step [OF assms], of a]
  show "channel_step\<^sup>*\<^sup>* (up_channel a S) (up_channel a S')"
    using channel_moves [of "up_got S a" ug "map snd (up_sent S a)" "map snd us"] p(1) g
    by (simp add: up_channel_def)
  show "channel_step\<^sup>*\<^sup>* (down_channel a S) (down_channel a S')"
    using channel_moves [of "down_got S a" dg "map snd (down_sent S a)" "map snd ds"] p(2) g
    by (simp add: down_channel_def)
qed

interpretation up_refines: refinement "\<lambda>S. S = init_system" rudp_step system_inv "up_channel a" channel_step for a
  by unfold_locales (rule rudp_simulates)

interpretation down_refines: refinement "\<lambda>S. S = init_system" rudp_step system_inv "down_channel a" channel_step for a
  by unfold_locales (rule rudp_simulates)

section \<open>Progress\<close>

text \<open>
  Messages whose packets all fit the header fields: 32-bit request ids, lengths and sequence
  numbers (the code has no wrap-around).
\<close>

definition sendable :: "(int \<times> bytes) list \<Rightarrow> bool" where
  "sendable msgs \<longleftrightarrow> int (length (hist_of msgs)) < 2 ^ 32 \<and>
     list_all (\<lambda>(mid, data). 0 \<le> mid \<and> mid < 2 ^ 32 \<and> int (length data) < 2 ^ 32) msgs"

lemma concat_take_length: "length (concat (take i cs)) \<le> length (concat cs)"
  by (metis append_take_drop_id concat_append le_add1 length_append)

lemma packets_of_ok:
  assumes "0 \<le> mid" "mid < 2 ^ 32" "int (length data) < 2 ^ 32"
    and "int (length hist + length (packets_of hist mid data)) < 2 ^ 32" "p \<in> set (packets_of hist mid data)"
  shows "packet_ok p"
proof -
  let ?cs = "chunks_of data"
  obtain i where i: "i < length ?cs" "p = packets_of hist mid data ! i"
    using assms(5) by (auto simp: packets_of_def in_set_conv_nth)
  have "length (concat (take i ?cs)) \<le> length data"
    using concat_take_length [of i ?cs] by (simp add: concat_chunks_of)
  then have "int (length (concat (take i ?cs))) < 2 ^ 32" using assms(3) by linarith
  moreover have "int (length hist) + int i < 2 ^ 32" using assms(4) i(1) by (simp add: packets_of_def)
  ultimately show ?thesis
    using assms(1,2) i(1)
    by (simp add: i(2) packets_of_def make_packets_nth packet_ok_def layout_defs fits_def FLAG_FIN_def)
qed

lemma sendable_packet_ok:
  "sendable msgs \<Longrightarrow> p \<in> set (hist_of msgs) \<Longrightarrow> packet_ok p"
proof (induction msgs rule: rev_induct)
  case (snoc m msgs)
  obtain mid data where m: "m = (mid, data)" by fastforce
  have "sendable msgs" using snoc.prems(1) by (simp add: sendable_def m)
  with snoc show ?case using packets_of_ok [of mid data "hist_of msgs" p] by (auto simp: sendable_def m)
qed simp

definition link_up :: "rudp_system \<Rightarrow> addr \<Rightarrow> bool" where
  "link_up S a \<longleftrightarrow> cl_running (clients S a) \<and> cl_open (clients S a) \<and>
     srv_running (server S) \<and> sock_open (server S)"

definition up_base :: "rudp_system \<Rightarrow> addr \<Rightarrow> int" where
  "up_base S a = base (fst (cl_endpoint (clients S a)))"

text \<open>What the steps of progress do at one endpoint. A tick resends the oldest unacknowledged packet.\<close>

lemma sender_oldest:
  assumes "sender_inv hist s" "not_stalled s" "base s < int (length hist)"
  shows "0 \<le> base s" "base s < sent_count s"
proof -
  have f: "flight_inv hist s" using sender_inv_parts(2) [OF assms(1)] .
  show "0 \<le> base s" using f by (simp add: flight_inv_def)
  show "base s < sent_count s"
  proof (cases "send_buffer s = []")
    case True
    then show ?thesis using f assms(3) by (simp add: flight_inv_def sent_count_def)
  next
    case False
    then show ?thesis using assms(2) flight_keys(2) [OF f] by (simp add: not_stalled_def)
  qed
qed

lemma oldest_resent:
  assumes "sender_inv hist s" "not_stalled s" "base s < int (length hist)" "pack_bytes (hist ! nat (base s)) = Inr d"
  obtains t where "d \<in> set (snd (check_timeouts s t))"
proof -
  obtain info where g: "dict_get (unacked_packets s) (base s) = Some info"
    and sp: "same_packet (u_packet info) (hist ! nat (base s))"
    using outstanding_in_flight [OF assms(1,2)] assms(3) by auto
  have rto: "rto s \<le> 4" using assms(1) by (simp add: sender_inv_def cc_inv_def)
  have tr: "snd (transmit (u_packet info)) = [d]"
    using transmit_ok [of "u_packet info" d] same_packet_pack_bytes [OF sp] assms(4) by simp
  have "d \<in> set (snd (check_timeouts s (sent_time info + 4)))"
    using g rto tr
    by (cases "unacked_packets s") (auto simp: check_timeouts_def retransmit_def Let_def)
  then show ?thesis using that by blast
qed

text \<open>Its receiver answers with an acknowledgement that covers it.\<close>

lemma unpack_not_Nil: "unpack d = Inr p \<Longrightarrow> d \<noteq> []"
  by (auto simp: unpack_def unpack_fields_def FIXED_HEADER_SIZE_def FIXED_HEADER_FORMAT_def)

lemma receiver_acks:
  assumes di: "data_inv msgs s (snd ep) got" and lt: "base s < int (length (hist_of msgs))"
    and d: "pack_bytes (hist_of msgs ! nat (base s)) = Inr d" and ok: "int (length (hist_of msgs)) < 2 ^ 32"
  obtains p r ms d' e rw where "unpack d = Inr p" "demultiplex ep p 0 = ((fst ep, r), ms, [d'], None)"
    "pack_bytes (ack_packet e rw FLAG_ACK) = Inr d'" "base s < e"
proof -
  let ?hist = "hist_of msgs"
  let ?p = "?hist ! nat (base s)"
  have b: "0 \<le> base s" "base s < sent_count s" using sender_oldest [of ?hist s] di lt by (simp_all add: data_inv_def)
  have h: "seq_num ?p = base s" "flags ?p \<in> {0, FLAG_FIN}" "msg_id ?p \<noteq> None" "offset ?p \<noteq> None"
    using di lt b by (simp_all add: data_inv_def sender_inv_def history_ok_def)
  have u: "unpack d = Inr (stamped ?p)"
    using packet_codec.dec_enc [OF pack_bytes_packet_ok [OF d] d] h by simp
  have kind: "\<not> is_ack (stamped ?p)" "has_data (stamped ?p)"
    using h by (auto simp: is_ack_def has_data_def FLAG_ACK_def FLAG_FIN_def)
  have st: "of_stream (transmitted ?hist s) (stamped ?p)"
    using lt b h(1) by (simp add: of_stream_def transmitted_def)
  obtain r' ms e rw f where ps: "process_segment (snd ep) (stamped ?p) = (r', ms, e, rw, f)"
    using prod_cases5 by blast
  have ri: "receiver_inv (transmitted ?hist s) got (snd ep)" and be: "base s \<le> expected_seq (snd ep)"
    using di by (simp_all add: data_inv_def)
  note pp = process_segment_props [OF ri st ps]
  have e: "base s < e" using pp(2,3,9) be h(1) by fastforce
  have "int (length (transmitted ?hist s)) \<le> int (length ?hist)" by (simp add: transmitted_def)
  moreover have "e \<le> int (length (transmitted ?hist s))"
    using pp(1,3) by (simp add: receiver_inv_def receiver_core_def)
  ultimately have "e \<le> int (length ?hist)" by linarith
  then have "packet_ok (ack_packet e rw FLAG_ACK)"
    using e b ok pp(6,7)
    by (simp add: ack_packet_def packet_ok_def layout_defs fits_def FLAG_ACK_def MAX_RWND_def)
  then obtain d' where d': "pack_bytes (ack_packet e rw FLAG_ACK) = Inr d'" using pack_bytes_ok by blast
  have "demultiplex ep (stamped ?p) 0 = ((fst ep, r'), ms, [d'], None)"
    using kind d' pp(4) by (simp add: demultiplex_def ps)
  then show ?thesis using that u d' e by blast
qed

text \<open>And the acknowledgement moves the sender's window.\<close>

lemma ack_moves_base:
  assumes "pack_bytes (ack_packet e rw FLAG_ACK) = Inr d" "base (fst ep) < e"
  obtains p ep' out where "unpack d = Inr p" "demultiplex ep p 0 = (ep', [], out, None)" "base (fst ep') = e"
proof -
  have "packet_ok (ack_packet e rw FLAG_ACK)"
    by (rule pack_bytes_packet_ok [OF assms(1)]) (simp add: ack_packet_def)
  then have u: "unpack d = Inr (stamped (ack_packet e rw FLAG_ACK))"
    using assms(1) by (rule packet_codec.dec_enc)
  have kind: "is_ack (ack_packet e rw FLAG_ACK)" "\<not> has_data (ack_packet e rw FLAG_ACK)"
    "ack_num (ack_packet e rw FLAG_ACK) = e" "rwnd (ack_packet e rw FLAG_ACK) = rw"
    by (simp_all add: ack_packet_def is_ack_def has_data_def FLAG_ACK_def)
  obtain s1 o1 where oa: "on_ack_received (fst ep) e rw 0 = (s1, o1)" by fastforce
  have "base s1 = e" using on_ack_received_base [of "fst ep" e rw 0] assms(2) by (simp add: oa)
  moreover have "demultiplex ep (stamped (ack_packet e rw FLAG_ACK)) 0 = ((s1, snd ep), [], o1, None)"
    by (simp add: demultiplex_def kind oa)
  ultimately show ?thesis using that u by simp
qed

text \<open>The same steps in the system: ticks and arrivals at the client and at the server.\<close>

definition same_sent :: "rudp_system \<Rightarrow> rudp_system \<Rightarrow> bool" where
  "same_sent S S' \<longleftrightarrow> up_sent S' = up_sent S \<and> down_sent S' = down_sent S"

lemma client_ticks:
  assumes "link_up S a"
  obtains S' where "rudp_step S S'" "link_up S' a" "same_sent S S'" "server S' = server S" "up_got S' = up_got S"
    "base (fst (cl_endpoint (clients S' a))) = base (fst (cl_endpoint (clients S a)))"
    "Pair a ` set (snd (check_timeouts (fst (cl_endpoint (clients S a))) t)) \<subseteq> net_up S'"
proof -
  let ?c = "clients S a"
  obtain s ds where ct: "check_timeouts (fst (cl_endpoint ?c)) t = (s, ds)" by fastforce
  have it: "client_iteration ?c None False 0 t = (?c\<lparr>cl_endpoint := (s, snd (cl_endpoint ?c))\<rparr>, [], ds)"
    using assms by (simp add: client_iteration_def endpoint_tick_def client_raw_def link_up_def ct)
  show ?thesis
    by (rule that [OF rudp_step.client_loop [OF _ _ it]])
      (use assms ct check_timeouts_base [of "fst (cl_endpoint ?c)" t] in \<open>auto simp: link_up_def same_sent_def\<close>)
qed

lemma client_receives:
  assumes "link_up S a" "(a, d) \<in> net_down S" "unpack d = Inr p"
    and dm: "demultiplex (cl_endpoint (clients S a)) p 0 = (ep, ms, ds, None)"
  obtains S' where "rudp_step S S'" "link_up S' a" "same_sent S S'" "server S' = server S" "up_got S' = up_got S"
    "base (fst (cl_endpoint (clients S' a))) = base (fst ep)" "Pair a ` set ds \<subseteq> net_up S'"
proof -
  let ?c = "clients S a"
  obtain s ds' where ct: "check_timeouts (fst ep) 0 = (s, ds')" by fastforce
  have it: "client_iteration ?c (Some d) False 0 0 = (?c\<lparr>cl_endpoint := (s, snd ep)\<rparr>, ms, ds @ ds')"
    using assms unpack_not_Nil [OF assms(3)]
    by (simp add: client_iteration_def endpoint_tick_def client_raw_def link_up_def ct)
  show ?thesis
    by (rule that [OF rudp_step.client_loop [OF _ _ it]])
      (use assms ct check_timeouts_base [of "fst ep" 0] in \<open>auto simp: link_up_def same_sent_def arrives_def\<close>)
qed

lemma server_ticks:
  assumes "system_inv S" "link_up S a"
  obtains S' where "rudp_step S S'" "link_up S' a" "same_sent S S'" "clients S' = clients S"
    "base (fst (endpoint_of (server S') a)) = base (fst (endpoint_of (server S) a))"
    "Pair a ` set (snd (check_timeouts (fst (endpoint_of (server S) a)) t)) \<subseteq> net_down S'"
proof -
  have ok: "dict_ok (connections (server S))" using assms(1) by (simp add: system_inv_def)
  obtain sv o2 where tk: "tick_connections (server S) t = (sv, o2)" by fastforce
  note tp = tick_connections_props [OF tk ok]
  have it: "server_iteration (server S) None False 0 t = (sv, [], o2)" by (simp add: server_iteration_def tk)
  have "set (snd (check_timeouts (fst (endpoint_of (server S) a)) t)) \<subseteq> set (sends_to o2 a)"
    using tp(2) [of a] assms(2) by (simp add: link_up_def endpoint_tick_def split: prod.splits)
  then have o: "Pair a ` set (snd (check_timeouts (fst (endpoint_of (server S) a)) t)) \<subseteq> set o2"
    by (auto simp: set_sends_to)
  have "base (fst (endpoint_of sv a)) = base (fst (endpoint_of (server S) a))"
    using tp(1) [of a] check_timeouts_base [of "fst (endpoint_of (server S) a)" t]
    by (simp add: endpoint_tick_def split: prod.splits)
  then show ?thesis
    by (intro that [OF rudp_step.server_loop [OF _ _ it]])
      (use assms(2) tp(4,5) o in \<open>auto simp: link_up_def same_sent_def\<close>)
qed

lemma server_receives:
  assumes "system_inv S" "link_up S a" "(a, d) \<in> net_up S" "unpack d = Inr p"
    and dm: "demultiplex (endpoint_of (server S) a) p 0 = (ep, ms, ds, None)"
  obtains S' where "rudp_step S S'" "link_up S' a" "same_sent S S'" "clients S' = clients S"
    "base (fst (endpoint_of (server S') a)) = base (fst ep)" "Pair a ` set ds \<subseteq> net_down S'"
proof -
  have ok: "dict_ok (connections (server S))" using assms(1) by (simp add: system_inv_def)
  obtain sv1 m1 o1 er where hd: "handle_datagram (server S) d a 0 = (sv1, m1, o1, er)"
    using prod_cases4 by blast
  note hp = handle_datagram_props [OF hd assms(4) dm]
  obtain sv2 o2 where tk: "tick_connections sv1 0 = (sv2, o2)" by fastforce
  note tp = tick_connections_props [OF tk hp(5) [OF ok]]
  have it: "server_iteration (server S) (Some (a, d)) False 0 0 = (sv2, m1, o1 @ o2)"
    using hp(4) unpack_not_Nil [OF assms(4)] by (simp add: server_iteration_def hd tk)
  have "set ds \<subseteq> set (sends_to o1 a)" using hp(3) [of a] assms(2) by (simp add: link_up_def)
  then have o: "Pair a ` set ds \<subseteq> set (o1 @ o2)" by (auto simp: set_sends_to)
  have "base (fst (endpoint_of sv2 a)) = base (fst ep)"
    using tp(1) [of a] hp(1) [of a] check_timeouts_base [of "fst ep" 0]
    by (simp add: endpoint_tick_def split: prod.splits)
  then show ?thesis
    by (intro that [OF rudp_step.server_loop [OF _ _ it]])
      (use assms(2,3) tp(4,5) hp(6,7) o in \<open>auto simp: link_up_def same_sent_def arrives_def\<close>)
qed

lemma up_base_nonneg: "system_inv S \<Longrightarrow> 0 \<le> up_base S a"
  using system_inv_peer [of S a] by (simp add: peer_inv_def link_inv_def data_inv_def sender_inv_def flight_inv_def up_base_def)

text \<open>
  From the client to the server. First leg: a tick of the client puts the oldest unacknowledged packet
  on the network.
\<close>

lemma progress_tick:
  assumes i: "system_inv S" and c: "link_up S a" and lt: "up_base S a < int (length (hist_of (up_sent S a)))"
    and d: "pack_bytes (hist_of (up_sent S a) ! nat (up_base S a)) = Inr d"
  obtains S' where "rudp_step S S'" "(a, d) \<in> net_up S'" "link_up S' a" "up_base S' a = up_base S a"
    "server S' = server S" "same_sent S S'" "up_got S' = up_got S"
proof -
  let ?s = "fst (cl_endpoint (clients S a))"
  have "sender_inv (hist_of (up_sent S a)) ?s" "not_stalled ?s"
    using system_inv_peer [OF i, of a] by (simp_all add: peer_inv_def link_inv_def data_inv_def)
  then obtain t where t: "d \<in> set (snd (check_timeouts ?s t))" using oldest_resent [OF _ _ lt [unfolded up_base_def] d [unfolded up_base_def]] by blast
  obtain S' where S': "rudp_step S S'" "link_up S' a" "same_sent S S'" "server S' = server S" "up_got S' = up_got S"
      "up_base S' a = up_base S a" "(a, d) \<in> net_up S'"
    using client_ticks [OF c, of t] t unfolding up_base_def by blast
  show ?thesis by (rule that [OF S'(1,7,2,6,4,3,5)])
qed

text \<open>
  Second leg: when that packet reaches the server, the acknowledgement that it sends covers it.
\<close>

lemma progress_receive:
  assumes i: "system_inv S" and c: "link_up S a" and lt: "up_base S a < int (length (hist_of (up_sent S a)))"
    and d: "pack_bytes (hist_of (up_sent S a) ! nat (up_base S a)) = Inr d" "(a, d) \<in> net_up S"
    and ok: "int (length (hist_of (up_sent S a))) < 2 ^ 32"
  obtains sv' msgs out e rw d' where "server_iteration (server S) (Some (a, d)) False 0 0 = (sv', msgs, out)"
    "(a, d') \<in> set out" "srv_running sv'" "sock_open sv'" "pack_bytes (ack_packet e rw FLAG_ACK) = Inr d'" "up_base S a < e"
proof -
  let ?ep = "endpoint_of (server S) a"
  have "data_inv (up_sent S a) (fst (cl_endpoint (clients S a))) (snd ?ep) (up_got S a)"
      and okc: "dict_ok (connections (server S))"
    using system_inv_peer [OF i, of a] i by (simp_all add: peer_inv_def link_inv_def system_inv_def)
  then obtain p r ms d' e rw where u: "unpack d = Inr p" and dm: "demultiplex ?ep p 0 = ((fst ?ep, r), ms, [d'], None)"
      and d': "pack_bytes (ack_packet e rw FLAG_ACK) = Inr d'" and e: "up_base S a < e"
    using receiver_acks [of "up_sent S a" _ ?ep] lt d(1) ok by (metis up_base_def)
  obtain sv1 m1 o1 er where hd: "handle_datagram (server S) d a 0 = (sv1, m1, o1, er)"
    using prod_cases4 by blast
  note hp = handle_datagram_props [OF hd u dm]
  obtain sv2 o2 where tk: "tick_connections sv1 0 = (sv2, o2)" by fastforce
  note tp = tick_connections_props(4,5) [OF tk hp(5) [OF okc]]
  have it: "server_iteration (server S) (Some (a, d)) False 0 0 = (sv2, m1, o1 @ o2)"
    using hp(4) unpack_not_Nil [OF u] by (simp add: server_iteration_def hd tk)
  have "(a, d') \<in> set o1" using hp(3) [of a] c by (simp add: link_up_def flip: set_sends_to)
  then show ?thesis using c tp hp(6,7) by (intro that [OF it _ _ _ d' e]) (auto simp: link_up_def)
qed

text \<open>Third leg: the acknowledgement moves the client's window.\<close>

lemma progress_ack:
  assumes c: "link_up S a" and d: "pack_bytes (ack_packet e rw FLAG_ACK) = Inr d" "(a, d) \<in> net_down S"
    and lt: "up_base S a < e"
  obtains S' where "rudp_step S S'" "link_up S' a" "up_base S' a = e" "same_sent S S'" "up_got S' = up_got S"
proof -
  obtain p ep out where a: "unpack d = Inr p" "demultiplex (cl_endpoint (clients S a)) p 0 = (ep, [], out, None)" "base (fst ep) = e"
    using ack_moves_base [OF d(1)] lt by (metis up_base_def)
  obtain S' where S': "rudp_step S S'" "link_up S' a" "same_sent S S'" "up_got S' = up_got S" "up_base S' a = e"
    by (rule client_receives [OF c d(2) a(1,2)]) (simp add: a(3) up_base_def)
  show ?thesis by (rule that [OF S'(1,2,5,3,4)])
qed

text \<open>When the window has passed every packet, every message was delivered.\<close>

lemma data_inv_complete:
  assumes "data_inv msgs s r got" "int (length (hist_of msgs)) \<le> base s"
  shows "got = map snd msgs"
proof -
  have f: "flight_inv (hist_of msgs) s" using assms(1) by (simp add: data_inv_def sender_inv_def)
  have sc: "sent_count s = int (length (hist_of msgs))" "int (length (hist_of msgs)) \<le> expected_seq r"
    using assms f flight_sent_count(2) [OF f] by (simp_all add: flight_inv_def data_inv_def)
  have "reassemble (take (nat (expected_seq r)) (transmitted (hist_of msgs) s)) = (got, assembly_buffer r)"
    using assms(1) by (simp add: data_inv_def receiver_inv_def receiver_core_def)
  then show ?thesis using reassemble_hist_of [of msgs] sc by (simp add: transmitted_def)
qed

lemma up_complete:
  assumes "system_inv S" "\<not> up_base S a < int (length (hist_of (up_sent S a)))"
  shows "up_got S a = map snd (up_sent S a)"
  using data_inv_complete system_inv_peer [OF assms(1), of a] assms(2)
  by (fastforce simp: peer_inv_def link_inv_def up_base_def)

text \<open>One round of the three legs acknowledges at least one more packet.\<close>

lemma progress_round:
  assumes i: "system_inv S" and c: "link_up S a" and sb: "sendable (up_sent S a)"
    and lt: "up_base S a < int (length (hist_of (up_sent S a)))"
  obtains S' where "rudp_step\<^sup>*\<^sup>* S S'" "link_up S' a" "up_base S a < up_base S' a" "same_sent S S'"
proof -
  let ?hist = "hist_of (up_sent S a)"
  have "packet_ok (?hist ! nat (up_base S a))" using sendable_packet_ok [OF sb] lt up_base_nonneg [OF i, of a] by simp
  then obtain d where d: "pack_bytes (?hist ! nat (up_base S a)) = Inr d" using pack_bytes_ok by blast
  obtain S1 where S1: "rudp_step S S1" "(a, d) \<in> net_up S1" "link_up S1 a" "up_base S1 a = up_base S a"
      "server S1 = server S" "same_sent S S1"
    using progress_tick [OF i c lt d] .
  have p: "up_base S1 a < int (length (hist_of (up_sent S1 a)))"
      "pack_bytes (hist_of (up_sent S1 a) ! nat (up_base S1 a)) = Inr d" "int (length (hist_of (up_sent S1 a))) < 2 ^ 32"
    using lt d sb S1(4,6) by (simp_all add: sendable_def same_sent_def)
  obtain sv' msgs out e rw d' where r: "server_iteration (server S1) (Some (a, d)) False 0 0 = (sv', msgs, out)"
      "(a, d') \<in> set out" "srv_running sv'" "sock_open sv'" "pack_bytes (ack_packet e rw FLAG_ACK) = Inr d'" "up_base S1 a < e"
    using progress_receive [OF system_inv_step [OF i S1(1)] S1(3) p(1,2) S1(2) p(3)] .
  let ?S2 = "S1\<lparr>server := sv', net_down := net_down S1 \<union> set out, up_got := (\<lambda>b. up_got S1 b @ sends_to msgs b)\<rparr>"
  have S2: "rudp_step S1 ?S2"
    by (rule rudp_step.server_loop [OF _ _ r(1)]) (use S1(2,3) in \<open>auto simp: link_up_def arrives_def\<close>)
  have "link_up ?S2 a" "(a, d') \<in> net_down ?S2" "up_base ?S2 a < e"
    using S1(3) r by (auto simp: link_up_def up_base_def)
  then obtain S3 where S3: "rudp_step ?S2 S3" "link_up S3 a" "up_base S3 a = e" "same_sent ?S2 S3"
    using progress_ack [OF _ r(5), of ?S2] by blast
  have "rudp_step\<^sup>*\<^sup>* S S3" using S1(1) S2 S3(1) by (rule rtranclp_three_steps)
  then show ?thesis using that S3(2-4) r(6) S1(4,6) by (simp add: same_sent_def)
qed

text \<open>From the server to the client, the same three legs in one round.\<close>

definition down_base :: "rudp_system \<Rightarrow> addr \<Rightarrow> int" where
  "down_base S a = base (fst (endpoint_of (server S) a))"

lemma down_complete:
  assumes "system_inv S" "\<not> down_base S a < int (length (hist_of (down_sent S a)))"
  shows "down_got S a = map snd (down_sent S a)"
  using data_inv_complete system_inv_peer [OF assms(1), of a] assms(2)
  by (fastforce simp: peer_inv_def link_inv_def down_base_def)

lemma down_round:
  assumes i: "system_inv S" and c: "link_up S a" and sb: "sendable (down_sent S a)"
    and lt: "down_base S a < int (length (hist_of (down_sent S a)))"
  obtains S' where "rudp_step\<^sup>*\<^sup>* S S'" "link_up S' a" "down_base S a < down_base S' a" "same_sent S S'"
proof -
  let ?hist = "hist_of (down_sent S a)" and ?s = "fst (endpoint_of (server S) a)"
  have di: "sender_inv ?hist ?s" "not_stalled ?s"
    using system_inv_peer [OF i, of a] by (simp_all add: peer_inv_def link_inv_def data_inv_def)
  have "packet_ok (?hist ! nat (down_base S a))"
    using sendable_packet_ok [OF sb] lt sender_oldest(1) [OF di] by (simp add: down_base_def)
  then obtain d where d: "pack_bytes (?hist ! nat (down_base S a)) = Inr d" using pack_bytes_ok by blast
  then obtain t where t: "d \<in> set (snd (check_timeouts ?s t))" using oldest_resent [OF di] lt unfolding down_base_def by blast
  obtain S1 where S1: "rudp_step S S1" "link_up S1 a" "same_sent S S1" "down_base S1 a = down_base S a" "(a, d) \<in> net_down S1"
    using server_ticks [OF i c, of t] t unfolding down_base_def by blast
  have i1: "system_inv S1" using system_inv_step [OF i S1(1)] .
  have di1: "data_inv (down_sent S a) (fst (endpoint_of (server S1) a)) (snd (cl_endpoint (clients S1 a))) (down_got S1 a)"
    using system_inv_peer [OF i1, of a] S1(3) by (simp add: peer_inv_def link_inv_def same_sent_def)
  have b1: "base (fst (endpoint_of (server S1) a)) = down_base S a" using S1(4) by (simp add: down_base_def)
  have p: "base (fst (endpoint_of (server S1) a)) < int (length ?hist)" "int (length ?hist) < 2 ^ 32"
      "pack_bytes (?hist ! nat (base (fst (endpoint_of (server S1) a)))) = Inr d"
    using lt d sb by (simp_all add: b1 sendable_def)
  obtain p r ms d' e rw where u: "unpack d = Inr p"
      and dm: "demultiplex (cl_endpoint (clients S1 a)) p 0 = ((fst (cl_endpoint (clients S1 a)), r), ms, [d'], None)"
      and d': "pack_bytes (ack_packet e rw FLAG_ACK) = Inr d'" and e: "down_base S a < e"
    using receiver_acks [OF di1 p(1,3,2)] unfolding b1 .
  obtain S2 where S2: "rudp_step S1 S2" "link_up S2 a" "same_sent S1 S2" "server S2 = server S1" "(a, d') \<in> net_up S2"
    using client_receives [OF S1(2,5) u dm] by (metis image_eqI insertI1 list.set(2) subsetD)
  have i2: "system_inv S2" using system_inv_step [OF i1 S2(1)] .
  have "base (fst (endpoint_of (server S2) a)) < e" using e S1(4) S2(4) by (simp add: down_base_def)
  then obtain p' ep out where k: "unpack d' = Inr p'" "demultiplex (endpoint_of (server S2) a) p' 0 = (ep, [], out, None)"
      "base (fst ep) = e"
    using ack_moves_base [OF d'] by metis
  obtain S3 where S3: "rudp_step S2 S3" "link_up S3 a" "same_sent S2 S3" "down_base S3 a = e"
    using server_receives [OF i2 S2(2,5) k(1,2)] k(3) by (metis down_base_def)
  have "rudp_step\<^sup>*\<^sup>* S S3" using S1(1) S2(1) S3(1) by (rule rtranclp_three_steps)
  then show ?thesis using that S3(2,4) e S1(3) S2(3) S3(3) by (simp add: same_sent_def)
qed

text \<open>Rounds until a bound is reached.\<close>

lemma rounds_reach:
  fixes f :: "rudp_system \<Rightarrow> int"
  assumes "\<And>S. P S \<Longrightarrow> f S < n \<Longrightarrow> \<exists>S'. rudp_step\<^sup>*\<^sup>* S S' \<and> P S' \<and> f S < f S'" and "P S"
  shows "\<exists>S'. rudp_step\<^sup>*\<^sup>* S S' \<and> P S' \<and> \<not> f S' < n"
  using assms(2)
proof (induction "nat (n - f S)" arbitrary: S rule: less_induct)
  case less
  show ?case
  proof (cases "f S < n")
    case True
    then obtain S1 where S1: "rudp_step\<^sup>*\<^sup>* S S1" "P S1" "f S < f S1" using assms(1) less.prems by blast
    then obtain S' where "rudp_step\<^sup>*\<^sup>* S1 S'" "P S'" "\<not> f S' < n" using less.hyps [of S1] True by auto
    then show ?thesis using S1(1) by (meson rtranclp_trans)
  qed (use less.prems in blast)
qed

lemma same_sent_trans: "same_sent S S1 \<Longrightarrow> same_sent S1 S2 \<Longrightarrow> same_sent S S2"
  by (simp add: same_sent_def)

lemma progress_up:
  assumes "system_inv S" "link_up S a" "sendable (up_sent S a)"
  shows "\<exists>S'. rudp_step\<^sup>*\<^sup>* S S' \<and> link_up S' a \<and> same_sent S S' \<and> up_got S' a = map snd (up_sent S a)"
proof -
  let ?P = "\<lambda>T. system_inv T \<and> link_up T a \<and> same_sent S T"
  have "\<exists>T'. rudp_step\<^sup>*\<^sup>* T T' \<and> ?P T' \<and> up_base T a < up_base T' a"
    if "?P T" "up_base T a < int (length (hist_of (up_sent S a)))" for T
  proof -
    have "system_inv T" "link_up T a" "sendable (up_sent T a)" "up_base T a < int (length (hist_of (up_sent T a)))"
      using that assms(3) by (simp_all add: same_sent_def)
    then obtain T' where "rudp_step\<^sup>*\<^sup>* T T'" "link_up T' a" "up_base T a < up_base T' a" "same_sent T T'"
      by (rule progress_round)
    then show ?thesis using that(1) rudp_system_inv.inv_steps same_sent_trans by blast
  qed
  from rounds_reach [where P = ?P, OF this] obtain S' where "rudp_step\<^sup>*\<^sup>* S S'" "?P S'"
      "\<not> up_base S' a < int (length (hist_of (up_sent S a)))"
    using assms by (auto simp: same_sent_def)
  then show ?thesis using up_complete [of S' a] by (auto simp: same_sent_def)
qed

lemma progress_down:
  assumes "system_inv S" "link_up S a" "sendable (down_sent S a)"
  shows "\<exists>S'. rudp_step\<^sup>*\<^sup>* S S' \<and> same_sent S S' \<and> down_got S' a = map snd (down_sent S a)"
proof -
  let ?P = "\<lambda>T. system_inv T \<and> link_up T a \<and> same_sent S T"
  have "\<exists>T'. rudp_step\<^sup>*\<^sup>* T T' \<and> ?P T' \<and> down_base T a < down_base T' a"
    if "?P T" "down_base T a < int (length (hist_of (down_sent S a)))" for T
  proof -
    have "system_inv T" "link_up T a" "sendable (down_sent T a)" "down_base T a < int (length (hist_of (down_sent T a)))"
      using that assms(3) by (simp_all add: same_sent_def)
    then obtain T' where "rudp_step\<^sup>*\<^sup>* T T'" "link_up T' a" "down_base T a < down_base T' a" "same_sent T T'"
      by (rule down_round)
    then show ?thesis using that(1) rudp_system_inv.inv_steps same_sent_trans by blast
  qed
  from rounds_reach [where P = ?P, OF this] obtain S' where "rudp_step\<^sup>*\<^sup>* S S'" "?P S'"
      "\<not> down_base S' a < int (length (hist_of (down_sent S a)))"
    using assms by (auto simp: same_sent_def)
  then show ?thesis using down_complete [of S' a] by (auto simp: same_sent_def)
qed

lemma up_got_grows: "rudp_step\<^sup>*\<^sup>* S S' \<Longrightarrow> prefix (up_got S a) (up_got S' a)"
proof (induction rule: rtranclp_induct)
  case (step T T')
  then show ?case using rudp_step_ghosts [OF step.hyps(2), of a] by (metis prefix_append prefix_order.trans prefixI)
qed simp

lemma progress_all:
  assumes "system_inv S" "link_up S a" "sendable (up_sent S a)" "sendable (down_sent S a)"
  shows "\<exists>S'. rudp_step\<^sup>*\<^sup>* S S' \<and> up_got S' a = map snd (up_sent S a) \<and> down_got S' a = map snd (down_sent S a)"
proof -
  obtain S1 where S1: "rudp_step\<^sup>*\<^sup>* S S1" "link_up S1 a" "same_sent S S1" "up_got S1 a = map snd (up_sent S a)"
    using progress_up [OF assms(1-3)] by blast
  have i1: "system_inv S1" using rudp_system_inv.inv_steps [OF S1(1) assms(1)] .
  obtain S2 where S2: "rudp_step\<^sup>*\<^sup>* S1 S2" "same_sent S1 S2" "down_got S2 a = map snd (down_sent S a)"
    using progress_down [OF i1 S1(2)] assms(4) S1(3) by (auto simp: same_sent_def)
  have "prefix (up_got S2 a) (map snd (up_sent S a))"
    using system_inv_prefix(1) [OF rudp_system_inv.inv_steps [OF S2(1) i1], of a] S1(3) S2(2) by (simp add: same_sent_def)
  then have "up_got S2 a = map snd (up_sent S a)" using up_got_grows [OF S2(1), of a] S1(4) by (simp add: prefix_order.antisym)
  then show ?thesis using S1(1) S2(1,3) by (meson rtranclp_trans)
qed

section \<open>Properties\<close>

text \<open>
  C2. Reliable, ordered delivery: in every state that the clients, the server and the network
  can reach, for every peer and in both directions, the messages handed to the application are a
  prefix of the messages the other side was asked to send: none is lost from the middle,
  duplicated, reordered, altered or taken from another peer.
\<close>

theorem delivery_in_order:
  assumes "rudp_step\<^sup>*\<^sup>* init_system S"
  shows "prefix (up_got S a) (map snd (up_sent S a)) \<and> prefix (down_got S a) (map snd (down_sent S a))"
  using system_inv_prefix [OF rudp_system_inv.reachable_inv [OF refl assms]] by blast

definition sample_peer :: addr where "sample_peer = (''127.0.0.1'', 40000)"

definition sample_clients :: "addr \<Rightarrow> RUDPClientTransport" where
  "sample_clients = (\<lambda>_. new_client)(sample_peer := fst (RudpTransport.client_send
     (RudpTransport.client_start new_client) [104, 105] 1 0))"

definition sample_system :: rudp_system where
  "sample_system = init_system
     \<lparr>server := RudpTransport.server_start new_server, clients := sample_clients,
      net_up := Pair sample_peer ` set (snd (RudpTransport.client_send
        (RudpTransport.client_start new_client) [104, 105] 1 0)),
      up_sent := (\<lambda>_. [])(sample_peer := [(1, [104, 105])])\<rparr>"

lemma sample_system_reachable: "rudp_step\<^sup>*\<^sup>* init_system sample_system"
proof -
  let ?c = "RudpTransport.client_start new_client"
  let ?S1 = "init_system\<lparr>server := RudpTransport.server_start (server init_system)\<rparr>"
  let ?S2 = "?S1\<lparr>clients := (clients ?S1)(sample_peer := RudpTransport.client_start (clients ?S1 sample_peer))\<rparr>"
  obtain c' out where cs: "RudpTransport.client_send ?c [104, 105] 1 0 = (c', out)" by fastforce
  then have "RudpTransport.client_send (clients ?S2 sample_peer) [104, 105] 1 0 = (c', out)"
    by (simp add: init_system_def)
  note s3 = rudp_step.client_send [OF this]
  have "?S2\<lparr>clients := (clients ?S2)(sample_peer := c'), net_up := net_up ?S2 \<union> Pair sample_peer ` set out,
      up_sent := (up_sent ?S2)(sample_peer := up_sent ?S2 sample_peer @ [(1, [104, 105])])\<rparr> = sample_system"
    by (simp add: sample_system_def init_system_def sample_clients_def cs)
  with s3 have s3': "rudp_step ?S2 sample_system" by simp
  have "rudp_step init_system ?S1" "rudp_step ?S1 ?S2"
    by (rule rudp_step.server_start, rule rudp_step.client_start)
  then show ?thesis using s3' by (rule rtranclp_three_steps)
qed

theorem delivery_in_order_witness:
  "rudp_step\<^sup>*\<^sup>* init_system sample_system \<and>
   prefix (up_got sample_system sample_peer) (map snd (up_sent sample_system sample_peer)) \<and>
   map snd (up_sent sample_system sample_peer) = [[104, 105]]"
  using delivery_in_order [OF sample_system_reachable, of sample_peer] sample_system_reachable
  by (simp add: sample_system_def init_system_def)

text \<open>
  C7. No deadlock: from every reachable state in which the client's loop and the server's loop
  run, however much the network has lost, everything sent so far can still be delivered, in both
  directions: there are steps (timer ticks and arrivals of the datagrams they cause) to a state in
  which the server has handed exactly the client's messages to its application and the client exactly
  the server's to its own. The header fields bound this to \<open>2 ^ 32\<close> packets in each direction.
\<close>

theorem all_messages_deliverable:
  assumes "rudp_step\<^sup>*\<^sup>* init_system S" and "link_up S a" and "sendable (up_sent S a)" and "sendable (down_sent S a)"
  shows "\<exists>S'. rudp_step\<^sup>*\<^sup>* S S' \<and> up_got S' a = map snd (up_sent S a) \<and> down_got S' a = map snd (down_sent S a)"
  using progress_all [OF rudp_system_inv.reachable_inv [OF refl assms(1)] assms(2-4)] .

text \<open>A state in which each side has sent a message to the other and nothing has arrived.\<close>

definition sample_both :: rudp_system where
  "sample_both = (let (sv, out) = RudpTransport.server_send (server sample_system) [111, 107] 1 sample_peer 0
     in sample_system\<lparr>server := sv, net_down := net_down sample_system \<union> set out,
          down_sent := (down_sent sample_system)(sample_peer := down_sent sample_system sample_peer @ [(1, [111, 107])])\<rparr>)"

lemma sample_both_reachable: "rudp_step\<^sup>*\<^sup>* init_system sample_both"
proof -
  obtain sv out where s: "RudpTransport.server_send (server sample_system) [111, 107] 1 sample_peer 0 = (sv, out)" by fastforce
  have "rudp_step sample_system sample_both" using rudp_step.server_send [OF s] by (simp add: sample_both_def s)
  with sample_system_reachable show ?thesis by (rule rtranclp.rtrancl_into_rtrancl)
qed

lemma sample_both_sent:
  "link_up sample_both sample_peer" "up_sent sample_both sample_peer = [(1, [104, 105])]"
  "down_sent sample_both sample_peer = [(1, [111, 107])]" "up_got sample_both sample_peer = []"
  "down_got sample_both sample_peer = []"
proof -
  obtain sv out where s: "RudpTransport.server_send (server sample_system) [111, 107] 1 sample_peer 0 = (sv, out)" by fastforce
  obtain s' ds where "enqueue_data (fst (endpoint_of (server sample_system) sample_peer)) [111, 107] 1 0 = (s', ds)" by fastforce
  note sp = server_send_props(4,5) [OF s this]
  have "link_up sample_system sample_peer"
    by (simp add: link_up_def sample_system_def sample_clients_def server_start_def client_send_def
        client_start_def new_client_def split: prod.split)
  then show "link_up sample_both sample_peer" using sp by (simp add: sample_both_def s link_up_def)
qed (simp_all add: sample_both_def sample_system_def init_system_def split: prod.split)

theorem all_messages_deliverable_witness:
  "link_up sample_both sample_peer \<and> sendable (up_sent sample_both sample_peer) \<and>
   up_got sample_both sample_peer = [] \<and> down_got sample_both sample_peer = [] \<and>
   (\<exists>S'. rudp_step\<^sup>*\<^sup>* sample_both S' \<and> up_got S' sample_peer = [[104, 105]] \<and> down_got S' sample_peer = [[111, 107]])"
proof -
  have "hist_of [(1, [104, 105])] = packets_of [] 1 [104, 105]" "hist_of [(1, [111, 107])] = packets_of [] 1 [111, 107]"
    by (simp_all add: hist_of_def)
  then have s: "sendable (up_sent sample_both sample_peer)" "sendable (down_sent sample_both sample_peer)"
    by (simp_all add: sample_both_sent sendable_def packets_of_def chunks_of_def mss_eq)
  from all_messages_deliverable [OF sample_both_reachable sample_both_sent(1) s] s show ?thesis by (simp add: sample_both_sent)
qed

end
