(* ===== verification/Utf8.thy ===== *)
theory Utf8
  imports Prelude
begin

text \<open>
  Python's \<^verbatim>\<open>str\<close> and its UTF-8 codec, which every text that crosses the network goes
  through. A \<^verbatim>\<open>str\<close> is represented by the UTF-8 bytes of its code points, lone surrogates
  (which a JSON escape can create) included, as with the \<^verbatim>\<open>surrogatepass\<close> error handler;
  this representation is injective, and \<^verbatim>\<open>encode\<close> and \<^verbatim>\<open>decode\<close> in strict
  mode are the identity on the bytes with the checks that CPython makes: no overlong form, no
  surrogate, nothing above U+10FFFF.

  Shown: the code points of a text are recovered from its bytes and the bytes from the code
  points, so decoding accepts exactly the encodings.
\<close>

section \<open>Code points and their encoding\<close>

definition is_cp :: "nat \<Rightarrow> bool" where
  "is_cp n \<longleftrightarrow> n < 0x110000"

definition is_surrogate :: "nat \<Rightarrow> bool" where
  "is_surrogate n \<longleftrightarrow> 0xD800 \<le> n \<and> n \<le> 0xDFFF"

definition encode_cp :: "nat \<Rightarrow> string" where
  "encode_cp n =
     (if n < 0x80 then [char_of n]
      else if n < 0x800 then [char_of (0xC0 + n div 64), char_of (0x80 + n mod 64)]
      else if n < 0x10000
      then [char_of (0xE0 + n div 4096), char_of (0x80 + n div 64 mod 64), char_of (0x80 + n mod 64)]
      else [char_of (0xF0 + n div 262144), char_of (0x80 + n div 4096 mod 64),
            char_of (0x80 + n div 64 mod 64), char_of (0x80 + n mod 64)])"

definition encode_cps :: "nat list \<Rightarrow> string" where
  "encode_cps ns = concat (map encode_cp ns)"

definition is_cont :: "char \<Rightarrow> bool" where
  "is_cont c \<longleftrightarrow> 0x80 \<le> (of_char c :: nat) \<and> (of_char c :: nat) < 0xC0"

definition cont_val :: "char \<Rightarrow> nat" where
  "cont_val c = of_char c - 0x80"

text \<open>One code point off the front of a text, with the decoder's shortest-form checks.\<close>

definition decode_cp :: "string \<Rightarrow> (nat \<times> string) option" where
  "decode_cp s =
     (case s of [] \<Rightarrow> None
      | c # t \<Rightarrow>
          (let b = of_char c in
           if b < 0x80 then Some (b, t)
           else if b < 0xC2 then None
           else if b < 0xE0
           then (case t of
                   c1 # t' \<Rightarrow> if is_cont c1 then Some ((b - 0xC0) * 64 + cont_val c1, t') else None
                 | _ \<Rightarrow> None)
           else if b < 0xF0
           then (case t of
                   c1 # c2 # t' \<Rightarrow>
                     (let n = (b - 0xE0) * 4096 + cont_val c1 * 64 + cont_val c2
                      in if is_cont c1 \<and> is_cont c2 \<and> 0x800 \<le> n then Some (n, t') else None)
                 | _ \<Rightarrow> None)
           else if b < 0xF5
           then (case t of
                   c1 # c2 # c3 # t' \<Rightarrow>
                     (let n = (b - 0xF0) * 262144 + cont_val c1 * 4096 + cont_val c2 * 64 + cont_val c3
                      in if is_cont c1 \<and> is_cont c2 \<and> is_cont c3 \<and> 0x10000 \<le> n \<and> n < 0x110000
                         then Some (n, t') else None)
                 | _ \<Rightarrow> None)
           else None))"

lemma decode_cp_Nil [simp]: "decode_cp [] = None"
  by (simp add: decode_cp_def)

lemma decode_cp_length: "decode_cp s = Some (n, t) \<Longrightarrow> length t < length s"
  by (auto simp: decode_cp_def Let_def split: list.splits if_splits)

function decode_cps :: "string \<Rightarrow> nat list option" where
  "decode_cps s =
     (if s = [] then Some []
      else case decode_cp s of None \<Rightarrow> None
           | Some (n, t) \<Rightarrow> (case decode_cps t of None \<Rightarrow> None | Some ns \<Rightarrow> Some (n # ns)))"
  by pat_completeness auto
termination
  by (relation "measure length") (auto dest: decode_cp_length)

declare decode_cps.simps [simp del]

lemma decode_cps_Nil [simp]: "decode_cps [] = Some []"
  by (subst decode_cps.simps) simp

section \<open>The codec of Python's strings\<close>

text \<open>Text that a Python \<^verbatim>\<open>str\<close> can hold.\<close>

definition str_ok :: "string \<Rightarrow> bool" where
  "str_ok s \<longleftrightarrow> decode_cps s \<noteq> None"

definition str_bytes :: "string \<Rightarrow> bytes" where
  "str_bytes s = map (\<lambda>c. of_nat (of_char c)) s"

definition bytes_str :: "bytes \<Rightarrow> string" where
  "bytes_str bs = map (\<lambda>b. char_of (unat b)) bs"

definition encodable :: "string \<Rightarrow> bool" where
  "encodable s \<longleftrightarrow>
     (case decode_cps s of None \<Rightarrow> False | Some ns \<Rightarrow> list_all (\<lambda>n. \<not> is_surrogate n) ns)"

text \<open>\<^verbatim>\<open>bytes.decode('utf-8')\<close> and \<^verbatim>\<open>str.encode('utf-8')\<close>.\<close>

definition py_decode :: "bytes \<Rightarrow> py_error + string" where
  "py_decode bs = (if encodable (bytes_str bs) then Inr (bytes_str bs) else Inl UnicodeDecodeError)"

definition py_encode :: "string \<Rightarrow> py_error + bytes" where
  "py_encode s = (if encodable s then Inr (str_bytes s) else Inl UnicodeEncodeError)"

section \<open>Bytes and characters\<close>

lemma of_char_char_of_nat [simp]: "n < 256 \<Longrightarrow> (of_char (char_of n) :: nat) = n"
  by simp

lemma of_char_less_256 [simp]: "(of_char c :: nat) < 256"
  using of_char_of [of "of_char c :: nat"] by (metis char_of_char mod_less_divisor zero_less_numeral)

lemma char_of_eq_iff_nat: "n < 256 \<Longrightarrow> char_of n = c \<longleftrightarrow> n = (of_char c :: nat)"
  by auto

lemma char_of_escaped:
  "char_of (34::nat) = CHR 0x22" "char_of (92::nat) = CHR 0x5C" "char_of (10::nat) = CHR 0x0A"
  "char_of (13::nat) = CHR 0x0D" "char_of (9::nat) = CHR 0x09" "char_of (12::nat) = CHR 0x0C"
  "char_of (8::nat) = CHR 0x08"
  by (simp_all add: char_of_eq_iff_nat)

lemma unat_byte_less: "unat (b :: byte) < 256"
  using unsigned_less [of b, where 'a = nat] by simp

lemma bytes_str_bytes [simp]: "bytes_str (str_bytes s) = s"
  by (induction s) (simp_all add: bytes_str_def str_bytes_def unat_of_nat_byte)

lemma str_bytes_str [simp]: "str_bytes (bytes_str bs) = bs"
  by (induction bs) (simp_all add: bytes_str_def str_bytes_def unat_byte_less del: of_char_of)

lemma str_bytes_append [simp]: "str_bytes (s @ t) = str_bytes s @ str_bytes t"
  by (simp add: str_bytes_def)

lemma length_str_bytes [simp]: "length (str_bytes s) = length s"
  by (simp add: str_bytes_def)

lemma length_bytes_str [simp]: "length (bytes_str bs) = length bs"
  by (simp add: bytes_str_def)

lemma str_bytes_inject [simp]: "str_bytes s = str_bytes t \<longleftrightarrow> s = t"
  by (metis bytes_str_bytes)

section \<open>Decoding inverts encoding\<close>

text \<open>The base-64 digits of a code point put it back together.\<close>

lemma base64_digits:
  fixes n :: nat
  shows "n div 64 * 64 + n mod 64 = n"
    and "n div 4096 * 4096 + n div 64 mod 64 * 64 + n mod 64 = n"
    and "n div 262144 * 262144 + n div 4096 mod 64 * 4096 + n div 64 mod 64 * 64 + n mod 64 = n"
proof -
  have "n div 4096 = n div 64 div 64" "n div 262144 = n div 4096 div 64"
    by (simp_all add: div_mult2_eq [symmetric])
  then have e: "n div 4096 * 64 + n div 64 mod 64 = n div 64"
    "n div 262144 * 64 + n div 4096 mod 64 = n div 4096"
    by (metis div_mult_mod_eq)+
  show one: "n div 64 * 64 + n mod 64 = n" by (rule div_mult_mod_eq)
  show two: "n div 4096 * 4096 + n div 64 mod 64 * 64 + n mod 64 = n" using e one by linarith
  show "n div 262144 * 262144 + n div 4096 mod 64 * 4096 + n div 64 mod 64 * 64 + n mod 64 = n"
    using e two by linarith
qed

lemma decode_encode_cp:
  assumes "is_cp n"
  shows "decode_cp (encode_cp n @ s) = Some (n, s)"
proof -
  note defs = encode_cp_def decode_cp_def is_cont_def cont_val_def Let_def
  have m: "n mod 64 < 64" "n div 64 mod 64 < 64" "n div 4096 mod 64 < 64" by simp_all
  consider "n < 0x80" | "0x80 \<le> n" "n < 0x800" | "0x800 \<le> n" "n < 0x10000" | "0x10000 \<le> n" by linarith
  then show ?thesis
  proof cases
    case 1 then show ?thesis by (simp add: defs)
  next
    case 2
    then have "n div 64 < 32" "2 \<le> n div 64" by linarith+
    with 2 m base64_digits(1) [of n] show ?thesis
      by (simp add: defs del: of_char_of) (use 2 in linarith)
  next
    case 3
    then have "n div 4096 < 16" by linarith
    with 3 m base64_digits(2) [of n] show ?thesis by (simp add: defs del: of_char_of)
  next
    case 4
    then have "n div 262144 < 5" using assms by (simp add: is_cp_def)
    with 4 m base64_digits(3) [of n] assms show ?thesis by (simp add: defs is_cp_def del: of_char_of)
  qed
qed

lemma char_of_of_char_nat: "of_char c = (n::nat) \<Longrightarrow> char_of n = c"
  by auto

lemma encode_decode_cp:
  assumes "decode_cp s = Some (n, t)"
  shows "s = encode_cp n @ t \<and> is_cp n"
proof -
  obtain c r where s: "s = c # r" using assms by (cases s) (auto simp: decode_cp_def)
  define b :: nat where "b = of_char c"
  have c: "c = char_of b" by (simp add: b_def)
  note dec = assms [unfolded s decode_cp_def list.case Let_def b_def [symmetric]]
  consider "b < 0x80" | "0xC2 \<le> b" "b < 0xE0" | "0xE0 \<le> b" "b < 0xF0" | "0xF0 \<le> b" "b < 0xF5"
    using dec by (fastforce split: if_splits)
  then show ?thesis
  proof cases
    case 1 then show ?thesis using dec s c by (simp add: encode_cp_def is_cp_def)
  next
    case 2
    obtain c1 where r: "r = c1 # t" "is_cont c1" "n = (b - 0xC0) * 64 + cont_val c1"
      using dec 2 by (auto split: list.splits if_splits)
    define x where "x = cont_val c1"
    define a where "a = b - 0xC0"
    have "c1 = char_of (0x80 + x)" "x < 64" "b = 0xC0 + a" "2 \<le> a" "a < 32" "n = a * 64 + x"
      using r 2 by (auto simp: x_def a_def cont_val_def is_cont_def)
    then show ?thesis using s c r by (simp add: encode_cp_def is_cp_def)
  next
    case 3
    obtain c1 c2 where r: "r = c1 # c2 # t" "is_cont c1" "is_cont c2" "0x800 \<le> n"
      "n = (b - 0xE0) * 4096 + cont_val c1 * 64 + cont_val c2"
      using dec 3 by (auto split: list.splits if_splits)
    define x y a where "x = cont_val c1" and "y = cont_val c2" and "a = b - 0xE0"
    have k: "c1 = char_of (0x80 + x)" "x < 64" "c2 = char_of (0x80 + y)" "y < 64" "b = 0xE0 + a" "a < 16"
      using r(1-4) 3 by (auto simp: x_def y_def a_def cont_val_def is_cont_def)
    define p where "p = a * 64 + x"
    have n: "n = p * 64 + y"
      using r(5) unfolding x_def [symmetric] y_def [symmetric] a_def [symmetric] p_def by simp
    have "n div 64 = p" "n mod 64 = y" using n k by simp_all
    moreover have "p div 64 = a" "p mod 64 = x" using p_def k by simp_all
    moreover have "n div 4096 = n div 64 div 64" by (simp add: div_mult2_eq [symmetric])
    moreover have "n < 0x10000" using n p_def k by linarith
    ultimately show ?thesis using s c r(1,4) k by (simp add: encode_cp_def is_cp_def)
  next
    case 4
    obtain c1 c2 c3 where r: "r = c1 # c2 # c3 # t" "is_cont c1" "is_cont c2" "is_cont c3"
      "0x10000 \<le> n" "n < 0x110000"
      "n = (b - 0xF0) * 262144 + cont_val c1 * 4096 + cont_val c2 * 64 + cont_val c3"
      using dec 4 by (auto split: list.splits if_splits)
    define x y z a where "x = cont_val c1" and "y = cont_val c2" and "z = cont_val c3" and "a = b - 0xF0"
    have k: "c1 = char_of (0x80 + x)" "x < 64" "c2 = char_of (0x80 + y)" "y < 64"
      "c3 = char_of (0x80 + z)" "z < 64" "b = 0xF0 + a"
      using r(1-6) 4 by (auto simp: x_def y_def z_def a_def cont_val_def is_cont_def)
    define q where "q = a * 64 + x"
    define p where "p = q * 64 + y"
    have n: "n = p * 64 + z"
      using r(7) unfolding x_def [symmetric] y_def [symmetric] z_def [symmetric] a_def [symmetric] p_def q_def by simp
    have "n div 64 = p" "n mod 64 = z" using n k by simp_all
    moreover have "p div 64 = q" "p mod 64 = y" using p_def k by simp_all
    moreover have "q div 64 = a" "q mod 64 = x" using q_def k by simp_all
    moreover have "n div 4096 = n div 64 div 64" "n div 262144 = n div 64 div 64 div 64"
      by (simp_all add: div_mult2_eq [symmetric])
    ultimately show ?thesis using s c r(1,5,6) k by (simp add: encode_cp_def is_cp_def)
  qed
qed

lemma encode_cp_not_Nil [simp]: "encode_cp n \<noteq> []"
  by (simp add: encode_cp_def)

lemma encode_cps_simps [simp]:
  "encode_cps [] = []" "encode_cps (n # ns) = encode_cp n @ encode_cps ns"
  "encode_cps (ns @ ms) = encode_cps ns @ encode_cps ms"
  by (simp_all add: encode_cps_def)

lemma decode_cps_Cons: "is_cp n \<Longrightarrow> decode_cps (encode_cp n @ s) = map_option ((#) n) (decode_cps s)"
  by (subst decode_cps.simps) (simp add: decode_encode_cp split: option.split)

lemma decode_encode_cps: "list_all is_cp ns \<Longrightarrow> decode_cps (encode_cps ns) = Some ns"
  by (induction ns) (simp_all add: decode_cps_Cons)

lemma encode_decode_cps: "decode_cps s = Some ns \<Longrightarrow> s = encode_cps ns \<and> list_all is_cp ns"
proof (induction s arbitrary: ns rule: decode_cps.induct)
  case (1 s)
  show ?case
  proof (cases "s = []")
    case True then show ?thesis using 1 by simp
  next
    case False
    then obtain n t ms where st: "decode_cp s = Some (n, t)" "decode_cps t = Some ms" "ns = n # ms"
      using 1(2) by (subst (asm) decode_cps.simps) (auto split: option.splits)
    then show ?thesis using 1(1) [OF False st(1) refl st(2)] encode_decode_cp [OF st(1)] by simp
  qed
qed

lemma str_ok_iff: "str_ok s \<longleftrightarrow> (\<exists>ns. list_all is_cp ns \<and> s = encode_cps ns)"
  unfolding str_ok_def using decode_encode_cps encode_decode_cps by blast

lemma decode_cps_append:
  assumes "decode_cps s = Some ns"
  shows "decode_cps (s @ t) = map_option ((@) ns) (decode_cps t)"
proof -
  have "list_all is_cp ns \<Longrightarrow> decode_cps (encode_cps ns @ t) = map_option ((@) ns) (decode_cps t)"
    by (induction ns) (auto simp: decode_cps_Cons option.map_comp comp_def map_option_case split: option.split)
  then show ?thesis using encode_decode_cps [OF assms] by simp
qed

text \<open>ASCII text is its own encoding.\<close>

definition is_ascii :: "string \<Rightarrow> bool" where
  "is_ascii s \<longleftrightarrow> list_all (\<lambda>c. (of_char c :: nat) < 0x80) s"

lemma is_ascii_simps [simp]:
  "is_ascii []" "is_ascii (c # s) \<longleftrightarrow> (of_char c :: nat) < 0x80 \<and> is_ascii s"
  "is_ascii (s @ t) \<longleftrightarrow> is_ascii s \<and> is_ascii t"
  by (auto simp: is_ascii_def)

lemma decode_cps_ascii_Cons:
  "(of_char c :: nat) < 0x80 \<Longrightarrow> decode_cps (c # s) = map_option ((#) (of_char c)) (decode_cps s)"
  by (subst decode_cps.simps) (simp add: decode_cp_def split: option.split)

lemma decode_cps_ascii: "is_ascii s \<Longrightarrow> decode_cps s = Some (map of_char s)"
  by (induction s) (simp_all add: decode_cps_ascii_Cons)

lemma encodable_ascii: "is_ascii s \<Longrightarrow> encodable s"
  by (induction s) (auto simp: encodable_def decode_cps_ascii is_surrogate_def)

lemma encodable_append: "encodable s \<Longrightarrow> encodable t \<Longrightarrow> encodable (s @ t)"
  by (auto simp: encodable_def decode_cps_append split: option.splits)

lemma encodable_str_ok: "encodable s \<Longrightarrow> str_ok s"
  by (auto simp: encodable_def str_ok_def split: option.splits)

text \<open>The strict codec is a bijection between encodable texts and the byte strings it accepts.\<close>

lemma py_decode_encode: "py_encode s = Inr bs \<Longrightarrow> py_decode bs = Inr s"
  by (auto simp: py_encode_def py_decode_def split: if_splits)

lemma py_encode_decode: "py_decode bs = Inr s \<Longrightarrow> py_encode s = Inr bs"
  by (auto simp: py_encode_def py_decode_def split: if_splits)

interpretation utf8_codec: codec encodable py_encode py_decode "\<lambda>s. s"
  by unfold_locales (auto simp: py_encode_def py_decode_def)

end
