(* ===== verification/PolicyGuard.thy ===== *)
theory PolicyGuard
  imports Constants
begin

text \<open>
  The sandbox, \<^verbatim>\<open>src/server/agent/validations.py\<close>, over the functions of \<^verbatim>\<open>posixpath\<close> that it
  uses: \<^verbatim>\<open>join\<close>, \<^verbatim>\<open>normpath\<close>, \<^verbatim>\<open>abspath\<close> (with the working directory as an argument) and
  \<^verbatim>\<open>commonpath\<close>. Shown: a path that \<^verbatim>\<open>validate_path\<close> accepts is absolute, has no parent or
  empty component and lies below the root, whatever the client sent (symbolic links on disk are
  outside the model, as they are outside the code); and no harmless name is refused.
\<close>

section \<open>posixpath\<close>

definition starts_slash :: "string \<Rightarrow> bool" where
  "starts_slash p \<longleftrightarrow> take 1 p = ''/''"

fun join_slash :: "string list \<Rightarrow> string" where
  "join_slash [] = []"
| "join_slash [c] = c"
| "join_slash (c # cs) = c @ ''/'' @ join_slash cs"

definition os_join :: "string \<Rightarrow> string \<Rightarrow> string" where
  "os_join a b = (if starts_slash b then b
     else if a = [] \<or> last a = CHR ''/'' then a @ b else a @ ''/'' @ b)"

text \<open>One leading slash, or the two that POSIX gives a meaning of their own.\<close>

definition initial_slashes :: "string \<Rightarrow> nat" where
  "initial_slashes p = (if \<not> starts_slash p then 0
     else if take 2 p = ''//'' \<and> take 3 p \<noteq> ''///'' then 2 else 1)"

fun norm_comps :: "bool \<Rightarrow> string list \<Rightarrow> string list \<Rightarrow> string list" where
  "norm_comps absol new_comps [] = new_comps"
| "norm_comps absol new_comps (cmp # comps) =
     (if cmp = [] \<or> cmp = ''.'' then norm_comps absol new_comps comps
      else if cmp \<noteq> ''..'' \<or> (\<not> absol \<and> new_comps = []) \<or> (new_comps \<noteq> [] \<and> last new_comps = ''..'')
      then norm_comps absol (new_comps @ [cmp]) comps
      else if new_comps \<noteq> [] then norm_comps absol (butlast new_comps) comps
      else norm_comps absol new_comps comps)"

definition normpath :: "string \<Rightarrow> string" where
  "normpath path =
     (if path = [] then ''.''
      else (let k = initial_slashes path;
                path' = replicate k (CHR ''/'') @
                        join_slash (norm_comps (k > 0) [] (split_on (CHR ''/'') path))
            in if path' = [] then ''.'' else path'))"

definition abspath :: "string \<Rightarrow> string \<Rightarrow> string" where
  "abspath cwd path = normpath (if starts_slash path then path else os_join cwd path)"

definition path_comps :: "string \<Rightarrow> string list" where
  "path_comps p = filter (\<lambda>c. c \<noteq> [] \<and> c \<noteq> ''.'') (split_on (CHR ''/'') p)"

fun lcp :: "string list \<Rightarrow> string list \<Rightarrow> string list" where
  "lcp (a # as) (b # bs) = (if a = b then a # lcp as bs else [])"
| "lcp _ _ = []"

text \<open>\<^verbatim>\<open>commonpath\<close> of two paths; of two lists, the least and the greatest are the two lists.\<close>

definition commonpath :: "string \<Rightarrow> string \<Rightarrow> py_error + string" where
  "commonpath p q =
     (if starts_slash p \<noteq> starts_slash q then Inl (ValueError ''Can't mix absolute and relative paths'')
      else Inr ((if starts_slash p then ''/'' else []) @ join_slash (lcp (path_comps p) (path_comps q))))"

section \<open>PolicyGuard\<close>

record PolicyGuard =
  sandbox_root :: string
  cwd :: string

definition make_PolicyGuard :: "string \<Rightarrow> string \<Rightarrow> PolicyGuard" where
  "make_PolicyGuard wd rdir = \<lparr>sandbox_root = abspath wd rdir, cwd = wd\<rparr>"

definition validate_path :: "PolicyGuard \<Rightarrow> string \<Rightarrow> py_error + string" where
  "validate_path g fname =
     (if fname = [] then Inl (ValueError ''Filename cannot be empty'')
      else (let full_path = abspath (cwd g) (os_join (sandbox_root g) fname)
            in case commonpath (sandbox_root g) full_path of
                 Inl e \<Rightarrow> Inl e
               | Inr c \<Rightarrow> if c \<noteq> sandbox_root g then Inl (ValueError ''Path traversal detected'')
                          else Inr full_path))"

definition validate_payload_size :: "int \<Rightarrow> py_error + unit" where
  "validate_payload_size n =
     (if n > MAX_PAYLOAD_LEN
      then Inl (ValueError (''Payload too large: '' @ string_of_int n @ '' > '' @ string_of_int MAX_PAYLOAD_LEN))
      else Inr ())"

section \<open>Lemmas\<close>

definition plain_comp :: "string \<Rightarrow> bool" where
  "plain_comp c \<longleftrightarrow> c \<noteq> [] \<and> c \<noteq> ''.'' \<and> CHR ''/'' \<notin> set c"

lemma split_on_no_sep: "c \<in> set (split_on x s) \<Longrightarrow> x \<notin> set c"
  by (induction s arbitrary: c) (auto split: if_splits list.splits)

lemma split_on_join:
  "cs \<noteq> [] \<Longrightarrow> \<forall>c \<in> set cs. CHR ''/'' \<notin> set c \<Longrightarrow> split_on (CHR ''/'') (join_slash cs) = cs"
proof (induction cs rule: join_slash.induct)
  case (3 c d cs)
  then show ?case using split_on_append [of "CHR ''/''" c "join_slash (d # cs)"] by simp
qed (simp_all add: split_on_none)

lemma split_on_slashes:
  "split_on (CHR ''/'') (replicate k (CHR ''/'') @ s) = replicate k [] @ split_on (CHR ''/'') s"
  by (induction k) auto

lemma path_comps_join:
  assumes "\<forall>c \<in> set cs. plain_comp c"
  shows "path_comps (replicate k (CHR ''/'') @ join_slash cs) = cs"
proof (cases "cs = []")
  case True
  then show ?thesis using split_on_slashes [of k "[]"] by (simp add: path_comps_def)
next
  case False
  then have "split_on (CHR ''/'') (join_slash cs) = cs"
    using assms by (intro split_on_join) (auto simp: plain_comp_def)
  moreover have "filter (\<lambda>c. c \<noteq> [] \<and> c \<noteq> ''.'') cs = cs" using assms by (auto simp: plain_comp_def)
  ultimately show ?thesis by (simp add: path_comps_def split_on_slashes filter_replicate)
qed

lemma path_comps_plain: "c \<in> set (path_comps p) \<Longrightarrow> plain_comp c"
  by (auto simp: path_comps_def plain_comp_def dest: split_on_no_sep)

lemma norm_comps_absolute:
  assumes "\<forall>c \<in> set acc. plain_comp c \<and> c \<noteq> ''..''" "\<forall>c \<in> set cs. CHR ''/'' \<notin> set c"
  shows "\<forall>c \<in> set (norm_comps True acc cs). plain_comp c \<and> c \<noteq> ''..''"
  using assms
proof (induction cs arbitrary: acc)
  case (Cons c cs)
  have cs: "\<forall>d \<in> set cs. CHR ''/'' \<notin> set d" using Cons.prems(2) by simp
  consider (skip) "c = [] \<or> c = ''.''" | (push) "c \<noteq> []" "c \<noteq> ''.''" "c \<noteq> ''..''"
    | (pop) "c = ''..''" "acc \<noteq> []" | (top) "c = ''..''" "acc = []" by blast
  then show ?case
  proof cases
    case skip
    then have "norm_comps True acc (c # cs) = norm_comps True acc cs" by auto
    then show ?thesis using Cons.IH [OF Cons.prems(1) cs] by simp
  next
    case push
    then have eq: "norm_comps True acc (c # cs) = norm_comps True (acc @ [c]) cs" by simp
    have "CHR ''/'' \<notin> set c" using Cons.prems(2) by simp
    then have "plain_comp c" using push(1,2) unfolding plain_comp_def by blast
    then have "\<forall>d \<in> set (acc @ [c]). plain_comp d \<and> d \<noteq> ''..''" using Cons.prems(1) push(3) by auto
    from Cons.IH [OF this cs] show ?thesis unfolding eq .
  next
    case pop
    have "last acc \<noteq> ''..''" using Cons.prems(1) pop(2) last_in_set by blast
    then have eq: "norm_comps True acc (c # cs) = norm_comps True (butlast acc) cs" using pop by simp
    have "\<forall>d \<in> set (butlast acc). plain_comp d \<and> d \<noteq> ''..''"
      using Cons.prems(1) by (auto dest: in_set_butlastD)
    from Cons.IH [OF this cs] show ?thesis unfolding eq .
  next
    case top
    then have "norm_comps True acc (c # cs) = norm_comps True acc cs" by simp
    then show ?thesis using Cons.IH [OF Cons.prems(1) cs] by simp
  qed
qed simp

lemma norm_comps_append:
  assumes "\<forall>c \<in> set cs. c \<noteq> ''..''"
  shows "norm_comps True acc cs = acc @ filter (\<lambda>c. c \<noteq> [] \<and> c \<noteq> ''.'') cs"
  using assms by (induction cs arbitrary: acc) auto

lemma norm_comps_concat: "norm_comps b acc (cs @ ds) = norm_comps b (norm_comps b acc cs) ds"
  by (induction cs arbitrary: acc) auto

lemma normpath_absolute:
  assumes "starts_slash p"
  obtains k where "k = 1 \<or> k = 2"
    "normpath p = replicate k (CHR ''/'') @ join_slash (norm_comps True [] (split_on (CHR ''/'') p))"
proof -
  let ?k = "initial_slashes p"
  have k: "?k = 1 \<or> ?k = 2" using assms by (simp add: initial_slashes_def)
  moreover have "p \<noteq> []" using assms by (auto simp: starts_slash_def)
  ultimately have "normpath p = replicate ?k (CHR ''/'') @
      join_slash (norm_comps True [] (split_on (CHR ''/'') p))"
    by (auto simp: normpath_def Let_def)
  with k that show ?thesis by blast
qed

definition clean_abs :: "string \<Rightarrow> bool" where
  "clean_abs p \<longleftrightarrow> starts_slash p \<and> (\<forall>c \<in> set (path_comps p). plain_comp c \<and> c \<noteq> ''..'')"

lemma normpath_clean:
  assumes "starts_slash p"
  shows "clean_abs (normpath p)" "path_comps (normpath p) = norm_comps True [] (split_on (CHR ''/'') p)"
proof -
  let ?cs = "norm_comps True [] (split_on (CHR ''/'') p)"
  obtain k where k: "k = 1 \<or> k = 2" "normpath p = replicate k (CHR ''/'') @ join_slash ?cs"
    using normpath_absolute [OF assms] .
  have cs: "\<forall>c \<in> set ?cs. plain_comp c \<and> c \<noteq> ''..''"
    by (rule norm_comps_absolute) (auto dest: split_on_no_sep)
  then show pc: "path_comps (normpath p) = ?cs" unfolding k(2) by (intro path_comps_join) auto
  have "starts_slash (normpath p)" using k by (auto simp: starts_slash_def numeral_2_eq_2)
  with cs pc show "clean_abs (normpath p)" by (simp add: clean_abs_def)
qed

lemma lcp_prefix: "prefix (lcp as bs) as" "prefix (lcp as bs) bs"
  by (induction as bs rule: lcp.induct) auto

lemma lcp_append [simp]: "lcp as (as @ bs) = as"
  by (induction as) auto

lemma os_join_absolute: "starts_slash a \<Longrightarrow> starts_slash (os_join a b)"
  by (cases a) (auto simp: os_join_def starts_slash_def)

lemma make_PolicyGuard_root:
  assumes "starts_slash wd"
  shows "clean_abs (sandbox_root (make_PolicyGuard wd rdir))"
    and "take 2 (sandbox_root (make_PolicyGuard wd rdir)) \<noteq> ''//'' \<Longrightarrow>
      sandbox_root (make_PolicyGuard wd rdir) =
        ''/'' @ join_slash (path_comps (sandbox_root (make_PolicyGuard wd rdir)))"
proof -
  let ?p = "if starts_slash rdir then rdir else os_join wd rdir"
  have p: "starts_slash ?p" using os_join_absolute [OF assms] by simp
  have root: "sandbox_root (make_PolicyGuard wd rdir) = normpath ?p"
    by (simp add: make_PolicyGuard_def abspath_def)
  show "clean_abs (sandbox_root (make_PolicyGuard wd rdir))" unfolding root by (rule normpath_clean [OF p])
  assume n: "take 2 (sandbox_root (make_PolicyGuard wd rdir)) \<noteq> ''//''"
  obtain k where k: "k = 1 \<or> k = 2"
      "normpath ?p = replicate k (CHR ''/'') @ join_slash (norm_comps True [] (split_on (CHR ''/'') ?p))"
    using normpath_absolute [OF p] .
  then have "k = 1" using n unfolding root by (auto simp: numeral_2_eq_2)
  then show "sandbox_root (make_PolicyGuard wd rdir) =
      ''/'' @ join_slash (path_comps (sandbox_root (make_PolicyGuard wd rdir)))"
    unfolding root normpath_clean(2) [OF p] using k(2) by simp
qed

lemma validate_path_Inr:
  assumes "validate_path g fname = Inr p" "clean_abs (sandbox_root g)"
  shows "clean_abs p" "prefix (path_comps (sandbox_root g)) (path_comps p)"
proof -
  let ?r = "sandbox_root g"
  have r: "starts_slash ?r" using assms(2) by (simp add: clean_abs_def)
  have j: "starts_slash (os_join ?r fname)" using os_join_absolute [OF r] .
  have p: "p = normpath (os_join ?r fname)" and c: "commonpath ?r p = Inr ?r"
    using assms(1) j by (auto simp: validate_path_def Let_def abspath_def split: if_splits sum.splits)
  show cp: "clean_abs p" unfolding p by (rule normpath_clean [OF j])
  let ?l = "lcp (path_comps ?r) (path_comps p)"
  have "?r = replicate 1 (CHR ''/'') @ join_slash ?l" using c r by (auto simp: commonpath_def split: if_splits)
  then have "path_comps ?r = path_comps (replicate 1 (CHR ''/'') @ join_slash ?l)" by simp
  also have "\<dots> = ?l"
    by (rule path_comps_join) (use set_mono_prefix [OF lcp_prefix(1), of "path_comps ?r" "path_comps p"]
      path_comps_plain in blast)
  finally show "prefix (path_comps ?r) (path_comps p)" using lcp_prefix(2) [of "path_comps ?r"] by metis
qed

lemma split_on_concat: "split_on c (s @ c # r) = split_on c s @ split_on c r"
  by (induction s) (auto split: list.split)

lemma path_comps_concat: "path_comps (a @ CHR ''/'' # b) = path_comps a @ path_comps b"
  by (simp add: path_comps_def split_on_concat)

lemma validate_path_ok:
  assumes r: "clean_abs (sandbox_root g)" "sandbox_root g = ''/'' @ join_slash (path_comps (sandbox_root g))"
    and f: "fname \<noteq> []" "\<not> starts_slash fname" "''..'' \<notin> set (split_on (CHR ''/'') fname)"
  shows "\<exists>p. validate_path g fname = Inr p \<and> path_comps p = path_comps (sandbox_root g) @ path_comps fname"
proof -
  let ?r = "sandbox_root g"
  have sr: "starts_slash ?r" using r(1) by (simp add: clean_abs_def)
  then have j: "starts_slash (os_join ?r fname)" by (rule os_join_absolute)
  obtain a where a: "os_join ?r fname = a @ CHR ''/'' # fname" "path_comps a = path_comps ?r"
  proof (cases "last ?r = CHR ''/''")
    case True
    have "?r \<noteq> []" using sr by (auto simp: starts_slash_def)
    then obtain b where e: "?r = b @ [CHR ''/'']" using True by (metis append_butlast_last_id)
    have "path_comps ?r = path_comps b @ path_comps []" unfolding e using path_comps_concat [of b "[]"] by simp
    also have "path_comps [] = []" by (simp add: path_comps_def)
    finally show ?thesis using that [of b] f(2) by (simp add: os_join_def e)
  next
    case False
    moreover have "?r \<noteq> []" using sr by (auto simp: starts_slash_def)
    ultimately show ?thesis using that [of ?r] f(2) by (simp add: os_join_def)
  qed
  let ?p = "normpath (os_join ?r fname)"
  have nd: "''..'' \<notin> set (split_on (CHR ''/'') a)"
  proof
    assume "''..'' \<in> set (split_on (CHR ''/'') a)"
    then have "''..'' \<in> set (path_comps a)" by (simp add: path_comps_def)
    then show False using a(2) r(1) by (auto simp: clean_abs_def)
  qed
  have "\<forall>c \<in> set (split_on (CHR ''/'') (os_join ?r fname)). c \<noteq> ''..''"
    using nd f(3) by (auto simp: a(1) split_on_concat)
  then have "norm_comps True [] (split_on (CHR ''/'') (os_join ?r fname)) = path_comps (os_join ?r fname)"
    using norm_comps_append [of _ "[]"] by (simp only: path_comps_def append_Nil)
  then have pc: "path_comps ?p = path_comps ?r @ path_comps fname"
    using normpath_clean(2) [OF j] a by (simp only: path_comps_concat)
  have "starts_slash ?p" using normpath_clean(1) [OF j] by (simp add: clean_abs_def)
  then have "commonpath ?r ?p = Inr ?r" using sr pc r(2) by (simp add: commonpath_def)
  then have "validate_path g fname = Inr ?p" using f(1) j by (simp add: validate_path_def Let_def abspath_def)
  with pc show ?thesis by blast
qed

section \<open>Properties\<close>

text \<open>
  Confinement: whatever name a client sends (absolute, with any number of parent components,
  with repeated slashes), if the guard accepts it the resulting path is absolute, has no empty,
  current or parent component, and starts with all the components of the sandbox root.
\<close>

theorem sandbox_confinement:
  assumes "starts_slash wd" and "validate_path (make_PolicyGuard wd rdir) fname = Inr p"
  shows "starts_slash p \<and> list_all (\<lambda>c. c \<noteq> [] \<and> c \<noteq> ''.'' \<and> c \<noteq> ''..'') (path_comps p) \<and>
    prefix (path_comps (sandbox_root (make_PolicyGuard wd rdir))) (path_comps p)"
  using validate_path_Inr [OF assms(2) make_PolicyGuard_root(1) [OF assms(1)]]
  by (auto simp: clean_abs_def plain_comp_def list_all_iff)

definition sample_guard :: PolicyGuard where
  "sample_guard = make_PolicyGuard ''/srv'' ''box''"

lemmas path_simps = validate_path_def abspath_def os_join_def starts_slash_def normpath_def
  initial_slashes_def commonpath_def path_comps_def make_PolicyGuard_def Let_def

lemma sample_guard_root: "sandbox_root sample_guard = ''/srv/box''" "cwd sample_guard = ''/srv''"
  by (simp_all add: sample_guard_def path_simps)

theorem sandbox_confinement_witness:
  "validate_path sample_guard ''a/../b'' = Inr ''/srv/box/b'' \<and>
   prefix (path_comps ''/srv/box'') (path_comps ''/srv/box/b'') \<and>
   validate_path sample_guard ''../x'' = Inl (ValueError ''Path traversal detected'')"
proof -
  have v: "validate_path sample_guard ''a/../b'' = Inr ''/srv/box/b''"
    by (simp add: validate_path_def sample_guard_root abspath_def os_join_def starts_slash_def normpath_def
        initial_slashes_def commonpath_def path_comps_def Let_def)
  have t: "validate_path sample_guard ''../x'' = Inl (ValueError ''Path traversal detected'')"
    by (simp add: validate_path_def sample_guard_root abspath_def os_join_def starts_slash_def normpath_def
        initial_slashes_def commonpath_def path_comps_def Let_def)
  have "starts_slash ''/srv''" by (simp add: starts_slash_def)
  from sandbox_confinement [OF this v [unfolded sample_guard_def]] v t sample_guard_root(1) show ?thesis
    by (simp add: sample_guard_def)
qed

text \<open>
  No false alarms: a relative name without parent components is accepted, and resolves to the
  root followed by the components of the name.
\<close>

theorem sandbox_accepts_plain_names:
  assumes "starts_slash wd" and "take 2 (sandbox_root (make_PolicyGuard wd rdir)) \<noteq> ''//''"
    and "fname \<noteq> []" "\<not> starts_slash fname" "''..'' \<notin> set (split_on (CHR ''/'') fname)"
  shows "\<exists>p. validate_path (make_PolicyGuard wd rdir) fname = Inr p \<and>
    path_comps p = path_comps (sandbox_root (make_PolicyGuard wd rdir)) @ path_comps fname"
  by (rule validate_path_ok [OF make_PolicyGuard_root(1) [OF assms(1)]
        make_PolicyGuard_root(2) [OF assms(1,2)] assms(3-5)])

theorem sandbox_accepts_plain_names_witness:
  "\<exists>p. validate_path sample_guard ''docs/a.txt'' = Inr p \<and> path_comps p = [''srv'', ''box'', ''docs'', ''a.txt'']"
proof -
  have "starts_slash ''/srv''" by (simp add: starts_slash_def)
  moreover have "take 2 (sandbox_root (make_PolicyGuard ''/srv'' ''box'')) \<noteq> ''//''"
    using sample_guard_root(1) by (simp add: sample_guard_def)
  ultimately show ?thesis
    using sandbox_accepts_plain_names [of "''/srv''" "''box''" "''docs/a.txt''"] sample_guard_root(1)
    by (simp add: sample_guard_def starts_slash_def path_comps_def)
qed

end
