(* ===== verification/FileSystem.thy ===== *)
theory FileSystem
  imports Utf8 PolicyGuard
begin

text \<open>
  What the server's handlers use of \<^verbatim>\<open>os\<close>, \<^verbatim>\<open>os.path\<close> and \<^verbatim>\<open>open\<close>: a disk
  with regular files and directories, addressed by absolute paths. A directory has a size, as
  \<^verbatim>\<open>stat\<close> reports it. Paths that the operating system cannot take (a NUL character, a lone
  surrogate) raise subclasses of \<^verbatim>\<open>ValueError\<close>. Permissions, full disks, symbolic links and
  limits on the length of names are not modelled. Shown: what each operation changes and, for
  operations below the sandbox root, that everything else stays as it is.
\<close>

section \<open>State\<close>

record disk =
  files :: "(string, bytes) dict"
  dirs :: "(string, int) dict"

definition os_path_error :: "string \<Rightarrow> py_error option" where
  "os_path_error p =
     (if \<not> encodable p then Some UnicodeEncodeError
      else if CHR 0x00 \<in> set p then Some (ValueError ''embedded null byte'')
      else None)"

definition os_exists :: "disk \<Rightarrow> string \<Rightarrow> bool" where
  "os_exists d p \<longleftrightarrow> os_path_error p = None \<and> (dict_has (files d) p \<or> dict_has (dirs d) p)"

definition os_isdir :: "disk \<Rightarrow> string \<Rightarrow> bool" where
  "os_isdir d p \<longleftrightarrow> dict_has (dirs d) p"

definition os_getsize :: "disk \<Rightarrow> string \<Rightarrow> py_error + int" where
  "os_getsize d p =
     (case os_path_error p of
        Some e \<Rightarrow> Inl e
      | None \<Rightarrow>
          (case dict_get (files d) p of
             Some content \<Rightarrow> Inr (int (length content))
           | None \<Rightarrow> (case dict_get (dirs d) p of Some n \<Rightarrow> Inr n | None \<Rightarrow> Inl (NoSuchFile p))))"

text \<open>\<^verbatim>\<open>os.path.dirname\<close>\<close>

definition dirname :: "string \<Rightarrow> string" where
  "dirname p =
     (let head = rev (dropWhile (\<lambda>c. c \<noteq> CHR ''/'') (rev p))
      in if head \<noteq> [] \<and> head \<noteq> replicate (length head) (CHR ''/'')
         then rev (dropWhile (\<lambda>c. c = CHR ''/'') (rev head)) else head)"

text \<open>The directories from the first below \<^verbatim>\<open>/\<close> down to \<open>p\<close>.\<close>

definition dir_chain :: "string \<Rightarrow> string list" where
  "dir_chain p = map (\<lambda>k. ''/'' @ join_slash (take (Suc k) (path_comps p))) [0..<length (path_comps p)]"

section \<open>Operations\<close>

definition read_bytes :: "disk \<Rightarrow> string \<Rightarrow> py_error + bytes" where
  "read_bytes d p =
     (case os_path_error p of
        Some e \<Rightarrow> Inl e
      | None \<Rightarrow>
          if dict_has (dirs d) p then Inl OSError
          else (case dict_get (files d) p of Some content \<Rightarrow> Inr content | None \<Rightarrow> Inl (NoSuchFile p)))"

text \<open>
  Opening for writing: \<^verbatim>\<open>'wb'\<close> truncates, \<^verbatim>\<open>'ab'\<close> keeps the contents; both create a
  missing file when its directory exists.
\<close>

definition open_write :: "disk \<Rightarrow> string \<Rightarrow> py_error + bytes" where
  "open_write d p =
     (case os_path_error p of
        Some e \<Rightarrow> Inl e
      | None \<Rightarrow>
          if dict_has (dirs d) p then Inl OSError
          else (case dict_get (files d) p of
                  Some content \<Rightarrow> Inr content
                | None \<Rightarrow>
                    if os_isdir d (dirname p) \<or> dirname p = ''/'' then Inr []
                    else if list_ex (dict_has (files d)) (dir_chain (dirname p)) then Inl OSError
                    else Inl (NoSuchFile p)))"

definition put_file :: "disk \<Rightarrow> string \<Rightarrow> bytes \<Rightarrow> disk" where
  "put_file d p content = d\<lparr>files := dict_set p content (files d)\<rparr>"

definition truncate_file :: "disk \<Rightarrow> string \<Rightarrow> py_error + disk" where
  "truncate_file d p = (case open_write d p of Inl e \<Rightarrow> Inl e | Inr _ \<Rightarrow> Inr (put_file d p []))"

definition append_file :: "disk \<Rightarrow> string \<Rightarrow> bytes \<Rightarrow> py_error + disk" where
  "append_file d p data =
     (case open_write d p of Inl e \<Rightarrow> Inl e | Inr content \<Rightarrow> Inr (put_file d p (content @ data)))"

text \<open>
  \<^verbatim>\<open>os.makedirs(p, exist_ok=True)\<close>: the missing directories of the chain are created from the top,
  each with the size \<open>n\<close> of an empty directory, up to the first that cannot be.
\<close>

fun make_chain :: "int \<Rightarrow> disk \<Rightarrow> string list \<Rightarrow> disk \<times> py_error option" where
  "make_chain n d [] = (d, None)"
| "make_chain n d (q # qs) =
     (if dict_has (dirs d) q then make_chain n d qs
      else if dict_has (files d) q then (d, Some OSError)
      else case os_path_error q of
        Some e \<Rightarrow> (d, Some e)
      | None \<Rightarrow> make_chain n (d\<lparr>dirs := dict_set q n (dirs d)\<rparr>) qs)"

definition makedirs :: "int \<Rightarrow> disk \<Rightarrow> string \<Rightarrow> disk \<times> py_error option" where
  "makedirs n d p = make_chain n d (dir_chain p)"

text \<open>
  \<^verbatim>\<open>os.listdir(p)\<close>: the last components of the entries of a directory.
\<close>

definition entries :: "disk \<Rightarrow> string \<Rightarrow> string list" where
  "entries d p = map (\<lambda>q. last (path_comps q))
     (filter (\<lambda>q. path_comps q \<noteq> [] \<and> butlast (path_comps q) = path_comps p) (map fst (files d) @ map fst (dirs d)))"

definition os_listdir :: "disk \<Rightarrow> string \<Rightarrow> py_error + string list" where
  "os_listdir d p =
     (case os_path_error p of
        Some e \<Rightarrow> Inl e
      | None \<Rightarrow>
          if os_isdir d p then Inr (entries d p)
          else if dict_has (files d) p then Inl OSError
          else Inl (NoSuchFile p))"

section \<open>Lemmas\<close>

lemma put_file_sel [simp]:
  "dict_get (files (put_file d p c)) q = (if q = p then Some c else dict_get (files d) q)"
  "dirs (put_file d p c) = dirs d"
  by (simp_all add: put_file_def dict_simps)

lemma make_chain_files [simp]: "files (fst (make_chain n d qs)) = files d"
  by (induction n d qs rule: make_chain.induct) (auto split: option.split)

lemma makedirs_files [simp]: "files (fst (makedirs n d p)) = files d"
  by (simp add: makedirs_def)

lemma make_chain_dirs_grow:
  "dict_get (dirs d) q = Some k \<Longrightarrow> dict_get (dirs (fst (make_chain n d qs))) q = Some k"
proof (induction n d qs rule: make_chain.induct)
  case (2 n d r qs)
  then show ?case by (cases "q = r") (auto simp: dict_simps dict_has_def split: option.split)
qed simp

lemma make_chain_all:
  "snd (make_chain n d qs) = None \<Longrightarrow> q \<in> set qs \<Longrightarrow> dict_has (dirs (fst (make_chain n d qs))) q"
proof (induction n d qs rule: make_chain.induct)
  case (2 n d r qs)
  have grow: "dict_has (dirs d') r \<Longrightarrow> dict_has (dirs (fst (make_chain n d' qs))) r" for d'
    using make_chain_dirs_grow by (fastforce simp: dict_has_def)
  show ?case using 2 grow by (auto simp: dict_simps split: if_splits option.splits)
qed simp

text \<open>Below the sandbox root.\<close>

definition inside :: "string \<Rightarrow> string \<Rightarrow> bool" where
  "inside r p \<longleftrightarrow> prefix (path_comps r) (path_comps p)"

definition same_outside :: "string \<Rightarrow> disk \<Rightarrow> disk \<Rightarrow> bool" where
  "same_outside r d d' \<longleftrightarrow> (\<forall>p. \<not> inside r p \<longrightarrow> dict_get (files d') p = dict_get (files d) p)"

lemma same_outside_refl [simp, intro]: "same_outside r d d"
  by (simp add: same_outside_def)

lemma same_outside_trans: "same_outside r d e \<Longrightarrow> same_outside r e f \<Longrightarrow> same_outside r d f"
  by (simp add: same_outside_def)

lemma same_outside_put: "inside r p \<Longrightarrow> same_outside r d (put_file d p c)"
  by (auto simp: same_outside_def)

lemma same_outside_files: "files d' = files d \<Longrightarrow> same_outside r d d'"
  by (simp add: same_outside_def)

lemma same_outside_makedirs: "same_outside r d (fst (makedirs n d p))"
  by (rule same_outside_files) simp

lemma read_bytes_Inr:
  assumes "read_bytes d p = Inr content"
  shows "os_path_error p = None" "dict_get (files d) p = Some content" "\<not> dict_has (dirs d) p"
    "os_exists d p" "os_getsize d p = Inr (int (length content))"
  using assms by (auto simp: read_bytes_def os_exists_def os_getsize_def dict_has_def split: option.splits if_splits)

section \<open>A sample disk\<close>

definition sample_disk :: disk where
  "sample_disk = \<lparr>files = [(''/srv/box/a.txt'', str_bytes (''ab'' @ [CHR 0x0A] @ ''cd'' @ [CHR 0x0A]))],
     dirs = [(''/srv'', 4096), (''/srv/box'', 4096)]\<rparr>"

lemma sample_path: "validate_path sample_guard ''a.txt'' = Inr ''/srv/box/a.txt''"
  "validate_path sample_guard ''h.txt'' = Inr ''/srv/box/h.txt''"
  by (simp_all add: validate_path_def sample_guard_root abspath_def os_join_def starts_slash_def normpath_def
      initial_slashes_def commonpath_def path_comps_def Let_def)

lemma ascii_path_ok: "is_ascii p \<Longrightarrow> CHR 0x00 \<notin> set p \<Longrightarrow> os_path_error p = None"
  by (simp add: os_path_error_def encodable_ascii)

lemma sample_read: "read_bytes sample_disk ''/srv/box/a.txt'' = Inr (str_bytes (''ab'' @ [CHR 0x0A] @ ''cd'' @ [CHR 0x0A]))"
  by (simp add: read_bytes_def ascii_path_ok sample_disk_def dict_has_def)

end
