(* ===== verification/UploadSession.thy ===== *)
theory UploadSession
  imports Constants
begin

text \<open>
  Chunked uploads, \<^verbatim>\<open>src/server/agent/upload_session.py\<close>: sessions, the strict and the buffering
  treatment of chunks, completion and expiry. The random identifier and the clock are arguments;
  the file-writer callback is a function on a state \<open>'f\<close> that may raise. An operation that
  raises has still changed the session, so the new state is returned beside the result. Shown, for
  the file writer of \<^verbatim>\<open>handle_put_chunk\<close>: however the chunks of a file are repeated, reordered or
  lost, the file on disk is always a prefix of it, and completion is reported only for all of it.
\<close>

section \<open>State\<close>

datatype UploadMode = STRICT | BUFFERABLE

record UploadSession =
  upload_id :: string
  filename :: string
  total_size :: int
  created_at :: real
  last_activity :: real
  next_expected_offset :: int
  buffered_chunks :: "(int, bytes) dict"

record UploadSessionManager =
  sessions :: "(string, UploadSession) dict"
  upload_mode :: UploadMode
  session_ttl :: real

definition new_manager :: "UploadMode \<Rightarrow> real \<Rightarrow> UploadSessionManager" where
  "new_manager mode ttl = \<lparr>sessions = [], upload_mode = mode, session_ttl = ttl\<rparr>"

definition is_expired :: "UploadSession \<Rightarrow> real \<Rightarrow> real \<Rightarrow> bool" where
  "is_expired s ttl t \<longleftrightarrow> t - last_activity s > ttl"

definition create_session ::
  "UploadSessionManager \<Rightarrow> string \<Rightarrow> int \<Rightarrow> string \<Rightarrow> real \<Rightarrow> UploadSessionManager \<times> string" where
  "create_session m fname tsize uuid t =
     (m\<lparr>sessions := dict_set uuid \<lparr>upload_id = uuid, filename = fname, total_size = tsize,
          created_at = t, last_activity = t, next_expected_offset = 0, buffered_chunks = []\<rparr> (sessions m)\<rparr>,
      uuid)"

definition get_session ::
  "UploadSessionManager \<Rightarrow> string \<Rightarrow> real \<Rightarrow> UploadSessionManager \<times> UploadSession option" where
  "get_session m uid t =
     (case dict_get (sessions m) uid of
        None \<Rightarrow> (m, None)
      | Some s \<Rightarrow>
          (let s' = s\<lparr>last_activity := t\<rparr>
           in (m\<lparr>sessions := dict_set uid s' (sessions m)\<rparr>, Some s')))"

section \<open>Chunks\<close>

type_synonym 'f writer = "'f \<Rightarrow> string \<Rightarrow> int \<Rightarrow> bytes \<Rightarrow> py_error + 'f"

definition write_chunk ::
  "'f writer \<Rightarrow> 'f \<Rightarrow> UploadSession \<Rightarrow> int \<Rightarrow> bytes \<Rightarrow> py_error + (UploadSession \<times> 'f)" where
  "write_chunk w fs s off data =
     (case w fs (filename s) off data of
        Inl e \<Rightarrow> Inl e
      | Inr fs' \<Rightarrow> Inr (s\<lparr>next_expected_offset := next_expected_offset s + int (length data)\<rparr>, fs'))"

text \<open>
  \<^verbatim>\<open>_process_buffer\<close>: the chunk is popped before it is written, so a failing write loses it; the
  session reached and the exception, if any, are returned.
\<close>

function process_buffer ::
  "'f writer \<Rightarrow> 'f \<Rightarrow> UploadSession \<Rightarrow> UploadSession \<times> 'f \<times> py_error option" where
  "process_buffer w fs s =
     (case dict_get (buffered_chunks s) (next_expected_offset s) of
        None \<Rightarrow> (s, fs, None)
      | Some next_chunk \<Rightarrow>
          (let s1 = s\<lparr>buffered_chunks := dict_del (next_expected_offset s) (buffered_chunks s)\<rparr>
           in case write_chunk w fs s1 (next_expected_offset s1) next_chunk of
                Inl e \<Rightarrow> (s1, fs, Some e)
              | Inr (s2, fs') \<Rightarrow> process_buffer w fs' s2))"
  by pat_completeness auto
termination
proof (relation "measure (\<lambda>(w, fs, s). length (buffered_chunks s))")
  fix w :: "'f writer" and fs fs' :: 'f and s s1 s2 :: UploadSession and c :: bytes and b
  assume g: "dict_get (buffered_chunks s) (next_expected_offset s) = Some c"
    and s1: "s1 = s\<lparr>buffered_chunks := dict_del (next_expected_offset s) (buffered_chunks s)\<rparr>"
    and wr: "write_chunk w fs s1 (next_expected_offset s1) c = Inr b" "(s2, fs') = b"
  have "buffered_chunks s2 = buffered_chunks s1"
    using wr by (auto simp: write_chunk_def split: sum.splits)
  then show "((w, fs', s2), w, fs, s) \<in> measure (\<lambda>(w, fs, s). length (buffered_chunks s))"
    using length_delete_less [of "buffered_chunks s" "next_expected_offset s"] g
    by (simp add: s1 dict_has_def)
qed simp

declare process_buffer.simps [simp del]

definition finalize_session :: "UploadSessionManager \<Rightarrow> string \<Rightarrow> UploadSessionManager" where
  "finalize_session m uid =
     (if dict_has (sessions m) uid then m\<lparr>sessions := dict_del uid (sessions m)\<rparr> else m)"

definition put_session :: "UploadSessionManager \<Rightarrow> string \<Rightarrow> UploadSession \<Rightarrow> UploadSessionManager" where
  "put_session m uid s = m\<lparr>sessions := dict_set uid s (sessions m)\<rparr>"

text \<open>Step 4 of \<^verbatim>\<open>apply_chunk\<close>: completion.\<close>

definition check_complete ::
  "UploadSessionManager \<Rightarrow> string \<Rightarrow> UploadSession \<Rightarrow> UploadSessionManager \<times> (bool \<times> string)" where
  "check_complete m uid s =
     (if next_expected_offset s = total_size s
      then (finalize_session (put_session m uid s) uid, (True, ''Upload Complete''))
      else (put_session m uid s, (False, ''Chunk Applied'')))"

definition apply_chunk ::
  "UploadSessionManager \<Rightarrow> 'f writer \<Rightarrow> 'f \<Rightarrow> string \<Rightarrow> int \<Rightarrow> bytes \<Rightarrow> real
    \<Rightarrow> UploadSessionManager \<times> 'f \<times> (py_error + bool \<times> string)" where
  "apply_chunk m w fs uid off chunk_data t =
     (case get_session m uid t of
        (m1, None) \<Rightarrow> (m1, fs, Inl (ValueError (''Session '' @ uid @ '' not found'')))
      | (m1, Some s) \<Rightarrow>
          (let chunk_len = int (length chunk_data)
           in if off < next_expected_offset s
              then if off + chunk_len \<le> next_expected_offset s
                   then (m1, fs, Inr (next_expected_offset s = total_size s, ''Duplicate ignored''))
                   else (m1, fs, Inl (ValueError (''Overlapping chunk at '' @ string_of_int off @ '' (expected ''
                          @ string_of_int (next_expected_offset s) @ '')'')))
              else if off = next_expected_offset s
              then (case write_chunk w fs s off chunk_data of
                      Inl e \<Rightarrow> (m1, fs, Inl e)
                    | Inr (s1, fs1) \<Rightarrow>
                        (let (s2, fs2, err) =
                               (if upload_mode m = BUFFERABLE then process_buffer w fs1 s1 else (s1, fs1, None))
                         in case err of
                              Some e \<Rightarrow> (put_session m1 uid s2, fs2, Inl e)
                            | None \<Rightarrow> (let (m2, r) = check_complete m1 uid s2 in (m2, fs2, Inr r))))
              else if upload_mode m = STRICT
              then (m1, fs, Inl (ValueError (''Out-of-order chunk: Got '' @ string_of_int off @ '', expected ''
                     @ string_of_int (next_expected_offset s))))
              else (let s1 = s\<lparr>buffered_chunks := dict_set off chunk_data (buffered_chunks s)\<rparr>;
                        (m2, r) = check_complete m1 uid s1
                    in (m2, fs, Inr r))))"

definition cleanup_expired_sessions :: "UploadSessionManager \<Rightarrow> real \<Rightarrow> UploadSessionManager" where
  "cleanup_expired_sessions m t =
     (let expired = map fst (filter (\<lambda>(uid, s). is_expired s (session_ttl m) t) (sessions m))
      in foldl (\<lambda>m uid. m\<lparr>sessions := dict_del uid (sessions m)\<rparr>) m expired)"

section \<open>Writers that keep a relation\<close>

text \<open>
  What holds between the states before and after every write holds for whole chunks: the interface
  through which the confinement of uploads is shown for any writer.
\<close>

locale tracked_writer =
  fixes w :: "'f writer" and R :: "'f \<Rightarrow> 'f \<Rightarrow> bool"
  assumes kept: "w fs f off data = Inr fs' \<Longrightarrow> R fs fs'"
    and kept_refl: "R fs fs"
    and kept_trans: "R fs fs' \<Longrightarrow> R fs' fs'' \<Longrightarrow> R fs fs''"
begin

lemma write_chunk_kept: "write_chunk w fs s off data = Inr (s', fs') \<Longrightarrow> R fs fs'"
  using kept by (auto simp: write_chunk_def split: sum.splits)

lemma process_buffer_kept: "v = w \<Longrightarrow> R fs (fst (snd (process_buffer v fs s)))"
proof (induction v fs s rule: process_buffer.induct)
  case (1 v fs s)
  show ?case
  proof (cases "dict_get (buffered_chunks s) (next_expected_offset s)")
    case None then show ?thesis by (simp add: process_buffer.simps [of v fs s] kept_refl)
  next
    case (Some c)
    define s1 where "s1 = s\<lparr>buffered_chunks := dict_del (next_expected_offset s) (buffered_chunks s)\<rparr>"
    show ?thesis
    proof (cases "write_chunk v fs s1 (next_expected_offset s1) c")
      case (Inl e)
      then show ?thesis using Some by (simp add: process_buffer.simps [of v fs s] s1_def kept_refl Let_def)
    next
      case (Inr p)
      then obtain s2 fs' where p: "write_chunk v fs s1 (next_expected_offset s1) c = Inr (s2, fs')" by (cases p) auto
      have "R fs fs'" using p 1(2) write_chunk_kept by simp
      moreover have "R fs' (fst (snd (process_buffer v fs' s2)))"
        by (rule 1(1) [OF Some s1_def p refl 1(2)])
      ultimately show ?thesis
        using Some p kept_trans by (simp add: process_buffer.simps [of v fs s] s1_def Let_def)
    qed
  qed
qed

lemma apply_chunk_kept: "R fs (fst (snd (apply_chunk m w fs uid off data t)))"
proof -
  have "R fs fs2" if "(if upload_mode m = BUFFERABLE then process_buffer w fs1 s1 else (s1, fs1, None)) = (s2, fs2, err)"
    "write_chunk w fs s o' d = Inr (s1, fs1)" for fs1 s1 s2 fs2 err s o' d
    using that process_buffer_kept [OF refl, of fs1 s1] kept_trans [OF write_chunk_kept [OF that(2)]]
      write_chunk_kept [OF that(2)] by (auto split: if_splits)
  then show ?thesis
    by (auto simp: apply_chunk_def Let_def kept_refl split: prod.splits option.splits sum.splits)
qed

end

section \<open>The file writer\<close>

text \<open>
  \<^verbatim>\<open>f.seek(o); f.write(data)\<close> on an existing file: a gap is filled with zero bytes. The
  resolution of the name to a path, \<^verbatim>\<open>policy_guard.validate_path\<close>, is the argument \<open>resolve\<close>.
\<close>

definition write_at :: "bytes \<Rightarrow> int \<Rightarrow> bytes \<Rightarrow> bytes" where
  "write_at content off data =
     (if data = [] then content
      else let o' = nat off in take o' (content @ replicate (o' - length content) 0) @ data @ drop (o' + length data) content)"

definition file_writer ::
  "(string \<Rightarrow> py_error + string) \<Rightarrow> (string, bytes) dict \<Rightarrow> string \<Rightarrow> int \<Rightarrow> bytes \<Rightarrow> py_error + (string, bytes) dict" where
  "file_writer resolve fs fname off data =
     (case resolve fname of
        Inl e \<Rightarrow> Inl e
      | Inr abs_path \<Rightarrow>
          (case dict_get fs abs_path of
             None \<Rightarrow> Inl (NoSuchFile abs_path)
           | Some content \<Rightarrow> Inr (dict_set abs_path (write_at content off data) fs)))"

section \<open>The file is a prefix of the data\<close>

text \<open>A chunk of the data to upload, at its offset.\<close>

definition chunk_of :: "bytes \<Rightarrow> int \<Rightarrow> bytes \<Rightarrow> bool" where
  "chunk_of data off c \<longleftrightarrow> 0 \<le> off \<and> off + int (length c) \<le> int (length data) \<and>
     c = take (length c) (drop (nat off) data)"

definition session_ok :: "bytes \<Rightarrow> bytes \<Rightarrow> UploadSession \<Rightarrow> bool" where
  "session_ok data content s \<longleftrightarrow>
     total_size s = int (length data) \<and> 0 \<le> next_expected_offset s \<and>
     next_expected_offset s \<le> int (length data) \<and> content = take (nat (next_expected_offset s)) data \<and>
     dict_ok (buffered_chunks s) \<and> (\<forall>(off, c) \<in> set (buffered_chunks s). chunk_of data off c)"

lemma chunk_of_bounds:
  assumes "chunk_of data off c"
  shows "0 \<le> off" "off + int (length c) \<le> int (length data)"
  using assms unfolding chunk_of_def by blast+

lemma chunk_of_append:
  assumes "chunk_of data off c"
  shows "take (nat off) data @ c = take (nat (off + int (length c))) data"
proof -
  have "nat (off + int (length c)) = nat off + length c" using chunk_of_bounds [OF assms] by simp
  then have "take (nat (off + int (length c))) data = take (nat off) data @ take (length c) (drop (nat off) data)"
    by (simp add: take_add)
  then show ?thesis using assms by (metis chunk_of_def)
qed

lemma write_at_chunk:
  assumes "chunk_of data off c"
  shows "write_at (take (nat off) data) off c = take (nat (off + int (length c))) data"
proof (cases "c = []")
  case True
  then show ?thesis by (simp add: write_at_def)
next
  case False
  have "nat off \<le> length data" using chunk_of_bounds [OF assms] by linarith
  then have "write_at (take (nat off) data) off c = take (nat off) data @ c"
    using False by (simp add: write_at_def Let_def min_def)
  then show ?thesis by (simp add: chunk_of_append [OF assms])
qed

text \<open>One write of the next chunk.\<close>

lemma write_chunk_ok:
  assumes s: "session_ok data content s" and f: "resolve (filename s) = Inr path" "dict_get fs path = Some content"
    and c: "chunk_of data (next_expected_offset s) c"
  shows "\<exists>s' fs' content'.
    write_chunk (file_writer resolve) fs s (next_expected_offset s) c = Inr (s', fs') \<and>
    session_ok data content' s' \<and> dict_get fs' path = Some content' \<and> filename s' = filename s \<and>
    next_expected_offset s' = next_expected_offset s + int (length c) \<and> buffered_chunks s' = buffered_chunks s"
proof -
  let ?n = "next_expected_offset s"
  let ?s' = "s\<lparr>next_expected_offset := ?n + int (length c)\<rparr>"
  let ?fs' = "dict_set path (write_at content ?n c) fs"
  have "write_chunk (file_writer resolve) fs s ?n c = Inr (?s', ?fs')"
    using f by (simp add: write_chunk_def file_writer_def)
  moreover have "write_at content ?n c = take (nat (?n + int (length c))) data"
    using s write_at_chunk [OF c] by (simp add: session_ok_def)
  moreover have "dict_get ?fs' path = Some (write_at content ?n c)" by (simp add: dict_simps)
  ultimately show ?thesis
    using s c by (intro exI [of _ ?s'] exI [of _ ?fs'] exI [of _ "write_at content ?n c"])
      (auto simp: session_ok_def chunk_of_def)
qed

lemma process_buffer_ok:
  assumes "session_ok data content s" "resolve (filename s) = Inr path" "dict_get fs path = Some content"
    and "process_buffer (file_writer resolve) fs s = (s', fs', err)"
  shows "err = None \<and> filename s' = filename s \<and> next_expected_offset s \<le> next_expected_offset s' \<and>
    (\<exists>content'. session_ok data content' s' \<and> dict_get fs' path = Some content')"
  using assms
proof (induction "length (buffered_chunks s)" arbitrary: s fs content rule: less_induct)
  case less
  let ?n = "next_expected_offset s"
  show ?case
  proof (cases "dict_get (buffered_chunks s) ?n")
    case None
    then show ?thesis using less.prems by (auto simp: process_buffer.simps [of _ fs s])
  next
    case (Some c)
    let ?s1 = "s\<lparr>buffered_chunks := dict_del ?n (buffered_chunks s)\<rparr>"
    have c: "chunk_of data ?n c"
      using less.prems(1) map_of_SomeD [OF Some] by (auto simp: session_ok_def)
    have "session_ok data content ?s1"
      using less.prems(1) by (auto simp: session_ok_def AList.delete_eq)
    then obtain s2 fs2 content2 where w:
        "write_chunk (file_writer resolve) fs ?s1 (next_expected_offset ?s1) c = Inr (s2, fs2)"
        "session_ok data content2 s2" "dict_get fs2 path = Some content2" "filename s2 = filename ?s1"
        "next_expected_offset s2 = next_expected_offset ?s1 + int (length c)"
        "buffered_chunks s2 = buffered_chunks ?s1"
      using write_chunk_ok [of data content ?s1 resolve path fs c] less.prems(2,3) c by auto
    have pb: "process_buffer (file_writer resolve) fs2 s2 = (s', fs', err)"
      using less.prems(4) w(1) unfolding process_buffer.simps [of _ fs s] Some option.case Let_def by simp
    have "length (buffered_chunks s2) < length (buffered_chunks s)"
      using length_delete_less [of "buffered_chunks s" ?n] Some w(6) by (simp add: dict_has_def)
    from less.hyps [OF this w(2) _ w(3) pb] less.prems(2) w(4,5) show ?thesis by auto
  qed
qed

text \<open>The upload as a whole: the session, if still open, and the file agree.\<close>

definition upload_inv ::
  "(string \<Rightarrow> py_error + string) \<Rightarrow> bytes \<Rightarrow> string \<Rightarrow> string \<Rightarrow> UploadSessionManager \<Rightarrow> (string, bytes) dict \<Rightarrow> bool" where
  "upload_inv resolve data path uid m fs \<longleftrightarrow>
     (\<exists>content. dict_get fs path = Some content \<and>
        (case dict_get (sessions m) uid of
           None \<Rightarrow> content = data
         | Some s \<Rightarrow> resolve (filename s) = Inr path \<and> session_ok data content s))"

lemma upload_invI:
  assumes "dict_get fs path = Some content" "dict_get (sessions m) uid = Some s"
    "resolve (filename s) = Inr path" "session_ok data content s"
  shows "upload_inv resolve data path uid m fs"
  using assms by (simp add: upload_inv_def)

lemma session_ok_activity [simp]: "session_ok data content (s\<lparr>last_activity := t\<rparr>) = session_ok data content s"
  by (simp add: session_ok_def)

lemma check_complete_ok:
  assumes "dict_get fs path = Some content" "resolve (filename s) = Inr path" "session_ok data content s"
    and "check_complete m uid s = (m', r)"
  shows "upload_inv resolve data path uid m' fs" "fst r \<Longrightarrow> content = data" "upload_mode m' = upload_mode m"
proof -
  have full: "next_expected_offset s = total_size s \<Longrightarrow> content = data"
    using assms(3) by (simp add: session_ok_def)
  show "upload_inv resolve data path uid m' fs"
    using assms full by (auto simp: check_complete_def finalize_session_def put_session_def upload_inv_def
        dict_simps split: if_splits)
  show "content = data" if "fst r" using that assms(4) full by (auto simp: check_complete_def split: if_splits)
  show "upload_mode m' = upload_mode m"
    using assms(4) by (auto simp: check_complete_def finalize_session_def put_session_def split: if_splits)
qed

lemma apply_chunk_current:
  assumes ok: "session_ok data content s" and f: "dict_get fs path = Some content" "resolve (filename s) = Inr path"
    and c: "chunk_of data (next_expected_offset s) c" and g: "get_session m uid t = (m1, Some s)" "upload_mode m1 = upload_mode m"
    and ap: "apply_chunk m (file_writer resolve) fs uid (next_expected_offset s) c t = (m', fs', res)"
  shows "upload_inv resolve data path uid m' fs' \<and> upload_mode m' = upload_mode m \<and>
    (\<forall>msg. res = Inr (True, msg) \<longrightarrow> dict_get fs' path = Some data)"
proof -
  obtain s1 fs1 content1 where w: "write_chunk (file_writer resolve) fs s (next_expected_offset s) c = Inr (s1, fs1)"
      "session_ok data content1 s1" "dict_get fs1 path = Some content1" "filename s1 = filename s"
    using write_chunk_ok [OF ok, of resolve path fs c] f c by auto
  obtain s2 fs2 err where pb: "(if upload_mode m = BUFFERABLE then process_buffer (file_writer resolve) fs1 s1
      else (s1, fs1, None)) = (s2, fs2, err)" using prod_cases3 by blast
  then obtain content2 where p2: "err = None" "session_ok data content2 s2" "dict_get fs2 path = Some content2"
      "filename s2 = filename s"
    using process_buffer_ok [OF w(2) _ w(3), of resolve s2 fs2 err] w f(2) by (auto split: if_splits)
  obtain r where cc: "check_complete m1 uid s2 = (m', r)" "fs' = fs2" "res = Inr r"
    using ap w(1) pb p2(1) by (auto simp: apply_chunk_def g Let_def split: prod.splits)
  from check_complete_ok [OF p2(3) _ p2(2) cc(1), of resolve] p2 f(2) cc(2,3) g(2) show ?thesis by auto
qed

lemma apply_chunk_ok:
  assumes inv: "upload_inv resolve data path uid m fs" and c: "chunk_of data off c"
    and ap: "apply_chunk m (file_writer resolve) fs uid off c t = (m', fs', res)"
  shows "upload_inv resolve data path uid m' fs' \<and> upload_mode m' = upload_mode m \<and>
    (\<forall>msg. res = Inr (True, msg) \<longrightarrow> dict_get fs' path = Some data)"
proof (cases "dict_get (sessions m) uid")
  case None
  then show ?thesis using ap inv by (auto simp: apply_chunk_def get_session_def)
next
  case (Some s0)
  let ?s = "s0\<lparr>last_activity := t\<rparr>"
  let ?m1 = "m\<lparr>sessions := dict_set uid ?s (sessions m)\<rparr>"
  obtain content where f: "dict_get fs path = Some content" "resolve (filename ?s) = Inr path"
    and ok: "session_ok data content ?s"
    using inv Some by (auto simp: upload_inv_def)
  have g: "get_session m uid t = (?m1, Some ?s)" using Some by (simp add: get_session_def Let_def)
  have keep: "upload_inv resolve data path uid ?m1 fs"
    by (rule upload_invI [of fs path content ?m1 uid ?s]) (use f ok in \<open>simp_all add: dict_simps\<close>)
  have full: "next_expected_offset ?s = total_size ?s \<Longrightarrow> content = data"
    using ok by (simp add: session_ok_def)
  consider (old) "off < next_expected_offset ?s" | (cur) "off = next_expected_offset ?s"
    | (new) "off > next_expected_offset ?s" by linarith
  then show ?thesis
  proof cases
    case old
    then have "m' = ?m1" "fs' = fs" "\<And>msg. res = Inr (True, msg) \<Longrightarrow> next_expected_offset ?s = total_size ?s"
      using ap by (auto simp: apply_chunk_def g Let_def split: if_splits)
    then show ?thesis using keep full f(1) by auto
  next
    case new
    show ?thesis
    proof (cases "upload_mode m")
      case STRICT
      then have "m' = ?m1" "fs' = fs" "\<exists>e. res = Inl e" using ap new by (auto simp: apply_chunk_def g Let_def)
      then show ?thesis using keep by auto
    next
      case BUFFERABLE
      let ?s1 = "?s\<lparr>buffered_chunks := dict_set off c (buffered_chunks ?s)\<rparr>"
      obtain r where cc: "check_complete ?m1 uid ?s1 = (m', r)" "fs' = fs" "res = Inr r"
        using ap new BUFFERABLE by (auto simp: apply_chunk_def g Let_def split: prod.splits)
      have "session_ok data content ?s1" using ok c by (auto simp: session_ok_def dest!: set_dict_setD)
      from check_complete_ok [OF f(1) _ this cc(1), of resolve] f cc(2,3) show ?thesis by auto
    qed
  next
    case cur
    then show ?thesis
      using apply_chunk_current [where resolve = resolve, OF ok f(1,2) _ g] c ap by simp
  qed
qed

section \<open>Sequences of chunks\<close>

fun apply_chunks ::
  "UploadSessionManager \<Rightarrow> 'f writer \<Rightarrow> 'f \<Rightarrow> string \<Rightarrow> (int \<times> bytes \<times> real) list
    \<Rightarrow> UploadSessionManager \<times> 'f \<times> (py_error + bool \<times> string) list" where
  "apply_chunks m w fs uid [] = (m, fs, [])"
| "apply_chunks m w fs uid ((off, c, t) # cs) =
     (let (m1, fs1, r) = apply_chunk m w fs uid off c t;
          (m2, fs2, rs) = apply_chunks m1 w fs1 uid cs
      in (m2, fs2, r # rs))"

lemma apply_chunks_ok:
  assumes "upload_inv resolve data path uid m fs" "\<forall>(off, c, t) \<in> set cs. chunk_of data off c"
    and "apply_chunks m (file_writer resolve) fs uid cs = (m', fs', rs)"
  shows "upload_inv resolve data path uid m' fs' \<and>
    (\<forall>msg. rs \<noteq> [] \<and> last rs = Inr (True, msg) \<longrightarrow> dict_get fs' path = Some data)"
  using assms
proof (induction cs arbitrary: m fs rs)
  case (Cons x cs)
  obtain off c t where x: "x = (off, c, t)" using prod_cases3 by blast
  obtain m1 fs1 r where a: "apply_chunk m (file_writer resolve) fs uid off c t = (m1, fs1, r)"
    using prod_cases3 by blast
  obtain m2 fs2 rs2 where as: "apply_chunks m1 (file_writer resolve) fs1 uid cs = (m2, fs2, rs2)"
    using prod_cases3 by blast
  have r: "m' = m2" "fs' = fs2" "rs = r # rs2" using Cons.prems(3) by (simp_all add: x a as)
  have one: "upload_inv resolve data path uid m1 fs1"
      "\<forall>msg. r = Inr (True, msg) \<longrightarrow> dict_get fs1 path = Some data"
    using apply_chunk_ok [OF Cons.prems(1) _ a] Cons.prems(2) by (auto simp: x)
  have "cs = [] \<Longrightarrow> fs2 = fs1" "rs2 = [] \<longleftrightarrow> cs = []" using as by (cases cs; auto split: prod.splits)+
  with Cons.IH [OF one(1), of rs2] as Cons.prems(2) one(2) r show ?case by auto
qed simp

text \<open>The chunks of a list of pieces, at their offsets: what the client's upload loop sends.\<close>

fun sequential :: "int \<Rightarrow> bytes list \<Rightarrow> (int \<times> bytes \<times> real) list" where
  "sequential off [] = []"
| "sequential off (c # cs) = (off, c, 0) # sequential (off + int (length c)) cs"

text \<open>The next chunk of a session that has none in its buffer.\<close>

lemma apply_chunk_in_order:
  assumes "session_ok data content s" "resolve (filename s) = Inr path" "dict_get fs path = Some content"
    and "dict_get (sessions m) uid = Some s" "buffered_chunks s = []" "chunk_of data (next_expected_offset s) c"
  obtains s1 fs1 content1 where "apply_chunk m (file_writer resolve) fs uid (next_expected_offset s) c t =
      (let (m2, r) = check_complete (m\<lparr>sessions := dict_set uid (s\<lparr>last_activity := t\<rparr>) (sessions m)\<rparr>) uid s1 in (m2, fs1, Inr r))"
    "session_ok data content1 s1" "dict_get fs1 path = Some content1" "filename s1 = filename s"
    "next_expected_offset s1 = next_expected_offset s + int (length c)" "buffered_chunks s1 = []"
proof -
  let ?s = "s\<lparr>last_activity := t\<rparr>"
  have ok': "session_ok data content ?s" using assms(1) by simp
  obtain s1 fs1 content1 where w: "write_chunk (file_writer resolve) fs ?s (next_expected_offset s) c = Inr (s1, fs1)"
      "session_ok data content1 s1" "dict_get fs1 path = Some content1" "filename s1 = filename ?s"
      "next_expected_offset s1 = next_expected_offset s + int (length c)" "buffered_chunks s1 = buffered_chunks ?s"
    using write_chunk_ok [OF ok', of resolve path fs c] assms(2,3,6) by auto
  have pb: "process_buffer (file_writer resolve) fs1 s1 = (s1, fs1, None)"
    using w(6) assms(5) by (simp add: process_buffer.simps)
  have "apply_chunk m (file_writer resolve) fs uid (next_expected_offset s) c t =
      (let (m2, r) = check_complete (m\<lparr>sessions := dict_set uid ?s (sessions m)\<rparr>) uid s1 in (m2, fs1, Inr r))"
    using assms(4) w(1) pb by (simp add: apply_chunk_def get_session_def Let_def)
  then show ?thesis using that w(2-6) assms(5) by simp
qed

text \<open>
  The answers to the chunks \<^term>\<open>cs\<close> of an upload that only the last one completes.
\<close>

definition chunk_answers :: "byte list list \<Rightarrow> (py_error + bool \<times> string) list" where
  "chunk_answers cs =
     replicate (length cs - 1) (Inr (False, ''Chunk Applied'')) @ [Inr (True, ''Upload Complete'')]"

lemma apply_chunks_sequential:
  assumes "session_ok data content s" "resolve (filename s) = Inr path" "dict_get fs path = Some content"
    and "dict_get (sessions m) uid = Some s" "buffered_chunks s = []"
    and "concat cs = drop (nat (next_expected_offset s)) data" "cs \<noteq> []" "[] \<notin> set cs"
  shows "\<exists>m' fs'. apply_chunks m (file_writer resolve) fs uid (sequential (next_expected_offset s) cs) =
      (m', fs', chunk_answers cs) \<and> dict_get fs' path = Some data \<and>
      \<not> dict_has (sessions m') uid"
  using assms
proof (induction cs arbitrary: s content fs m)
  case (Cons c cs)
  let ?n = "next_expected_offset s"
  let ?s = "s\<lparr>last_activity := 0\<rparr>"
  let ?m1 = "m\<lparr>sessions := dict_set uid ?s (sessions m)\<rparr>"
  have n: "0 \<le> ?n" "?n \<le> int (length data)" using Cons.prems(1) by (simp_all add: session_ok_def)
  have dd: "drop (nat ?n) data = c @ concat cs" using Cons.prems(6) by simp
  have lens: "int (length data) = ?n + int (length c) + int (length (concat cs))"
    using arg_cong [OF dd, of length] n by simp
  have ch: "chunk_of data ?n c" using n dd lens by (simp add: chunk_of_def)
  obtain s1 fs1 content1 where ap: "apply_chunk m (file_writer resolve) fs uid ?n c 0 =
      (let (m2, r) = check_complete ?m1 uid s1 in (m2, fs1, Inr r))"
    and w: "session_ok data content1 s1" "dict_get fs1 path = Some content1" "filename s1 = filename ?s"
      "next_expected_offset s1 = ?n + int (length c)" "buffered_chunks s1 = []"
    using apply_chunk_in_order [where resolve = resolve and t = 0, OF Cons.prems(1-5) ch] by auto
  have ts: "total_size s1 = int (length data)" using w(1) by (simp add: session_ok_def)
  show ?case
  proof (cases "cs = []")
    case True
    then have "next_expected_offset s1 = total_size s1" using w(4) ts lens by simp
    then have "apply_chunks m (file_writer resolve) fs uid (sequential ?n (c # cs)) =
        (finalize_session (put_session ?m1 uid s1) uid, fs1, chunk_answers (c # cs))"
      using True ap by (simp add: check_complete_def chunk_answers_def)
    moreover have "content1 = data" using w(1,4) lens True by (simp add: session_ok_def)
    ultimately show ?thesis using w(2)
      by (fastforce simp: finalize_session_def put_session_def dict_simps)
  next
    case False
    then have "concat cs \<noteq> []" using Cons.prems(8) by (cases cs) auto
    then have "next_expected_offset s1 \<noteq> total_size s1" using w(4) ts lens by simp
    then have ap1: "apply_chunk m (file_writer resolve) fs uid ?n c 0 =
        (put_session ?m1 uid s1, fs1, Inr (False, ''Chunk Applied''))"
      using ap by (simp add: check_complete_def)
    have "drop (nat (next_expected_offset s1)) data = concat cs"
      using n dd w(4) by (simp add: nat_add_distrib flip: drop_drop add.commute)
    then have "concat cs = drop (nat (next_expected_offset s1)) data" ..
    moreover have "dict_get (sessions (put_session ?m1 uid s1)) uid = Some s1"
      by (simp add: put_session_def dict_simps)
    ultimately obtain m' fs' where IH:
        "apply_chunks (put_session ?m1 uid s1) (file_writer resolve) fs1 uid (sequential (next_expected_offset s1) cs) =
           (m', fs', chunk_answers cs)" "dict_get fs' path = Some data"
        "\<not> dict_has (sessions m') uid"
      using Cons.IH [OF w(1) _ w(2), of "put_session ?m1 uid s1"] Cons.prems(2,5,8) w(3,5) False by auto
    have "apply_chunks m (file_writer resolve) fs uid (sequential ?n (c # cs)) =
        (m', fs', chunk_answers (c # cs))"
      using ap1 IH(1) w(4) False by (cases cs) (simp_all add: chunk_answers_def)
    then show ?thesis using IH(2,3) by blast
  qed
qed simp

lemma create_session_inv:
  assumes "create_session m fname (int (length data)) uuid t = (m0, uid)" "resolve fname = Inr path"
    and "dict_get fs path = Some []"
  shows "uid = uuid" "upload_inv resolve data path uid m0 fs" "upload_mode m0 = upload_mode m"
    "\<exists>s. dict_get (sessions m0) uid = Some s \<and> session_ok data [] s \<and> filename s = fname \<and>
       next_expected_offset s = 0 \<and> buffered_chunks s = []"
  using assms by (auto simp: create_session_def upload_inv_def session_ok_def dict_simps)

text \<open>A session that has run past its declared size.\<close>

lemma overshoot_stays:
  assumes "dict_get (sessions m) uid = Some s" "total_size s < next_expected_offset s" "upload_mode m = STRICT"
    and "apply_chunk m w fs uid off c t = (m', fs', res)"
  shows "\<exists>s'. dict_get (sessions m') uid = Some s' \<and> total_size s' < next_expected_offset s'" (is ?S)
    and "upload_mode m' = STRICT" and "\<nexists>msg. res = Inr (True, msg)"
proof -
  let ?s = "s\<lparr>last_activity := t\<rparr>"
  let ?m1 = "m\<lparr>sessions := dict_set uid ?s (sessions m)\<rparr>"
  have g: "get_session m uid t = (?m1, Some ?s)" using assms(1) by (simp add: get_session_def Let_def)
  have "?S \<and> upload_mode m' = STRICT \<and> (\<nexists>msg. res = Inr (True, msg))"
  proof (cases "off = next_expected_offset s \<and> (\<exists>p. write_chunk w fs ?s off c = Inr p)")
    case True
    then obtain s1 fs1 where w: "write_chunk w fs ?s off c = Inr (s1, fs1)" by fastforce
    then have s1: "s1 = ?s\<lparr>next_expected_offset := next_expected_offset s + int (length c)\<rparr>"
      by (auto simp: write_chunk_def split: sum.splits)
    then have "check_complete ?m1 uid s1 = (put_session ?m1 uid s1, (False, ''Chunk Applied''))"
      using assms(2) by (simp add: check_complete_def)
    then have "m' = put_session ?m1 uid s1" "res = Inr (False, ''Chunk Applied'')"
      using assms(3,4) True w by (auto simp: apply_chunk_def g Let_def)
    then show ?thesis using s1 assms(2,3) by (simp add: put_session_def dict_simps)
  next
    case False
    then have "m' = ?m1" "\<nexists>msg. res = Inr (True, msg)"
      using assms(2,3,4) by (auto simp: apply_chunk_def g Let_def split: if_splits sum.splits)
    then show ?thesis using assms(2,3) by (simp add: dict_simps)
  qed
  then show ?S "upload_mode m' = STRICT" "\<nexists>msg. res = Inr (True, msg)" by blast+
qed

lemma overshoot_never_completes:
  assumes "dict_get (sessions m) uid = Some s" "total_size s < next_expected_offset s" "upload_mode m = STRICT"
    and "apply_chunks m w fs uid cs = (m', fs', rs)"
  shows "Inr (True, msg) \<notin> set rs \<and> dict_has (sessions m') uid"
  using assms
proof (induction cs arbitrary: m fs s rs)
  case Nil
  then show ?case by (auto simp: dict_has_def)
next
  case (Cons x cs)
  obtain off c t where x: "x = (off, c, t)" using prod_cases3 by blast
  obtain m1 fs1 r where a: "apply_chunk m w fs uid off c t = (m1, fs1, r)" using prod_cases3 by blast
  obtain m2 fs2 rs2 where as: "apply_chunks m1 w fs1 uid cs = (m2, fs2, rs2)" using prod_cases3 by blast
  have r: "m' = m2" "fs' = fs2" "rs = r # rs2" using Cons.prems(4) by (simp_all add: x a as)
  note o = overshoot_stays [OF Cons.prems(1-3) a]
  obtain s1 where s1: "dict_get (sessions m1) uid = Some s1" "total_size s1 < next_expected_offset s1"
    using o(1) by blast
  show ?case using Cons.IH [OF s1 o(2)] as o(3) r by auto
qed

section \<open>Properties\<close>

text \<open>
  C22. Integrity of uploads, in both modes: from a fresh session for a file (created by PUT_META,
  empty on disk), whatever chunks of the data are applied, in any order, repeated or missing, the
  file is at every moment a prefix of the data, and when the last chunk is reported as completing
  the upload the file is exactly the data.
\<close>

theorem upload_integrity:
  assumes "create_session m fname (int (length data)) uuid t0 = (m0, uid)"
    and "resolve fname = Inr path" and "dict_get fs path = Some []"
    and "\<forall>(off, c, t) \<in> set cs. chunk_of data off c"
    and "apply_chunks m0 (file_writer resolve) fs uid cs = (m', fs', rs)"
  shows "\<exists>content. dict_get fs' path = Some content \<and> prefix content data \<and>
    (\<forall>msg. rs \<noteq> [] \<and> last rs = Inr (True, msg) \<longrightarrow> content = data)"
proof -
  have inv: "upload_inv resolve data path uid m0 fs"
    by (rule create_session_inv(2) [OF assms(1), where resolve = resolve and fs = fs]) (use assms(2,3) in simp_all)
  note res = apply_chunks_ok [OF inv assms(4,5)]
  then obtain content where c: "dict_get fs' path = Some content"
      "case dict_get (sessions m') uid of None \<Rightarrow> content = data
       | Some s \<Rightarrow> resolve (filename s) = Inr path \<and> session_ok data content s"
    by (auto simp: upload_inv_def)
  have "prefix content data"
    using c(2) by (auto simp: session_ok_def take_is_prefix split: option.splits)
  with c(1) res show ?thesis by auto
qed

theorem upload_integrity_witness:
  "let (m0, uid) = create_session (new_manager BUFFERABLE 300) ''f'' 3 ''u1'' 0;
       (m', fs', rs) = apply_chunks m0 (file_writer Inr) [(''f'', [])] uid [(2, [9], 0), (0, [7, 8], 0)]
   in rs = [Inr (False, ''Chunk Applied''), Inr (True, ''Upload Complete'')] \<and>
      dict_get fs' ''f'' = Some [7, 8, 9]"
proof -
  let ?m = "new_manager BUFFERABLE 300"
  obtain m0 uid where cs: "create_session ?m ''f'' (int (length [7, 8, 9 :: byte])) ''u1'' 0 = (m0, uid)"
    by fastforce
  let ?cs = "[(2, [9], 0), (0, [7, 8], 0)] :: (int \<times> bytes \<times> real) list"
  obtain m' fs' rs where ap: "apply_chunks m0 (file_writer Inr) [(''f'', [])] uid ?cs = (m', fs', rs)"
    using prod_cases3 by blast
  have ok: "\<forall>(off, c, t) \<in> set ?cs. chunk_of [7, 8, 9] off c" by (simp add: chunk_of_def)
  have rs: "rs = [Inr (False, ''Chunk Applied''), Inr (True, ''Upload Complete'')]"
    using cs ap by (auto simp: create_session_def new_manager_def apply_chunk_def get_session_def Let_def
        write_chunk_def file_writer_def process_buffer.simps check_complete_def put_session_def
        finalize_session_def write_at_def)
  from upload_integrity [OF cs _ _ ok ap, of "''f''"] rs cs ap show ?thesis by auto
qed

text \<open>
  C31. Completeness of uploads, in both modes: a non-empty file cut into non-empty pieces and sent
  in order is accepted chunk by chunk, every chunk but the last is answered as applied and the last
  one reports completion, the file on disk is then exactly the data and the session is closed.
\<close>

theorem sequential_upload_completes:
  assumes "create_session m fname (int (length data)) uuid t0 = (m0, uid)"
    and "resolve fname = Inr path" and "dict_get fs path = Some []"
    and "concat cs = data" and "cs \<noteq> []" and "[] \<notin> set cs"
  shows "\<exists>m' fs'. apply_chunks m0 (file_writer resolve) fs uid (sequential 0 cs) =
      (m', fs', replicate (length cs - 1) (Inr (False, ''Chunk Applied'')) @
                  [Inr (True, ''Upload Complete'')]) \<and>
      dict_get fs' path = Some data \<and>
      \<not> dict_has (sessions m') uid"
proof -
  obtain s where "dict_get (sessions m0) uid = Some s" "session_ok data [] s" "filename s = fname"
      "next_expected_offset s = 0" "buffered_chunks s = []"
    using create_session_inv(4) [OF assms(1), where resolve = resolve and path = path and fs = fs] assms(2,3) by blast
  then show ?thesis
    using apply_chunks_sequential [of data "[]" s resolve path fs m0 uid cs] assms
    by (simp add: chunk_answers_def)
qed

theorem sequential_upload_completes_witness:
  "\<exists>m' fs'. apply_chunks (fst (create_session (new_manager STRICT 300) ''f'' 3 ''u1'' 0))
      (file_writer Inr) [(''f'', [])] ''u1'' (sequential 0 [[7, 8], [9]]) =
        (m', fs', [Inr (False, ''Chunk Applied''), Inr (True, ''Upload Complete'')]) \<and>
      dict_get fs' ''f'' = Some [7, 8, 9]"
proof -
  have "create_session (new_manager STRICT 300) ''f'' (int (length [7, 8, 9 :: byte])) ''u1'' 0 =
      (fst (create_session (new_manager STRICT 300) ''f'' 3 ''u1'' 0), ''u1'')"
    by (simp add: create_session_def)
  from sequential_upload_completes [OF this, of Inr "''f''" "[(''f'', [])]" "[[7, 8], [9]]"]
  show ?thesis by auto
qed

text \<open>
  C40. The declared size is not enforced per chunk: once a chunk has taken a strict session past
  the size it declared, no sequence of further chunks ever completes or closes the session,
  although chunks keep being written.
\<close>

theorem oversized_upload_never_completes:
  assumes "dict_get (sessions m) uid = Some s" and "total_size s < next_expected_offset s"
    and "upload_mode m = STRICT" and "apply_chunks m w fs uid cs = (m', fs', rs)"
  shows "Inr (True, msg) \<notin> set rs \<and> dict_has (sessions m') uid"
  using overshoot_never_completes [OF assms] .

theorem oversized_upload_never_completes_witness:
  "let m0 = fst (create_session (new_manager STRICT 300) ''f'' 1 ''u1'' 0);
       (m1, fs1, r) = apply_chunk m0 (file_writer Inr) [(''f'', [])] ''u1'' 0 [1, 2] 0;
       (m2, fs2, rs) = apply_chunks m1 (file_writer Inr) fs1 ''u1'' [(2, [3], 0)]
   in r = Inr (False, ''Chunk Applied'') \<and> Inr (True, ''Upload Complete'') \<notin> set rs \<and>
      dict_has (sessions m2) ''u1''"
proof -
  let ?s = "\<lparr>upload_id = ''u1'', filename = ''f'', total_size = 1, created_at = 0, last_activity = 0,
      next_expected_offset = 2, buffered_chunks = []\<rparr>"
  let ?m1 = "\<lparr>sessions = [(''u1'', ?s)], upload_mode = STRICT, session_ttl = 300\<rparr>"
  have a: "apply_chunk (fst (create_session (new_manager STRICT 300) ''f'' 1 ''u1'' 0)) (file_writer Inr)
      [(''f'', [])] ''u1'' 0 [1, 2] 0 = (?m1, [(''f'', [1, 2])], Inr (False, ''Chunk Applied''))"
    by (simp add: create_session_def new_manager_def apply_chunk_def get_session_def Let_def
        write_chunk_def file_writer_def check_complete_def put_session_def write_at_def)
  obtain m2 fs2 rs where b: "apply_chunks ?m1 (file_writer Inr) [(''f'', [1, 2])] ''u1'' [(2, [3], 0)] = (m2, fs2, rs)"
    using prod_cases3 by blast
  show ?thesis using oversized_upload_never_completes [OF _ _ _ b, of ?s] a b by (simp add: Let_def)
qed

end
