(* ===== verification/Json.thy ===== *)
theory Json
  imports Utf8
begin

text \<open>
  The two functions of Python's \<^verbatim>\<open>json\<close> module that the stack's messages go through,
  \<^verbatim>\<open>json.dumps(value)\<close> (default separators, ASCII only) and \<^verbatim>\<open>json.loads(text)\<close>
  (the recursive-descent scanner of \<^verbatim>\<open>json.scanner\<close> and \<^verbatim>\<open>json.decoder\<close>).
  Dictionaries keep their order and later duplicates replace earlier values. A
  \<^verbatim>\<open>float\<close> is kept as its literal (the double it stands for is in \<^verbatim>\<open>PyValue\<close>;
  \<^verbatim>\<open>repr\<close> is not modelled); the interpreter's limits on nesting depth and on the digits of an
  integer are left out.

  Shown: \<^verbatim>\<open>dumps\<close> is ASCII, and \<^verbatim>\<open>loads\<close> of what it prints is the value again;
  the scanner's fuel is always enough.
\<close>

section \<open>Values\<close>

datatype json =
    JNull
  | JBool bool
  | JInt int
  | JFloat string
  | JStr string
  | JList "json list"
  | JDict "(string, json) dict"

section \<open>json.dumps\<close>

definition hex_digit :: "nat \<Rightarrow> char" where
  "hex_digit d = char_of (if d < 10 then 48 + d else 87 + d)"

text \<open>\<^verbatim>\<open>'\\u{0:04x}'.format(n)\<close>\<close>

definition hex_digits :: "nat \<Rightarrow> string" where
  "hex_digits n = [hex_digit (n div 4096 mod 16), hex_digit (n div 256 mod 16),
                   hex_digit (n div 16 mod 16), hex_digit (n mod 16)]"

definition u_escape :: "nat \<Rightarrow> string" where
  "u_escape n = [CHR 0x5C, CHR ''u''] @ hex_digits n"

definition escape_cp :: "nat \<Rightarrow> string" where
  "escape_cp n =
     (if n = 0x22 then [CHR 0x5C, CHR 0x22]
      else if n = 0x5C then [CHR 0x5C, CHR 0x5C]
      else if n = 0x0A then [CHR 0x5C, CHR ''n'']
      else if n = 0x0D then [CHR 0x5C, CHR ''r'']
      else if n = 0x09 then [CHR 0x5C, CHR ''t'']
      else if n = 0x0C then [CHR 0x5C, CHR ''f'']
      else if n = 0x08 then [CHR 0x5C, CHR ''b'']
      else if 0x20 \<le> n \<and> n \<le> 0x7E then [char_of n]
      else if n < 0x10000 then u_escape n
      else (let v = n - 0x10000
            in u_escape (0xD800 + v div 1024 mod 1024) @ u_escape (0xDC00 + v mod 1024)))"

definition dumps_str :: "string \<Rightarrow> string" where
  "dumps_str s = [CHR 0x22] @
     (case decode_cps s of None \<Rightarrow> s | Some ns \<Rightarrow> concat (map escape_cp ns)) @ [CHR 0x22]"

fun dumps :: "json \<Rightarrow> string"
  and dumps_items :: "json list \<Rightarrow> string"
  and dumps_members :: "(string \<times> json) list \<Rightarrow> string"
where
  "dumps JNull = ''null''"
| "dumps (JBool b) = (if b then ''true'' else ''false'')"
| "dumps (JInt i) = string_of_int i"
| "dumps (JFloat lit) = lit"
| "dumps (JStr s) = dumps_str s"
| "dumps (JList vs) = ''['' @ dumps_items vs @ '']''"
| "dumps (JDict kvs) = ''{'' @ dumps_members kvs @ ''}''"
| "dumps_items [] = []"
| "dumps_items (v # vs) = dumps v @ (if vs = [] then [] else '', '' @ dumps_items vs)"
| "dumps_members [] = []"
| "dumps_members ((k, v) # kvs) =
     dumps_str k @ '': '' @ dumps v @ (if kvs = [] then [] else '', '' @ dumps_members kvs)"

section \<open>json.loads\<close>

definition is_ws :: "char \<Rightarrow> bool" where
  "is_ws c \<longleftrightarrow> c = CHR '' '' \<or> c = CHR 0x09 \<or> c = CHR 0x0A \<or> c = CHR 0x0D"

abbreviation skip_ws :: "string \<Rightarrow> string" where
  "skip_ws s \<equiv> dropWhile is_ws s"

definition hex_val :: "char \<Rightarrow> nat option" where
  "hex_val c = (let n = of_char c in
     if 48 \<le> n \<and> n \<le> 57 then Some (n - 48)
     else if 97 \<le> n \<and> n \<le> 102 then Some (n - 87)
     else if 65 \<le> n \<and> n \<le> 70 then Some (n - 55)
     else None)"

fun hex4 :: "string \<Rightarrow> (nat \<times> string) option" where
  "hex4 (a # b # c # d # s) =
     (case (hex_val a, hex_val b, hex_val c, hex_val d) of
        (Some p, Some q, Some r, Some t) \<Rightarrow> Some (((p * 16 + q) * 16 + r) * 16 + t, s)
      | _ \<Rightarrow> None)"
| "hex4 _ = None"

lemma hex4_length: "hex4 s = Some (n, t) \<Longrightarrow> length t < length s"
  by (induction s rule: hex4.induct) (auto split: option.splits)

text \<open>A \<^verbatim>\<open>\uXXXX\<close> escape after its \<^verbatim>\<open>u\<close>: a high surrogate takes a low one that follows.\<close>

definition scan_u :: "string \<Rightarrow> (nat \<times> string) option" where
  "scan_u s =
     (case hex4 s of None \<Rightarrow> None
      | Some (n, t) \<Rightarrow>
          if 0xD800 \<le> n \<and> n \<le> 0xDBFF \<and> take 2 t = [CHR 0x5C, CHR ''u'']
          then (case hex4 (List.drop 2 t) of None \<Rightarrow> None
                | Some (m, t') \<Rightarrow>
                    if 0xDC00 \<le> m \<and> m \<le> 0xDFFF
                    then Some (0x10000 + (n - 0xD800) * 1024 + (m - 0xDC00), t')
                    else Some (n, t))
          else Some (n, t))"

lemma scan_u_length: "scan_u s = Some (n, t) \<Longrightarrow> length t < length s"
  by (fastforce simp: scan_u_def split: option.splits if_splits dest: hex4_length)

text \<open>\<^verbatim>\<open>BACKSLASH\<close>, the one-character escapes.\<close>

definition simple_escape :: "char \<Rightarrow> char option" where
  "simple_escape c = map_of [(CHR 0x22, CHR 0x22), (CHR 0x5C, CHR 0x5C), (CHR ''/'', CHR ''/''),
     (CHR ''b'', CHR 0x08), (CHR ''f'', CHR 0x0C), (CHR ''n'', CHR 0x0A), (CHR ''r'', CHR 0x0D),
     (CHR ''t'', CHR 0x09)] c"

text \<open>\<^verbatim>\<open>scanstring\<close> after the opening quote, in strict mode: control characters are refused.\<close>

function scan_string :: "string \<Rightarrow> (string \<times> string) option" where
  "scan_string s =
     (case s of [] \<Rightarrow> None
      | c # t \<Rightarrow>
          if c = CHR 0x22 then Some ([], t)
          else if c = CHR 0x5C
          then (case t of [] \<Rightarrow> None
                | e # t1 \<Rightarrow>
                    if e = CHR ''u''
                    then (case scan_u t1 of None \<Rightarrow> None
                          | Some (n, t2) \<Rightarrow>
                              map_option (\<lambda>(u, r). (encode_cp n @ u, r)) (scan_string t2))
                    else (case simple_escape e of None \<Rightarrow> None
                          | Some d \<Rightarrow> map_option (\<lambda>(u, r). (d # u, r)) (scan_string t1)))
          else if (of_char c :: nat) < 0x20 then None
          else map_option (\<lambda>(u, r). (c # u, r)) (scan_string t))"
  by pat_completeness auto
termination
  by (relation "measure length") (auto dest: scan_u_length)

declare scan_string.simps [simp del]

definition is_digit :: "char \<Rightarrow> bool" where
  "is_digit c \<longleftrightarrow> digit_val c \<noteq> None"

text \<open>
  \<^verbatim>\<open>NUMBER_RE\<close>: an integer part without leading zeros, then an optional fraction and an
  optional exponent, each taken only when complete.
\<close>

definition scan_int_part :: "string \<Rightarrow> (string \<times> string) option" where
  "scan_int_part s =
     (let (sign, t) = (if take 1 s = ''-'' then (''-'', List.drop 1 s) else ([], s))
      in case t of [] \<Rightarrow> None
         | c # r \<Rightarrow>
             if c = CHR ''0'' then Some (sign @ ''0'', r)
             else if is_digit c then Some (sign @ takeWhile is_digit t, dropWhile is_digit t)
             else None)"

definition scan_frac :: "string \<Rightarrow> string \<times> string" where
  "scan_frac s = (if take 1 s = ''.'' \<and> takeWhile is_digit (List.drop 1 s) \<noteq> []
     then (''.'' @ takeWhile is_digit (List.drop 1 s), dropWhile is_digit (List.drop 1 s))
     else ([], s))"

definition scan_exp :: "string \<Rightarrow> string \<times> string" where
  "scan_exp s =
     (if take 1 s = ''e'' \<or> take 1 s = ''E''
      then (let t = List.drop 1 s;
                (sg, u) = (if take 1 t = ''+'' \<or> take 1 t = ''-'' then (take 1 t, List.drop 1 t) else ([], t))
            in if takeWhile is_digit u \<noteq> []
               then (take 1 s @ sg @ takeWhile is_digit u, dropWhile is_digit u) else ([], s))
      else ([], s))"

definition int_of_literal :: "string \<Rightarrow> int" where
  "int_of_literal s =
     (if take 1 s = ''-'' then - int (the (nat_of_digits 0 (List.drop 1 s)))
      else int (the (nat_of_digits 0 s)))"

definition scan_number :: "string \<Rightarrow> (json \<times> string) option" where
  "scan_number s =
     (case scan_int_part s of None \<Rightarrow> None
      | Some (ip, t) \<Rightarrow>
          (let (fr, t1) = scan_frac t; (ex, t2) = scan_exp t1
           in if fr = [] \<and> ex = [] then Some (JInt (int_of_literal ip), t2)
              else Some (JFloat (ip @ fr @ ex), t2)))"

text \<open>The keywords of \<^verbatim>\<open>scan_once\<close>, tried before and after numbers.\<close>

definition keyword :: "string \<Rightarrow> (json \<times> string) option" where
  "keyword s =
     (if take 4 s = ''null'' then Some (JNull, List.drop 4 s)
      else if take 4 s = ''true'' then Some (JBool True, List.drop 4 s)
      else if take 5 s = ''false'' then Some (JBool False, List.drop 5 s)
      else case scan_number s of Some r \<Rightarrow> Some r
      | None \<Rightarrow>
         if take 3 s = ''NaN'' then Some (JFloat ''NaN'', List.drop 3 s)
         else if take 8 s = ''Infinity'' then Some (JFloat ''Infinity'', List.drop 8 s)
         else if take 9 s = ''-Infinity'' then Some (JFloat ''-Infinity'', List.drop 9 s)
         else None)"

text \<open>
  \<^verbatim>\<open>scan_once\<close>, \<^verbatim>\<open>JSONArray\<close> and \<^verbatim>\<open>JSONObject\<close>. The fuel bounds the
  depth of the recursion; twice the length of the text and one is always enough.
\<close>

fun scan_once :: "nat \<Rightarrow> string \<Rightarrow> (json \<times> string) option"
  and scan_items :: "nat \<Rightarrow> string \<Rightarrow> (json list \<times> string) option"
  and scan_members :: "nat \<Rightarrow> string \<Rightarrow> ((string \<times> json) list \<times> string) option"
where
  "scan_once 0 s = None"
| "scan_once (Suc k) s =
     (case s of [] \<Rightarrow> None
      | c # t \<Rightarrow>
          if c = CHR 0x22 then map_option (\<lambda>(u, r). (JStr u, r)) (scan_string t)
          else if c = CHR ''{''
          then (if take 1 (skip_ws t) = ''}'' then Some (JDict [], tl (skip_ws t))
                else map_option (\<lambda>(kvs, r). (JDict (fold (\<lambda>(a, b). dict_set a b) kvs []), r))
                       (scan_members k (skip_ws t)))
          else if c = CHR ''[''
          then (if take 1 (skip_ws t) = '']'' then Some (JList [], tl (skip_ws t))
                else map_option (\<lambda>(vs, r). (JList vs, r)) (scan_items k (skip_ws t)))
          else keyword s)"
| "scan_items 0 s = None"
| "scan_items (Suc k) s =
     (case scan_once k s of None \<Rightarrow> None
      | Some (v, t) \<Rightarrow>
          (case skip_ws t of [] \<Rightarrow> None
           | c # r \<Rightarrow>
               if c = CHR '']'' then Some ([v], r)
               else if c = CHR '','' then map_option (\<lambda>(vs, r'). (v # vs, r')) (scan_items k (skip_ws r))
               else None))"
| "scan_members 0 s = None"
| "scan_members (Suc k) s =
     (if take 1 s \<noteq> [CHR 0x22] then None
      else case scan_string (tl s) of None \<Rightarrow> None
      | Some (key, t) \<Rightarrow>
          if take 1 (skip_ws t) \<noteq> '':'' then None
          else case scan_once k (skip_ws (tl (skip_ws t))) of None \<Rightarrow> None
          | Some (v, t2) \<Rightarrow>
              (case skip_ws t2 of [] \<Rightarrow> None
               | c # r \<Rightarrow>
                   if c = CHR ''}'' then Some ([(key, v)], r)
                   else if c = CHR '',''
                   then map_option (\<lambda>(kvs, r'). ((key, v) # kvs, r')) (scan_members k (skip_ws r))
                   else None))"

definition bom :: string where
  "bom = encode_cp 0xFEFF"

definition loads :: "string \<Rightarrow> py_error + json" where
  "loads s =
     (if take 3 s = bom then Inl JSONDecodeError
      else case scan_once (2 * length s + 2) (skip_ws s) of
        Some (v, t) \<Rightarrow> if skip_ws t = [] then Inr v else Inl JSONDecodeError
      | None \<Rightarrow> Inl JSONDecodeError)"

section \<open>Python's view of parsed values\<close>

text \<open>
  The number that a float literal denotes (rounding is not modelled), and the value of anything
  Python counts as a number; \<^verbatim>\<open>NaN\<close> and the infinities have none.
\<close>

definition float_value :: "string \<Rightarrow> real" where
  "float_value lit =
     (let neg = (take 1 lit = ''-'');
          t = (if neg then tl lit else lit);
          fr = fst (scan_frac (dropWhile is_digit t));
          ex = tl (fst (scan_exp (snd (scan_frac (dropWhile is_digit t)))));
          mant = real (the (nat_of_digits 0 (takeWhile is_digit t @ tl fr))) / 10 ^ length (tl fr);
          e = (if take 1 ex = ''+'' \<or> take 1 ex = ''-'' then the (nat_of_digits 0 (tl ex))
               else the (nat_of_digits 0 ex));
          m = (if take 1 ex = ''-'' then mant / 10 ^ e else mant * 10 ^ e)
      in if neg then - m else m)"

definition is_finite_literal :: "string \<Rightarrow> bool" where
  "is_finite_literal lit \<longleftrightarrow> lit \<notin> {''NaN'', ''Infinity'', ''-Infinity''}"

fun num_value :: "json \<Rightarrow> real option" where
  "num_value (JBool b) = Some (if b then 1 else 0)"
| "num_value (JInt i) = Some (of_int i)"
| "num_value (JFloat lit) = (if is_finite_literal lit then Some (float_value lit) else None)"
| "num_value _ = None"

text \<open>\<^verbatim>\<open>bool(value)\<close>, and \<^verbatim>\<open>value.get(key, default)\<close>, which only a dictionary has.\<close>

fun truthy :: "json \<Rightarrow> bool" where
  "truthy JNull = False"
| "truthy (JBool b) = b"
| "truthy (JInt i) = (i \<noteq> 0)"
| "truthy (JFloat lit) = (num_value (JFloat lit) \<noteq> Some 0)"
| "truthy (JStr s) = (s \<noteq> [])"
| "truthy (JList vs) = (vs \<noteq> [])"
| "truthy (JDict kvs) = (kvs \<noteq> [])"

fun json_get :: "json \<Rightarrow> string \<Rightarrow> json \<Rightarrow> py_error + json" where
  "json_get (JDict kvs) k dflt = Inr (case dict_get kvs k of None \<Rightarrow> dflt | Some v \<Rightarrow> v)"
| "json_get _ k dflt = Inl AttributeError"

section \<open>Strings survive escaping\<close>

lemma hex_val_digit: "d < 16 \<Longrightarrow> hex_val (hex_digit d) = Some d"
  by (auto simp: hex_val_def hex_digit_def Let_def)

lemma hex4_digits:
  assumes "n < 0x10000"
  shows "hex4 (hex_digits n @ s) = Some (n, s)"
proof -
  have lt: "n div 4096 < 16" using assms by linarith
  have "n div 256 = n div 16 div 16" "n div 4096 = n div 16 div 16 div 16"
    by (simp_all add: div_mult2_eq [symmetric])
  then have "((n div 4096 * 16 + n div 256 mod 16) * 16 + n div 16 mod 16) * 16 + n mod 16 = n"
    by (metis div_mult_mod_eq)
  then show ?thesis using lt by (simp add: hex_digits_def hex_val_digit)
qed

lemma scan_u_plain: "n < 0x10000 \<Longrightarrow> \<not> is_surrogate n \<Longrightarrow> scan_u (hex_digits n @ s) = Some (n, s)"
  by (auto simp: scan_u_def hex4_digits is_surrogate_def)

lemma scan_u_pair:
  assumes "v < 0x100000"
  shows "scan_u (hex_digits (0xD800 + v div 1024 mod 1024) @ u_escape (0xDC00 + v mod 1024) @ s)
       = Some (0x10000 + v, s)"
proof -
  define h l where "h = 0xD800 + v div 1024 mod 1024" and "l = 0xDC00 + v mod 1024"
  have "v div 1024 mod 1024 < 1024" "v mod 1024 < 1024" by simp_all
  then have hl: "h < 0x10000" "l < 0x10000" "0xD800 \<le> h" "h \<le> 0xDBFF" "0xDC00 \<le> l" "l \<le> 0xDFFF"
    unfolding h_def l_def by linarith+
  have "v div 1024 < 1024" using assms by linarith
  then have v: "(h - 0xD800) * 1024 + (l - 0xDC00) = v" by (simp add: h_def l_def)
  show ?thesis
    unfolding h_def [symmetric] l_def [symmetric] scan_u_def u_escape_def append.simps
    using hl v by (simp add: hex4_digits add.assoc)
qed

lemma scan_string_escape:
  assumes "is_cp n" "\<not> is_surrogate n"
  shows "scan_string (escape_cp n @ s) = map_option (\<lambda>(u, r). (encode_cp n @ u, r)) (scan_string s)"
proof -
  consider (short) "n \<in> {0x22, 0x5C, 0x0A, 0x0D, 0x09, 0x0C, 0x08}"
    | (plain) "0x20 \<le> n" "n \<le> 0x7E" "n \<noteq> 0x22" "n \<noteq> 0x5C"
    | (uni) "n < 0x10000" "\<not> (0x20 \<le> n \<and> n \<le> 0x7E)" "n \<notin> {0x0A, 0x0D, 0x09, 0x0C, 0x08}"
    | (pair) "0x10000 \<le> n" by force
  then show ?thesis
  proof cases
    case short
    then show ?thesis
      by (subst scan_string.simps) (auto simp: escape_cp_def simple_escape_def encode_cp_def char_of_escaped)
  next
    case plain
    then have e: "escape_cp n = [char_of n]" "encode_cp n = [char_of n]"
      by (auto simp: escape_cp_def encode_cp_def)
    show ?thesis unfolding e
      by (subst scan_string.simps) (use plain in \<open>simp add: char_of_eq_iff_nat\<close>)
  next
    case uni
    then have e: "escape_cp n = u_escape n" by (auto simp: escape_cp_def)
    show ?thesis unfolding e u_escape_def
      by (subst scan_string.simps) (use uni assms in \<open>simp add: scan_u_plain\<close>)
  next
    case pair
    define v where "v = n - 0x10000"
    have v: "v < 0x100000" "n = 0x10000 + v" using pair assms(1) by (auto simp: v_def is_cp_def)
    have e: "escape_cp n = CHR 0x5C # CHR ''u'' #
        hex_digits (0xD800 + v div 1024 mod 1024) @ u_escape (0xDC00 + v mod 1024)"
      using pair by (simp add: escape_cp_def Let_def v_def u_escape_def)
    show ?thesis unfolding e append.simps append_assoc
      by (subst scan_string.simps) (simp add: scan_u_pair [OF v(1)] v(2))
  qed
qed

lemma scan_string_escaped:
  "list_all (\<lambda>n. is_cp n \<and> \<not> is_surrogate n) ns \<Longrightarrow>
   scan_string (concat (map escape_cp ns) @ CHR 0x22 # r) = Some (encode_cps ns, r)"
proof (induction ns)
  case Nil then show ?case by (simp add: scan_string.simps)
next
  case (Cons n ns) then show ?case by (simp add: scan_string_escape)
qed

lemma dumps_str_scan:
  assumes "encodable s"
  obtains body where "dumps_str s = CHR 0x22 # body @ [CHR 0x22]"
    and "\<And>r. scan_string (body @ CHR 0x22 # r) = Some (s, r)"
proof -
  obtain ns where ns: "decode_cps s = Some ns" "list_all (\<lambda>n. \<not> is_surrogate n) ns"
    using assms by (auto simp: encodable_def split: option.splits)
  then have "s = encode_cps ns" "list_all (\<lambda>n. is_cp n \<and> \<not> is_surrogate n) ns"
    using encode_decode_cps [OF ns(1)] by (auto simp: list_all_iff)
  then show ?thesis
    using that [of "concat (map escape_cp ns)"] ns(1) by (simp add: dumps_str_def scan_string_escaped)
qed

section \<open>Numbers survive printing\<close>

text \<open>What can follow a value inside a list or a dictionary, or at the end of the text.\<close>

definition ends_token :: "string \<Rightarrow> bool" where
  "ends_token r \<longleftrightarrow> (case r of [] \<Rightarrow> True | c # _ \<Rightarrow> c \<in> {CHR '','', CHR '']'', CHR ''}''})"

lemma ends_token_simps [simp]:
  "ends_token []" "ends_token (CHR '','' # r)" "ends_token (CHR '']'' # r)" "ends_token (CHR ''}'' # r)"
  by (simp_all add: ends_token_def)

lemma ends_token_take1:
  "ends_token r \<Longrightarrow> take 1 r \<notin> {''.'', ''e'', ''E'', ''+'', ''-''}"
  by (auto simp: ends_token_def split: list.splits)

lemma ends_token_not_digit: "ends_token (c # r) \<Longrightarrow> \<not> is_digit c"
  by (auto simp: ends_token_def is_digit_def digit_val_def)

lemma digits_end:
  assumes "ends_token r"
  shows "takeWhile is_digit r = []" "dropWhile is_digit r = r"
    "takeWhile is_digit (s @ r) = takeWhile is_digit s"
    "dropWhile is_digit (s @ r) = dropWhile is_digit s @ r"
proof -
  show one: "takeWhile is_digit r = []" and two: "dropWhile is_digit r = r"
    using assms ends_token_not_digit by (cases r; auto)+
  show "takeWhile is_digit (s @ r) = takeWhile is_digit s" using one by (induction s) auto
  show "dropWhile is_digit (s @ r) = dropWhile is_digit s @ r" using two by (induction s) auto
qed

lemma scan_int_part_end:
  "ends_token r \<Longrightarrow> scan_int_part s = Some (ip, t) \<Longrightarrow> scan_int_part (s @ r) = Some (ip, t @ r)"
  by (cases s; cases "tl s")
    (auto simp: scan_int_part_def digits_end Let_def dest: ends_token_not_digit split: list.splits if_splits)

lemma scan_frac_end: "ends_token r \<Longrightarrow> scan_frac (s @ r) = (fst (scan_frac s), snd (scan_frac s) @ r)"
  using ends_token_take1 [of r] by (cases s) (auto simp: scan_frac_def digits_end)

lemma scan_exp_end: "ends_token r \<Longrightarrow> scan_exp (s @ r) = (fst (scan_exp s), snd (scan_exp s) @ r)"
  using ends_token_take1 [of r]
  by (cases s; cases "tl s") (auto simp: scan_exp_def digits_end Let_def)

lemma scan_number_end:
  assumes "ends_token r" "scan_number s = Some (v, t)"
  shows "scan_number (s @ r) = Some (v, t @ r)"
  using assms
  by (auto simp: scan_number_def scan_int_part_end scan_frac_end scan_exp_end
      split: option.splits prod.splits if_splits)

lemma scan_number_head:
  assumes "scan_number s \<noteq> None"
  shows "\<exists>c t. s = c # t \<and> (c = CHR ''-'' \<or> is_digit c)"
  using assms
  by (cases s) (auto simp: scan_number_def scan_int_part_def is_digit_def digit_val_def Let_def
      split: option.splits prod.splits if_splits)

lemma string_of_nat_digits_all: "list_all is_digit (string_of_nat n)"
  using string_of_nat_digits by (auto simp: list_all_iff is_digit_def)

lemma string_of_nat_head: "n \<noteq> 0 \<Longrightarrow> hd (string_of_nat n) \<noteq> CHR ''0''"
proof (induction n rule: string_of_nat.induct)
  case (1 n)
  show ?case
  proof (cases "n < 10")
    case True
    then show ?thesis using 1(2) by (subst string_of_nat.simps) (simp add: char_of_eq_iff_nat)
  next
    case False
    then show ?thesis using 1(1) by (subst string_of_nat.simps) simp
  qed
qed

lemma string_of_nat_0: "string_of_nat 0 = ''0''"
  by (subst string_of_nat.simps) (simp add: char_of_eq_iff_nat)

lemma not_digit_letter [simp]:
  "\<not> is_digit (CHR ''-'')" "\<not> is_digit (CHR ''n'')" "\<not> is_digit (CHR ''t'')" "\<not> is_digit (CHR ''f'')"
  by (simp_all add: is_digit_def digit_val_def)

lemma scan_digits:
  assumes "n \<noteq> 0"
  shows "\<exists>c s. string_of_nat n = c # s \<and> c \<noteq> CHR ''0'' \<and> c \<noteq> CHR ''-'' \<and> is_digit c \<and>
    takeWhile is_digit s = s \<and> dropWhile is_digit s = []"
proof -
  obtain c s where cs: "string_of_nat n = c # s" by (cases "string_of_nat n") auto
  then have "list_all is_digit (c # s)" "c \<noteq> CHR ''0''"
    using string_of_nat_digits_all [of n] string_of_nat_head [OF assms] by simp_all
  then show ?thesis using cs
    by (auto simp: list_all_iff takeWhile_eq_all_conv dropWhile_eq_Nil_conv)
qed

lemma scan_int_part_nat:
  "scan_int_part (string_of_nat n) = Some (string_of_nat n, [])"
  "scan_int_part (CHR ''-'' # string_of_nat n) = Some (CHR ''-'' # string_of_nat n, [])"
  using scan_digits [of n] by (cases "n = 0"; force simp: string_of_nat_0 scan_int_part_def)+

lemma int_of_literal_nat:
  "int_of_literal (string_of_nat n) = int n" "int_of_literal (CHR ''-'' # string_of_nat n) = - int n"
proof -
  have "take 1 (string_of_nat n) \<noteq> ''-''"
    using string_of_nat_digits_all [of n]
    by (cases "string_of_nat n") (auto simp: is_digit_def digit_val_def)
  then show "int_of_literal (string_of_nat n) = int n"
    by (simp add: int_of_literal_def nat_of_digits_string_of_nat)
  show "int_of_literal (CHR ''-'' # string_of_nat n) = - int n"
    by (simp add: int_of_literal_def nat_of_digits_string_of_nat)
qed

lemma scan_number_int: "scan_number (string_of_int i) = Some (JInt i, [])"
proof -
  have "scan_int_part (string_of_int i) = Some (string_of_int i, [])"
    "int_of_literal (string_of_int i) = i"
    by (simp_all add: string_of_int_def scan_int_part_nat int_of_literal_nat)
  then show ?thesis by (simp add: scan_number_def scan_frac_def scan_exp_def)
qed

lemma keyword_number:
  assumes "scan_number s = Some r"
  shows "keyword s = Some r"
proof -
  obtain c t where "s = c # t" "c = CHR ''-'' \<or> is_digit c" using scan_number_head [of s] assms by auto
  then have "take 4 s \<noteq> ''null''" "take 4 s \<noteq> ''true''" "take 5 s \<noteq> ''false''"
    by auto
  then show ?thesis using assms by (simp add: keyword_def)
qed

section \<open>loads inverts dumps\<close>

text \<open>
  The values that survive: no lone surrogate in a string, dictionaries with distinct keys (all
  Python has) and floats in the notation of a JSON number.
\<close>

fun json_ok :: "json \<Rightarrow> bool"
  and items_ok :: "json list \<Rightarrow> bool"
  and members_ok :: "(string \<times> json) list \<Rightarrow> bool"
where
  "json_ok JNull = True"
| "json_ok (JBool b) = True"
| "json_ok (JInt i) = True"
| "json_ok (JFloat lit) = (scan_number lit = Some (JFloat lit, []))"
| "json_ok (JStr s) = encodable s"
| "json_ok (JList vs) = items_ok vs"
| "json_ok (JDict kvs) = (dict_ok kvs \<and> members_ok kvs)"
| "items_ok [] = True"
| "items_ok (v # vs) = (json_ok v \<and> items_ok vs)"
| "members_ok [] = True"
| "members_ok ((k, v) # kvs) = (encodable k \<and> json_ok v \<and> members_ok kvs)"

lemma dumps_head:
  assumes "json_ok v"
  shows "\<exists>c t. dumps v = c # t \<and> \<not> is_ws c \<and> c \<noteq> CHR '']''"
proof -
  have num: "scan_number s \<noteq> None \<Longrightarrow> \<exists>c t. s = c # t \<and> \<not> is_ws c \<and> c \<noteq> CHR '']''" for s
    using scan_number_head [of s] by (auto simp: is_ws_def is_digit_def digit_val_def)
  show ?thesis
  proof (cases v)
    case (JInt i) then show ?thesis using num [of "string_of_int i"] by (simp add: scan_number_int)
  next
    case (JFloat lit) then show ?thesis using num [of lit] assms by simp
  qed (auto simp: is_ws_def dumps_str_def)
qed

lemma skip_ws_dumps: "json_ok v \<Longrightarrow> skip_ws (dumps v @ r) = dumps v @ r"
  using dumps_head [of v] by auto

lemma update_new: "k \<notin> fst ` set d \<Longrightarrow> AList.update k v d = d @ [(k, v)]"
  by (induction d) auto

lemma fold_update_distinct:
  "distinct (map fst (d @ kvs)) \<Longrightarrow> fold (\<lambda>(a, b). dict_set a b) kvs d = d @ kvs"
  by (induction kvs arbitrary: d) (auto simp: update_new)

lemma dumps_items_head:
  assumes "items_ok vs" "vs \<noteq> []"
  shows "skip_ws (dumps_items vs @ r) = dumps_items vs @ r" "take 1 (dumps_items vs @ r) \<noteq> '']''"
proof -
  obtain v ws where vs: "vs = v # ws" using assms(2) by (cases vs) auto
  then obtain c t where "dumps v = c # t" "\<not> is_ws c" "c \<noteq> CHR '']''" using dumps_head assms by force
  then show "skip_ws (dumps_items vs @ r) = dumps_items vs @ r" "take 1 (dumps_items vs @ r) \<noteq> '']''"
    using vs by simp_all
qed

lemma dumps_members_head:
  assumes "kvs \<noteq> []"
  shows "skip_ws (dumps_members kvs @ r) = dumps_members kvs @ r" "take 1 (dumps_members kvs @ r) = [CHR 0x22]"
  using assms by (cases kvs; auto simp: dumps_str_def is_ws_def)+

lemma ws_space [simp]: "is_ws (CHR '' '')"
  by (simp add: is_ws_def)

lemma not_ws_punct [simp]: "\<not> is_ws (CHR '','')" "\<not> is_ws (CHR '']'')" "\<not> is_ws (CHR ''}'')" "\<not> is_ws (CHR '':'')"
  by (simp_all add: is_ws_def)

lemma dumps_str_scan_once:
  assumes "encodable s" "0 < k"
  shows "scan_once k (dumps_str s @ r) = Some (JStr s, r)"
proof -
  obtain body where b: "dumps_str s = CHR 0x22 # body @ [CHR 0x22]"
    "\<And>r. scan_string (body @ CHR 0x22 # r) = Some (s, r)" using dumps_str_scan [OF assms(1)] by auto
  show ?thesis using assms(2) by (cases k) (simp_all add: b)
qed

lemma scan_dumps_number:
  assumes "scan_number lit = Some (v, [])" "ends_token r" "0 < k"
  shows "scan_once k (lit @ r) = Some (v, r)"
proof -
  have n: "scan_number (lit @ r) = Some (v, r)" using scan_number_end [OF assms(2,1)] by simp
  obtain c t where ct: "lit @ r = c # t" "c = CHR ''-'' \<or> is_digit c"
    using scan_number_head [of "lit @ r"] n by auto
  have "c \<noteq> CHR 0x22" "c \<noteq> CHR ''{''" "c \<noteq> CHR ''[''"
    using ct(2) by (auto simp: is_digit_def digit_val_def)
  then show ?thesis
    using assms(3) keyword_number [OF n] ct(1) by (cases k) simp_all
qed

theorem scan_dumps:
  shows "json_ok v \<Longrightarrow> ends_token r \<Longrightarrow> 2 * length (dumps v) + 1 \<le> k \<Longrightarrow>
           scan_once k (dumps v @ r) = Some (v, r)"
    and "items_ok vs \<Longrightarrow> vs \<noteq> [] \<Longrightarrow> 2 * length (dumps_items vs) + 2 \<le> k \<Longrightarrow>
           scan_items k (dumps_items vs @ CHR '']'' # r) = Some (vs, r)"
    and "members_ok kvs \<Longrightarrow> kvs \<noteq> [] \<Longrightarrow> 2 * length (dumps_members kvs) + 2 \<le> k \<Longrightarrow>
           scan_members k (dumps_members kvs @ CHR ''}'' # r) = Some (kvs, r)"
proof (induction v and vs and kvs arbitrary: k r and k r and k r rule: dumps_dumps_items_dumps_members.induct)
  case 1 then show ?case by (cases k) (simp_all add: keyword_def)
next
  case (2 b) then show ?case by (cases k) (simp_all add: keyword_def)
next
  case (3 i) then show ?case using scan_dumps_number [OF scan_number_int] by simp
next
  case (4 lit) then show ?case using scan_dumps_number [of lit] by simp
next
  case (5 s) then show ?case using dumps_str_scan_once by simp
next
  case (6 vs)
  then obtain j where k: "k = Suc j" "vs \<noteq> [] \<Longrightarrow> 2 * length (dumps_items vs) + 2 \<le> j" by (cases k) auto
  show ?case
  proof (cases "vs = []")
    case False
    then show ?thesis
      using 6 k dumps_items_head [of vs "CHR '']'' # r"] by simp
  qed (simp add: k)
next
  case (7 kvs)
  then obtain j where k: "k = Suc j" "kvs \<noteq> [] \<Longrightarrow> 2 * length (dumps_members kvs) + 2 \<le> j" by (cases k) auto
  show ?case
  proof (cases "kvs = []")
    case False
    then show ?thesis
      using 7 k dumps_members_head [of kvs "CHR ''}'' # r"] fold_update_distinct [of "[]" kvs]
      by (simp add: dict_ok_def)
  qed (simp add: k)
next
  case 8 then show ?case by simp
next
  case (9 v vs)
  then obtain j where k: "k = Suc j" by (cases k) auto
  show ?case
  proof (cases "vs = []")
    case True then show ?thesis using 9 k by simp
  next
    case False
    then show ?thesis
      using 9 k dumps_items_head [of vs "CHR '']'' # r"] by simp
  qed
next
  case 10 then show ?case by simp
next
  case (11 key v kvs)
  then obtain j where k: "k = Suc j" by (cases k) auto
  obtain body where b: "dumps_str key = CHR 0x22 # body @ [CHR 0x22]"
    "\<And>r. scan_string (body @ CHR 0x22 # r) = Some (key, r)"
    using dumps_str_scan [of key] 11 by auto
  show ?case
  proof (cases "kvs = []")
    case True then show ?thesis using 11 k by (simp add: b skip_ws_dumps)
  next
    case False
    then show ?thesis
      using 11 k dumps_members_head [of kvs "CHR ''}'' # r"] by (simp add: b skip_ws_dumps)
  qed
qed

section \<open>Printed text is ASCII\<close>

lemma hex_digits_ascii: "is_ascii (hex_digits n)"
proof -
  have "d < 16 \<Longrightarrow> is_ascii [hex_digit d]" for d by (simp add: hex_digit_def)
  from this [of "n div 4096 mod 16"] this [of "n div 256 mod 16"] this [of "n div 16 mod 16"] this [of "n mod 16"]
  show ?thesis by (simp add: hex_digits_def)
qed

lemma escape_cp_ascii: "is_ascii (escape_cp n)"
  by (simp add: escape_cp_def u_escape_def Let_def hex_digits_ascii)

lemma dumps_str_ascii: "encodable s \<Longrightarrow> is_ascii (dumps_str s)"
proof -
  assume "encodable s"
  then obtain ns where "decode_cps s = Some ns" by (auto simp: encodable_def split: option.splits)
  moreover have "is_ascii (concat (map escape_cp ns))" by (induction ns) (simp_all add: escape_cp_ascii)
  ultimately show ?thesis by (simp add: dumps_str_def)
qed

lemma digits_ascii: "list_all is_digit s \<Longrightarrow> is_ascii s"
  by (induction s) (auto simp: is_digit_def digit_val_def split: if_splits)

lemma takeWhile_digits_ascii: "is_ascii (takeWhile is_digit s)"
  by (rule digits_ascii) (auto simp: list_all_iff dest: set_takeWhileD)

lemma float_literal_ascii:
  assumes "scan_number s = Some (JFloat lit, t)"
  shows "is_ascii lit"
proof -
  obtain ip u where ip: "scan_int_part s = Some (ip, u)"
    and lit: "lit = ip @ fst (scan_frac u) @ fst (scan_exp (snd (scan_frac u)))"
    using assms by (auto simp: scan_number_def split: option.splits prod.splits if_splits)
  have "is_ascii ip" using ip
    by (auto simp: scan_int_part_def Let_def takeWhile_digits_ascii split: if_splits list.splits)
       (auto simp: is_digit_def digit_val_def split: if_splits)
  moreover have "is_ascii (fst (scan_frac u))" by (simp add: scan_frac_def takeWhile_digits_ascii)
  moreover have "is_ascii (fst (scan_exp w))" for w
    by (auto simp: scan_exp_def Let_def takeWhile_digits_ascii)
  ultimately show ?thesis by (simp add: lit)
qed

lemma string_of_int_ascii: "is_ascii (string_of_int i)"
  by (simp add: string_of_int_def digits_ascii string_of_nat_digits_all)

lemma dumps_ascii:
  shows "json_ok v \<Longrightarrow> is_ascii (dumps v)"
    and "items_ok vs \<Longrightarrow> is_ascii (dumps_items vs)"
    and "members_ok kvs \<Longrightarrow> is_ascii (dumps_members kvs)"
proof (induction v and vs and kvs rule: dumps_dumps_items_dumps_members.induct)
  case (4 lit) then show ?case using float_literal_ascii by simp
qed (simp_all add: dumps_str_ascii string_of_int_ascii)

lemma bom_not_ascii: "is_ascii s \<Longrightarrow> take 3 s \<noteq> bom"
  by (cases s) (auto simp: bom_def encode_cp_def)

theorem loads_dumps:
  assumes "json_ok v"
  shows "loads (dumps v) = Inr v"
proof -
  have "skip_ws (dumps v) = dumps v" using skip_ws_dumps [OF assms, of "[]"] by simp
  moreover have "scan_once (2 * length (dumps v) + 2) (dumps v) = Some (v, [])"
    using scan_dumps(1) [OF assms, of "[]" "2 * length (dumps v) + 2"] by simp
  ultimately show ?thesis
    using bom_not_ascii [OF dumps_ascii(1) [OF assms]] by (simp add: loads_def)
qed

text \<open>Both directions with the UTF-8 codec.\<close>

lemma py_encode_dumps: "json_ok v \<Longrightarrow> py_encode (dumps v) = Inr (str_bytes (dumps v))"
  using encodable_ascii [OF dumps_ascii(1)] by (simp add: py_encode_def)

lemma py_decode_dumps: "json_ok v \<Longrightarrow> py_decode (str_bytes (dumps v)) = Inr (dumps v)"
  by (rule py_decode_encode [OF py_encode_dumps])

section \<open>The fuel is enough\<close>

lemma scan_string_length: "scan_string s = Some (u, t) \<Longrightarrow> length t < length s"
proof (induction s arbitrary: u t rule: length_induct)
  case (1 s)
  then obtain c r where s: "s = c # r" by (subst (asm) scan_string.simps) (auto split: list.splits)
  have IH: "length t < length w" if "scan_string w = Some (u, t)" "length w \<le> length r" for w u t
    using 1(1) that by (simp add: s less_Suc_eq_le)
  show ?case using 1(2) unfolding s
    by (subst (asm) scan_string.simps)
       (auto split: if_splits list.splits option.splits dest!: scan_u_length dest: IH)
qed

lemma scan_int_part_length: "scan_int_part s = Some (ip, t) \<Longrightarrow> length t < length s"
proof -
  have "length (dropWhile is_digit u) \<le> length u" for u by (rule length_dropWhile_le)
  then show "scan_int_part s = Some (ip, t) \<Longrightarrow> length t < length s"
    by (cases s; cases "tl s")
       (auto simp: scan_int_part_def Let_def less_Suc_eq_le le_SucI split: if_splits list.splits)
qed

lemma scan_frac_length: "length (snd (scan_frac s)) \<le> length s"
  using length_dropWhile_le [of is_digit "List.drop 1 s"] by (auto simp: scan_frac_def)

lemma scan_exp_length: "length (snd (scan_exp s)) \<le> length s"
  using length_dropWhile_le [of is_digit "List.drop 1 s"]
    length_dropWhile_le [of is_digit "List.drop 1 (List.drop 1 s)"]
  by (auto simp: scan_exp_def Let_def)

lemma scan_number_length: "scan_number s = Some (v, t) \<Longrightarrow> length t < length s"
proof -
  assume a: "scan_number s = Some (v, t)"
  then obtain ip u where "scan_int_part s = Some (ip, u)" "t = snd (scan_exp (snd (scan_frac u)))"
    by (auto simp: scan_number_def split: option.splits prod.splits if_splits)
  then show ?thesis
    using scan_int_part_length scan_frac_length [of u] scan_exp_length [of "snd (scan_frac u)"] by fastforce
qed

lemma keyword_length: "keyword s = Some (v, t) \<Longrightarrow> length t < length s"
  by (cases "s = []") (auto simp: keyword_def dest: scan_number_length split: if_splits option.splits)

lemma skip_ws_length: "length (skip_ws s) \<le> length s"
  by (rule length_dropWhile_le)

lemma skip_ws_tl_length: "skip_ws s = c # r \<Longrightarrow> length r < length s"
  using skip_ws_length [of s] by simp

lemma scan_length:
  shows "scan_once k s = Some (v, t) \<Longrightarrow> length t < length s"
    and "scan_items k s = Some (vs, t) \<Longrightarrow> length t < length s"
    and "scan_members k s = Some (kvs, t) \<Longrightarrow> length t < length s"
proof (induction k arbitrary: s v t vs kvs)
  case 0
  { case 1 then show ?case by simp }
  { case 2 then show ?case by simp }
  { case 3 then show ?case by simp }
next
  case (Suc k)
  { case 1
    then obtain c r where s: "s = c # r" by (cases s) auto
    have w: "length (skip_ws r) \<le> length r" "length (tl (skip_ws r)) \<le> length r"
      using skip_ws_length [of r] by auto
    show ?case
      using 1 w keyword_length [of s v t]
      by (auto simp: s split: if_splits dest!: scan_string_length Suc(2,3)) }
  { case 2
    then obtain v' t' where o: "scan_once k s = Some (v', t')" by (auto split: option.splits)
    then obtain c r where c: "skip_ws t' = c # r" using 2 by (auto split: list.splits)
    show ?case
      using 2 Suc(1) [OF o] skip_ws_tl_length [OF c] skip_ws_length [of r]
      by (auto simp: o c split: if_splits dest!: Suc(2)) }
  { case 3
    then obtain key t1 where o: "scan_string (tl s) = Some (key, t1)" by (auto split: option.splits if_splits)
    then obtain v' t2 where p: "scan_once k (skip_ws (tl (skip_ws t1))) = Some (v', t2)"
      using 3 by (auto split: option.splits if_splits)
    then obtain c r where c: "skip_ws t2 = c # r" using 3 o by (auto split: list.splits if_splits)
    have "length t1 < length s" using scan_string_length [OF o] by simp
    moreover have "length t2 < length t1"
      using Suc(1) [OF p] skip_ws_length [of t1] skip_ws_length [of "tl (skip_ws t1)"] by simp
    ultimately show ?case
      using 3 skip_ws_tl_length [OF c] skip_ws_length [of r]
      by (auto simp: o p c split: if_splits dest!: Suc(3)) }
qed

lemma scan_fuel_step:
  shows "2 * length s + 1 \<le> k \<Longrightarrow> scan_once (Suc k) s = scan_once k s"
    and "2 * length s + 2 \<le> k \<Longrightarrow> scan_items (Suc k) s = scan_items k s"
    and "2 * length s + 2 \<le> k \<Longrightarrow> scan_members (Suc k) s = scan_members k s"
proof (induction k arbitrary: s)
  case 0
  { case 1 then show ?case by simp }
  { case 2 then show ?case by simp }
  { case 3 then show ?case by simp }
next
  case (Suc k)
  { case 1
    have "scan_members (Suc k) (skip_ws t) = scan_members k (skip_ws t) \<and>
          scan_items (Suc k) (skip_ws t) = scan_items k (skip_ws t)" if "s = c # t" for c t
      using Suc(2,3) [of "skip_ws t"] 1 skip_ws_length [of t] that by simp
    then show ?case by (auto simp del: scan_items.simps scan_members.simps split: list.split) }
  { case 2
    have "scan_once (Suc k) s = scan_once k s" using Suc(1) [of s] 2 by simp
    moreover have "scan_items (Suc k) (skip_ws r) = scan_items k (skip_ws r)"
      if "scan_once k s = Some (v, t)" "skip_ws t = c # r" for v t c r
      using Suc(2) [of "skip_ws r"] 2 scan_length(1) [OF that(1)] skip_ws_tl_length [OF that(2)]
        skip_ws_length [of r] by simp
    ultimately show ?case
      unfolding scan_items.simps(2)
      by (intro option.case_cong prod.case_cong list.case_cong refl if_cong) auto }
  { case 3
    have "scan_once (Suc k) (skip_ws (tl (skip_ws t))) = scan_once k (skip_ws (tl (skip_ws t)))"
      if "scan_string (tl s) = Some (key, t)" for key t
      using Suc(1) [of "skip_ws (tl (skip_ws t))"] 3 scan_string_length [OF that]
        skip_ws_length [of t] skip_ws_length [of "tl (skip_ws t)"] by simp
    moreover have "scan_members (Suc k) (skip_ws r) = scan_members k (skip_ws r)"
      if "scan_string (tl s) = Some (key, t)" "scan_once k (skip_ws (tl (skip_ws t))) = Some (v, t2)"
        "skip_ws t2 = c # r" for key t v t2 c r
      using Suc(3) [of "skip_ws r"] 3 scan_string_length [OF that(1)] scan_length(1) [OF that(2)]
        skip_ws_tl_length [OF that(3)] skip_ws_length [of r]
        skip_ws_length [of t] skip_ws_length [of "tl (skip_ws t)"] by simp
    ultimately show ?case
      unfolding scan_members.simps(2)
      by (intro option.case_cong prod.case_cong list.case_cong refl if_cong) auto }
qed

lemma scan_fuel_enough:
  assumes "2 * length s + 1 \<le> k"
  shows "scan_once k s = scan_once (2 * length s + 1) s"
  using assms
proof (induction k rule: dec_induct)
  case (step n) then show ?case using scan_fuel_step(1) [of s n] by simp
qed simp

text \<open>So \<^const>\<open>loads\<close> does not depend on its fuel.\<close>

lemma loads_any_fuel:
  assumes "2 * length s + 2 \<le> k"
  shows "loads s =
     (if take 3 s = bom then Inl JSONDecodeError
      else case scan_once k (skip_ws s) of
        Some (v, t) \<Rightarrow> if skip_ws t = [] then Inr v else Inl JSONDecodeError
      | None \<Rightarrow> Inl JSONDecodeError)"
proof -
  have a: "2 * length (skip_ws s) + 1 \<le> k" "2 * length (skip_ws s) + 1 \<le> 2 * length s + 2"
    using skip_ws_length [of s] assms by linarith+
  have "scan_once k (skip_ws s) = scan_once (2 * length s + 2) (skip_ws s)"
    by (simp only: scan_fuel_enough [OF a(1)] scan_fuel_enough [OF a(2)])
  then show ?thesis by (simp add: loads_def)
qed

section \<open>How long texts get\<close>

lemma escape_cp_length: "length (escape_cp n) \<le> 6 * length (encode_cp n)"
  by (simp add: escape_cp_def encode_cp_def u_escape_def hex_digits_def Let_def)

lemma escape_cps_length: "length (concat (map escape_cp ns)) \<le> 6 * length (encode_cps ns)"
proof (induction ns)
  case (Cons n ns)
  then show ?case using escape_cp_length [of n] by simp
qed simp

lemma dumps_str_length: "length (dumps_str s) \<le> 6 * length s + 2"
  using escape_cps_length encode_decode_cps
  by (auto simp: dumps_str_def split: option.split)

text \<open>Text without characters that need an escape is printed as it is.\<close>

definition plain :: "string \<Rightarrow> bool" where
  "plain s \<longleftrightarrow> list_all (\<lambda>c. c \<noteq> CHR 0x22 \<and> c \<noteq> CHR 0x5C \<and> 0x20 \<le> (of_char c :: nat) \<and> (of_char c :: nat) \<le> 0x7E) s"

lemma dumps_str_plain: "plain s \<Longrightarrow> dumps_str s = [CHR 0x22] @ s @ [CHR 0x22]"
proof -
  assume p: "plain s"
  have "is_ascii s" unfolding is_ascii_def by (rule list.pred_mono_strong [OF p [unfolded plain_def]]) linarith
  moreover have "concat (map (\<lambda>c. escape_cp (of_char c)) s) = s"
    using p
  proof (induction s)
    case (Cons c s)
    have "of_char c \<noteq> (0x22 :: nat)" "of_char c \<noteq> (0x5C :: nat)" "0x20 \<le> (of_char c :: nat)" "of_char c \<le> (0x7E :: nat)"
      using Cons.prems by (auto simp: plain_def char_of_escaped char_of_def dest!: char_of_of_char_nat)
    then have "escape_cp (of_char c) = [c]" by (simp add: escape_cp_def)
    then show ?case using Cons by (simp add: plain_def)
  qed simp
  ultimately show ?thesis by (simp add: dumps_str_def decode_cps_ascii comp_def)
qed

end
