(* ===== verification/MixedMode.thy ===== *)
theory MixedMode
  imports Json Constants
begin

text \<open>
  Mixed-mode payloads, \<^verbatim>\<open>src/common/mixed_mode_io.py\<close>: a four-byte length, JSON metadata and
  raw bytes. The texts that CPython gives its own \<^verbatim>\<open>JSONDecodeError\<close> and
  \<^verbatim>\<open>UnicodeDecodeError\<close> are not modelled; where the source puts one into a message of its
  own, the argument \<open>xt\<close> is that text. Shown: decoding gives back what was encoded, and
  decoding of any bytes either gives metadata and the exact remaining bytes or raises a subclass of
  \<^verbatim>\<open>ValueError\<close>.
\<close>

definition META_LEN_FORMAT :: "nat list" where "META_LEN_FORMAT = [4]"
definition META_LEN_SIZE :: nat where "META_LEN_SIZE = sum_list META_LEN_FORMAT"

definition mixed_encode :: "json \<Rightarrow> bytes option \<Rightarrow> py_error + bytes" where
  "mixed_encode metadata binary_data =
     (case py_encode (dumps metadata) of
        Inl e \<Rightarrow> Inl e
      | Inr meta_bytes \<Rightarrow>
          (case struct_pack (zip META_LEN_FORMAT [int (length meta_bytes)]) of
             Inl e \<Rightarrow> Inl e
           | Inr header \<Rightarrow>
               (let pl = header @ meta_bytes
                in Inr (case binary_data of
                          None \<Rightarrow> pl
                        | Some b \<Rightarrow> if b = [] then pl else pl @ b))))"

definition mixed_decode :: "(py_error \<Rightarrow> string) \<Rightarrow> bytes \<Rightarrow> py_error + json \<times> bytes" where
  "mixed_decode xt data =
     (if length data < META_LEN_SIZE
      then Inl (ValueError ''Payload too short to contain metadata length prefix'')
      else case struct_unpack META_LEN_FORMAT (take META_LEN_SIZE data) of
        Inr [meta_len] \<Rightarrow>
          (let total_len = int (length data); required_len = int META_LEN_SIZE + meta_len
           in if total_len < required_len
              then Inl (ValueError (''Payload incomplete. Expected at least '' @ string_of_int required_len
                     @ '' bytes, got '' @ string_of_int total_len))
              else (case py_decode (take (nat meta_len) (drop META_LEN_SIZE data)) of
                      Inl e \<Rightarrow> Inl e
                    | Inr meta_text \<Rightarrow>
                        (case loads meta_text of
                           Inl e \<Rightarrow> Inl (ValueError (''Invalid JSON metadata: '' @ xt e))
                         | Inr metadata \<Rightarrow> Inr (metadata, drop (META_LEN_SIZE + nat meta_len) data))))
      | _ \<Rightarrow> Inl (ValueError ''Failed to decode metadata length prefix''))"

lemma META_LEN_SIZE_eq: "META_LEN_SIZE = 4"
  by (simp add: META_LEN_SIZE_def META_LEN_FORMAT_def)

lemma mixed_encode_ok:
  assumes "json_ok v" "int (length (dumps v)) < 2 ^ 32"
  shows "mixed_encode v b = Inr (be_bytes 4 (length (dumps v)) @ str_bytes (dumps v) @
           (case b of None \<Rightarrow> [] | Some d \<Rightarrow> d))"
  using assms
  by (auto simp: mixed_encode_def py_encode_dumps META_LEN_FORMAT_def Let_def struct_pack.simps split: option.split)

lemma mixed_decode_bytes:
  assumes "json_ok v" "int (length (dumps v)) < 2 ^ 32"
  shows "mixed_decode xt (be_bytes 4 (length (dumps v)) @ str_bytes (dumps v) @ d) = Inr (v, d)"
proof -
  have "be_nat (be_bytes 4 (length (dumps v))) = length (dumps v)"
    using assms(2) by (simp add: be_nat_be_bytes)
  then have "struct_unpack META_LEN_FORMAT (be_bytes 4 (length (dumps v))) = Inr [int (length (dumps v))]"
    by (simp add: struct_unpack_def META_LEN_FORMAT_def struct_read.simps)
  then show ?thesis
    using assms py_decode_dumps [OF assms(1)]
    by (simp add: mixed_decode_def META_LEN_SIZE_eq Let_def loads_dumps)
qed

interpretation mixed_codec: codec
  "\<lambda>(v, b). json_ok v \<and> int (length (dumps v)) < 2 ^ 32"
  "\<lambda>(v, b). mixed_encode v (Some b)" "mixed_decode xt" "\<lambda>x. x" for xt
  by unfold_locales (auto simp: mixed_encode_ok mixed_decode_bytes)

lemma mixed_decode_shape:
  assumes "mixed_decode xt data = Inr (v, d)"
  shows "\<exists>n s. data = be_bytes 4 n @ str_bytes s @ d \<and> length s = n \<and> n < 2 ^ 32 \<and> encodable s \<and> loads s = Inr v"
proof -
  define n where "n = be_nat (take 4 data)"
  have len: "4 \<le> length data" using assms by (auto simp: mixed_decode_def META_LEN_SIZE_eq split: if_splits)
  then have u: "struct_unpack META_LEN_FORMAT (take 4 data) = Inr [int n]"
    by (simp add: struct_unpack_def META_LEN_FORMAT_def META_LEN_SIZE_eq n_def struct_read.simps)
  from assms obtain s where s: "4 + n \<le> length data" "py_decode (take n (drop 4 data)) = Inr s"
    "loads s = Inr v" "d = drop (4 + n) data"
    by (auto simp: mixed_decode_def u META_LEN_SIZE_eq Let_def split: if_splits sum.splits)
  have str: "encodable s" "str_bytes s = take n (drop 4 data)"
    using s(2) by (auto simp: py_decode_def split: if_splits)
  have "be_bytes 4 n = take 4 data" using be_bytes_be_nat [of "take 4 data"] len by (simp add: n_def)
  moreover have "data = take 4 data @ take n (drop 4 data) @ drop (4 + n) data"
    by (metis append_take_drop_id drop_drop add.commute)
  moreover have "length s = n" using str(2) s(1) by (metis length_str_bytes length_take length_drop add_le_imp_le_diff min.absorb2 add.commute)
  moreover have "n < 2 ^ 32" using be_nat_less [of "take 4 data"] len by (simp add: n_def)
  ultimately show ?thesis using str s(3,4) by metis
qed

section \<open>Properties\<close>

text \<open>
  Mixed-mode payloads survive the wire: for metadata that prints to less than 4 GiB of JSON,
  the encoder succeeds for every binary part, absent and empty ones alike, and the decoder returns
  the same metadata and exactly the bytes.
\<close>

theorem mixed_mode_round_trip:
  assumes "json_ok metadata" and "int (length (dumps metadata)) < 2 ^ 32"
  shows "\<exists>data. mixed_encode metadata binary = Inr data \<and>
    mixed_decode xt data = Inr (metadata, case binary of None \<Rightarrow> [] | Some d \<Rightarrow> d)"
  using mixed_encode_ok [OF assms] mixed_decode_bytes [OF assms] by simp

theorem mixed_mode_round_trip_witness:
  "\<exists>data. mixed_encode (JDict [(''offset'', JInt 5)]) (Some [1, 2]) = Inr data \<and>
    mixed_decode (\<lambda>_. []) data = Inr (JDict [(''offset'', JInt 5)], [1, 2])"
  using mixed_mode_round_trip [of "JDict [(''offset'', JInt 5)]" "Some [1, 2]" "\<lambda>_. []"] encodable_ascii [of "''offset''"]
  by (simp add: dict_ok_def dumps_str_def decode_cps_ascii escape_cp_def string_of_int_def string_of_nat.simps)

end
