(* ===== verification/Caches.thy ===== *)
theory Caches
  imports Constants
begin

text \<open>
  The two dictionaries with a time to live: the DNS cache, \<^verbatim>\<open>src/server/dns/dns_cache.py\<close>, and the
  idempotency cache of the agent, \<^verbatim>\<open>src/server/agent/idempotency.py\<close>. The clock is an argument.
  Both are interpreted as the \<open>ttl_store\<close> of the prelude, from which their properties
  follow: a stored value is returned exactly while it is fresh, other keys are not disturbed, and
  periodic clean-up cannot be observed.
\<close>

section \<open>The DNS cache\<close>

type_synonym DNSCache = "(string, string \<times> real) dict"

definition dns_set :: "DNSCache \<Rightarrow> string \<Rightarrow> string \<Rightarrow> real \<Rightarrow> real \<Rightarrow> DNSCache" where
  "dns_set c name ip ttl t = dict_set name (ip, t + ttl) c"

definition DEFAULT_TTL :: real where "DEFAULT_TTL = 300"

definition new_DNSCache :: "real \<Rightarrow> DNSCache" where
  "new_DNSCache t = dns_set [] ''agent.local'' ''127.0.0.1'' 300 t"

definition dns_get :: "DNSCache \<Rightarrow> string \<Rightarrow> real \<Rightarrow> string option \<times> DNSCache" where
  "dns_get c name t =
     (case dict_get c name of
        None \<Rightarrow> (None, c)
      | Some (ip, expires_at) \<Rightarrow> if t > expires_at then (None, dict_del name c) else (Some ip, c))"

interpretation dns_store: ttl_store dns_get "\<lambda>c k v t. dns_set c k v DEFAULT_TTL t" "\<lambda>t t'. t' \<le> t + DEFAULT_TTL"
proof unfold_locales
  fix c :: DNSCache and k k' v :: string and t t' :: real
  show "fst (dns_get (dns_set c k v DEFAULT_TTL t) k t') = Some v" if "t' \<le> t + DEFAULT_TTL"
    using that by (simp add: dns_get_def dns_set_def dict_simps)
  show "fst (dns_get (dns_set c k v DEFAULT_TTL t) k t') = None" if "\<not> t' \<le> t + DEFAULT_TTL"
    using that by (simp add: dns_get_def dns_set_def dict_simps)
  show "fst (dns_get (dns_set c k v DEFAULT_TTL t) k' t') = fst (dns_get c k' t')" if "k' \<noteq> k"
    using that by (auto simp: dns_get_def dns_set_def dict_simps split: option.split)
  show "fst (dns_get (snd (dns_get c k t)) k' t') = fst (dns_get c k' t')" if "k' \<noteq> k"
    using that by (auto simp: dns_get_def dict_simps split: option.split)
  show "snd (dns_get c k t) = c" if "fst (dns_get c k t) = Some v"
    using that by (auto simp: dns_get_def split: option.splits if_splits)
qed

section \<open>The idempotency cache\<close>

definition IDEMPOTENCY_TTL :: real where "IDEMPOTENCY_TTL = 120"

record CachedResponse =
  response_data :: bytes
  timestamp :: real

type_synonym request_key = "string \<times> int \<times> int"
type_synonym IdempotencyCache = "(request_key, CachedResponse) dict"

definition get_response :: "IdempotencyCache \<Rightarrow> request_key \<Rightarrow> real \<Rightarrow> bytes option \<times> IdempotencyCache" where
  "get_response c key t =
     (case dict_get c key of
        None \<Rightarrow> (None, c)
      | Some entry \<Rightarrow>
          if t - timestamp entry < IDEMPOTENCY_TTL then (Some (response_data entry), c)
          else (None, dict_del key c))"

definition store_response :: "IdempotencyCache \<Rightarrow> request_key \<Rightarrow> bytes \<Rightarrow> real \<Rightarrow> IdempotencyCache" where
  "store_response c key data t = dict_set key \<lparr>response_data = data, timestamp = t\<rparr> c"

definition cleanup :: "IdempotencyCache \<Rightarrow> real \<Rightarrow> IdempotencyCache" where
  "cleanup c now =
     (let keys_to_delete = map fst (filter (\<lambda>(k, v). now - timestamp v \<ge> IDEMPOTENCY_TTL) c)
      in foldl (\<lambda>d k. dict_del k d) c keys_to_delete)"

interpretation idempotency_store: ttl_store get_response store_response "\<lambda>t t'. t' - t < IDEMPOTENCY_TTL"
proof unfold_locales
  fix c :: IdempotencyCache and k k' :: request_key and v :: bytes and t t' :: real
  show "fst (get_response (store_response c k v t) k t') = Some v" if "t' - t < IDEMPOTENCY_TTL"
    using that by (simp add: get_response_def store_response_def dict_simps)
  show "fst (get_response (store_response c k v t) k t') = None" if "\<not> t' - t < IDEMPOTENCY_TTL"
    using that by (simp add: get_response_def store_response_def dict_simps)
  show "fst (get_response (store_response c k v t) k' t') = fst (get_response c k' t')" if "k' \<noteq> k"
    using that by (auto simp: get_response_def store_response_def dict_simps split: option.split)
  show "fst (get_response (snd (get_response c k t)) k' t') = fst (get_response c k' t')" if "k' \<noteq> k"
    using that by (auto simp: get_response_def dict_simps split: option.split)
  show "snd (get_response c k t) = c" if "fst (get_response c k t) = Some v"
    using that by (auto simp: get_response_def split: option.splits if_splits)
qed

lemma foldl_delete: "map_of (foldl (\<lambda>d k. dict_del k d) c ks) k = (if k \<in> set ks then None else map_of c k)"
  by (induction ks arbitrary: c) (auto simp: dict_simps)

lemma dict_get_cleanup:
  assumes "dict_ok c"
  shows "dict_get (cleanup c now) k = (case dict_get c k of None \<Rightarrow> None
    | Some v \<Rightarrow> if now - timestamp v \<ge> IDEMPOTENCY_TTL then None else Some v)"
proof -
  have "k \<in> set (map fst (filter (\<lambda>(k, v). now - timestamp v \<ge> IDEMPOTENCY_TTL) c)) \<longleftrightarrow>
      (\<exists>v. dict_get c k = Some v \<and> now - timestamp v \<ge> IDEMPOTENCY_TTL)"
    unfolding dict_ok_mem [OF assms, symmetric] by force
  then show ?thesis by (auto simp: cleanup_def Let_def foldl_delete split: option.split)
qed

section \<open>Properties\<close>

text \<open>
  At-most-once for the lifetime of a record: after a response is stored for a request key, and
  whatever responses are stored for other keys afterwards, a repetition of the request within
  120 seconds finds exactly the stored bytes, and from 120 seconds on finds nothing.
\<close>

theorem idempotency_replays_stored_response:
  "fst (get_response (foldl (\<lambda>c (k, d, u). if k = key then c else store_response c k d u)
      (store_response cache key data t) others) key t') =
    (if t' - t < IDEMPOTENCY_TTL then Some data else None)"
proof -
  have "fst (get_response (foldl (\<lambda>c (k, d, u). if k = key then c else store_response c k d u) c others) key t')
      = fst (get_response c key t')" for c
  proof (induction others arbitrary: c)
    case (Cons x xs)
    then show ?case using idempotency_store.lookup_store_other by (auto split: prod.splits)
  qed simp
  then show ?thesis
    using idempotency_store.lookup_store_fresh idempotency_store.lookup_store_stale by simp
qed

text \<open>
  Clean-up is unobservable: running it at any moment changes no answer from that moment on,
  and it keeps the dictionary's keys distinct.
\<close>

theorem idempotency_cleanup_transparent:
  assumes "dict_ok cache" and "now \<le> t"
  shows "fst (get_response (cleanup cache now) key t) = fst (get_response cache key t) \<and>
    dict_ok (cleanup cache now)"
proof
  show "fst (get_response (cleanup cache now) key t) = fst (get_response cache key t)"
    using assms(2) by (auto simp: get_response_def dict_get_cleanup [OF assms(1)] split: option.split)
  have "dict_ok c \<Longrightarrow> dict_ok (foldl (\<lambda>d k. dict_del k d) c ks)" for c :: IdempotencyCache and ks
    by (induction ks arbitrary: c) auto
  then show "dict_ok (cleanup cache now)" using assms(1) by (simp add: cleanup_def Let_def)
qed

theorem idempotency_cleanup_transparent_witness:
  "fst (get_response (cleanup (store_response [] (''c'', 1, 4) [7] 0) 100) (''c'', 1, 4) 110) = Some [7]"
proof -
  have "dict_ok (store_response [] (''c'', 1, 4) [7] 0)" by (simp add: store_response_def dict_ok_def)
  from idempotency_cleanup_transparent [OF this, of 100 110 "(''c'', 1, 4)"] show ?thesis
    by (simp add: get_response_def store_response_def IDEMPOTENCY_TTL_def)
qed

text \<open>
  DNS: the name of the agent resolves to the loopback address for the 300 seconds after the
  server started and not later, whatever other names were looked up before; names never set never
  resolve.
\<close>

theorem dns_resolves_agent:
  "fst (dns_get (foldl (\<lambda>c (n, u). snd (dns_get c n u)) (new_DNSCache t0)
      (filter (\<lambda>(n, u). n \<noteq> ''agent.local'') queries)) name t) =
    (if name = ''agent.local'' \<and> t \<le> t0 + 300 then Some ''127.0.0.1'' else None)"
proof (cases "name = ''agent.local''")
  case True
  have "fst (dns_get (foldl (\<lambda>c (n, u). snd (dns_get c n u)) c
      (filter (\<lambda>(n, u). n \<noteq> ''agent.local'') queries)) ''agent.local'' t) = fst (dns_get c ''agent.local'' t)" for c
  proof (induction queries arbitrary: c)
    case (Cons x xs)
    then show ?case using dns_store.lookup_frame by (auto split: prod.splits)
  qed simp
  then show ?thesis
    using True by (simp add: new_DNSCache_def dns_get_def dns_set_def)
next
  case False
  have "dict_get c name = None \<Longrightarrow> dict_get (foldl (\<lambda>c (n, u). snd (dns_get c n u)) c qs) name = None" for c qs
    by (induction qs arbitrary: c) (auto simp: dns_get_def dict_simps split: option.splits)
  then show ?thesis using False by (simp add: new_DNSCache_def dns_set_def dns_get_def [of _ name])
qed

end
