(* ===== verification/AppEnvelope.thy ===== *)
theory AppEnvelope
  imports Constants
begin

text \<open>
  The application envelope, \<^verbatim>\<open>src/common/app_envelope.py\<close>: the 12-byte header, its checks
  and its errors, and whole messages. Shown: encoding and decoding are inverse in both
  directions, and exactly the headers of protocol version 1 with at most 1 MiB of payload are
  accepted.
\<close>

section \<open>Header\<close>

definition HEADER_FORMAT :: "nat list" where "HEADER_FORMAT = [1, 1, 1, 1, 4, 4]"
definition HEADER_SIZE :: nat where "HEADER_SIZE = sum_list HEADER_FORMAT"

record AppHeader =
  version :: int
  opcode :: int
  h_flags :: int
  reserved :: int
  request_id :: int
  payload_len :: int

definition invalid_version :: "int \<Rightarrow> py_error" where
  "invalid_version v = ValueError (''Invalid version: '' @ string_of_int v @ ''. Expected ''
     @ string_of_int PROTOCOL_VERSION)"

definition payload_too_long :: "int \<Rightarrow> py_error" where
  "payload_too_long n = ValueError (''Payload length '' @ string_of_int n @ '' exceeds max ''
     @ string_of_int MAX_PAYLOAD_LEN)"

definition encode_header :: "int \<Rightarrow> int \<Rightarrow> int \<Rightarrow> int \<Rightarrow> int \<Rightarrow> py_error + bytes" where
  "encode_header ver op fl rid plen =
     (if ver \<noteq> PROTOCOL_VERSION then Inl (invalid_version ver)
      else if plen > MAX_PAYLOAD_LEN then Inl (payload_too_long plen)
      else struct_pack (zip HEADER_FORMAT [ver, op, fl, 0, rid, plen]))"

definition decode_header :: "bytes \<Rightarrow> py_error + AppHeader" where
  "decode_header data =
     (if length data \<noteq> HEADER_SIZE
      then Inl (ValueError (''Invalid header size: '' @ string_of_nat (length data) @ ''. Expected ''
                            @ string_of_nat HEADER_SIZE))
      else case struct_unpack HEADER_FORMAT data of
        Inr [ver, op, fl, res, rid, plen] \<Rightarrow>
          if ver \<noteq> PROTOCOL_VERSION then Inl (invalid_version ver)
          else if plen > MAX_PAYLOAD_LEN then Inl (payload_too_long plen)
          else Inr \<lparr>version = ver, opcode = op, h_flags = fl, reserved = res, request_id = rid,
                    payload_len = plen\<rparr>
      | _ \<Rightarrow> Inl StructError)"

definition encode_message :: "int \<Rightarrow> int \<Rightarrow> int \<Rightarrow> bytes \<Rightarrow> int option \<Rightarrow> py_error + bytes" where
  "encode_message op fl rid pl override =
     (let final_req_id = (case override of Some r \<Rightarrow> r | None \<Rightarrow> rid)
      in case encode_header PROTOCOL_VERSION op fl final_req_id (int (length pl)) of
           Inl e \<Rightarrow> Inl e
         | Inr header \<Rightarrow> Inr (header @ pl))"

section \<open>Lemmas\<close>

definition header_ok :: "AppHeader \<Rightarrow> bool" where
  "header_ok h \<longleftrightarrow> version h = PROTOCOL_VERSION \<and> 0 \<le> opcode h \<and> opcode h < 256 \<and>
     0 \<le> h_flags h \<and> h_flags h < 256 \<and> 0 \<le> request_id h \<and> request_id h < 2 ^ 32 \<and>
     0 \<le> payload_len h \<and> payload_len h \<le> MAX_PAYLOAD_LEN"

definition header_bytes :: "AppHeader \<Rightarrow> py_error + bytes" where
  "header_bytes h = encode_header (version h) (opcode h) (h_flags h) (request_id h) (payload_len h)"

lemma HEADER_SIZE_eq: "HEADER_SIZE = 12"
  by (simp add: HEADER_SIZE_def HEADER_FORMAT_def)

lemma header_fits:
  "fits (zip HEADER_FORMAT [a, b, c, d, e, f]) \<longleftrightarrow>
     0 \<le> a \<and> a < 256 \<and> 0 \<le> b \<and> b < 256 \<and> 0 \<le> c \<and> c < 256 \<and> 0 \<le> d \<and> d < 256 \<and>
     0 \<le> e \<and> e < 2 ^ 32 \<and> 0 \<le> f \<and> f < 2 ^ 32"
  by (auto simp: fits_def HEADER_FORMAT_def)

lemma header_bytes_ok:
  assumes "header_ok h"
  obtains d where "header_bytes h = Inr d" "length d = 12" "decode_header d = Inr (h\<lparr>reserved := 0\<rparr>)"
proof -
  let ?fs = "zip HEADER_FORMAT [version h, opcode h, h_flags h, 0, request_id h, payload_len h]"
  have "fits ?fs"
    using assms unfolding header_fits header_ok_def
    by (simp add: PROTOCOL_VERSION_def MAX_PAYLOAD_LEN_def MAX_FILE_SIZE_def)
  then obtain d where d: "struct_pack ?fs = Inr d" using struct_pack_Inr by blast
  then have len: "length d = 12" by (auto dest!: struct_pack_length simp: HEADER_FORMAT_def)
  have "struct_unpack HEADER_FORMAT d =
      Inr [version h, opcode h, h_flags h, 0, request_id h, payload_len h]"
    using struct_unpack_pack [OF d] by (simp add: HEADER_FORMAT_def)
  then have "decode_header d = Inr (h\<lparr>reserved := 0\<rparr>)"
    using assms len by (simp add: decode_header_def HEADER_SIZE_eq header_ok_def)
  moreover have "header_bytes h = Inr d" using assms d by (simp add: header_bytes_def encode_header_def header_ok_def)
  ultimately show ?thesis using that len by blast
qed

interpretation header_codec: codec header_ok header_bytes decode_header "\<lambda>h. h\<lparr>reserved := 0\<rparr>"
proof unfold_locales
  fix h assume "header_ok h"
  then show "\<exists>d. header_bytes h = Inr d" using header_bytes_ok by blast
next
  fix h d assume "header_ok h" "header_bytes h = Inr d"
  then show "decode_header d = Inr (h\<lparr>reserved := 0\<rparr>)" using header_bytes_ok by (metis sum.inject(2))
qed

lemma decode_header_ok:
  assumes "decode_header d = Inr h"
  shows "header_ok h" and "length d = 12"
    and "struct_unpack HEADER_FORMAT d =
      Inr [version h, opcode h, h_flags h, reserved h, request_id h, payload_len h]"
proof -
  show len: "length d = 12" using assms by (simp add: decode_header_def HEADER_SIZE_eq split: if_splits)
  show su: "struct_unpack HEADER_FORMAT d =
      Inr [version h, opcode h, h_flags h, reserved h, request_id h, payload_len h]"
    using assms by (auto simp: decode_header_def split: if_splits sum.splits list.splits)
  have "fits (zip HEADER_FORMAT [version h, opcode h, h_flags h, reserved h, request_id h, payload_len h])"
    using struct_pack_read [of d HEADER_FORMAT] su struct_pack_Inr_iff len
    by (auto simp: struct_unpack_def HEADER_FORMAT_def split: if_splits)
  moreover have "version h = PROTOCOL_VERSION" "payload_len h \<le> MAX_PAYLOAD_LEN"
    using assms by (auto simp: decode_header_def split: if_splits sum.splits list.splits)
  ultimately show "header_ok h" unfolding header_fits header_ok_def by simp
qed

lemma encode_message_ok:
  assumes "encode_message op fl rid pl override = Inr m"
  obtains d where "m = d @ pl" "length d = 12"
    "decode_header d = Inr \<lparr>version = PROTOCOL_VERSION, opcode = op, h_flags = fl, reserved = 0,
       request_id = (case override of Some r \<Rightarrow> r | None \<Rightarrow> rid), payload_len = int (length pl)\<rparr>"
proof -
  let ?h = "\<lparr>version = PROTOCOL_VERSION, opcode = op, h_flags = fl, reserved = 0,
       request_id = (case override of Some r \<Rightarrow> r | None \<Rightarrow> rid), payload_len = int (length pl)\<rparr>"
  obtain d where d: "header_bytes ?h = Inr d" "m = d @ pl"
    using assms by (auto simp: encode_message_def header_bytes_def Let_def split: sum.splits)
  then have "fits (zip HEADER_FORMAT [PROTOCOL_VERSION, op, fl, 0, request_id ?h, int (length pl)])"
      "int (length pl) \<le> MAX_PAYLOAD_LEN"
    using struct_pack_Inr_iff by (auto simp: header_bytes_def encode_header_def split: if_splits)
  then have "header_ok ?h" unfolding header_fits header_ok_def by simp
  then show ?thesis using header_bytes_ok [of ?h] d that by (metis AppHeader.update_convs(4) sum.inject(2))
qed

text \<open>The header of a message with a payload.\<close>

abbreviation request_header :: "int \<Rightarrow> int \<Rightarrow> bytes \<Rightarrow> AppHeader" where
  "request_header op rid pl \<equiv> \<lparr>version = PROTOCOL_VERSION, opcode = op, h_flags = 0, reserved = 0,
     request_id = rid, payload_len = int (length pl)\<rparr>"

lemma encode_message_override:
  "encode_message op fl gid pl ov = encode_message op fl (case ov of Some i \<Rightarrow> i | None \<Rightarrow> gid) pl None"
  by (cases ov) (simp_all add: encode_message_def)

lemma encode_message_exists:
  assumes "0 \<le> op" "op < 256" "0 \<le> rid" "rid < 2 ^ 32" "int (length pl) \<le> MAX_PAYLOAD_LEN"
  shows "\<exists>msg. encode_message op 0 rid pl None = Inr msg"
proof -
  let ?h = "\<lparr>version = PROTOCOL_VERSION, opcode = op, h_flags = 0, reserved = 0, request_id = rid, payload_len = int (length pl)\<rparr>"
  have "header_ok ?h" using assms by (simp add: header_ok_def)
  then obtain d where "header_bytes ?h = Inr d" using header_bytes_ok by blast
  then show ?thesis by (simp add: encode_message_def header_bytes_def)
qed

lemma decode_encoded:
  assumes "encode_message op 0 rid pl None = Inr msg"
  shows "drop 12 msg = pl" "msg \<noteq> []" "decode_header (take 12 msg) = Inr (request_header op rid pl)"
  using assms by (auto elim!: encode_message_ok)

lemma encode_message_resize:
  assumes "encode_message op 0 rid pl None = Inr msg" "int (length rpl) \<le> MAX_PAYLOAD_LEN"
  shows "\<exists>r. encode_message op 0 rid rpl None = Inr r"
  using decode_header_ok(1) [OF decode_encoded(3) [OF assms(1)]] encode_message_exists [OF _ _ _ _ assms(2), of op rid]
  by (simp add: header_ok_def)

section \<open>Properties\<close>

text \<open>
  The envelope round trip: a header of version 1 with fields in range and at most 1 MiB of
  payload encodes to 12 bytes, and decoding them gives it back (with the reserved byte, which
  the encoder zeroes, at 0).
\<close>

theorem header_round_trip:
  assumes "header_ok h"
  shows "\<exists>d. encode_header (version h) (opcode h) (h_flags h) (request_id h) (payload_len h) = Inr d \<and>
    length d = 12 \<and> decode_header d = Inr (h\<lparr>reserved := 0\<rparr>)"
  using header_bytes_ok [OF assms] unfolding header_bytes_def by blast

theorem header_round_trip_witness:
  "\<exists>d. encode_header 1 OP_GET 0 7 5 = Inr d \<and> decode_header d =
     Inr \<lparr>version = 1, opcode = OP_GET, h_flags = 0, reserved = 0, request_id = 7, payload_len = 5\<rparr>"
  using header_round_trip [of "\<lparr>version = 1, opcode = OP_GET, h_flags = 0, reserved = 9,
      request_id = 7, payload_len = 5\<rparr>"]
  by (auto simp: header_ok_def PROTOCOL_VERSION_def OP_GET_def MAX_PAYLOAD_LEN_def MAX_FILE_SIZE_def)

text \<open>
  The decoder accepts nothing else: whatever 12 bytes it accepts are of version 1, declare at
  most 1 MiB of payload, and are, up to the reserved byte, what the encoder produces for that
  header; any other length, version or declared size is a \<^verbatim>\<open>ValueError\<close>.
\<close>

theorem decode_header_exact:
  "case decode_header d of
     Inr h \<Rightarrow> length d = 12 \<and> header_ok h \<and> (reserved h \<noteq> 0 \<or>
       encode_header (version h) (opcode h) (h_flags h) (request_id h) (payload_len h) = Inr d)
   | Inl e \<Rightarrow> \<exists>msg. e = ValueError msg"
proof (cases "decode_header d")
  case (Inl e)
  have "\<exists>a b c x y z. struct_unpack HEADER_FORMAT d = Inr [a, b, c, x, y, z]" if "length d = 12"
    using that by (simp add: struct_unpack_def HEADER_FORMAT_def struct_read.simps)
  with Inl show ?thesis
    by (auto simp: decode_header_def HEADER_SIZE_eq invalid_version_def payload_too_long_def
        split: if_splits sum.splits list.splits)
next
  case (Inr h)
  note ok = decode_header_ok [OF Inr]
  have "struct_pack (zip HEADER_FORMAT [version h, opcode h, h_flags h, reserved h, request_id h,
      payload_len h]) = Inr d"
    using struct_pack_read [of d HEADER_FORMAT] ok(2,3)
    by (simp add: struct_unpack_def HEADER_FORMAT_def split: if_splits)
  then have "reserved h = 0 \<Longrightarrow> header_bytes h = Inr d"
    using ok(1) by (simp add: header_bytes_def encode_header_def header_ok_def)
  then show ?thesis using Inr ok(1,2) by (auto simp: header_bytes_def)
qed

theorem decode_header_exact_witness:
  "decode_header [1, 3, 0, 0, 0, 0, 0, 7, 0, 0, 0, 5] =
     Inr \<lparr>version = 1, opcode = 3, h_flags = 0, reserved = 0, request_id = 7, payload_len = 5\<rparr> \<and>
   encode_header 1 3 0 7 5 = Inr [1, 3, 0, 0, 0, 0, 0, 7, 0, 0, 0, 5]"
proof -
  have "decode_header [1, 3, 0, 0, 0, 0, 0, 7, 0, 0, 0, 5] =
      Inr \<lparr>version = 1, opcode = 3, h_flags = 0, reserved = 0, request_id = 7, payload_len = 5\<rparr>"
    by (simp add: decode_header_def HEADER_SIZE_eq HEADER_FORMAT_def struct_unpack_def struct_read.simps be_nat_def
        PROTOCOL_VERSION_def size_consts)
  then show ?thesis using decode_header_exact [of "[1, 3, 0, 0, 0, 0, 0, 7, 0, 0, 0, 5]"] by simp
qed

end
