(* ===== verification/Handlers.thy ===== *)
theory Handlers
  imports FileSystem UploadSession MixedMode Caches AppEnvelope "HOL-Library.Char_ord" "HOL-Library.List_Lexorder"
begin

text \<open>
  The file handlers of the agent server: \<^verbatim>\<open>src/server/agent/handlers/get.py\<close>,
  \<^verbatim>\<open>list.py\<close>, \<^verbatim>\<open>append.py\<close> and \<^verbatim>\<open>put.py\<close>, with every branch and exception. A
  handler that raises may already have changed the disk or the sessions, so the state is returned
  beside the result. Shown: what each handler does to the disk, that no handler touches a file
  outside the sandbox, and what they do with well-formed requests.
\<close>

section \<open>Environment\<close>

text \<open>
  What one call takes from outside: the clock, a fresh identifier and temporary name, the text of
  exceptions that Python itself raises, \<^verbatim>\<open>str\<close> of containers and of other objects, the size of a new directory,
  modification times, and the hash function of \<^verbatim>\<open>hashlib\<close> (a hexadecimal digest).
\<close>

record env =
  now :: real
  uuid4 :: string
  tmp_name :: string
  exc_text :: "py_error \<Rightarrow> string"
  repr_text :: "json \<Rightarrow> string"
  obj_text :: string
  dir_size :: int
  mtime :: "string \<Rightarrow> string"
  sha256 :: "bytes \<Rightarrow> string"

text \<open>\<^verbatim>\<open>str(e)\<close> and \<^verbatim>\<open>str(value)\<close>.\<close>

fun err_str :: "env \<Rightarrow> py_error \<Rightarrow> string" where
  "err_str ev (ValueError s) = s"
| "err_str ev (FileNotFoundError s) = s"
| "err_str ev e = exc_text ev e"

fun py_str :: "env \<Rightarrow> json \<Rightarrow> string" where
  "py_str ev JNull = ''None''"
| "py_str ev (JBool b) = (if b then ''True'' else ''False'')"
| "py_str ev (JInt i) = string_of_int i"
| "py_str ev (JFloat lit) = lit"
| "py_str ev (JStr s) = s"
| "py_str ev v = repr_text ev v"

text \<open>
  What a handler gives to the dispatcher: a dictionary, with the special key
  \<^verbatim>\<open>BINARY_CONTENT\<close> apart because its value is not JSON, or finished response bytes.
\<close>

datatype handler_result =
    Result "(string, json) dict" "bytes option"
  | Response bytes

definition sample_env :: env where
  "sample_env = \<lparr>now = 0, uuid4 = ''u1'', tmp_name = ''tmp'', exc_text = (\<lambda>_. []), repr_text = (\<lambda>_. []),
     obj_text = [], dir_size = 4096, mtime = (\<lambda>_. ''0.0''), sha256 = (\<lambda>_. ''e3b0'')\<rparr>"

section \<open>GET\<close>

definition parse_json_payload :: "bytes \<Rightarrow> py_error + json" where
  "parse_json_payload pl =
     ebind (py_decode pl) (\<lambda>text. catching (loads text) (\<lambda>_. ValueError ''Invalid JSON payload''))"

definition required_filename :: "json \<Rightarrow> py_error + string" where
  "required_filename request_data =
     ebind (json_get request_data ''filename'' JNull) (\<lambda>v.
       case v of
         JStr s \<Rightarrow> if s = [] then Inl (ValueError (''Missing 'filename'' @ [CHR 0x27])) else Inr s
       | _ \<Rightarrow> Inl (ValueError (''Missing 'filename'' @ [CHR 0x27])))"

definition handle_get :: "PolicyGuard \<Rightarrow> disk \<Rightarrow> bytes \<Rightarrow> py_error + handler_result" where
  "handle_get g d pl =
     ebind (require (pl \<noteq> []) (ValueError ''Missing payload'')) (\<lambda>_.
     ebind (catching (parse_json_payload pl)
              (\<lambda>e. if e = UnicodeDecodeError then ValueError ''Invalid payload encoding'' else e)) (\<lambda>request_data.
     ebind (required_filename request_data) (\<lambda>fname.
     ebind (validate_path g fname) (\<lambda>abs_path.
     ebind (require (os_exists d abs_path) (FileNotFoundError (''File not found: '' @ fname))) (\<lambda>_.
     ebind (os_getsize d abs_path) (\<lambda>file_size.
     ebind (require (file_size \<le> MAX_FILE_SIZE)
              (ValueError (''File too large: '' @ string_of_int file_size @ '' > '' @ string_of_int MAX_FILE_SIZE))) (\<lambda>_.
     ebind (read_bytes d abs_path) (\<lambda>file_content.
       Inr (Result [(''filename'', JStr fname), (''size'', JInt file_size)] (Some file_content))))))))))"

section \<open>LIST\<close>

definition os_stat :: "env \<Rightarrow> disk \<Rightarrow> string \<Rightarrow> py_error + int \<times> string" where
  "os_stat ev d p = ebind (os_getsize d p) (\<lambda>n. Inr (n, mtime ev p))"

text \<open>The loop skips entries whose \<^verbatim>\<open>stat\<close> raises \<^verbatim>\<open>OSError\<close>.\<close>

fun collect_metadata :: "env \<Rightarrow> PolicyGuard \<Rightarrow> disk \<Rightarrow> string list \<Rightarrow> py_error + (string \<times> int \<times> string) list" where
  "collect_metadata ev g d [] = Inr []"
| "collect_metadata ev g d (fname # fnames) =
     (case os_stat ev d (os_join (sandbox_root g) fname) of
        Inr (n, mt) \<Rightarrow> ebind (collect_metadata ev g d fnames) (\<lambda>ms. Inr ((fname, n, mt) # ms))
      | Inl e \<Rightarrow> if is_ValueError e then Inl e else collect_metadata ev g d fnames)"

definition handle_list :: "env \<Rightarrow> PolicyGuard \<Rightarrow> disk \<Rightarrow> py_error + handler_result" where
  "handle_list ev g d =
     ebind (os_listdir d (sandbox_root g)) (\<lambda>filenames.
     ebind (collect_metadata ev g d filenames) (\<lambda>files_metadata.
       Inr (Result [(''files'', JList (map (\<lambda>(nm, n, mt).
              JDict [(''name'', JStr nm), (''size'', JInt n), (''mtime'', JFloat mt)])
              (sort_key fst files_metadata)))] None)))"

section \<open>APPEND\<close>

definition handle_append :: "env \<Rightarrow> PolicyGuard \<Rightarrow> disk \<Rightarrow> bytes \<Rightarrow> disk \<times> (py_error + handler_result)" where
  "handle_append ev g d pl =
     (case ebind (require (pl \<noteq> []) (ValueError ''Missing payload'')) (\<lambda>_.
           ebind (catching (mixed_decode (exc_text ev) pl)
                    (\<lambda>e. ValueError (''Invalid Mixed Mode payload: '' @ err_str ev e))) (\<lambda>(metadata, binary_data).
           ebind (required_filename metadata) (\<lambda>fname.
           ebind (validate_path g fname) (\<lambda>abs_path.
           ebind (require (os_exists d abs_path) (FileNotFoundError (''File not found: '' @ fname))) (\<lambda>_.
           ebind (os_getsize d abs_path) (\<lambda>current_size.
           (let new_total_size = current_size + int (length binary_data) in
           ebind (require (new_total_size \<le> MAX_FILE_SIZE)
                    (ValueError (''Append would exceed max file size: '' @ string_of_int new_total_size
                       @ '' > '' @ string_of_int MAX_FILE_SIZE))) (\<lambda>_.
           ebind (append_file d abs_path binary_data) (\<lambda>d'.
           ebind (os_getsize d' abs_path) (\<lambda>final_size.
             Inr (d', Result [(''filename'', JStr fname), (''new_size'', JInt final_size)] None))))))))))) of
        Inl e \<Rightarrow> (d, Inl e)
      | Inr (d', r) \<Rightarrow> (d', Inr r))"

section \<open>PUT\_META\<close>

text \<open>
  \<^verbatim>\<open>total_size > MAX_FILE_SIZE\<close> on whatever JSON sent. The declared size is later only compared
  for equality with offsets, which are non-negative integers, so a size that is not an integer is
  kept as $-1$, which no offset equals either.
\<close>

fun size_exceeds :: "json \<Rightarrow> py_error + bool" where
  "size_exceeds (JFloat lit) =
     Inr (lit = ''Infinity'' \<or> (is_finite_literal lit \<and> float_value lit > of_int MAX_FILE_SIZE))"
| "size_exceeds (JInt i) = Inr (i > MAX_FILE_SIZE)"
| "size_exceeds (JBool b) = Inr False"
| "size_exceeds _ = Inl TypeError"

fun declared_size :: "json \<Rightarrow> int" where
  "declared_size (JInt i) = i"
| "declared_size (JBool b) = (if b then 1 else 0)"
| "declared_size (JFloat lit) =
     (if is_finite_literal lit \<and> of_int \<lfloor>float_value lit\<rfloor> = float_value lit then \<lfloor>float_value lit\<rfloor> else -1)"
| "declared_size _ = -1"

text \<open>\<^verbatim>\<open>validate_path\<close> of a value that need not be text.\<close>

fun validate_json_path :: "PolicyGuard \<Rightarrow> json \<Rightarrow> py_error + string \<times> string" where
  "validate_json_path g (JStr s) = ebind (validate_path g s) (\<lambda>p. Inr (s, p))"
| "validate_json_path g v = Inl TypeError"

text \<open>Everything before the first effect: the name, the path and the size.\<close>

definition check_put_meta :: "env \<Rightarrow> PolicyGuard \<Rightarrow> disk \<Rightarrow> bytes \<Rightarrow> py_error + string \<times> string \<times> int" where
  "check_put_meta ev g d pl =
     ebind (parse_json_payload pl) (\<lambda>meta.
     ebind (json_get meta ''filename'' JNull) (\<lambda>fname.
     ebind (json_get meta ''total_size'' JNull) (\<lambda>tsize.
     ebind (json_get meta ''overwrite'' (JBool False)) (\<lambda>overwrite.
     ebind (require (truthy fname \<and> tsize \<noteq> JNull)
              (ValueError (''Missing 'filename' or 'total_size'' @ [CHR 0x27]))) (\<lambda>_.
     ebind (validate_json_path g fname) (\<lambda>(name, abs_path).
     ebind (size_exceeds tsize) (\<lambda>too_large.
     ebind (require (\<not> too_large)
              (ValueError (''File size '' @ py_str ev tsize @ '' exceeds limit '' @ string_of_int MAX_FILE_SIZE))) (\<lambda>_.
     ebind (require (\<not> (os_exists d abs_path \<and> \<not> truthy overwrite))
              (ValueError (''File '' @ name @ '' already exists (overwrite=False)''))) (\<lambda>_.
       Inr (name, abs_path, declared_size tsize))))))))))"

definition handle_put_meta ::
  "env \<Rightarrow> PolicyGuard \<Rightarrow> disk \<Rightarrow> UploadSessionManager \<Rightarrow> bytes
    \<Rightarrow> disk \<times> UploadSessionManager \<times> (py_error + handler_result)" where
  "handle_put_meta ev g d m pl =
     (case check_put_meta ev g d pl of
        Inl e \<Rightarrow> (d, m, Inl e)
      | Inr (name, abs_path, tsize) \<Rightarrow>
          (case makedirs (dir_size ev) d (dirname abs_path) of
             (d1, Some e) \<Rightarrow> (d1, m, Inl e)
           | (d1, None) \<Rightarrow>
               (case truncate_file d1 abs_path of
                  Inl e \<Rightarrow> (d1, m, Inl e)
                | Inr d2 \<Rightarrow>
                    (let (m', uid) = create_session m name tsize (uuid4 ev) (now ev)
                     in (d2, m', Inr (Result [(''upload_id'', JStr uid), (''status'', JStr ''ready'')] None))))))"

section \<open>PUT\_CHUNK\<close>

text \<open>The closure \<^verbatim>\<open>file_writer\<close>: the path is resolved again, and the file must exist (\<^verbatim>\<open>'r+b'\<close>).\<close>

definition disk_writer :: "PolicyGuard \<Rightarrow> disk writer" where
  "disk_writer g d fname off data =
     ebind (validate_path g fname) (\<lambda>abs_path.
     ebind (read_bytes d abs_path) (\<lambda>content.
       Inr (put_file d abs_path (write_at content off data))))"

text \<open>
  \<^verbatim>\<open>apply_chunk\<close> with an offset that JSON gave as a float: it compares like a number, but the
  file cannot be positioned at it. (The server's manager is strict; the buffering mode keeps a chunk
  under an integral offset as under the integer.)
\<close>

definition apply_chunk_float ::
  "env \<Rightarrow> UploadSessionManager \<Rightarrow> string \<Rightarrow> string \<Rightarrow> bytes
    \<Rightarrow> UploadSessionManager \<times> (py_error + bool \<times> string)" where
  "apply_chunk_float ev m uid lit chunk_data =
     (case get_session m uid (now ev) of
        (m1, None) \<Rightarrow> (m1, Inl (ValueError (''Session '' @ uid @ '' not found'')))
      | (m1, Some s) \<Rightarrow>
          (let off = float_value lit; nxt = real_of_int (next_expected_offset s)
           in if lit = ''-Infinity'' \<or> (is_finite_literal lit \<and> off < nxt)
              then if lit = ''-Infinity'' \<or> off + real (length chunk_data) \<le> nxt
                   then (m1, Inr (next_expected_offset s = total_size s, ''Duplicate ignored''))
                   else (m1, Inl (ValueError (''Overlapping chunk at '' @ lit @ '' (expected ''
                          @ string_of_int (next_expected_offset s) @ '')'')))
              else if is_finite_literal lit \<and> off = nxt then (m1, Inl TypeError)
              else if upload_mode m = STRICT
              then (m1, Inl (ValueError (''Out-of-order chunk: Got '' @ lit @ '', expected ''
                     @ string_of_int (next_expected_offset s))))
              else (let s1 = (if is_finite_literal lit \<and> of_int \<lfloor>off\<rfloor> = off
                              then s\<lparr>buffered_chunks := dict_set \<lfloor>off\<rfloor> chunk_data (buffered_chunks s)\<rparr> else s)
                    in (let (m2, r) = check_complete m1 uid s1 in (m2, Inr r)))))"

text \<open>The call of \<^verbatim>\<open>apply_chunk\<close> on whatever JSON sent as identifier and offset.\<close>

definition apply_chunk_json ::
  "env \<Rightarrow> PolicyGuard \<Rightarrow> disk \<Rightarrow> UploadSessionManager \<Rightarrow> json \<Rightarrow> json \<Rightarrow> bytes
    \<Rightarrow> disk \<times> UploadSessionManager \<times> (py_error + bool \<times> string)" where
  "apply_chunk_json ev g d m uid off chunk_data =
     (case uid of
        JStr u \<Rightarrow>
          (case (case off of JInt i \<Rightarrow> Some i | JBool b \<Rightarrow> Some (if b then 1 else 0) | _ \<Rightarrow> None) of
             Some i \<Rightarrow>
               (let (m', d', r) = apply_chunk m (disk_writer g) d u i chunk_data (now ev) in (d', m', r))
           | None \<Rightarrow>
               (case off of
                  JFloat lit \<Rightarrow> (let (m', r) = apply_chunk_float ev m u lit chunk_data in (d, m', r))
                | _ \<Rightarrow>
                    (case get_session m u (now ev) of
                       (m1, None) \<Rightarrow> (d, m1, Inl (ValueError (''Session '' @ u @ '' not found'')))
                     | (m1, Some s) \<Rightarrow> (d, m1, Inl TypeError))))
      | JList vs \<Rightarrow> (d, m, Inl TypeError)
      | JDict kvs \<Rightarrow> (d, m, Inl TypeError)
      | v \<Rightarrow> (d, m, Inl (ValueError (''Session '' @ py_str ev v @ '' not found''))))"

definition check_put_chunk :: "env \<Rightarrow> bytes \<Rightarrow> py_error + json \<times> json \<times> json \<times> bytes" where
  "check_put_chunk ev pl =
     ebind (mixed_decode (exc_text ev) pl) (\<lambda>(meta, chunk_data).
     ebind (json_get meta ''upload_id'' JNull) (\<lambda>uid.
     ebind (json_get meta ''offset'' JNull) (\<lambda>off.
     ebind (json_get meta ''chunk_len'' JNull) (\<lambda>chunk_len.
     ebind (require (truthy uid \<and> off \<noteq> JNull \<and> chunk_len \<noteq> JNull)
              (ValueError (''Missing 'upload_id', 'offset', or 'chunk_len'' @ [CHR 0x27]))) (\<lambda>_.
     ebind (require (num_value chunk_len = Some (real (length chunk_data)))
              (ValueError (''Chunk length mismatch: Declared '' @ py_str ev chunk_len @ '', Actual ''
                 @ string_of_nat (length chunk_data)))) (\<lambda>_.
       Inr (uid, off, chunk_len, chunk_data)))))))"

definition wrap_value_error :: "env \<Rightarrow> py_error \<Rightarrow> py_error" where
  "wrap_value_error ev e =
     (if is_ValueError e then ValueError (''Invalid metadata format: '' @ err_str ev e) else e)"

definition handle_put_chunk ::
  "env \<Rightarrow> PolicyGuard \<Rightarrow> disk \<Rightarrow> UploadSessionManager \<Rightarrow> bytes
    \<Rightarrow> disk \<times> UploadSessionManager \<times> (py_error + handler_result)" where
  "handle_put_chunk ev g d m pl =
     (case check_put_chunk ev pl of
        Inl e \<Rightarrow> (d, m, Inl (wrap_value_error ev e))
      | Inr (uid, off, chunk_len, chunk_data) \<Rightarrow>
          (case apply_chunk_json ev g d m uid off chunk_data of
             (d', m', Inl e) \<Rightarrow> (d', m', Inl (wrap_value_error ev e))
           | (d', m', Inr (is_complete, msg)) \<Rightarrow>
               (d', m', Inr (Result [(''upload_id'', uid), (''bytes_written'', chunk_len),
                   (''complete'', JBool is_complete), (''status'', JStr msg)] None))))"

section \<open>Confinement\<close>

lemma validate_path_inside:
  "clean_abs (sandbox_root g) \<Longrightarrow> validate_path g f = Inr p \<Longrightarrow> inside (sandbox_root g) p"
  using validate_path_Inr(2) by (simp add: inside_def)

text \<open>The sandbox's own writer keeps every file outside, whatever the session says.\<close>

interpretation sandboxed: tracked_writer "disk_writer g"
  "\<lambda>d d'. clean_abs (sandbox_root g) \<longrightarrow> same_outside (sandbox_root g) d d'" for g
proof unfold_locales
  fix fs fs' :: disk and f off data
  assume "disk_writer g fs f off data = Inr fs'"
  then obtain p c where "validate_path g f = Inr p" "fs' = put_file fs p c"
    by (auto simp: disk_writer_def error_simps)
  then show "clean_abs (sandbox_root g) \<longrightarrow> same_outside (sandbox_root g) fs fs'"
    using same_outside_put validate_path_inside by metis
qed (auto intro: same_outside_trans)

lemma handle_append_outside:
  assumes "clean_abs (sandbox_root g)"
  shows "same_outside (sandbox_root g) d (fst (handle_append ev g d pl))"
proof -
  have "same_outside (sandbox_root g) d d'" if "append_file d p data = Inr d'" "validate_path g f = Inr p" for d' p data f
    using that same_outside_put validate_path_inside [OF assms that(2)]
    by (auto simp: append_file_def split: sum.splits)
  then show ?thesis
    by (auto simp: handle_append_def Let_def error_simps split: sum.splits prod.splits)
qed

lemma handle_put_meta_outside:
  assumes "clean_abs (sandbox_root g)"
  shows "same_outside (sandbox_root g) d (fst (handle_put_meta ev g d m pl))"
proof (cases "check_put_meta ev g d pl")
  case (Inl e) then show ?thesis by (simp add: handle_put_meta_def)
next
  case (Inr x)
  then obtain name p ts where x: "check_put_meta ev g d pl = Inr (name, p, ts)" by (cases x) auto
  obtain f where "validate_json_path g f = Inr (name, p)"
    using x by (auto simp: check_put_meta_def error_simps split: prod.splits)
  then have ins: "inside (sandbox_root g) p"
    using validate_path_inside [OF assms] by (cases f) (auto simp: error_simps)
  obtain d1 e where m: "makedirs (dir_size ev) d (dirname p) = (d1, e)" by fastforce
  have d1: "same_outside (sandbox_root g) d d1"
    using same_outside_makedirs [of "sandbox_root g" d "dir_size ev" "dirname p"] m by simp
  have "same_outside (sandbox_root g) d d2" if "truncate_file d1 p = Inr d2" for d2
    using that same_outside_trans [OF d1 same_outside_put [OF ins]] by (auto simp: truncate_file_def split: sum.splits)
  then show ?thesis using d1 by (auto simp: handle_put_meta_def x m split: option.split sum.split prod.split)
qed

lemma apply_chunk_json_outside:
  assumes "clean_abs (sandbox_root g)"
  shows "same_outside (sandbox_root g) d (fst (apply_chunk_json ev g d m uid off data))"
proof -
  have "same_outside (sandbox_root g) d d'"
    if "apply_chunk m (disk_writer g) d u i data t = (m', d', r)" for m' d' r u i t
    using sandboxed.apply_chunk_kept [where g = g and fs = d and m = m and uid = u and off = i and data = data and t = t] that assms by simp
  then show ?thesis
    by (auto simp: apply_chunk_json_def Let_def split: json.split option.split prod.split)
qed

lemma handle_put_chunk_outside:
  assumes "clean_abs (sandbox_root g)"
  shows "same_outside (sandbox_root g) d (fst (handle_put_chunk ev g d m pl))"
proof (cases "check_put_chunk ev pl")
  case (Inr x)
  obtain uid off cl data where x: "x = (uid, off, cl, data)" by (cases x) auto
  show ?thesis using apply_chunk_json_outside [OF assms, of d ev m uid off data] Inr x
    by (auto simp: handle_put_chunk_def split: prod.splits sum.splits)
qed (simp add: handle_put_chunk_def)

section \<open>Requests of a client\<close>

text \<open>
  What the handlers do with requests that are well formed, for names of at most 1024 bytes.
\<close>

definition name_ok :: "string \<Rightarrow> bool" where
  "name_ok f \<longleftrightarrow> f \<noteq> [] \<and> encodable f \<and> length f \<le> 1024"

abbreviation name_json :: "string \<Rightarrow> json" where
  "name_json f \<equiv> JDict [(''filename'', JStr f)]"

lemma name_json_ok: "name_ok f \<Longrightarrow> json_ok (name_json f)"
  by (simp add: name_ok_def dict_ok_def encodable_ascii)

lemma name_json_length: "name_ok f \<Longrightarrow> length (dumps (name_json f)) \<le> 6200"
  using dumps_str_length [of f] by (simp add: name_ok_def dumps_str_plain plain_def)

lemma parse_json_payload_dumps: "json_ok v \<Longrightarrow> parse_json_payload (str_bytes (dumps v)) = Inr v"
  by (simp add: parse_json_payload_def py_decode_dumps loads_dumps)

lemma required_filename_ok: "f \<noteq> [] \<Longrightarrow> required_filename (JDict [(''filename'', JStr f)]) = Inr f"
  by (simp add: required_filename_def)

lemma handle_get_ok:
  assumes "f \<noteq> []" "encodable f" "validate_path g f = Inr p" "read_bytes d p = Inr content"
    and "int (length content) \<le> MAX_FILE_SIZE"
  shows "handle_get g d (str_bytes (dumps (JDict [(''filename'', JStr f)]))) =
    Inr (Result [(''filename'', JStr f), (''size'', JInt (int (length content)))] (Some content))"
proof -
  have ok: "json_ok (JDict [(''filename'', JStr f)])" using assms(2) by (simp add: dict_ok_def encodable_ascii)
  have "str_bytes (dumps (JDict [(''filename'', JStr f)])) \<noteq> []" by (simp add: str_bytes_def)
  then show ?thesis
    using assms read_bytes_Inr [OF assms(4)]
    by (simp add: handle_get_def parse_json_payload_dumps [OF ok] required_filename_ok del: dumps.simps)
qed

lemma handle_append_ok:
  assumes "f \<noteq> []" "json_ok (name_json f)" "int (length (dumps (name_json f))) < 2 ^ 32"
    and "validate_path g f = Inr p" "read_bytes d p = Inr content"
    and "int (length content) + int (length data) \<le> MAX_FILE_SIZE"
  shows "handle_append ev g d (be_bytes 4 (length (dumps (name_json f))) @ str_bytes (dumps (name_json f)) @ data) =
    (put_file d p (content @ data),
     Inr (Result [(''filename'', JStr f), (''new_size'', JInt (int (length content) + int (length data)))] None))"
proof -
  note rb = read_bytes_Inr [OF assms(5)]
  have "append_file d p data = Inr (put_file d p (content @ data))"
    using rb by (simp add: append_file_def open_write_def)
  moreover have "os_getsize (put_file d p (content @ data)) p = Inr (int (length content) + int (length data))"
    using rb by (simp add: os_getsize_def)
  moreover have "be_bytes 4 (length (dumps (name_json f))) @ str_bytes (dumps (name_json f)) @ data \<noteq> []"
    by (metis append_is_Nil_conv length_be_bytes list.size(3) zero_neq_numeral)
  ultimately show ?thesis
    using assms rb
    by (simp add: handle_append_def mixed_decode_bytes [OF assms(2,3)] required_filename_ok del: dumps.simps json_ok.simps)
qed

abbreviation put_meta_json :: "string \<Rightarrow> int \<Rightarrow> bool \<Rightarrow> json" where
  "put_meta_json f n ow \<equiv> JDict [(''filename'', JStr f), (''total_size'', JInt n), (''overwrite'', JBool ow)]"

lemma put_meta_json_ok: "name_ok f \<Longrightarrow> json_ok (put_meta_json f n ow)"
  by (simp add: name_ok_def dict_ok_def encodable_ascii)

lemma put_meta_json_length:
  assumes "name_ok f" "0 \<le> n" "n \<le> MAX_FILE_SIZE"
  shows "length (dumps (put_meta_json f n ow)) \<le> 6400"
proof -
  have "length (string_of_int n) \<le> 7"
    by (rule string_of_int_length) (use assms(2,3) in \<open>simp_all add: size_consts\<close>)
  then show ?thesis using dumps_str_length [of f] assms(1) by (simp add: name_ok_def dumps_str_plain plain_def)
qed

text \<open>The target of an upload can be created: its directories exist or can be made, and it is not one itself.\<close>

definition creatable :: "env \<Rightarrow> disk \<Rightarrow> string \<Rightarrow> bool" where
  "creatable ev d p \<longleftrightarrow> (\<exists>d1 d2. makedirs (dir_size ev) d (dirname p) = (d1, None) \<and> truncate_file d1 p = Inr d2)"

lemma handle_put_meta_ok:
  assumes "name_ok f" "0 \<le> n" "n \<le> MAX_FILE_SIZE" "validate_path g f = Inr p" "creatable ev d p"
  shows "\<exists>d'. handle_put_meta ev g d m (str_bytes (dumps (put_meta_json f n True))) =
      (d', fst (create_session m f n (uuid4 ev) (now ev)),
       Inr (Result [(''upload_id'', JStr (uuid4 ev)), (''status'', JStr ''ready'')] None)) \<and> read_bytes d' p = Inr []"
proof -
  obtain d1 d2 where d: "makedirs (dir_size ev) d (dirname p) = (d1, None)" "truncate_file d1 p = Inr d2"
    using assms(5) by (auto simp: creatable_def)
  have "check_put_meta ev g d (str_bytes (dumps (put_meta_json f n True))) = Inr (f, p, n)"
    using assms by (simp add: check_put_meta_def parse_json_payload_dumps [OF put_meta_json_ok] name_ok_def del: dumps.simps)
  moreover have "read_bytes d2 p = Inr []"
    using d(2) by (auto simp: truncate_file_def open_write_def read_bytes_def split: option.splits if_splits sum.splits)
  ultimately show ?thesis using d by (simp add: handle_put_meta_def create_session_def del: dumps.simps)
qed

abbreviation put_chunk_json :: "string \<Rightarrow> int \<Rightarrow> bytes \<Rightarrow> json" where
  "put_chunk_json u off data \<equiv>
     JDict [(''upload_id'', JStr u), (''offset'', JInt off), (''chunk_len'', JInt (int (length data)))]"

abbreviation put_chunk_payload :: "string \<Rightarrow> int \<Rightarrow> bytes \<Rightarrow> bytes" where
  "put_chunk_payload u off data \<equiv> be_bytes 4 (length (dumps (put_chunk_json u off data))) @
     str_bytes (dumps (put_chunk_json u off data)) @ data"

lemma put_chunk_json_ok: "name_ok u \<Longrightarrow> json_ok (put_chunk_json u off data)"
  by (simp add: name_ok_def dict_ok_def encodable_ascii)

lemma put_chunk_json_length:
  assumes "name_ok u" "0 \<le> off" "off \<le> MAX_FILE_SIZE" "int (length data) \<le> MAX_FILE_SIZE"
  shows "length (dumps (put_chunk_json u off data)) \<le> 6400"
proof -
  have "length (string_of_int off) \<le> 7" "length (string_of_int (int (length data))) \<le> 7"
    by (rule string_of_int_length; use assms(2-4) in \<open>simp add: size_consts\<close>)+
  then show ?thesis using dumps_str_length [of u] assms(1) by (simp add: name_ok_def dumps_str_plain plain_def)
qed

text \<open>The state of an upload in progress: everything before \<open>off\<close> is on disk.\<close>

definition uploading :: "UploadSessionManager \<Rightarrow> string \<Rightarrow> string \<Rightarrow> int \<Rightarrow> int \<Rightarrow> bool" where
  "uploading m u f N off \<longleftrightarrow> upload_mode m = STRICT \<and>
     (\<exists>s. dict_get (sessions m) u = Some s \<and> filename s = f \<and> total_size s = N \<and> next_expected_offset s = off)"

lemma write_at_end: "write_at content (int (length content)) data = content @ data"
  by (auto simp: write_at_def)

lemma apply_chunk_next:
  assumes "uploading m u f N (int (length content))" "validate_path g f = Inr p" "read_bytes d p = Inr content"
  shows "\<exists>m' msg. apply_chunk m (disk_writer g) d u (int (length content)) data t =
      (m', put_file d p (content @ data), Inr (int (length content) + int (length data) = N, msg)) \<and>
      (msg = ''Upload Complete'' \<or> msg = ''Chunk Applied'') \<and>
      (int (length content) + int (length data) \<noteq> N \<longrightarrow> uploading m' u f N (int (length content) + int (length data)))"
proof -
  obtain s where s: "upload_mode m = STRICT" "dict_get (sessions m) u = Some s" "filename s = f"
    "total_size s = N" "next_expected_offset s = int (length content)"
    using assms(1) by (auto simp: uploading_def)
  have "disk_writer g d f (int (length content)) data = Inr (put_file d p (content @ data))"
    using assms(2,3) by (simp add: disk_writer_def write_at_end)
  then show ?thesis
    using s by (simp add: apply_chunk_def get_session_def Let_def write_chunk_def check_complete_def uploading_def
        put_session_def dict_simps)
qed

lemma handle_put_chunk_ok:
  assumes "name_ok u" "int (length (dumps (put_chunk_json u (int (length content)) data))) < 2 ^ 32"
    and "uploading m u f N (int (length content))" "validate_path g f = Inr p" "read_bytes d p = Inr content"
  shows "\<exists>m' msg. handle_put_chunk ev g d m (put_chunk_payload u (int (length content)) data) =
      (put_file d p (content @ data), m', Inr (Result [(''upload_id'', JStr u), (''bytes_written'', JInt (int (length data))),
         (''complete'', JBool (int (length content) + int (length data) = N)), (''status'', JStr msg)] None)) \<and>
      (msg = ''Upload Complete'' \<or> msg = ''Chunk Applied'') \<and>
      (int (length content) + int (length data) \<noteq> N \<longrightarrow> uploading m' u f N (int (length content) + int (length data)))"
proof -
  obtain m' msg where a: "apply_chunk m (disk_writer g) d u (int (length content)) data (now ev) =
      (m', put_file d p (content @ data), Inr (int (length content) + int (length data) = N, msg))"
      "msg = ''Upload Complete'' \<or> msg = ''Chunk Applied''"
      "int (length content) + int (length data) \<noteq> N \<longrightarrow> uploading m' u f N (int (length content) + int (length data))"
    using apply_chunk_next [OF assms(3-5)] by blast
  have "check_put_chunk ev (put_chunk_payload u (int (length content)) data) =
      Inr (JStr u, JInt (int (length content)), JInt (int (length data)), data)"
    using assms(1) by (simp add: check_put_chunk_def mixed_decode_bytes [OF put_chunk_json_ok [OF assms(1)] assms(2)]
        name_ok_def del: dumps.simps)
  then show ?thesis using a by (simp add: handle_put_chunk_def apply_chunk_json_def del: dumps.simps)
qed

end
