(* ===== verification/PyText.thy ===== *)
theory PyText
  imports Utf8
begin

text \<open>
  The operations on text that the task tools use: substring test, \<^verbatim>\<open>splitlines\<close>,
  \<^verbatim>\<open>strip\<close>, \<^verbatim>\<open>join\<close>, \<^verbatim>\<open>lower\<close> for ASCII, reading of text files with
  universal newlines, line iteration, and decoding with \<^verbatim>\<open>errors='replace'\<close>. Shown: for text
  whose only line boundary is the newline, iterating over a file and splitting its contents give the
  same lines, up to the newline that iteration keeps.
\<close>

section \<open>Searching and joining\<close>

fun contains :: "string \<Rightarrow> string \<Rightarrow> bool" where
  "contains p [] \<longleftrightarrow> p = []"
| "contains p (c # s) \<longleftrightarrow> take (length p) (c # s) = p \<or> contains p s"

fun join :: "string \<Rightarrow> string list \<Rightarrow> string" where
  "join sep [] = []"
| "join sep [x] = x"
| "join sep (x # xs) = x @ sep @ join sep xs"

definition ascii_lower :: "string \<Rightarrow> string" where
  "ascii_lower s = map (\<lambda>c. let n = of_char c in if 65 \<le> n \<and> n \<le> (90::nat) then char_of (n + 32) else c) s"

section \<open>Lines\<close>

text \<open>Boundaries of \<^verbatim>\<open>str.splitlines\<close> and white space of \<^verbatim>\<open>str.strip\<close>, as code points.\<close>

definition is_line_break :: "nat \<Rightarrow> bool" where
  "is_line_break n \<longleftrightarrow> n \<in> {0x0A, 0x0B, 0x0C, 0x0D, 0x1C, 0x1D, 0x1E, 0x85, 0x2028, 0x2029}"

definition is_space :: "nat \<Rightarrow> bool" where
  "is_space n \<longleftrightarrow> (0x09 \<le> n \<and> n \<le> 0x0D) \<or> (0x1C \<le> n \<and> n \<le> 0x20) \<or> (0x2000 \<le> n \<and> n \<le> 0x200A) \<or>
     n \<in> {0x85, 0xA0, 0x1680, 0x2028, 0x2029, 0x202F, 0x205F, 0x3000}"

definition cps_of :: "string \<Rightarrow> nat list" where
  "cps_of s = (case decode_cps s of Some ns \<Rightarrow> ns | None \<Rightarrow> map of_char s)"

fun split_breaks :: "nat list \<Rightarrow> nat list \<Rightarrow> nat list list" where
  "split_breaks acc [] = (if acc = [] then [] else [acc])"
| "split_breaks acc (n # ns) =
     (if n = 0x0D \<and> take 1 ns = [0x0A] then acc # split_breaks [] (tl ns)
      else if is_line_break n then acc # split_breaks [] ns
      else split_breaks (acc @ [n]) ns)"

definition splitlines :: "string \<Rightarrow> string list" where
  "splitlines s = map encode_cps (split_breaks [] (cps_of s))"

definition py_strip :: "string \<Rightarrow> string" where
  "py_strip s = encode_cps (rev (dropWhile is_space (rev (dropWhile is_space (cps_of s)))))"

section \<open>Text files\<close>

text \<open>Universal newlines: both \<^verbatim>\<open>CR LF\<close> and a lone \<^verbatim>\<open>CR\<close> are read as \<^verbatim>\<open>LF\<close>.\<close>

fun universal_newlines :: "string \<Rightarrow> string" where
  "universal_newlines [] = []"
| "universal_newlines (c # s) =
     (if c = CHR 0x0D
      then CHR 0x0A # universal_newlines (if take 1 s = [CHR 0x0A] then tl s else s)
      else c # universal_newlines s)"

text \<open>Iteration over a text file: lines with their newline, the last one possibly without.\<close>

fun file_lines :: "string \<Rightarrow> string \<Rightarrow> string list" where
  "file_lines acc [] = (if acc = [] then [] else [acc])"
| "file_lines acc (c # s) =
     (if c = CHR 0x0A then (acc @ [c]) # file_lines [] s else file_lines (acc @ [c]) s)"

text \<open>
  \<^verbatim>\<open>errors='replace'\<close>: an ill-formed sequence becomes one U+FFFD per maximal part that could
  have started a code point.
\<close>

definition strict_cp :: "string \<Rightarrow> (nat \<times> string) option" where
  "strict_cp s = (case decode_cp s of Some (n, t) \<Rightarrow> if is_surrogate n then None else Some (n, t) | None \<Rightarrow> None)"

definition second_ok :: "nat \<Rightarrow> char \<Rightarrow> bool" where
  "second_ok b c \<longleftrightarrow>
     (let n = of_char c in
      if b = 0xE0 then 0xA0 \<le> n \<and> n \<le> (0xBF::nat)
      else if b = 0xED then 0x80 \<le> n \<and> n \<le> 0x9F
      else if b = 0xF0 then 0x90 \<le> n \<and> n \<le> 0xBF
      else if b = 0xF4 then 0x80 \<le> n \<and> n \<le> 0x8F
      else is_cont c)"

definition bad_length :: "string \<Rightarrow> nat" where
  "bad_length s =
     (case s of [] \<Rightarrow> 0
      | c # t \<Rightarrow>
          (let b = of_char c :: nat in
           if b < 0xE0 \<or> b > 0xF4 \<or> t = [] \<or> \<not> second_ok b (hd t) then 1
           else if b < 0xF0 \<or> length t < 2 \<or> \<not> is_cont (t ! 1) then 2 else 3))"

function decode_replace :: "string \<Rightarrow> string" where
  "decode_replace s =
     (if s = [] then []
      else case strict_cp s of
        Some (n, t) \<Rightarrow> encode_cp n @ decode_replace t
      | None \<Rightarrow> encode_cp 0xFFFD @ decode_replace (drop (max 1 (bad_length s)) s))"
  by pat_completeness auto
termination
proof (relation "measure length")
  fix s :: string and a :: "nat \<times> string" and n :: nat and t :: string
  assume "s \<noteq> []" "strict_cp s = Some a" "(n, t) = a"
  then show "(t, s) \<in> measure length"
    by (auto simp: strict_cp_def dest!: decode_cp_length split: option.splits if_splits)
qed (auto simp: max_def)

declare decode_replace.simps [simp del]

lemma decode_replace_valid: "encodable s \<Longrightarrow> decode_replace s = s"
proof -
  have "list_all (\<lambda>n. is_cp n \<and> \<not> is_surrogate n) ns \<Longrightarrow> decode_replace (encode_cps ns) = encode_cps ns" for ns
  proof (induction ns)
    case Nil then show ?case by (simp add: decode_replace.simps)
  next
    case (Cons n ns)
    then show ?case by (subst decode_replace.simps) (simp add: strict_cp_def decode_encode_cp)
  qed
  moreover assume "encodable s"
  then obtain ns where "decode_cps s = Some ns" "list_all (\<lambda>n. \<not> is_surrogate n) ns"
    by (auto simp: encodable_def split: option.splits)
  ultimately show ?thesis using encode_decode_cps [of s ns] by (auto simp: list_all_iff)
qed

section \<open>Text stays text\<close>

definition scalar :: "nat \<Rightarrow> bool" where
  "scalar n \<longleftrightarrow> is_cp n \<and> \<not> is_surrogate n"

lemma decode_encode_scalars: "list_all scalar ns \<Longrightarrow> decode_cps (encode_cps ns) = Some ns"
  by (rule decode_encode_cps) (auto simp: list_all_iff scalar_def)

lemma encodable_iff: "encodable s \<longleftrightarrow> (\<exists>ns. list_all scalar ns \<and> s = encode_cps ns)"
proof
  assume "encodable s"
  then obtain ns where "decode_cps s = Some ns" "list_all (\<lambda>n. \<not> is_surrogate n) ns"
    by (auto simp: encodable_def split: option.splits)
  then show "\<exists>ns. list_all scalar ns \<and> s = encode_cps ns"
    using encode_decode_cps [of s ns] by (auto simp: list_all_iff scalar_def)
next
  assume "\<exists>ns. list_all scalar ns \<and> s = encode_cps ns"
  then show "encodable s" using decode_encode_scalars by (auto simp: encodable_def list_all_iff scalar_def)
qed

lemma encodable_encode_cps: "list_all scalar ns \<Longrightarrow> encodable (encode_cps ns)"
  using encodable_iff by blast

lemma cps_of_encode: "list_all scalar ns \<Longrightarrow> cps_of (encode_cps ns) = ns"
  by (simp add: cps_of_def decode_encode_scalars)

lemma cps_of_scalar: "encodable s \<Longrightarrow> list_all scalar (cps_of s)"
  by (auto simp: encodable_iff cps_of_encode)

lemma encodable_concat: "list_all encodable ls \<Longrightarrow> encodable (concat ls)"
  by (induction ls) (auto intro: encodable_append encodable_ascii)

lemma encodable_join: "encodable sep \<Longrightarrow> list_all encodable ls \<Longrightarrow> encodable (join sep ls)"
  by (induction sep ls rule: join.induct) (auto intro: encodable_append encodable_ascii)

lemma scalar_filter: "list_all scalar ns \<Longrightarrow> set ms \<subseteq> set ns \<Longrightarrow> list_all scalar ms"
  by (auto simp: list_all_iff)

lemma py_strip_encodable: "encodable s \<Longrightarrow> encodable (py_strip s)"
  unfolding py_strip_def
  by (rule encodable_encode_cps, rule scalar_filter [OF cps_of_scalar])
     (auto dest!: set_dropWhileD)

lemma split_breaks_scalar:
  "list_all scalar acc \<Longrightarrow> list_all scalar ns \<Longrightarrow> list_all (list_all scalar) (split_breaks acc ns)"
proof (induction acc ns rule: split_breaks.induct)
  case (2 acc n ns)
  then show ?case by (cases ns) auto
qed auto

lemma splitlines_encodable: "encodable s \<Longrightarrow> list_all encodable (splitlines s)"
  using split_breaks_scalar [of "[]" "cps_of s"] cps_of_scalar [of s]
  by (auto simp: splitlines_def list_all_iff [where P = encodable] list_all_iff [where P = "list_all scalar"]
      intro: encodable_encode_cps)

text \<open>The bytes below 0x80 of an encoding are its ASCII code points.\<close>

lemma encode_cp_ascii: "n < 0x80 \<Longrightarrow> encode_cp n = [char_of n]"
  by (simp add: encode_cp_def)

lemma encode_cp_no_ascii:
  assumes "is_cp n" "0x80 \<le> n" "c \<in> set (encode_cp n)"
  shows "0x80 \<le> (of_char c :: nat)"
proof -
  have "n div 262144 < 5" using assms(1) by (simp add: is_cp_def)
  moreover have "n div 64 mod 64 < 64" "n div 4096 mod 64 < 64" "n mod 64 < 64" by simp_all
  ultimately show ?thesis
    using assms(2,3) by (auto simp: encode_cp_def of_char_of split: if_splits)
qed

lemma encode_cp_char: "is_cp n \<Longrightarrow> (of_char c :: nat) < 0x80 \<Longrightarrow> n \<noteq> of_char c \<Longrightarrow> c \<notin> set (encode_cp n)"
  using encode_cp_no_ascii [of n c] by (cases "n < 0x80") (auto simp: encode_cp_ascii)

lemma encode_cps_head:
  assumes "list_all is_cp ns" "(of_char c :: nat) < 0x80"
  shows "take 1 (encode_cps ns) = [c] \<longleftrightarrow> take 1 ns = [of_char c]"
proof (cases ns)
  case (Cons n ms)
  obtain x xs where x: "encode_cp n = x # xs" using encode_cp_not_Nil [of n] by (cases "encode_cp n") auto
  show ?thesis
  proof (cases "n = of_char c")
    case True then show ?thesis using assms(2) Cons x by (simp add: encode_cp_ascii)
  next
    case False
    then have "c \<notin> set (encode_cp n)" using assms Cons encode_cp_char by simp
    then show ?thesis using Cons x False by auto
  qed
qed simp

text \<open>Newline translation and line iteration, read on code points.\<close>

fun cp_newlines :: "nat list \<Rightarrow> nat list" where
  "cp_newlines [] = []"
| "cp_newlines (n # ns) =
     (if n = 0x0D then 0x0A # cp_newlines (if take 1 ns = [0x0A] then tl ns else ns) else n # cp_newlines ns)"

lemma universal_newlines_skip: "CHR 0x0D \<notin> set s \<Longrightarrow> universal_newlines (s @ t) = s @ universal_newlines t"
  by (induction s) auto

lemma universal_newlines_cps: "list_all is_cp ns \<Longrightarrow> universal_newlines (encode_cps ns) = encode_cps (cp_newlines ns)"
proof (induction ns rule: cp_newlines.induct)
  case (2 n ns)
  show ?case
  proof (cases "n = 0x0D")
    case True
    have h: "take 1 (encode_cps ns) = [CHR 0x0A] \<longleftrightarrow> take 1 ns = [0x0A]"
      using encode_cps_head [of ns "CHR 0x0A"] 2(3) by simp
    have c: "encode_cp 0x0D = [CHR 0x0D]" "encode_cp 0x0A = [CHR 0x0A]"
      by (simp_all add: encode_cp_ascii char_of_escaped)
    show ?thesis
    proof (cases "take 1 ns = [0x0A]")
      case t: True
      then obtain ms where ms: "ns = 0x0A # ms" by (cases ns) auto
      then have "tl (encode_cps ns) = encode_cps (tl ns)" by (simp add: c)
      then show ?thesis using 2(1) [OF True] 2(3) True t h by (simp add: c ms)
    next
      case f: False
      then show ?thesis using 2(1) [OF True] 2(3) True h by (simp add: c del: take_Suc_conv_app_nth)
    qed
  next
    case False
    then have "CHR 0x0D \<notin> set (encode_cp n)" using encode_cp_char [of n "CHR 0x0D"] 2(3) by simp
    then show ?thesis using 2(2) [OF False] 2(3) False by (simp add: universal_newlines_skip)
  qed
qed simp

lemma cp_newlines_scalar: "list_all scalar ns \<Longrightarrow> list_all scalar (cp_newlines ns)"
proof (induction ns rule: cp_newlines.induct)
  case (2 n ns)
  moreover have "scalar 0x0A" by (simp add: scalar_def is_cp_def is_surrogate_def)
  moreover have "list_all scalar (tl ns)" using 2(3) by (cases ns) auto
  ultimately show ?case by auto
qed simp

lemma scalars_cps: "list_all scalar ns \<Longrightarrow> list_all is_cp ns"
  by (auto simp: list_all_iff scalar_def)

lemma universal_newlines_encodable: "encodable s \<Longrightarrow> encodable (universal_newlines s)"
  using universal_newlines_cps [OF scalars_cps] cp_newlines_scalar by (fastforce simp: encodable_iff)

fun cp_lines :: "nat list \<Rightarrow> nat list \<Rightarrow> nat list list" where
  "cp_lines acc [] = (if acc = [] then [] else [acc])"
| "cp_lines acc (n # ns) = (if n = 0x0A then (acc @ [n]) # cp_lines [] ns else cp_lines (acc @ [n]) ns)"

lemma file_lines_skip: "CHR 0x0A \<notin> set s \<Longrightarrow> file_lines acc (s @ t) = file_lines (acc @ s) t"
  by (induction s arbitrary: acc) auto

lemma encode_cps_Nil_iff [simp]: "encode_cps ns = [] \<longleftrightarrow> ns = []"
  by (cases ns) auto

lemma file_lines_cps:
  "list_all is_cp ns \<Longrightarrow> file_lines (encode_cps acc) (encode_cps ns) = map encode_cps (cp_lines acc ns)"
proof (induction acc ns rule: cp_lines.induct)
  case (2 acc n ns)
  have c: "encode_cp 0x0A = [CHR 0x0A]" by (simp add: encode_cp_ascii char_of_escaped)
  show ?case
  proof (cases "n = 0x0A")
    case True then show ?thesis using 2 by (simp add: c)
  next
    case False
    then have "CHR 0x0A \<notin> set (encode_cp n)" using encode_cp_char [of n "CHR 0x0A"] 2(3) by simp
    then show ?thesis using 2(2) [OF False] 2(3) False by (simp add: file_lines_skip)
  qed
qed simp

lemma cp_lines_scalar: "list_all scalar acc \<Longrightarrow> list_all scalar ns \<Longrightarrow> list_all (list_all scalar) (cp_lines acc ns)"
  by (induction acc ns rule: cp_lines.induct) auto

lemma file_lines_encodable: "encodable s \<Longrightarrow> list_all encodable (file_lines [] s)"
proof -
  assume "encodable s"
  then obtain ns where ns: "list_all scalar ns" "s = encode_cps ns" by (auto simp: encodable_iff)
  have "list_all (list_all scalar) (cp_lines [] ns)" using cp_lines_scalar ns(1) by simp
  then show ?thesis
    using file_lines_cps [OF scalars_cps [OF ns(1)], of "[]"]
    by (auto simp: ns(2) list_all_iff [where P = encodable] list_all_iff [where P = "list_all scalar"]
        intro: encodable_encode_cps)
qed

lemma decode_replace_encodable: "encodable (decode_replace s)"
proof (induction s rule: decode_replace.induct)
  case (1 s)
  have one: "scalar n \<Longrightarrow> encodable (encode_cp n)" for n
    using encodable_encode_cps [of "[n]"] by simp
  show ?case
  proof (cases "strict_cp s")
    case None
    have "scalar 0xFFFD" by (simp add: scalar_def is_cp_def is_surrogate_def)
    from one [OF this] 1(1) [OF _ None] None show ?thesis
      by (subst decode_replace.simps) (auto simp del: One_nat_def intro!: encodable_append intro: encodable_ascii)
  next
    case (Some p)
    obtain n t where p: "p = (n, t)" by (cases p)
    have "scalar n" using Some p encode_decode_cp [of s n t]
      by (auto simp: strict_cp_def scalar_def split: option.splits if_splits)
    then show ?thesis using 1(2) Some p one
      by (subst decode_replace.simps) (auto intro: encodable_append encodable_ascii)
  qed
qed

section \<open>Two ways to read lines\<close>

definition chomp :: "nat list \<Rightarrow> nat list" where
  "chomp l = (if l \<noteq> [] \<and> last l = 0x0A then butlast l else l)"

definition only_newlines :: "nat list \<Rightarrow> bool" where
  "only_newlines ns \<longleftrightarrow> list_all (\<lambda>n. is_line_break n \<longrightarrow> n = 0x0A) ns"

lemma split_breaks_cp_lines:
  "only_newlines ns \<Longrightarrow> 0x0A \<notin> set acc \<Longrightarrow> split_breaks acc ns = map chomp (cp_lines acc ns)"
proof (induction acc ns rule: cp_lines.induct)
  case (1 acc)
  then have "acc \<noteq> [] \<Longrightarrow> last acc \<noteq> 0x0A" by (metis last_in_set)
  then show ?case by (simp add: chomp_def)
next
  case (2 acc n ns)
  then have b: "is_line_break n \<longleftrightarrow> n = 0x0A" "only_newlines ns"
    by (auto simp: only_newlines_def is_line_break_def)
  then have "n \<noteq> 0x0D" by (auto simp: is_line_break_def)
  with 2 b show ?case by (auto simp: chomp_def)
qed

lemma cp_lines_terminated:
  "only_newlines ns \<Longrightarrow> 0x0A \<notin> set acc \<Longrightarrow> last (acc @ ns) = 0x0A \<or> acc @ ns = [] \<Longrightarrow>
   cp_lines acc ns = map (\<lambda>l. l @ [0x0A]) (split_breaks acc ns)"
proof (induction acc ns rule: cp_lines.induct)
  case (1 acc)
  then have "acc = []" by (metis append_Nil2 last_in_set)
  then show ?case by simp
next
  case (2 acc n ns)
  then have b: "is_line_break n \<longleftrightarrow> n = 0x0A" "only_newlines ns"
    by (auto simp: only_newlines_def is_line_break_def)
  then have "n \<noteq> 0x0D" by (auto simp: is_line_break_def)
  moreover have "last ns = 0x0A \<or> ns = []" if "n = 0x0A" using 2(5) that by (auto split: if_splits)
  moreover have "last ((acc @ [n]) @ ns) = 0x0A \<or> (acc @ [n]) @ ns = []" using 2(5) by auto
  ultimately show ?case using 2 b by auto
qed

lemma contains_iff: "contains p s \<longleftrightarrow> (\<exists>a b. s = a @ p @ b)"
proof (induction s)
  case (Cons c s)
  have "take (length p) (c # s) = p \<longleftrightarrow> (\<exists>b. c # s = p @ b)"
    by (metis append_eq_conv_conj append_take_drop_id)
  moreover have "(\<exists>a b. c # s = a @ p @ b) \<longleftrightarrow> (\<exists>b. c # s = p @ b) \<or> (\<exists>a b. s = a @ p @ b)"
    by (metis append_Cons append_Nil list.exhaust list.inject)
  ultimately show ?case using Cons by simp
qed auto

lemma contains_snoc:
  assumes "c \<notin> set p"
  shows "contains p (s @ [c]) \<longleftrightarrow> contains p s"
proof
  assume "contains p (s @ [c])"
  then obtain a b where ab: "s @ [c] = a @ p @ b" by (auto simp: contains_iff)
  show "contains p s"
  proof (cases "b = []")
    case True
    then have "p = []" using ab assms by (metis append_Nil2 last_appendR last_in_set last_snoc)
    then show ?thesis by (auto simp: contains_iff intro: exI [of _ "[]"])
  next
    case False
    then have "s = a @ p @ butlast b" using ab by (metis append.assoc butlast_append butlast_snoc append_is_Nil_conv)
    then show ?thesis by (auto simp: contains_iff)
  qed
next
  assume "contains p s"
  then show "contains p (s @ [c])" by (force simp: contains_iff)
qed

lemma strip_newline:
  assumes "list_all scalar l"
  shows "py_strip (encode_cps (l @ [0x0A])) = py_strip (encode_cps l)"
proof -
  have sp: "is_space 0x0A" and sc: "scalar 0x0A"
    by (simp_all add: is_space_def scalar_def is_cp_def is_surrogate_def)
  have "cps_of (encode_cps (l @ [0x0A])) = l @ [0x0A]" "cps_of (encode_cps l) = l"
    using assms sc by (auto intro!: cps_of_encode simp del: encode_cps_simps)
  moreover have "dropWhile is_space (rev (dropWhile is_space (l @ [0x0A]))) =
      dropWhile is_space (rev (dropWhile is_space l))"
    using sp by (cases "\<forall>x \<in> set l. is_space x") (auto simp: dropWhile_append dropWhile_eq_Nil_conv [THEN iffD2])
  ultimately show ?thesis by (simp add: py_strip_def del: encode_cps_simps)
qed

end
