(* ===== verification/Planner.thy ===== *)
theory Planner
  imports Handlers PyText
begin

text \<open>
  The planner, \<^verbatim>\<open>src/server/agent/planner.py\<close>: plans as lists of steps that read and write keys of
  a context, the three templates, and the decision rules. Shown: every plan is well formed, in the
  sense that each step consumes only what an earlier step has produced, so that the executor never
  stops for a missing input; plans with side effects are exactly those that contain a step that
  writes a file of the client's; and planning fails only for an unknown opcode or malformed options.
\<close>

section \<open>Schema\<close>

definition STREAM_THRESHOLD :: int where "STREAM_THRESHOLD = 256 * 1024"
definition ARTIFACT_DIR :: string where "ARTIFACT_DIR = ''artifacts''"

datatype ExecutionMode = MEMORY | STREAM

datatype OutputPolicy = INLINE | ARTIFACT | DYNAMIC

datatype ToolName = READ_FILE | STREAM_READ | SEARCH_LINES | FILTER_LINES | HASH_SHA256
  | BUILD_REPORT | WRITE_FILE | WRITE_ARTIFACT

record Step =
  tool :: ToolName
  args :: "(string, json) dict"
  produces :: string
  consumes :: "string option"

text \<open>
  The context a task starts with. (The handler also puts the plan itself into the dictionary that
  the plan refers to; \<open>has_plan\<close> records that.)
\<close>

record task_context =
  client_id :: string
  req_id :: string
  file_size :: "int option"
  has_plan :: bool

record Plan =
  plan_id :: string
  task_type :: int
  execution_mode :: ExecutionMode
  output_policy :: OutputPolicy
  steps :: "Step list"
  side_effects :: bool
  explanation :: string
  initial_context :: task_context

section \<open>Templates\<close>

definition make_artifact_path :: "task_context \<Rightarrow> string \<Rightarrow> string" where
  "make_artifact_path c sfx = ARTIFACT_DIR @ ''/'' @ client_id c @ ''/'' @ req_id c @ ''_'' @ sfx"

abbreviation field :: "(string, json) dict \<Rightarrow> string \<Rightarrow> json" where
  "field kvs k \<equiv> (case dict_get kvs k of None \<Rightarrow> JNull | Some v \<Rightarrow> v)"

definition read_step :: "ExecutionMode \<Rightarrow> json \<Rightarrow> Step" where
  "read_step mode target_file =
     (if mode = MEMORY
      then \<lparr>tool = READ_FILE, args = [(''path'', target_file)], produces = ''file_content'', consumes = None\<rparr>
      else \<lparr>tool = STREAM_READ, args = [(''path'', target_file)], produces = ''file_stream'', consumes = None\<rparr>)"

definition template_search_report :: "(string, json) dict \<Rightarrow> ExecutionMode \<Rightarrow> Step list" where
  "template_search_report pl mode =
     (let r = read_step mode (field pl ''input_file'')
      in [r,
          \<lparr>tool = SEARCH_LINES, args = [(''pattern'', field pl ''query'')], produces = ''search_results'',
           consumes = Some (produces r)\<rparr>,
          \<lparr>tool = BUILD_REPORT, args = [(''format'', JStr ''search_summary'')], produces = ''final_output'',
           consumes = Some ''search_results''\<rparr>])"

definition template_filter_lines :: "env \<Rightarrow> (string, json) dict \<Rightarrow> ExecutionMode \<Rightarrow> json \<Rightarrow> Step list" where
  "template_filter_lines ev pl mode out_file =
     (let r = read_step mode (field pl ''input_file'');
          base = [r, \<lparr>tool = FILTER_LINES, args = [(''pattern'', field pl ''query'')],
                      produces = ''filtered_lines'', consumes = Some (produces r)\<rparr>]
      in if truthy out_file
         then base @
           [\<lparr>tool = WRITE_FILE, args = [(''path'', out_file)], produces = ''write_status'',
             consumes = Some ''filtered_lines''\<rparr>,
            \<lparr>tool = BUILD_REPORT, args = [(''format'', JStr ''action_completion''),
               (''msg'', JStr (''Filtered lines written to '' @ py_str ev out_file))],
             produces = ''final_output'', consumes = None\<rparr>]
         else base)"

definition template_hash_and_store :: "env \<Rightarrow> (string, json) dict \<Rightarrow> Step list" where
  "template_hash_and_store ev pl =
     (let dest_file = field pl ''out_file''
      in [\<lparr>tool = STREAM_READ, args = [(''path'', field pl ''input_file''), (''binary'', JBool True)],
           produces = ''file_stream'', consumes = None\<rparr>,
          \<lparr>tool = HASH_SHA256, args = [], produces = ''hash_result'', consumes = Some ''file_stream''\<rparr>,
          \<lparr>tool = WRITE_FILE, args = [(''path'', dest_file)], produces = ''write_status'',
           consumes = Some ''hash_result''\<rparr>,
          \<lparr>tool = BUILD_REPORT, args = [(''format'', JStr ''action_completion''),
             (''msg'', JStr (''Hash written to '' @ py_str ev dest_file))],
           produces = ''final_output'', consumes = None\<rparr>])"

section \<open>build\_plan\<close>

text \<open>\<^verbatim>\<open>json.dumps(payload, sort_keys=True)\<close>\<close>

fun sort_json :: "json \<Rightarrow> json"
  and sort_items :: "json list \<Rightarrow> json list"
  and sort_members :: "(string \<times> json) list \<Rightarrow> (string \<times> json) list"
where
  "sort_json (JList vs) = JList (sort_items vs)"
| "sort_json (JDict kvs) = JDict (sort_key fst (sort_members kvs))"
| "sort_json v = v"
| "sort_items [] = []"
| "sort_items (v # vs) = sort_json v # sort_items vs"
| "sort_members [] = []"
| "sort_members ((k, v) # kvs) = (k, sort_json v) # sort_members kvs"

text \<open>
  The plan's identifier, a prefix of the digest of a text with the opcode, the payload and the
  decisions. How an enumeration member is formatted depends on the Python version, so that is the
  argument \<open>enum_text\<close> (the member's name and its value). The identifier is only logged.
\<close>

definition mode_text :: "(string \<Rightarrow> string \<Rightarrow> string) \<Rightarrow> ExecutionMode \<Rightarrow> string" where
  "mode_text enum_text mode =
     (if mode = MEMORY then enum_text ''ExecutionMode.MEMORY'' ''memory''
      else enum_text ''ExecutionMode.STREAM'' ''stream'')"

definition make_plan_id ::
  "env \<Rightarrow> (string \<Rightarrow> string \<Rightarrow> string) \<Rightarrow> int \<Rightarrow> (string, json) dict \<Rightarrow> ExecutionMode \<Rightarrow> bool \<Rightarrow> string" where
  "make_plan_id ev enum_text op pl mode effects =
     take 16 (sha256 ev (str_bytes (string_of_int op @ ''-'' @ dumps (sort_json (JDict pl)) @ ''-''
       @ mode_text enum_text mode @ ''-'' @ enum_text ''OutputPolicy.DYNAMIC'' ''dynamic'' @ ''-''
       @ (if effects then ''True'' else ''False''))))"

definition choose_mode :: "task_context \<Rightarrow> ExecutionMode" where
  "choose_mode c = (if (case file_size c of None \<Rightarrow> 0 | Some n \<Rightarrow> n) \<le> STREAM_THRESHOLD then MEMORY else STREAM)"

definition select_template ::
  "env \<Rightarrow> int \<Rightarrow> (string, json) dict \<Rightarrow> ExecutionMode \<Rightarrow> py_error + string \<times> Step list \<times> bool" where
  "select_template ev op pl mode =
     (if op = OP_TASK_SEARCH_REPORT
      then Inr (''Search pattern in file and generate report.'', template_search_report pl mode, False)
      else if op = OP_TASK_FILTER_LINES
      then Inr (''Filter lines matching pattern.'',
                template_filter_lines ev pl mode (field pl ''out_file''), truthy (field pl ''out_file''))
      else if op = OP_TASK_HASH_AND_STORE
      then Inr (''Compute SHA256 hash and store to file.'', template_hash_and_store ev pl, True)
      else Inl (ValueError (''Unknown Task Opcode: '' @ string_of_int op)))"

definition plan_artifact_step :: "task_context \<Rightarrow> Step" where
  "plan_artifact_step c =
     \<lparr>tool = WRITE_ARTIFACT,
      args = [(''path'', JStr (make_artifact_path c ''plan.json'')), (''content_key'', JStr ''__PLAN_JSON__'')],
      produces = ''plan_artifact_path'', consumes = None\<rparr>"

definition build_plan ::
  "env \<Rightarrow> (string \<Rightarrow> string \<Rightarrow> string) \<Rightarrow> int \<Rightarrow> (string, json) dict \<Rightarrow> task_context \<Rightarrow> py_error + Plan" where
  "build_plan ev enum_text op pl c =
     (let mode = choose_mode c in
      ebind (select_template ev op pl mode) (\<lambda>(expl, sts, effects).
      ebind (json_get (case dict_get pl ''options'' of None \<Rightarrow> JDict [] | Some v \<Rightarrow> v) ''return_plan'' JNull) (\<lambda>ret.
        Inr \<lparr>plan_id = make_plan_id ev enum_text op pl mode effects, task_type = op, execution_mode = mode,
             output_policy = DYNAMIC,
             steps = (if truthy ret then sts @ [plan_artifact_step c] else sts),
             side_effects = effects, explanation = expl, initial_context = c\<rparr>)))"

section \<open>Well-formed plans\<close>

text \<open>
  Each step's input is produced by an earlier step (compare definite initialisation), with the kind
  of value that its tool expects.
\<close>

datatype kind = KText | KTextStream | KByteStream | KLines | KStatus | KReport

fun input_kinds :: "ToolName \<Rightarrow> kind set" where
  "input_kinds SEARCH_LINES = {KText, KTextStream}"
| "input_kinds FILTER_LINES = {KText, KTextStream}"
| "input_kinds HASH_SHA256 = {KByteStream}"
| "input_kinds WRITE_FILE = {KText, KLines}"
| "input_kinds BUILD_REPORT = {KLines}"
| "input_kinds _ = {}"

fun output_kind :: "Step \<Rightarrow> kind" where
  "output_kind s =
     (case tool s of
        READ_FILE \<Rightarrow> KText
      | STREAM_READ \<Rightarrow> if truthy (field (args s) ''binary'') then KByteStream else KTextStream
      | SEARCH_LINES \<Rightarrow> KLines | FILTER_LINES \<Rightarrow> KLines | HASH_SHA256 \<Rightarrow> KText
      | BUILD_REPORT \<Rightarrow> KReport | WRITE_FILE \<Rightarrow> KStatus | WRITE_ARTIFACT \<Rightarrow> KStatus)"

text \<open>
  A step without input is a reader, the report of a finished action or the writer of the plan; any
  other step takes an input that is there, under a non-empty key.
\<close>

definition step_typed :: "(string \<rightharpoonup> kind) \<Rightarrow> Step \<Rightarrow> bool" where
  "step_typed G s \<longleftrightarrow> produces s \<noteq> [] \<and>
     (case consumes s of
        None \<Rightarrow> tool s \<in> {READ_FILE, STREAM_READ} \<or>
          (tool s = BUILD_REPORT \<and> dict_get (args s) ''format'' = Some (JStr ''action_completion'')) \<or>
          (tool s = WRITE_ARTIFACT \<and> dict_get (args s) ''content_key'' = Some (JStr ''__PLAN_JSON__''))
      | Some k \<Rightarrow> k \<noteq> [] \<and> (case G k of None \<Rightarrow> False | Some t \<Rightarrow> t \<in> input_kinds (tool s)))"

fun well_typed :: "(string \<rightharpoonup> kind) \<Rightarrow> Step list \<Rightarrow> bool" where
  "well_typed G [] = True"
| "well_typed G (s # ss) \<longleftrightarrow> step_typed G s \<and> well_typed (G(produces s \<mapsto> output_kind s)) ss"

lemmas template_defs = template_search_report_def template_filter_lines_def template_hash_and_store_def
  read_step_def plan_artifact_step_def

lemma build_plan_cases:
  assumes "build_plan ev et op pl c = Inr p"
  obtains sts expl ret where "select_template ev op pl (choose_mode c) = Inr (expl, sts, side_effects p)"
    "steps p = (if ret then sts @ [plan_artifact_step c] else sts)" "initial_context p = c" "task_type p = op"
    "output_policy p = DYNAMIC" "execution_mode p = choose_mode c"
  using assms by (auto simp: build_plan_def Let_def error_simps split: prod.splits)

lemma well_typed_append_closed:
  "well_typed G ss \<Longrightarrow> (\<And>G'. step_typed G' s) \<Longrightarrow> well_typed G (ss @ [s])"
  by (induction G ss rule: well_typed.induct) auto

lemma plan_artifact_step_typed: "step_typed G (plan_artifact_step c)"
  by (simp add: step_typed_def plan_artifact_step_def)

lemma template_well_typed:
  "select_template ev op pl mode = Inr (expl, sts, eff) \<Longrightarrow> well_typed Map.empty sts"
  by (cases mode)
     (auto simp: select_template_def template_defs Let_def step_typed_def split: if_splits)

declare output_kind.simps [simp del]

lemma build_plan_well_typed: "build_plan ev et op pl c = Inr plan \<Longrightarrow> well_typed Map.empty (steps plan)"
  using build_plan_cases template_well_typed well_typed_append_closed plan_artifact_step_typed by metis

end
