(* ===== verification/ToolDispatcher.thy ===== *)
theory ToolDispatcher
  imports Planner
begin

text \<open>
  The executor of plans, \<^verbatim>\<open>src/server/agent/tool_dispatcher.py\<close>: the context that the steps share,
  every tool, the atomic write, and the choice between an inline result and an artifact. A failing
  step leaves the effects of the earlier ones, so the disk is returned beside the result. Shown: a
  well-typed plan never fails for a missing or ill-typed input; nothing outside the sandbox is
  touched; searching gives the same report in memory and streaming mode; filtering does not; the
  plan for a hash stores the digest of the file.
\<close>

section \<open>Context\<close>

text \<open>
  Values of the context. A generator is the path and the mode of the file that it opens when it is
  first advanced.
\<close>

datatype ctx_val =
    VNone
  | VText string
  | VLines "string list"
  | VGen string bool
  | VInt int
  | VPlan

type_synonym ctx = "(string, ctx_val) dict"

definition initial_values :: "task_context \<Rightarrow> ctx" where
  "initial_values c =
     [(''client_id'', VText (client_id c)), (''request_id'', VText (req_id c))] @
     (case file_size c of None \<Rightarrow> [] | Some n \<Rightarrow> [(''file_size'', VInt n)]) @
     (if has_plan c then [(''__plan__'', VPlan)] else [])"

definition INLINE_LIMIT :: nat where "INLINE_LIMIT = 64 * 1024"

section \<open>Atomic write\<close>

text \<open>What is to be written; any other object makes the write raise \<^verbatim>\<open>TypeError\<close>.\<close>

datatype content = CText string | CBytes bytes | CObject

definition content_bytes :: "content \<Rightarrow> py_error + bytes" where
  "content_bytes c = (case c of CText s \<Rightarrow> py_encode s | CBytes b \<Rightarrow> Inr b | CObject \<Rightarrow> Inl TypeError)"

definition validate_any :: "PolicyGuard \<Rightarrow> json \<Rightarrow> py_error + string" where
  "validate_any g v =
     (if \<not> truthy v then Inl (ValueError ''Filename cannot be empty'')
      else case v of JStr s \<Rightarrow> validate_path g s | _ \<Rightarrow> Inl TypeError)"

text \<open>
  \<^verbatim>\<open>_atomic_write\<close>, with text in UTF-8 and the replacement of the file as one step. The name of the temporary file is known to the clean-up only after the
  write, so a write that fails to encode leaves the empty temporary file behind; a failing
  \<^verbatim>\<open>os.replace\<close> does not.
\<close>

definition atomic_write :: "env \<Rightarrow> PolicyGuard \<Rightarrow> disk \<Rightarrow> json \<Rightarrow> content \<Rightarrow> disk \<times> py_error option" where
  "atomic_write ev g d path content =
     (case validate_any g path of
        Inl e \<Rightarrow> (d, Some e)
      | Inr safe_path \<Rightarrow>
          (case makedirs (dir_size ev) d (dirname safe_path) of
             (d1, Some e) \<Rightarrow> (d1, Some e)
           | (d1, None) \<Rightarrow>
               (case content_bytes content of
                  Inl e \<Rightarrow> (put_file d1 (os_join (dirname safe_path) (tmp_name ev)) [], Some e)
                | Inr bs \<Rightarrow>
                    (case os_path_error safe_path of
                       Some e \<Rightarrow> (d1, Some e)
                     | None \<Rightarrow>
                         if os_isdir d1 safe_path then (d1, Some OSError)
                         else (put_file d1 safe_path bs, None)))))"

section \<open>Tools\<close>

definition arg :: "(string, json) dict \<Rightarrow> string \<Rightarrow> py_error + json" where
  "arg a k = (case dict_get a k of None \<Rightarrow> Inl KeyError | Some v \<Rightarrow> Inr v)"

definition tool_read_file :: "PolicyGuard \<Rightarrow> disk \<Rightarrow> (string, json) dict \<Rightarrow> py_error + ctx_val" where
  "tool_read_file g d a =
     ebind (arg a ''path'') (\<lambda>path.
     ebind (validate_any g path) (\<lambda>safe_path.
     ebind (os_getsize d safe_path) (\<lambda>n.
     ebind (require (n \<le> MAX_FILE_SIZE)
              (ValueError (''File '' @ safe_path @ '' too large for READ_FILE. Use Streaming.''))) (\<lambda>_.
     ebind (read_bytes d safe_path) (\<lambda>bs.
     ebind (py_decode bs) (\<lambda>text. Inr (VText (universal_newlines text))))))))"

definition tool_stream_read :: "PolicyGuard \<Rightarrow> (string, json) dict \<Rightarrow> py_error + ctx_val" where
  "tool_stream_read g a =
     ebind (arg a ''path'') (\<lambda>path.
     ebind (validate_any g path) (\<lambda>safe_path.
       Inr (VGen safe_path (truthy (case dict_get a ''binary'' of None \<Rightarrow> JBool False | Some v \<Rightarrow> v)))))"

text \<open>What the loops of the line tools iterate over; a binary stream yields no text.\<close>

definition input_lines :: "disk \<Rightarrow> ctx_val \<Rightarrow> py_error + string list" where
  "input_lines d v =
     (case v of
        VText s \<Rightarrow> Inr (splitlines s)
      | VLines ls \<Rightarrow> Inr ls
      | VGen p bin \<Rightarrow>
          ebind (read_bytes d p) (\<lambda>bs.
            if bin then (if bs = [] then Inr [] else Inl TypeError)
            else Inr (file_lines [] (universal_newlines (decode_replace (bytes_str bs)))))
      | _ \<Rightarrow> Inl TypeError)"

fun search_loop :: "string \<Rightarrow> nat \<Rightarrow> string list \<Rightarrow> string list \<Rightarrow> string list" where
  "search_loop pat i results [] = results"
| "search_loop pat i results (line # ls) =
     (if contains pat line
      then (let results' = results @ [''Line '' @ string_of_nat (i + 1) @ '': '' @ py_strip line]
            in if length results' > 1000 then results' @ [''... (Truncated)'']
               else search_loop pat (i + 1) results' ls)
      else search_loop pat (i + 1) results ls)"

text \<open>\<^verbatim>\<open>pattern in line\<close> raises for a pattern that is not text, if there is a line.\<close>

definition with_pattern :: "(string, json) dict \<Rightarrow> string list \<Rightarrow> (string \<Rightarrow> string list) \<Rightarrow> py_error + ctx_val" where
  "with_pattern a ls f =
     ebind (arg a ''pattern'') (\<lambda>pat.
       case pat of
         JStr p \<Rightarrow> Inr (VLines (f p))
       | _ \<Rightarrow> if ls = [] then Inr (VLines []) else Inl TypeError)"

definition tool_search_lines :: "disk \<Rightarrow> (string, json) dict \<Rightarrow> ctx_val \<Rightarrow> py_error + ctx_val" where
  "tool_search_lines d a v =
     ebind (input_lines d v) (\<lambda>ls. with_pattern a ls (\<lambda>p. search_loop p 0 [] ls))"

definition tool_filter_lines :: "disk \<Rightarrow> (string, json) dict \<Rightarrow> ctx_val \<Rightarrow> py_error + ctx_val" where
  "tool_filter_lines d a v =
     ebind (input_lines d v) (\<lambda>ls. with_pattern a ls (\<lambda>p. filter (contains p) ls))"

text \<open>Hashing the chunks one by one is hashing their concatenation.\<close>

definition tool_hash_sha256 :: "env \<Rightarrow> disk \<Rightarrow> ctx_val \<Rightarrow> py_error + ctx_val" where
  "tool_hash_sha256 ev d v =
     (case v of
        VGen p True \<Rightarrow> ebind (read_bytes d p) (\<lambda>bs. Inr (VText (sha256 ev bs)))
      | VText s \<Rightarrow> ebind (py_encode s) (\<lambda>bs. Inr (VText (sha256 ev bs)))
      | _ \<Rightarrow> ebind (input_lines d v) (\<lambda>ls. ebind (py_encode (concat ls)) (\<lambda>bs. Inr (VText (sha256 ev bs)))))"

definition tool_write_file ::
  "env \<Rightarrow> PolicyGuard \<Rightarrow> disk \<Rightarrow> (string, json) dict \<Rightarrow> ctx_val \<Rightarrow> disk \<times> (py_error + ctx_val)" where
  "tool_write_file ev g d a v =
     (case arg a ''path'' of
        Inl e \<Rightarrow> (d, Inl e)
      | Inr path \<Rightarrow>
          (let content = (case v of VText s \<Rightarrow> CText s | VLines ls \<Rightarrow> CText (join [CHR 0x0A] ls) | _ \<Rightarrow> CObject)
           in case atomic_write ev g d path content of
                (d', Some e) \<Rightarrow> (d', Inl e)
              | (d', None) \<Rightarrow> (d', Inr (VText ''SUCCESS''))))"

text \<open>
  \<^verbatim>\<open>_tool_write_artifact\<close>: with the plan in the context it calls \<^verbatim>\<open>asdict\<close>, which the module
  does not import.
\<close>

definition indented_list :: "string list \<Rightarrow> string" where
  "indented_list ls = (if ls = [] then ''[]''
     else ''['' @ [CHR 0x0A] @ join ('','' @ [CHR 0x0A]) (map (\<lambda>l. ''  '' @ dumps_str l) ls) @ [CHR 0x0A] @ '']'')"

definition artifact_content :: "(string, json) dict \<Rightarrow> ctx_val \<Rightarrow> ctx \<Rightarrow> py_error + content" where
  "artifact_content a v ctx =
     (let key = (case dict_get a ''content_key'' of None \<Rightarrow> JNull | Some k \<Rightarrow> k);
          c = (if key = JStr ''__PLAN_JSON__'' then VText ''{}''
               else if v = VNone \<and> truthy key
               then (case key of JStr k \<Rightarrow> (case dict_get ctx k of None \<Rightarrow> VNone | Some w \<Rightarrow> w) | _ \<Rightarrow> VNone)
               else v)
      in if key = JStr ''__PLAN_JSON__'' \<and> dict_has ctx ''__plan__'' then Inl (NameError ''asdict'')
         else (case c of
                 VNone \<Rightarrow> Inr (CText [])
               | VText s \<Rightarrow> Inr (CText s)
               | VLines ls \<Rightarrow> Inr (CText (indented_list ls))
               | _ \<Rightarrow> Inr CObject))"

definition tool_write_artifact ::
  "env \<Rightarrow> PolicyGuard \<Rightarrow> disk \<Rightarrow> (string, json) dict \<Rightarrow> ctx_val \<Rightarrow> ctx \<Rightarrow> disk \<times> (py_error + ctx_val)" where
  "tool_write_artifact ev g d a v ctx =
     (case ebind (arg a ''path'') (\<lambda>path. ebind (artifact_content a v ctx) (\<lambda>c. Inr (path, c))) of
        Inl e \<Rightarrow> (d, Inl e)
      | Inr (path, c) \<Rightarrow>
          (case atomic_write ev g d path c of
             (d', Some e) \<Rightarrow> (d', Inl e)
           | (d', None) \<Rightarrow> (d', Inr (VText (py_str ev path)))))"

definition tool_build_report :: "env \<Rightarrow> (string, json) dict \<Rightarrow> ctx_val \<Rightarrow> py_error + ctx_val" where
  "tool_build_report ev a v =
     (let fmt = field a ''format''; msg = field a ''msg''
      in if fmt = JStr ''action_completion''
         then Inr (VText (if truthy msg then py_str ev msg else ''Action Completed''))
         else if fmt = JStr ''search_summary''
         then (case v of
                 VLines ls \<Rightarrow> Inr (VText (''Search Found '' @ string_of_nat (length ls) @ '' matches:''
                                 @ [CHR 0x0A] @ join [CHR 0x0A] ls))
               | VText s \<Rightarrow> Inr (VText (''Search Found '' @ string_of_nat (length (cps_of s)) @ '' matches:''
                                 @ [CHR 0x0A] @ join [CHR 0x0A] (map (\<lambda>n. encode_cp n) (cps_of s))))
               | _ \<Rightarrow> Inl TypeError)
         else (case v of
                 VText s \<Rightarrow> Inr (VText s)
               | VInt i \<Rightarrow> Inr (VText (string_of_int i))
               | VNone \<Rightarrow> Inr (VText ''None'')
               | VLines ls \<Rightarrow> Inr (VText (repr_text ev (JList (map JStr ls))))
               | _ \<Rightarrow> Inr (VText (obj_text ev))))"

section \<open>Executing a plan\<close>

definition run_tool ::
  "env \<Rightarrow> PolicyGuard \<Rightarrow> disk \<Rightarrow> Step \<Rightarrow> ctx_val \<Rightarrow> ctx \<Rightarrow> disk \<times> (py_error + ctx_val)" where
  "run_tool ev g d s v ctx =
     (case tool s of
        READ_FILE \<Rightarrow> (d, tool_read_file g d (args s))
      | STREAM_READ \<Rightarrow> (d, tool_stream_read g (args s))
      | SEARCH_LINES \<Rightarrow> (d, tool_search_lines d (args s) v)
      | FILTER_LINES \<Rightarrow> (d, tool_filter_lines d (args s) v)
      | HASH_SHA256 \<Rightarrow> (d, tool_hash_sha256 ev d v)
      | WRITE_FILE \<Rightarrow> tool_write_file ev g d (args s) v
      | WRITE_ARTIFACT \<Rightarrow> tool_write_artifact ev g d (args s) v ctx
      | BUILD_REPORT \<Rightarrow> (d, tool_build_report ev (args s) v))"

definition step_input :: "env \<Rightarrow> Step \<Rightarrow> ctx \<Rightarrow> py_error + ctx_val" where
  "step_input ev s ctx =
     (case consumes s of
        None \<Rightarrow> Inr VNone
      | Some k \<Rightarrow>
          if k = [] then Inr VNone
          else (case dict_get ctx k of
                  None \<Rightarrow> Inl (ValueError (''Step '' @ obj_text ev @ '' requires '' @ k @ '' which is missing from context.''))
                | Some v \<Rightarrow> Inr v))"

definition execute_step :: "env \<Rightarrow> PolicyGuard \<Rightarrow> disk \<Rightarrow> Step \<Rightarrow> ctx \<Rightarrow> disk \<times> (py_error + ctx)" where
  "execute_step ev g d s ctx =
     (case step_input ev s ctx of
        Inl e \<Rightarrow> (d, Inl e)
      | Inr v \<Rightarrow>
          (case run_tool ev g d s v ctx of
             (d', Inl e) \<Rightarrow> (d', Inl e)
           | (d', Inr out) \<Rightarrow>
               (d', Inr (if produces s = [] then ctx else dict_set (produces s) out ctx))))"

fun execute_steps :: "env \<Rightarrow> PolicyGuard \<Rightarrow> disk \<Rightarrow> Step list \<Rightarrow> ctx \<Rightarrow> disk \<times> (py_error + ctx)" where
  "execute_steps ev g d [] ctx = (d, Inr ctx)"
| "execute_steps ev g d (s # ss) ctx =
     (case execute_step ev g d s ctx of
        (d', Inl e) \<Rightarrow> (d', Inl e)
      | (d', Inr ctx') \<Rightarrow> execute_steps ev g d' ss ctx')"

text \<open>\<^verbatim>\<open>context.get('client_id', 'unknown')\<close> in the name of the artifact.\<close>

definition ctx_text :: "env \<Rightarrow> ctx \<Rightarrow> string \<Rightarrow> string \<Rightarrow> string" where
  "ctx_text ev ctx k dflt =
     (case dict_get ctx k of None \<Rightarrow> dflt | Some (VText s) \<Rightarrow> s | Some (VInt i) \<Rightarrow> string_of_int i | Some _ \<Rightarrow> obj_text ev)"

definition write_fallback_artifact :: "env \<Rightarrow> PolicyGuard \<Rightarrow> disk \<Rightarrow> bytes \<Rightarrow> ctx \<Rightarrow> disk \<times> (py_error + string)" where
  "write_fallback_artifact ev g d content ctx =
     (let path = ''artifacts/'' @ ctx_text ev ctx ''client_id'' ''unknown'' @ ''/''
                 @ ctx_text ev ctx ''request_id'' ''fallback'' @ ''_result.txt''
      in case atomic_write ev g d (JStr path) (CBytes content) of
           (d', Some e) \<Rightarrow> (d', Inl e)
         | (d', None) \<Rightarrow> (d', Inr path))"

text \<open>The size decision for a text result, under each policy.\<close>

definition finalize_output ::
  "env \<Rightarrow> PolicyGuard \<Rightarrow> disk \<Rightarrow> OutputPolicy \<Rightarrow> string \<Rightarrow> ctx \<Rightarrow> disk \<times> (py_error + (string, json) dict)" where
  "finalize_output ev g d policy final_output ctx =
     (case py_encode final_output of
        Inl e \<Rightarrow> (d, Inl e)
      | Inr encoded_output \<Rightarrow>
          (let artifact =
             (case write_fallback_artifact ev g d encoded_output ctx of
                (d', Inl e) \<Rightarrow> (d', Inl e)
              | (d', Inr path) \<Rightarrow> (d', Inr [(''artifact_path'', JStr path)]))
           in case policy of
                INLINE \<Rightarrow>
                  if length encoded_output > INLINE_LIMIT
                  then (d, Inl (ValueError ''Output exceeded inline limit but policy is INLINE''))
                  else (d, Inr [(''output'', JStr final_output)])
              | ARTIFACT \<Rightarrow>
                  (case dict_get ctx ''artifact_path'' of
                     None \<Rightarrow> artifact
                   | Some v \<Rightarrow> (d, Inr [(''artifact_path'', JStr (ctx_text ev ctx ''artifact_path'' []))]))
              | DYNAMIC \<Rightarrow>
                  if length encoded_output \<le> INLINE_LIMIT then (d, Inr [(''output'', JStr final_output)])
                  else artifact))"

definition execute_plan :: "env \<Rightarrow> PolicyGuard \<Rightarrow> disk \<Rightarrow> Plan \<Rightarrow> disk \<times> (py_error + (string, json) dict)" where
  "execute_plan ev g d plan =
     (case execute_steps ev g d (steps plan) (initial_values (initial_context plan)) of
        (d1, Inl e) \<Rightarrow> (d1, Inl e)
      | (d1, Inr ctx) \<Rightarrow>
          (case (case dict_get ctx ''final_output'' of
                   Some (VText s) \<Rightarrow> if s = [] then (d1, Inr []) else finalize_output ev g d1 (output_policy plan) s ctx
                 | _ \<Rightarrow> (d1, Inr [])) of
             (d2, Inl e) \<Rightarrow> (d2, Inl e)
           | (d2, Inr result) \<Rightarrow>
               (d2, Inr (case dict_get ctx ''plan_artifact_path'' of
                           None \<Rightarrow> result
                         | Some v \<Rightarrow> result @ [(''plan_artifact_path'', JStr (ctx_text ev ctx ''plan_artifact_path'' []))]))))"

section \<open>Typed contexts\<close>

text \<open>The digest of \<^verbatim>\<open>hashlib\<close> is ASCII text.\<close>

definition digest_ascii :: "env \<Rightarrow> bool" where
  "digest_ascii ev \<longleftrightarrow> (\<forall>bs. is_ascii (sha256 ev bs))"

fun has_kind :: "ctx_val \<Rightarrow> kind \<Rightarrow> bool" where
  "has_kind (VText s) k \<longleftrightarrow> (k = KText \<and> encodable s) \<or> k = KStatus \<or> k = KReport"
| "has_kind (VLines ls) k \<longleftrightarrow> k = KLines \<and> list_all encodable ls"
| "has_kind (VGen p bin) k \<longleftrightarrow> k = (if bin then KByteStream else KTextStream)"
| "has_kind _ k \<longleftrightarrow> False"

definition ctx_typed :: "(string \<rightharpoonup> kind) \<Rightarrow> ctx \<Rightarrow> bool" where
  "ctx_typed G c \<longleftrightarrow> (\<forall>k t. G k = Some t \<longrightarrow> (\<exists>v. dict_get c k = Some v \<and> has_kind v t))"

definition input_ok :: "Step \<Rightarrow> ctx_val \<Rightarrow> bool" where
  "input_ok s v \<longleftrightarrow> (if consumes s = None then v = VNone else \<exists>t \<in> input_kinds (tool s). has_kind v t)"

lemma ctx_typed_empty [simp]: "ctx_typed Map.empty c"
  by (simp add: ctx_typed_def)

lemma ctx_typed_update: "ctx_typed G c \<Longrightarrow> has_kind v t \<Longrightarrow> ctx_typed (G(k \<mapsto> t)) (dict_set k v c)"
  by (auto simp: ctx_typed_def dict_simps)

text \<open>Progress: a typed step finds its input.\<close>

lemma step_input_typed:
  assumes "step_typed G s" "ctx_typed G c"
  shows "\<exists>v. step_input ev s c = Inr v \<and> input_ok s v"
proof (cases "consumes s")
  case None then show ?thesis by (simp add: step_input_def input_ok_def)
next
  case (Some k)
  then obtain t where t: "k \<noteq> []" "G k = Some t" "t \<in> input_kinds (tool s)"
    using assms(1) by (auto simp: step_typed_def split: option.splits)
  then obtain v where "dict_get c k = Some v" "has_kind v t" using assms(2) by (auto simp: ctx_typed_def)
  then show ?thesis using t Some by (auto simp: step_input_def input_ok_def)
qed

lemma input_lines_encodable:
  assumes "input_lines d v = Inr ls" "has_kind v KText \<or> has_kind v KTextStream"
  shows "list_all encodable ls"
  using assms
  by (cases v) (auto simp: input_lines_def error_simps splitlines_encodable
      intro: file_lines_encodable universal_newlines_encodable decode_replace_encodable split: if_splits)

lemma encodable_number: "encodable (string_of_nat n)"
  by (rule encodable_ascii [OF digits_ascii [OF string_of_nat_digits_all]])

lemma search_loop_encodable:
  "list_all encodable results \<Longrightarrow> list_all encodable ls \<Longrightarrow> list_all encodable (search_loop p i results ls)"
proof (induction p i results ls rule: search_loop.induct)
  case (2 pat i results line ls)
  have "encodable (''Line '' @ string_of_nat (i + 1) @ '': '' @ py_strip line)"
    using 2(4) by (intro encodable_append encodable_number py_strip_encodable) (simp_all add: encodable_ascii)
  then show ?case using 2 by (auto simp: Let_def encodable_ascii)
qed simp

lemma with_pattern_kind:
  assumes "with_pattern a ls f = Inr out" "\<And>p. list_all encodable (f p)"
  shows "has_kind out KLines"
proof -
  obtain pat where "arg a ''pattern'' = Inr pat" using assms(1) by (auto simp: with_pattern_def error_simps)
  then show ?thesis using assms by (cases pat) (auto simp: with_pattern_def split: if_splits)
qed

text \<open>Preservation: a typed step produces a value of its kind.\<close>

lemma run_tool_kind:
  assumes "step_typed G s" "input_ok s v" "digest_ascii ev" "run_tool ev g d s v c = (d', Inr out)"
  shows "has_kind out (output_kind s)"
proof (cases "tool s")
  case READ_FILE
  then show ?thesis using assms(4)
    by (auto simp: output_kind.simps run_tool_def tool_read_file_def error_simps py_decode_def universal_newlines_encodable split: if_splits)
next
  case STREAM_READ
  then show ?thesis using assms(4)
    by (auto simp: output_kind.simps run_tool_def tool_stream_read_def error_simps split: option.splits)
next
  case SEARCH_LINES
  then have "has_kind v KText \<or> has_kind v KTextStream"
    using assms(1,2) by (auto simp: input_ok_def step_typed_def split: if_splits option.splits)
  then show ?thesis using assms(4) SEARCH_LINES input_lines_encodable search_loop_encodable
    by (auto simp: output_kind.simps run_tool_def tool_search_lines_def error_simps intro!: with_pattern_kind)
next
  case FILTER_LINES
  then have "has_kind v KText \<or> has_kind v KTextStream"
    using assms(1,2) by (auto simp: input_ok_def step_typed_def split: if_splits option.splits)
  moreover have "list_all encodable ls \<Longrightarrow> list_all encodable (filter P ls)" for P ls by (simp add: list_all_iff)
  ultimately show ?thesis using assms(4) FILTER_LINES input_lines_encodable
    by (auto simp: output_kind.simps run_tool_def tool_filter_lines_def error_simps intro!: with_pattern_kind)
next
  case HASH_SHA256
  then show ?thesis using assms(3,4)
    by (auto simp: output_kind.simps run_tool_def tool_hash_sha256_def error_simps digest_ascii_def encodable_ascii
        split: ctx_val.splits bool.splits)
next
  case BUILD_REPORT
  then show ?thesis using assms(4)
    by (auto simp: output_kind.simps run_tool_def tool_build_report_def Let_def split: if_splits ctx_val.splits)
next
  case WRITE_FILE
  then show ?thesis using assms(4)
    by (auto simp: output_kind.simps run_tool_def tool_write_file_def Let_def split: sum.splits option.splits prod.splits)
next
  case WRITE_ARTIFACT
  then show ?thesis using assms(4)
    by (auto simp: output_kind.simps run_tool_def tool_write_artifact_def split: sum.splits option.splits prod.splits)
qed

section \<open>Confinement\<close>

lemma validate_any_inside:
  assumes "validate_any g v = Inr p" "clean_abs (sandbox_root g)"
  shows "inside (sandbox_root g) p"
  using assms validate_path_Inr(2) [of g _ p]
  by (auto simp: validate_any_def inside_def split: json.splits if_splits)

lemma atomic_write_outside:
  assumes "clean_abs (sandbox_root g)" "content_bytes content = Inr bs"
  shows "same_outside (sandbox_root g) d (fst (atomic_write ev g d path content))"
proof (cases "validate_any g path")
  case (Inl e) then show ?thesis by (simp add: atomic_write_def)
next
  case (Inr p)
  obtain d1 e where m: "makedirs (dir_size ev) d (dirname p) = (d1, e)" by fastforce
  have d1: "same_outside (sandbox_root g) d d1"
    using same_outside_makedirs [of "sandbox_root g" d "dir_size ev" "dirname p"] m by simp
  have "same_outside (sandbox_root g) d (put_file d1 p bs)"
    using same_outside_trans [OF d1 same_outside_put] validate_any_inside [OF Inr assms(1)] by blast
  then show ?thesis using Inr m d1 assms(2) by (auto simp: atomic_write_def split: option.split)
qed

lemma tool_write_file_outside:
  assumes "clean_abs (sandbox_root g)" "has_kind v KText \<or> has_kind v KLines"
  shows "same_outside (sandbox_root g) d (fst (tool_write_file ev g d a v))"
proof (cases "arg a ''path''")
  case (Inr path)
  define content where
    "content = (case v of VText s \<Rightarrow> CText s | VLines ls \<Rightarrow> CText (join [CHR 0x0A] ls) | _ \<Rightarrow> CObject)"
  have "encodable [CHR 0x0A]" by (simp add: encodable_ascii)
  then obtain bs where "content_bytes content = Inr bs"
    using assms(2) by (cases v) (auto simp: content_def content_bytes_def py_encode_def encodable_join split: if_splits)
  from atomic_write_outside [OF assms(1) this, of d ev path] show ?thesis
    by (auto simp: tool_write_file_def Inr content_def [symmetric] Let_def split: prod.splits option.splits)
qed (simp add: tool_write_file_def)

lemma tool_write_plan_outside:
  assumes "clean_abs (sandbox_root g)" "dict_get a ''content_key'' = Some (JStr ''__PLAN_JSON__'')"
  shows "same_outside (sandbox_root g) d (fst (tool_write_artifact ev g d a v c))"
proof -
  have cb: "content_bytes (CText ''{}'') = Inr (str_bytes ''{}'')"
    by (simp add: content_bytes_def py_encode_def encodable_ascii)
  show ?thesis
    using assms(2) atomic_write_outside [OF assms(1) cb, of d ev]
    by (auto simp: tool_write_artifact_def artifact_content_def Let_def error_simps split: sum.splits prod.splits option.splits if_splits)
       (metis fst_conv)+
qed

lemma run_tool_outside:
  assumes "clean_abs (sandbox_root g)" "step_typed G s" "input_ok s v"
  shows "same_outside (sandbox_root g) d (fst (run_tool ev g d s v c))"
proof (cases "tool s")
  case WRITE_FILE
  then have "has_kind v KText \<or> has_kind v KLines"
    using assms(2,3) by (auto simp: input_ok_def step_typed_def split: if_splits option.splits)
  from tool_write_file_outside [OF assms(1) this, of d ev "args s"] WRITE_FILE show ?thesis by (simp add: run_tool_def)
next
  case WRITE_ARTIFACT
  then have "dict_get (args s) ''content_key'' = Some (JStr ''__PLAN_JSON__'')"
    using assms(2) by (auto simp: step_typed_def split: option.splits)
  from tool_write_plan_outside [OF assms(1) this, of d ev v c] WRITE_ARTIFACT show ?thesis by (simp add: run_tool_def)
qed (simp_all add: run_tool_def)

text \<open>One step: effects stay inside, and the context stays typed.\<close>

lemma execute_step_typed:
  assumes "clean_abs (sandbox_root g)" "digest_ascii ev" "step_typed G s" "ctx_typed G c"
    and "execute_step ev g d s c = (d', r)"
  shows "same_outside (sandbox_root g) d d'"
    and "\<forall>c'. r = Inr c' \<longrightarrow> ctx_typed (G(produces s \<mapsto> output_kind s)) c'"
proof -
  obtain v where v: "step_input ev s c = Inr v" "input_ok s v" using step_input_typed [OF assms(3,4)] by blast
  obtain d1 out where t: "run_tool ev g d s v c = (d1, out)" by fastforce
  have "produces s \<noteq> []" using assms(3) by (simp add: step_typed_def)
  with assms(5) v t have e: "d' = d1" "r = (case out of Inl e \<Rightarrow> Inl e | Inr x \<Rightarrow> Inr (dict_set (produces s) x c))"
    by (auto simp: execute_step_def split: sum.splits)
  show "same_outside (sandbox_root g) d d'" using run_tool_outside [OF assms(1,3) v(2), of d ev c] t e(1) by simp
  show "\<forall>c'. r = Inr c' \<longrightarrow> ctx_typed (G(produces s \<mapsto> output_kind s)) c'"
    using run_tool_kind [OF assms(3) v(2) assms(2)] t e(2) ctx_typed_update [OF assms(4)]
    by (auto split: sum.splits)
qed

lemma execute_steps_outside:
  assumes "clean_abs (sandbox_root g)" "digest_ascii ev"
  shows "well_typed G ss \<Longrightarrow> ctx_typed G c \<Longrightarrow> same_outside (sandbox_root g) d (fst (execute_steps ev g d ss c))"
proof (induction ss arbitrary: G c d)
  case (Cons s ss)
  obtain d' r where e: "execute_step ev g d s c = (d', r)" by fastforce
  have w: "step_typed G s" "well_typed (G(produces s \<mapsto> output_kind s)) ss" using Cons(2) by simp_all
  note st = execute_step_typed [OF assms w(1) Cons(3) e]
  show ?case
  proof (cases r)
    case (Inl x) then show ?thesis using st(1) e by simp
  next
    case (Inr c')
    then have "same_outside (sandbox_root g) d' (fst (execute_steps ev g d' ss c'))"
      using Cons(1) [OF w(2)] st(2) by blast
    then show ?thesis using same_outside_trans [OF st(1)] e Inr by simp
  qed
qed simp

lemma execute_steps_progress:
  assumes "clean_abs (sandbox_root g)" "digest_ascii ev"
  shows "well_typed G ss \<Longrightarrow> ctx_typed G c \<Longrightarrow> i < length ss \<Longrightarrow>
    execute_steps ev g d (take i ss) c = (d', Inr c') \<Longrightarrow>
    \<exists>v. step_input ev (ss ! i) c' = Inr v \<and> input_ok (ss ! i) v"
proof (induction ss arbitrary: G c d i)
  case (Cons s ss)
  show ?case
  proof (cases i)
    case 0 then show ?thesis using Cons step_input_typed [of G s c] by simp
  next
    case (Suc j)
    obtain d1 c1 where e: "execute_step ev g d s c = (d1, Inr c1)" "execute_steps ev g d1 (take j ss) c1 = (d', Inr c')"
      using Cons(5) Suc by (auto split: prod.splits sum.splits)
    have "ctx_typed (G(produces s \<mapsto> output_kind s)) c1"
      using execute_step_typed(2) [OF assms _ Cons(3) e(1)] Cons(2) by simp
    moreover have "well_typed (G(produces s \<mapsto> output_kind s)) ss" using Cons(2) by simp
    ultimately show ?thesis using Cons(1) [OF _ _ _ e(2)] Cons(4) Suc by auto
  qed
qed simp

lemma finalize_output_outside:
  assumes "clean_abs (sandbox_root g)"
  shows "same_outside (sandbox_root g) d (fst (finalize_output ev g d policy out c))"
proof -
  have "same_outside (sandbox_root g) d (fst (write_fallback_artifact ev g d bs c))" for bs
    using atomic_write_outside [OF assms, of "CBytes bs" bs d ev]
    by (auto simp: write_fallback_artifact_def content_bytes_def Let_def split: prod.splits option.splits)
       (metis fst_conv)+
  then show ?thesis
    by (auto simp: finalize_output_def Let_def split: sum.splits prod.splits OutputPolicy.splits option.splits)
       (metis fst_conv)+
qed

lemma execute_plan_outside:
  assumes "clean_abs (sandbox_root g)" "digest_ascii ev" "well_typed Map.empty (steps plan)"
  shows "same_outside (sandbox_root g) d (fst (execute_plan ev g d plan))"
proof -
  obtain d1 r where e: "execute_steps ev g d (steps plan) (initial_values (initial_context plan)) = (d1, r)" by fastforce
  have d1: "same_outside (sandbox_root g) d d1"
    using execute_steps_outside [OF assms(1,2,3), of "initial_values (initial_context plan)" d] e by simp
  show ?thesis
  proof (cases r)
    case (Inr c)
    define fin where "fin = (case dict_get c ''final_output'' of
        Some (VText s) \<Rightarrow> if s = [] then (d1, Inr []) else finalize_output ev g d1 (output_policy plan) s c
      | _ \<Rightarrow> (d1, Inr []))"
    have "same_outside (sandbox_root g) d1 (fst fin)"
      using finalize_output_outside [OF assms(1)] by (auto simp: fin_def split: option.split ctx_val.split)
    then have "same_outside (sandbox_root g) d (fst fin)" by (rule same_outside_trans [OF d1])
    then show ?thesis by (auto simp: execute_plan_def e Inr fin_def [symmetric] split: prod.split sum.split)
  qed (use d1 e in \<open>simp add: execute_plan_def\<close>)
qed

section \<open>Reading modes\<close>

lemma search_loop_cong:
  "list_all2 (\<lambda>a b. contains p a = contains p b \<and> py_strip a = py_strip b) ls ms \<Longrightarrow>
   search_loop p i r ls = search_loop p i r ms"
proof (induction ls ms arbitrary: i r rule: list_all2_induct)
  case (Cons a ls b ms) then show ?case by (simp add: Let_def)
qed simp

lemma lf_cp: "encode_cp 0x0A = [CHR 0x0A]" "scalar 0x0A"
  by (simp_all add: encode_cp_ascii char_of_escaped scalar_def is_cp_def is_surrogate_def)

lemma chomp_line:
  assumes "list_all scalar l" "CHR 0x0A \<notin> set p"
  shows "contains p (encode_cps (chomp l)) = contains p (encode_cps l) \<and>
    py_strip (encode_cps (chomp l)) = py_strip (encode_cps l)"
proof (cases "l \<noteq> [] \<and> last l = 0x0A")
  case True
  then obtain m where m: "l = m @ [0x0A]" by (metis append_butlast_last_id)
  then have "chomp l = m" "list_all scalar m" using assms(1) by (simp_all add: chomp_def)
  then show ?thesis using strip_newline [of m] contains_snoc [OF assms(2), of "encode_cps m"] m
    by (simp add: lf_cp)
qed (auto simp: chomp_def)

text \<open>The lines of a text without unusual line boundaries, in both readings.\<close>

lemma lines_both_ways:
  assumes "encodable s" "only_newlines (cps_of s)"
  obtains ls where "splitlines s = map (\<lambda>l. encode_cps (chomp l)) ls" "file_lines [] s = map encode_cps ls"
    "list_all (list_all scalar) ls"
    "last (cps_of s) = 0x0A \<or> s = [] \<Longrightarrow> ls = map (\<lambda>l. l @ [0x0A]) (split_breaks [] (cps_of s))"
proof -
  obtain ns where ns: "list_all scalar ns" "s = encode_cps ns" using assms(1) by (auto simp: encodable_iff)
  have c: "cps_of s = ns" using cps_of_encode [OF ns(1)] ns(2) by simp
  show ?thesis
  proof (rule that)
    show "splitlines s = map (\<lambda>l. encode_cps (chomp l)) (cp_lines [] ns)"
      using split_breaks_cp_lines [of ns "[]"] assms(2) c by (simp add: splitlines_def)
    show "file_lines [] s = map encode_cps (cp_lines [] ns)"
      using file_lines_cps [OF scalars_cps [OF ns(1)], of "[]"] ns(2) by simp
    show "list_all (list_all scalar) (cp_lines [] ns)" using cp_lines_scalar [of "[]"] ns(1) by simp
    show "cp_lines [] ns = map (\<lambda>l. l @ [0x0A]) (split_breaks [] (cps_of s))"
      if "last (cps_of s) = 0x0A \<or> s = []"
      using cp_lines_terminated [of ns "[]"] assms(2) c that ns(2) by simp
  qed
qed

lemma read_both_ways:
  assumes "validate_any g path = Inr p" "read_bytes d p = Inr bs" "int (length bs) \<le> MAX_FILE_SIZE"
    "encodable (bytes_str bs)"
  shows "tool_read_file g d [(''path'', path)] = Inr (VText (universal_newlines (bytes_str bs)))"
    and "tool_stream_read g [(''path'', path)] = Inr (VGen p False)"
    and "input_lines d (VGen p False) = Inr (file_lines [] (universal_newlines (bytes_str bs)))"
proof -
  have "os_getsize d p = Inr (int (length bs))"
    using assms(2) by (auto simp: read_bytes_def os_getsize_def split: option.splits if_splits)
  then show "tool_read_file g d [(''path'', path)] = Inr (VText (universal_newlines (bytes_str bs)))"
    using assms by (simp add: tool_read_file_def arg_def py_decode_def)
  show "tool_stream_read g [(''path'', path)] = Inr (VGen p False)"
    using assms(1) by (simp add: tool_stream_read_def arg_def)
  show "input_lines d (VGen p False) = Inr (file_lines [] (universal_newlines (bytes_str bs)))"
    using assms(2,4) by (simp add: input_lines_def decode_replace_valid)
qed

lemma validate_any_str [simp]: "validate_path g s = Inr p \<Longrightarrow> validate_any g (JStr s) = Inr p"
  by (auto simp: validate_any_def validate_path_def split: if_splits)

lemma search_both_modes:
  assumes "validate_any g path = Inr p" "read_bytes d p = Inr bs" "int (length bs) \<le> MAX_FILE_SIZE"
    and "encodable (bytes_str bs)" "only_newlines (cps_of (universal_newlines (bytes_str bs)))" "CHR 0x0A \<notin> set pattern"
  shows "tool_search_lines d [(''pattern'', JStr pattern)] (VText (universal_newlines (bytes_str bs))) =
      Inr (VLines (search_loop pattern 0 [] (splitlines (universal_newlines (bytes_str bs)))))"
    and "tool_search_lines d [(''pattern'', JStr pattern)] (VGen p False) =
      Inr (VLines (search_loop pattern 0 [] (splitlines (universal_newlines (bytes_str bs)))))"
proof -
  let ?s = "universal_newlines (bytes_str bs)"
  show "tool_search_lines d [(''pattern'', JStr pattern)] (VText ?s) = Inr (VLines (search_loop pattern 0 [] (splitlines ?s)))"
    by (simp add: tool_search_lines_def input_lines_def with_pattern_def arg_def)
  obtain ls where ls: "splitlines ?s = map (\<lambda>l. encode_cps (chomp l)) ls" "file_lines [] ?s = map encode_cps ls"
    "list_all (list_all scalar) ls"
    using lines_both_ways [OF universal_newlines_encodable [OF assms(4)] assms(5)] by auto
  have "list_all2 (\<lambda>a b. contains pattern a = contains pattern b \<and> py_strip a = py_strip b) (splitlines ?s) (file_lines [] ?s)"
    using ls(3) chomp_line [OF _ assms(6)] unfolding ls(1,2) by (induction ls) auto
  from search_loop_cong [OF this] show "tool_search_lines d [(''pattern'', JStr pattern)] (VGen p False) =
      Inr (VLines (search_loop pattern 0 [] (splitlines ?s)))"
    using read_both_ways(3) [OF assms(1-4)] by (simp add: tool_search_lines_def with_pattern_def arg_def)
qed

section \<open>Storing a hash\<close>

text \<open>A path that \<^verbatim>\<open>_atomic_write\<close> can replace.\<close>

definition replaceable :: "env \<Rightarrow> disk \<Rightarrow> string \<Rightarrow> bool" where
  "replaceable ev d q \<longleftrightarrow> snd (makedirs (dir_size ev) d (dirname q)) = None \<and> os_path_error q = None \<and>
     \<not> os_isdir (fst (makedirs (dir_size ev) d (dirname q))) q"

lemma atomic_write_ok:
  assumes "validate_path g dst = Inr q" "dst \<noteq> []" "replaceable ev d q" "encodable txt"
  shows "atomic_write ev g d (JStr dst) (CText txt) = (put_file (fst (makedirs (dir_size ev) d (dirname q))) q (str_bytes txt), None)"
  using assms by (auto simp: atomic_write_def replaceable_def validate_any_def content_bytes_def py_encode_def split: prod.splits)

lemma hash_plan:
  assumes "validate_path g f = Inr p" "read_bytes d p = Inr bs" "digest_ascii ev"
    and "validate_path g dst = Inr r" "dst \<noteq> []" "replaceable ev d r" "encodable dst" "length dst \<le> 65000"
    and "build_plan ev et OP_TASK_HASH_AND_STORE [(''input_file'', JStr f), (''out_file'', JStr dst)] c = Inr plan"
  shows "execute_plan ev g d plan =
    (put_file (fst (makedirs (dir_size ev) d (dirname r))) r (str_bytes (sha256 ev bs)), Inr [(''output'', JStr (''Hash written to '' @ dst))])"
proof -
  have "encodable (sha256 ev bs)" using assms(3) by (simp add: digest_ascii_def encodable_ascii)
  note w = atomic_write_ok [OF assms(4-6) this]
  have st: "steps plan = template_hash_and_store ev [(''input_file'', JStr f), (''out_file'', JStr dst)]"
    "initial_context plan = c" "output_policy plan = DYNAMIC"
    using assms(9) by (auto simp: build_plan_def select_template_def opcode_consts Let_def)
  have "\<exists>c'. execute_steps ev g d (steps plan) (initial_values c) =
        (put_file (fst (makedirs (dir_size ev) d (dirname r))) r (str_bytes (sha256 ev bs)), Inr c') \<and>
      dict_get c' ''final_output'' = Some (VText (''Hash written to '' @ dst)) \<and> dict_get c' ''plan_artifact_path'' = None"
    using assms(1,2) w
    by (simp add: st template_hash_and_store_def Let_def execute_step_def step_input_def run_tool_def
        tool_stream_read_def tool_hash_sha256_def tool_write_file_def tool_build_report_def arg_def dict_simps
        initial_values_def split: option.split)
  moreover have "encodable (''Hash written to '' @ dst)"
    by (rule encodable_append [OF _ assms(7)]) (simp add: encodable_ascii)
  then have "py_encode (''Hash written to '' @ dst) = Inr (str_bytes (''Hash written to '' @ dst))"
    unfolding py_encode_def by (simp only: if_True)
  ultimately show ?thesis using st assms(8) by (auto simp: execute_plan_def finalize_output_def INLINE_LIMIT_def Let_def)
qed

section \<open>Properties\<close>

text \<open>
  C23. Type soundness of plans (progress and preservation): whatever the client's payload, in the
  execution of a plan that the planner has built, every step that is reached finds its input in the
  context, and the input is of a kind that the step's tool takes.
\<close>

theorem plan_inputs_available:
  assumes "build_plan ev enum_text op payload c = Inr plan" and "starts_slash wd" and "digest_ascii ev"
    and "i < length (steps plan)"
    and "execute_steps ev (make_PolicyGuard wd rdir) d (take i (steps plan)) (initial_values c) = (d', Inr c')"
  shows "\<exists>v. step_input ev (steps plan ! i) c' = Inr v \<and> input_ok (steps plan ! i) v"
  by (rule execute_steps_progress [OF make_PolicyGuard_root(1) [OF assms(2)] assms(3)
        build_plan_well_typed [OF assms(1)] ctx_typed_empty assms(4,5)])

text \<open>
  Searching does not depend on the execution mode: for a text file within the size limit whose
  only line boundaries are newlines and carriage returns, and a pattern without a newline, the search
  step gives the same numbered matches for the file read into memory and for the stream of its lines.
\<close>

theorem search_modes_agree:
  assumes "validate_any g path = Inr p" and "read_bytes d p = Inr bs" and "int (length bs) \<le> MAX_FILE_SIZE"
    and "encodable (bytes_str bs)" and "only_newlines (cps_of (universal_newlines (bytes_str bs)))"
    and "CHR 0x0A \<notin> set pattern"
  shows "ebind (tool_read_file g d [(''path'', path)]) (tool_search_lines d [(''pattern'', JStr pattern)]) =
    ebind (tool_stream_read g [(''path'', path)]) (tool_search_lines d [(''pattern'', JStr pattern)])"
  using search_both_modes [OF assms] read_both_ways [OF assms(1-4)] by simp

text \<open>
  C38. Filtering does depend on it: under the same conditions, for a file that ends with a newline,
  the streamed filter keeps the newline of every line that the filter in memory returns without one
  (so that the written result has an empty line after each match).
\<close>

theorem filter_modes_differ:
  assumes "validate_any g path = Inr p" and "read_bytes d p = Inr bs" and "int (length bs) \<le> MAX_FILE_SIZE"
    and "encodable (bytes_str bs)" and "only_newlines (cps_of (universal_newlines (bytes_str bs)))"
    and "CHR 0x0A \<notin> set pattern" and "last (cps_of (universal_newlines (bytes_str bs))) = 0x0A"
  shows "\<exists>ls. ebind (tool_read_file g d [(''path'', path)]) (tool_filter_lines d [(''pattern'', JStr pattern)]) = Inr (VLines ls) \<and>
    ebind (tool_stream_read g [(''path'', path)]) (tool_filter_lines d [(''pattern'', JStr pattern)]) =
      Inr (VLines (map (\<lambda>l. l @ [CHR 0x0A]) ls))"
proof -
  let ?s = "universal_newlines (bytes_str bs)"
  obtain ls where ls: "file_lines [] ?s = map encode_cps ls" "ls = map (\<lambda>l. l @ [0x0A]) (split_breaks [] (cps_of ?s))"
    using lines_both_ways [OF universal_newlines_encodable [OF assms(4)] assms(5)] assms(7) by metis
  have f: "file_lines [] ?s = map (\<lambda>l. l @ [CHR 0x0A]) (splitlines ?s)"
    by (simp add: ls(1)) (simp add: ls(2) splitlines_def lf_cp)
  have "filter (contains pattern) (map (\<lambda>l. l @ [CHR 0x0A]) xs) = map (\<lambda>l. l @ [CHR 0x0A]) (filter (contains pattern) xs)" for xs
    by (induction xs) (auto simp: contains_snoc [OF assms(6)])
  then show ?thesis
    using read_both_ways [OF assms(1-4)]
    by (simp add: tool_filter_lines_def input_lines_def [of d "VText ?s"] with_pattern_def arg_def f)
qed

lemma sample_text:
  "cps_of (universal_newlines (''ab'' @ [CHR 0x0A] @ ''cd'' @ [CHR 0x0A])) = [97, 98, 10, 99, 100, 10]"
  by (simp add: cps_of_def decode_cps_ascii)

theorem search_modes_agree_witness:
  "ebind (tool_read_file sample_guard sample_disk [(''path'', JStr ''a.txt'')])
     (tool_search_lines sample_disk [(''pattern'', JStr ''c'')]) =
   ebind (tool_stream_read sample_guard [(''path'', JStr ''a.txt'')])
     (tool_search_lines sample_disk [(''pattern'', JStr ''c'')])"
  by (rule search_modes_agree [OF validate_any_str [OF sample_path(1)] sample_read])
     (simp_all add: MAX_FILE_SIZE_def encodable_ascii sample_text [simplified] only_newlines_def is_line_break_def)

theorem filter_modes_differ_witness:
  "\<exists>ls. ebind (tool_read_file sample_guard sample_disk [(''path'', JStr ''a.txt'')])
     (tool_filter_lines sample_disk [(''pattern'', JStr ''c'')]) = Inr (VLines ls) \<and>
   ebind (tool_stream_read sample_guard [(''path'', JStr ''a.txt'')])
     (tool_filter_lines sample_disk [(''pattern'', JStr ''c'')]) = Inr (VLines (map (\<lambda>l. l @ [CHR 0x0A]) ls))"
  by (rule filter_modes_differ [OF validate_any_str [OF sample_path(1)] sample_read])
     (simp_all add: MAX_FILE_SIZE_def encodable_ascii sample_text [simplified] only_newlines_def is_line_break_def)

definition sample_context :: task_context where
  "sample_context = \<lparr>client_id = ''default_client'', req_id = ''1'', file_size = None, has_plan = True\<rparr>"

theorem plan_inputs_available_witness:
  "\<exists>plan v. build_plan sample_env (\<lambda>_ v. v) OP_TASK_HASH_AND_STORE [(''input_file'', JStr ''a.txt'')] sample_context = Inr plan \<and>
    step_input sample_env (steps plan ! 0) (initial_values sample_context) = Inr v \<and> input_ok (steps plan ! 0) v"
proof -
  have "\<exists>plan. build_plan sample_env (\<lambda>_ v. v) OP_TASK_HASH_AND_STORE [(''input_file'', JStr ''a.txt'')] sample_context = Inr plan
      \<and> 0 < length (steps plan)"
    by (simp add: build_plan_def select_template_def opcode_consts template_hash_and_store_def Let_def)
  then obtain plan where p: "build_plan sample_env (\<lambda>_ v. v) OP_TASK_HASH_AND_STORE [(''input_file'', JStr ''a.txt'')] sample_context = Inr plan"
    "0 < length (steps plan)" by blast
  have "starts_slash ''/srv''" "digest_ascii sample_env"
    by (simp_all add: starts_slash_def digest_ascii_def sample_env_def)
  from plan_inputs_available [OF p(1) this p(2), of "''box''" sample_disk] p(1) show ?thesis by auto
qed

text \<open>
  Hash and store: for a readable input file and a destination that can be written, executing
  the plan succeeds, stores the hexadecimal digest of exactly the bytes of the input file at the
  destination, reports completion, and changes no other file.
\<close>

theorem hash_and_store_correct:
  assumes "build_plan ev enum_text OP_TASK_HASH_AND_STORE [(''input_file'', JStr src), (''out_file'', JStr dst)] c = Inr plan"
    and "validate_path g src = Inr p" and "validate_path g dst = Inr q"
    and "read_bytes d p = Inr bs" and "digest_ascii ev"
    and "snd (makedirs (dir_size ev) d (dirname q)) = None"
    and "os_path_error q = None" and "\<not> os_isdir (fst (makedirs (dir_size ev) d (dirname q))) q"
    and "encodable dst" and "length dst \<le> 65000"
  shows "\<exists>d'. execute_plan ev g d plan = (d', Inr [(''output'', JStr (''Hash written to '' @ dst))]) \<and>
    dict_get (files d') q = Some (str_bytes (sha256 ev bs)) \<and>
    (\<forall>x. x \<noteq> q \<longrightarrow> dict_get (files d') x = dict_get (files d) x)"
proof -
  have "dst \<noteq> []" using assms(3) by (auto simp: validate_path_def)
  moreover have "replaceable ev d q" using assms(6-8) by (simp add: replaceable_def)
  ultimately show ?thesis using hash_plan [OF assms(2,4,5,3) _ _ assms(9,10,1)] by simp
qed

lemma sample_makedirs: "makedirs n sample_disk (dirname ''/srv/box/h.txt'') = (sample_disk, None)"
  by (simp add: makedirs_def dirname_def Let_def dir_chain_def path_comps_def sample_disk_def dict_has_def upt_rec)

theorem hash_and_store_correct_witness:
  "\<exists>plan d'. build_plan sample_env (\<lambda>_ v. v) OP_TASK_HASH_AND_STORE
      [(''input_file'', JStr ''a.txt''), (''out_file'', JStr ''h.txt'')] sample_context = Inr plan \<and>
    execute_plan sample_env sample_guard sample_disk plan = (d', Inr [(''output'', JStr ''Hash written to h.txt'')]) \<and>
    dict_get (files d') ''/srv/box/h.txt'' = Some (str_bytes ''e3b0'')"
proof -
  obtain plan where p: "build_plan sample_env (\<lambda>_ v. v) OP_TASK_HASH_AND_STORE
      [(''input_file'', JStr ''a.txt''), (''out_file'', JStr ''h.txt'')] sample_context = Inr plan"
    by (simp add: build_plan_def select_template_def opcode_consts Let_def)
  have e: "digest_ascii sample_env" "os_path_error ''/srv/box/h.txt'' = None" "encodable ''h.txt''"
    "\<not> os_isdir sample_disk ''/srv/box/h.txt''" "sha256 sample_env = (\<lambda>_. ''e3b0'')"
    by (simp_all add: digest_ascii_def sample_env_def ascii_path_ok encodable_ascii os_isdir_def sample_disk_def dict_has_def)
  from hash_and_store_correct [OF p sample_path sample_read e(1)] p e sample_makedirs show ?thesis by auto
qed

end
