(* ===== verification/TcpTransport.thy ===== *)
theory TcpTransport
  imports AppEnvelope
begin

text \<open>
  The TCP transports, \<^verbatim>\<open>src/server/transport/tcp_server.py\<close> and
  \<^verbatim>\<open>src/client/transport/tcp_client.py\<close>. A connected socket is the list of byte chunks that
  successive arrivals provide (then end of stream) and the bytes written to it. Shown: reading
  exactly \<open>n\<close> bytes and reading a framed message do not depend on how TCP cut the stream into
  chunks, and a stream that ends early is an error, never a short read.
\<close>

section \<open>Sockets\<close>

record tcp_socket =
  inbox :: "bytes list"
  outbox :: bytes

text \<open>\<^verbatim>\<open>recv(n)\<close>: at most \<open>n\<close> bytes of what has arrived; the empty string at end of stream.\<close>

fun recv :: "nat \<Rightarrow> bytes list \<Rightarrow> bytes \<times> bytes list" where
  "recv n [] = ([], [])"
| "recv n (c # cs) = (if length c \<le> n then (c, cs) else (take n c, drop n c # cs))"

definition sendall :: "tcp_socket \<Rightarrow> bytes \<Rightarrow> tcp_socket" where
  "sendall s data = s\<lparr>outbox := outbox s @ data\<rparr>"

text \<open>
  The loop of \<^verbatim>\<open>receive_exact\<close>, the same in both transports up to the message of the exception,
  which is \<open>eof\<close> applied to the number of bytes read so far.
\<close>

function read_loop :: "(nat \<Rightarrow> py_error) \<Rightarrow> nat \<Rightarrow> bytes \<Rightarrow> bytes list \<Rightarrow> py_error + (bytes \<times> bytes list)" where
  "read_loop eof nbytes buf cs =
     (if length buf < nbytes
      then (let (chunk, cs') = recv (nbytes - length buf) cs
            in if chunk = [] then Inl (eof (length buf))
               else read_loop eof nbytes (buf @ chunk) cs')
      else Inr (buf, cs))"
  by pat_completeness auto
termination
  by (relation "measure (\<lambda>(f, n, buf, cs). n - length buf)") (auto simp flip: length_greater_0_conv)

declare read_loop.simps [simp del]

section \<open>Server\<close>

definition OP_PING :: int where "OP_PING = 0xFF"
definition OP_PONG :: int where "OP_PONG = 0xFE"

text \<open>A closed socket stays in the field; accepting from it raises \<^verbatim>\<open>OSError\<close>.\<close>

datatype server_sock = NoSocket | Listening | ClosedSocket

record TCPServerTransport =
  srv_sock :: server_sock
  active_conns :: "(addr, tcp_socket) dict"

definition new_tcp_server :: TCPServerTransport where
  "new_tcp_server = \<lparr>srv_sock = NoSocket, active_conns = []\<rparr>"

definition tcp_start :: "TCPServerTransport \<Rightarrow> bool \<Rightarrow> py_error + TCPServerTransport" where
  "tcp_start sv bind_ok = (if bind_ok then Inr (sv\<lparr>srv_sock := Listening\<rparr>) else Inl OSError)"

definition tcp_accept :: "TCPServerTransport \<Rightarrow> addr \<Rightarrow> tcp_socket \<Rightarrow> py_error + TCPServerTransport" where
  "tcp_accept sv a conn =
     (case srv_sock sv of
        NoSocket \<Rightarrow> Inl (ConnectionError ''Server not started'')
      | ClosedSocket \<Rightarrow> Inl OSError
      | Listening \<Rightarrow> Inr (sv\<lparr>active_conns := dict_set a conn (active_conns sv)\<rparr>))"

definition receive_exact :: "tcp_socket \<Rightarrow> nat \<Rightarrow> py_error + (bytes \<times> tcp_socket)" where
  "receive_exact conn nbytes =
     (case read_loop (\<lambda>_. ConnectionError ''Connection closed before reading complete message'')
             nbytes [] (inbox conn) of
        Inl e \<Rightarrow> Inl e
      | Inr (buf, cs) \<Rightarrow> Inr (buf, conn\<lparr>inbox := cs\<rparr>))"

text \<open>\<^verbatim>\<open>send\<close>: an unknown peer is logged and ignored, as is a failing socket (\<open>ok\<close> false).\<close>

definition tcp_send :: "TCPServerTransport \<Rightarrow> bytes \<Rightarrow> addr option \<Rightarrow> bool \<Rightarrow> TCPServerTransport" where
  "tcp_send sv data client_addr ok =
     (case client_addr of
        None \<Rightarrow> sv
      | Some a \<Rightarrow>
          (case dict_get (active_conns sv) a of
             None \<Rightarrow> sv
           | Some conn \<Rightarrow> if ok then sv\<lparr>active_conns := dict_set a (sendall conn data) (active_conns sv)\<rparr> else sv))"

definition tcp_close :: "TCPServerTransport \<Rightarrow> TCPServerTransport" where
  "tcp_close sv = (if srv_sock sv = NoSocket then sv else sv\<lparr>srv_sock := ClosedSocket\<rparr>)"

section \<open>Client\<close>

record TCPClient =
  tcp_sock :: "tcp_socket option"

definition tcp_connect :: "TCPClient \<Rightarrow> tcp_socket option \<Rightarrow> py_error + TCPClient" where
  "tcp_connect c result =
     (case result of
        None \<Rightarrow> Inl (ConnectionError ''Failed to connect'')
      | Some s \<Rightarrow> Inr (c\<lparr>tcp_sock := Some s\<rparr>))"

definition client_send_bytes :: "TCPClient \<Rightarrow> bytes \<Rightarrow> bool \<Rightarrow> py_error + TCPClient" where
  "client_send_bytes c data ok =
     (case tcp_sock c of
        None \<Rightarrow> Inl (ConnectionError ''Not connected'')
      | Some s \<Rightarrow> if ok then Inr (c\<lparr>tcp_sock := Some (sendall s data)\<rparr>)
                  else Inl (ConnectionError ''Socket error during send''))"

text \<open>
  A \<^verbatim>\<open>ConnectionError\<close> is a \<^verbatim>\<open>socket.error\<close>: the one raised at the end of the stream is caught by
  the handler below it and raised again with that handler's text.
\<close>

definition client_receive_exact :: "TCPClient \<Rightarrow> nat \<Rightarrow> py_error + (bytes \<times> TCPClient)" where
  "client_receive_exact c nbytes =
     (case tcp_sock c of
        None \<Rightarrow> Inl (ConnectionError ''Not connected'')
      | Some s \<Rightarrow>
          (case read_loop (\<lambda>got. ConnectionError (''Socket error during read: Connection closed mid-read. Expected ''
                     @ string_of_nat nbytes @ '', got '' @ string_of_nat got)) nbytes [] (inbox s) of
             Inl e \<Rightarrow> Inl e
           | Inr (buf, cs) \<Rightarrow> Inr (buf, c\<lparr>tcp_sock := Some (s\<lparr>inbox := cs\<rparr>)\<rparr>)))"

definition client_tcp_close :: "TCPClient \<Rightarrow> TCPClient" where
  "client_tcp_close c = c\<lparr>tcp_sock := None\<rparr>"

definition receive_response :: "TCPClient \<Rightarrow> py_error + ((int \<times> int \<times> int \<times> bytes) \<times> TCPClient)" where
  "receive_response c =
     (case client_receive_exact c HEADER_SIZE of
        Inl e \<Rightarrow> Inl e
      | Inr (header_data, c1) \<Rightarrow>
          (case decode_header header_data of
             Inl e \<Rightarrow> Inl e
           | Inr header \<Rightarrow>
               if payload_len header > MAX_PAYLOAD_LEN
               then Inl (ValueError (''Response payload too large: '' @ string_of_int (payload_len header)))
               else (case client_receive_exact c1 (nat (payload_len header)) of
                       Inl e \<Rightarrow> Inl e
                     | Inr (payload_data, c2) \<Rightarrow>
                         Inr ((opcode header, h_flags header, request_id header, payload_data), c2))))"

section \<open>Lemmas\<close>

text \<open>\<^verbatim>\<open>recv\<close> blocks until at least one byte is there: no chunk is empty.\<close>

definition chunks_ok :: "bytes list \<Rightarrow> bool" where
  "chunks_ok cs \<longleftrightarrow> list_all (\<lambda>c. c \<noteq> []) cs"

lemma recv_props:
  assumes "recv n cs = (chunk, cs')" "chunks_ok cs" "0 < n"
  shows "concat cs = chunk @ concat cs'" "length chunk \<le> n" "chunks_ok cs'"
    "chunk = [] \<longleftrightarrow> concat cs = []"
  using assms by (cases cs; auto simp: chunks_ok_def split: if_splits)+

lemma read_loop_props:
  assumes "chunks_ok cs" "length buf \<le> n"
  shows "if n \<le> length buf + length (concat cs)
    then \<exists>cs'. read_loop eof n buf cs = Inr (buf @ take (n - length buf) (concat cs), cs') \<and>
           concat cs' = drop (n - length buf) (concat cs) \<and> chunks_ok cs'
    else read_loop eof n buf cs = Inl (eof (length buf + length (concat cs)))"
  using assms
proof (induction eof n buf cs rule: read_loop.induct)
  case (1 eof n buf cs)
  show ?case
  proof (cases "length buf < n")
    case False
    then show ?thesis using 1 by (auto simp: read_loop.simps [of eof n buf cs])
  next
    case True
    obtain chunk cs' where r: "recv (n - length buf) cs = (chunk, cs')" by fastforce
    have pos: "0 < n - length buf" using True by simp
    note rp = recv_props [OF r "1.prems"(1) pos]
    have eq: "read_loop eof n buf cs = (if chunk = [] then Inl (eof (length buf))
        else read_loop eof n (buf @ chunk) cs')"
      using True r by (simp add: read_loop.simps [of eof n buf cs])
    show ?thesis
    proof (cases "chunk = []")
      case c: True
      have e: "concat cs = []" using rp(4) c by blast
      show ?thesis using True eq c by (simp add: e)
    next
      case c: False
      have "length (buf @ chunk) \<le> n" using rp(2) True by simp
      with "1.IH" [OF True r [symmetric] refl c rp(3)] have
        IH: "if n \<le> length (buf @ chunk) + length (concat cs')
          then \<exists>cs2. read_loop eof n (buf @ chunk) cs' = Inr ((buf @ chunk) @ take (n - length (buf @ chunk)) (concat cs'), cs2) \<and>
             concat cs2 = drop (n - length (buf @ chunk)) (concat cs') \<and> chunks_ok cs2
          else read_loop eof n (buf @ chunk) cs' = Inl (eof (length (buf @ chunk) + length (concat cs')))"
        by blast
      have "take (n - length buf) (concat cs) = chunk @ take (n - length (buf @ chunk)) (concat cs')"
        "drop (n - length buf) (concat cs) = drop (n - length (buf @ chunk)) (concat cs')"
        "length buf + length (concat cs) = length (buf @ chunk) + length (concat cs')"
        using rp(1,2) by simp_all
      with IH eq c show ?thesis by (simp add: add.assoc split: if_splits)
    qed
  qed
qed

lemma client_receive_exact_ok:
  assumes "tcp_sock c = Some s" "chunks_ok (inbox s)" "n \<le> length (concat (inbox s))"
  shows "\<exists>c' s'. client_receive_exact c n = Inr (take n (concat (inbox s)), c') \<and>
    tcp_sock c' = Some s' \<and> concat (inbox s') = drop n (concat (inbox s)) \<and> chunks_ok (inbox s')"
proof -
  let ?e = "\<lambda>got. ConnectionError (''Socket error during read: Connection closed mid-read. Expected '' @ string_of_nat n
      @ '', got '' @ string_of_nat got)"
  obtain cs' where "read_loop ?e n [] (inbox s) = Inr (take n (concat (inbox s)), cs')"
    "concat cs' = drop n (concat (inbox s))" "chunks_ok cs'"
    using read_loop_props [OF assms(2), of "[]" n ?e] assms(3) by auto
  then show ?thesis using assms(1) by (simp add: client_receive_exact_def)
qed

section \<open>Properties\<close>

text \<open>
  Reading exactly \<open>n\<close> bytes from a connection does not depend on how the stream was cut: the
  result is the next \<open>n\<close> bytes and the rest of the stream stays unread; if the peer closes before
  \<open>n\<close> bytes have come, the result is a \<^verbatim>\<open>ConnectionError\<close>, never a short read.
\<close>

theorem receive_exact_chunk_independent:
  assumes "chunks_ok (inbox conn)"
  shows "if n \<le> length (concat (inbox conn))
    then \<exists>conn'. receive_exact conn n = Inr (take n (concat (inbox conn)), conn') \<and>
           concat (inbox conn') = drop n (concat (inbox conn)) \<and> outbox conn' = outbox conn
    else receive_exact conn n = Inl (ConnectionError ''Connection closed before reading complete message'')"
  using read_loop_props [OF assms, of "[]" n "\<lambda>_. ConnectionError ''Connection closed before reading complete message''"]
  by (auto simp: receive_exact_def split: if_splits)

theorem receive_exact_chunk_independent_witness:
  "\<exists>conn'. receive_exact \<lparr>inbox = [[1, 2], [3, 4, 5]], outbox = []\<rparr> 3 = Inr ([1, 2, 3], conn') \<and>
     concat (inbox conn') = [4, 5]"
proof -
  have "chunks_ok (inbox \<lparr>inbox = [[1, 2], [3, 4, 5]], outbox = []\<rparr>)" by (simp add: chunks_ok_def)
  from receive_exact_chunk_independent [OF this, of 3] show ?thesis by auto
qed

text \<open>
  Framing: when the bytes in front of the client are an encoded message followed by anything,
  in whatever chunks they arrive, \<^verbatim>\<open>receive_response\<close> returns the opcode, flags, request id
  and payload of that message and leaves exactly what follows it unread.
\<close>

theorem receive_response_framing:
  assumes "encode_message op fl rid pl None = Inr m"
    and "tcp_sock c = Some s" "chunks_ok (inbox s)" "concat (inbox s) = m @ rest"
  shows "\<exists>c' s'. receive_response c = Inr ((op, fl, rid, pl), c') \<and> tcp_sock c' = Some s' \<and>
    concat (inbox s') = rest"
proof -
  obtain d where d: "m = d @ pl" "length d = 12" "decode_header d = Inr \<lparr>version = PROTOCOL_VERSION,
      opcode = op, h_flags = fl, reserved = 0, request_id = rid, payload_len = int (length pl)\<rparr>"
    using encode_message_ok [OF assms(1)] by auto
  have "payload_len \<lparr>version = PROTOCOL_VERSION, opcode = op, h_flags = fl, reserved = 0,
      request_id = rid, payload_len = int (length pl)\<rparr> \<le> MAX_PAYLOAD_LEN"
    using decode_header_ok(1) [OF d(3)] by (simp add: header_ok_def)
  then have le: "\<not> MAX_PAYLOAD_LEN < int (length pl)" by simp
  have st: "concat (inbox s) = d @ pl @ rest" using assms(4) d(1) by simp
  obtain c1 s1 where c1: "client_receive_exact c HEADER_SIZE = Inr (d, c1)" "tcp_sock c1 = Some s1"
      "concat (inbox s1) = pl @ rest" "chunks_ok (inbox s1)"
    using client_receive_exact_ok [OF assms(2,3), of HEADER_SIZE] st d(2) by (auto simp: HEADER_SIZE_eq)
  obtain c2 s2 where c2: "client_receive_exact c1 (length pl) = Inr (pl, c2)" "tcp_sock c2 = Some s2"
      "concat (inbox s2) = rest"
    using client_receive_exact_ok [OF c1(2,4), of "length pl"] c1(3) by auto
  show ?thesis using c1(1) c2 le by (simp add: receive_response_def d(3))
qed

theorem receive_response_framing_witness:
  "\<exists>m c' s'. encode_message OP_PONG 0 12345 [80] None = Inr m \<and>
     receive_response \<lparr>tcp_sock = Some \<lparr>inbox = [take 5 m, drop 5 m @ [9]], outbox = []\<rparr>\<rparr> =
       Inr ((OP_PONG, 0, 12345, [80]), c') \<and> tcp_sock c' = Some s' \<and> concat (inbox s') = [9]"
proof -
  let ?h = "\<lparr>version = PROTOCOL_VERSION, opcode = OP_PONG, h_flags = 0, reserved = 0, request_id = 12345,
      payload_len = 1\<rparr>"
  have "header_ok ?h"
    by (simp add: header_ok_def OP_PONG_def MAX_PAYLOAD_LEN_def MAX_FILE_SIZE_def)
  then obtain d where "header_bytes ?h = Inr d" "length d = 12" using header_bytes_ok by blast
  then have m: "encode_message OP_PONG 0 12345 [80] None = Inr (d @ [80])" and len: "length d = 12"
    by (simp_all add: encode_message_def header_bytes_def)
  define s where "s = \<lparr>inbox = [take 5 (d @ [80]), drop 5 (d @ [80]) @ [9]], outbox = []\<rparr>"
  have "chunks_ok (inbox s)" "concat (inbox s) = (d @ [80]) @ [9]"
    using len by (auto simp: chunks_ok_def s_def)
  then obtain c' s' where "receive_response \<lparr>tcp_sock = Some s\<rparr> = Inr ((OP_PONG, 0, 12345, [80]), c')"
      "tcp_sock c' = Some s'" "concat (inbox s') = [9]"
    using receive_response_framing [OF m, of "\<lparr>tcp_sock = Some s\<rparr>" s] by auto
  then show ?thesis using m unfolding s_def by blast
qed

end
