(* ===== verification/AgentServer.thy ===== *)
theory AgentServer
  imports ToolDispatcher ResponseBuilder TcpTransport
begin

text \<open>
  The agent server: the task handler \<^verbatim>\<open>src/server/agent/handlers/task.py\<close>, the dispatcher
  \<^verbatim>\<open>src/server/agent/dispatcher.py\<close> with its mapping from exceptions to status codes, and the
  request pipeline \<^verbatim>\<open>src/server/agent_server.py\<close> over both transports. Requests are processed
  one at a time, as the receiving threads do. Shown: no request changes a file outside the sandbox;
  a repeated request is answered from the cache without effect; every decodable request within the
  limits gets exactly one response that carries its opcode and identifier; the cache of task answers
  does not tell clients apart.
\<close>

section \<open>State\<close>

record AgentServer =
  policy_guard :: PolicyGuard
  sandbox_disk :: disk
  session_manager :: UploadSessionManager
  idempotency_cache :: IdempotencyCache

definition new_AgentServer :: "string \<Rightarrow> string \<Rightarrow> int \<Rightarrow> disk \<Rightarrow> AgentServer" where
  "new_AgentServer wd rdir n d =
     (let g = make_PolicyGuard wd rdir
      in \<lparr>policy_guard = g,
          sandbox_disk = (if os_exists d (sandbox_root g) then d else fst (makedirs n d (sandbox_root g))),
          session_manager = new_manager STRICT 300, idempotency_cache = []\<rparr>)"

section \<open>handle\_task\<close>

text \<open>
  The context: a request that comes through the dispatcher has no address, so its client is
  \<^verbatim>\<open>default_client\<close>. The size that the planner uses is that of the path as sent, relative to the
  working directory (resolved lexically here), not of the path in the sandbox.
\<close>

definition task_client_id :: "addr option \<Rightarrow> string" where
  "task_client_id client_address =
     (case client_address of None \<Rightarrow> ''default_client'' | Some (ip, port) \<Rightarrow> ip @ '':'' @ string_of_int port)"

definition stat_input :: "AgentServer \<Rightarrow> (string, json) dict \<Rightarrow> py_error + int option" where
  "stat_input sv task_data =
     (case dict_get task_data ''input_file'' of
        None \<Rightarrow> Inr None
      | Some path \<Rightarrow>
          ebind (validate_any (policy_guard sv) path) (\<lambda>_.
            case path of
              JStr s \<Rightarrow>
                (let p = abspath (cwd (policy_guard sv)) s
                 in if os_exists (sandbox_disk sv) p
                    then ebind (os_getsize (sandbox_disk sv) p) (\<lambda>n. Inr (Some n)) else Inr None)
            | _ \<Rightarrow> Inl TypeError))"

definition parse_task :: "bytes \<Rightarrow> py_error + (string, json) dict" where
  "parse_task pl =
     ebind (parse_json_payload pl) (\<lambda>v.
       case v of JDict kvs \<Rightarrow> Inr kvs | _ \<Rightarrow> Inl (ValueError ''Payload must be a JSON object''))"

definition handle_task ::
  "env \<Rightarrow> (string \<Rightarrow> string \<Rightarrow> string) \<Rightarrow> AgentServer \<Rightarrow> AppHeader \<Rightarrow> bytes \<Rightarrow> addr option
    \<Rightarrow> AgentServer \<times> (py_error + handler_result)" where
  "handle_task ev et sv header pl client_address =
     (case parse_task pl of
        Inl e \<Rightarrow> (sv, Inl e)
      | Inr task_data \<Rightarrow>
          (let cid = task_client_id client_address;
               key = (cid, request_id header, opcode header);
               (cached_result, cache1) = get_response (idempotency_cache sv) key (now ev);
               sv1 = sv\<lparr>idempotency_cache := cache1\<rparr>
           in case cached_result of
                Some (b # bs) \<Rightarrow> (sv1, Inr (Response (b # bs)))
              | _ \<Rightarrow>
                  (case ebind (stat_input sv1 task_data) (\<lambda>fsize.
                          build_plan ev et (opcode header) task_data
                            \<lparr>client_id = cid, req_id = string_of_int (request_id header), file_size = fsize,
                             has_plan = True\<rparr>) of
                     Inl e \<Rightarrow> (sv1, Inl e)
                   | Inr plan \<Rightarrow>
                       (case execute_plan ev (policy_guard sv1) (sandbox_disk sv1) plan of
                          (d', Inl e) \<Rightarrow> (sv1\<lparr>sandbox_disk := d'\<rparr>, Inl e)
                        | (d', Inr result) \<Rightarrow>
                            (let sv2 = sv1\<lparr>sandbox_disk := d'\<rparr>
                             in case build_response (opcode header) (request_id header) (code_value OK)
                                       (JDict result) None None of
                                  Inl e \<Rightarrow> (sv2, Inl e)
                                | Inr response_bytes \<Rightarrow>
                                    (if side_effects plan
                                     then sv2\<lparr>idempotency_cache :=
                                            store_response (idempotency_cache sv2) key response_bytes (now ev)\<rparr>
                                     else sv2, Inr (Response response_bytes)))))))"

section \<open>Dispatcher\<close>

definition run_handler ::
  "env \<Rightarrow> (string \<Rightarrow> string \<Rightarrow> string) \<Rightarrow> AgentServer \<Rightarrow> AppHeader \<Rightarrow> bytes \<Rightarrow> addr option
    \<Rightarrow> (AgentServer \<times> (py_error + handler_result)) option" where
  "run_handler ev et sv header pl client_address =
     (let op = opcode header; g = policy_guard sv; d = sandbox_disk sv; m = session_manager sv
      in if op = OP_LIST then Some (sv, handle_list ev g d)
         else if op = OP_PUT_META
         then (let (d', m', r) = handle_put_meta ev g d m pl
               in Some (sv\<lparr>sandbox_disk := d', session_manager := m'\<rparr>, r))
         else if op = OP_PUT_CHUNK
         then (let (d', m', r) = handle_put_chunk ev g d m pl
               in Some (sv\<lparr>sandbox_disk := d', session_manager := m'\<rparr>, r))
         else if op = OP_GET then Some (sv, handle_get g d pl)
         else if op = OP_APPEND
         then (let (d', r) = handle_append ev g d pl in Some (sv\<lparr>sandbox_disk := d'\<rparr>, r))
         else if op \<in> {OP_TASK_SEARCH_REPORT, OP_TASK_FILTER_LINES, OP_TASK_HASH_AND_STORE}
         then Some (handle_task ev et sv header pl client_address)
         else None)"

text \<open>The status code and message of an exception.\<close>

definition value_error_code :: "string \<Rightarrow> ErrorCode" where
  "value_error_code text =
     (let msg = ascii_lower text
      in if contains ''traversal'' msg \<or> contains ''not allowed'' msg then FORBIDDEN
         else if contains ''too large'' msg \<or> contains ''exceeds'' msg then PAYLOAD_TOO_LARGE
         else BAD_REQUEST)"

fun is_FileNotFoundError :: "py_error \<Rightarrow> bool" where
  "is_FileNotFoundError (FileNotFoundError _) = True"
| "is_FileNotFoundError (NoSuchFile _) = True"
| "is_FileNotFoundError _ = False"

definition error_status :: "env \<Rightarrow> py_error \<Rightarrow> ErrorCode \<times> string" where
  "error_status ev e =
     (if is_FileNotFoundError e then (NOT_FOUND, err_str ev e)
      else if is_ValueError e then (value_error_code (err_str ev e), err_str ev e)
      else (INTERNAL_SERVER_ERROR, ''Internal Server Error''))"

definition dispatch ::
  "env \<Rightarrow> (string \<Rightarrow> string \<Rightarrow> string) \<Rightarrow> AgentServer \<Rightarrow> AppHeader \<Rightarrow> bytes \<Rightarrow> addr option
    \<Rightarrow> AgentServer \<times> (py_error + bytes)" where
  "dispatch ev et sv header pl client_address =
     (let failure = (\<lambda>e. build_error_response (opcode header) (request_id header)
                           (code_value (fst (error_status ev e))) (snd (error_status ev e)))
      in case run_handler ev et sv header pl client_address of
           None \<Rightarrow> (sv, build_error_response (opcode header) (request_id header) (code_value BAD_REQUEST)
                         (''Unknown Opcode: '' @ string_of_int (opcode header)))
         | Some (sv', Inl e) \<Rightarrow> (sv', failure e)
         | Some (sv', Inr (Response bs)) \<Rightarrow> (sv', Inr bs)
         | Some (sv', Inr (Result result_data binary_content)) \<Rightarrow>
             (sv', case build_response (opcode header) (request_id header) (code_value OK)
                          (JDict result_data) None binary_content of
                     Inr bs \<Rightarrow> Inr bs
                   | Inl e \<Rightarrow> failure e))"

section \<open>AgentServer\<close>

definition process_request ::
  "env \<Rightarrow> (string \<Rightarrow> string \<Rightarrow> string) \<Rightarrow> AgentServer \<Rightarrow> string \<Rightarrow> bytes \<Rightarrow> AgentServer \<times> bytes" where
  "process_request ev et sv cid data =
     (if data = [] then (sv, [])
      else case decode_header (take 12 data) of
        Inl e \<Rightarrow> (sv, [])
      | Inr header \<Rightarrow>
          (let pl = drop 12 data
           in if int (length pl) \<noteq> payload_len header then (sv, [])
              else (let key = (cid, request_id header, opcode header);
                        (cached_response, cache1) = get_response (idempotency_cache sv) key (now ev);
                        sv1 = sv\<lparr>idempotency_cache := cache1\<rparr>
                    in case cached_response of
                         Some (b # bs) \<Rightarrow> (sv1, b # bs)
                       | _ \<Rightarrow>
                           (case dispatch ev et sv1 header pl None of
                              (sv2, Inl e) \<Rightarrow> (sv2, [])
                            | (sv2, Inr response_bytes) \<Rightarrow>
                                (sv2\<lparr>idempotency_cache :=
                                       store_response (idempotency_cache sv2) key response_bytes (now ev)\<rparr>,
                                 response_bytes)))))"

definition client_name :: "addr \<Rightarrow> string" where
  "client_name a = fst a @ '':'' @ string_of_int (snd a)"

text \<open>\<^verbatim>\<open>_on_udp_message\<close>: the call of \<^verbatim>\<open>transport.send\<close>, if any, with its request identifier.\<close>

definition on_udp_message ::
  "env \<Rightarrow> (string \<Rightarrow> string \<Rightarrow> string) \<Rightarrow> AgentServer \<Rightarrow> bytes \<Rightarrow> addr \<Rightarrow> AgentServer \<times> (bytes \<times> int) option" where
  "on_udp_message ev et sv data client_addr =
     (if length data < HEADER_SIZE then (sv, None)
      else case decode_header (take HEADER_SIZE data) of
        Inl e \<Rightarrow> (sv, None)
      | Inr header \<Rightarrow>
          (let (sv', response) = process_request ev et sv (client_name client_addr) data
           in (sv', if response = [] then None else Some (response, request_id header))))"

text \<open>
  \<^verbatim>\<open>_handle_connection\<close>: the loop ends when the peer closes the connection or sends a bad
  header. The environment of the \<open>i\<close>-th request is \<open>evs i\<close>; the result lists the
  responses sent.
\<close>

definition read_message :: "tcp_socket \<Rightarrow> (AppHeader \<times> bytes \<times> tcp_socket) option" where
  "read_message conn =
     (case receive_exact conn HEADER_SIZE of
        Inl e \<Rightarrow> None
      | Inr (hb, conn1) \<Rightarrow>
          (case decode_header hb of
             Inl e \<Rightarrow> None
           | Inr header \<Rightarrow>
               (case receive_exact conn1 (nat (payload_len header)) of
                  Inl e \<Rightarrow> None
                | Inr (pl, conn2) \<Rightarrow> Some (header, hb @ pl, conn2))))"

lemma read_loop_consumes:
  "read_loop eof n buf cs = Inr (out, cs') \<Longrightarrow> length buf \<le> n \<Longrightarrow>
   length (concat cs) + length buf = length (concat cs') + n"
proof (induction eof n buf cs arbitrary: out cs' rule: read_loop.induct)
  case (1 eof n buf cs)
  show ?case
  proof (cases "length buf < n")
    case True
    obtain chunk ds where r: "recv (n - length buf) cs = (chunk, ds)" by fastforce
    have "length (concat cs) = length chunk + length (concat ds)" "length chunk \<le> n - length buf"
      using r True by (cases cs; auto split: if_splits)+
    moreover have "chunk \<noteq> []" "read_loop eof n (buf @ chunk) ds = Inr (out, cs')"
      using 1(2) True r by (auto simp: read_loop.simps [of eof n buf cs] split: if_splits)
    ultimately show ?thesis using 1(1) [OF True r [symmetric] refl] True by fastforce
  qed (use 1 in \<open>auto simp: read_loop.simps [of eof n buf cs]\<close>)
qed

lemma receive_exact_consumes:
  "receive_exact conn n = Inr (out, conn') \<Longrightarrow> length (concat (inbox conn)) = length (concat (inbox conn')) + n"
  by (auto simp: receive_exact_def dest!: read_loop_consumes split: sum.splits)

lemma read_message_consumes:
  assumes "read_message conn = Some (header, msg, conn')"
  shows "length (concat (inbox conn')) < length (concat (inbox conn))"
proof -
  obtain hb conn1 pl where "receive_exact conn HEADER_SIZE = Inr (hb, conn1)"
    "receive_exact conn1 (nat (payload_len header)) = Inr (pl, conn')"
    using assms by (auto simp: read_message_def split: sum.splits)
  from receive_exact_consumes [OF this(1)] receive_exact_consumes [OF this(2)]
  show ?thesis by (simp add: HEADER_SIZE_eq)
qed

function handle_connection ::
  "(nat \<Rightarrow> env) \<Rightarrow> (string \<Rightarrow> string \<Rightarrow> string) \<Rightarrow> nat \<Rightarrow> AgentServer \<Rightarrow> addr \<Rightarrow> tcp_socket \<Rightarrow> AgentServer \<times> bytes list" where
  "handle_connection evs et i sv a conn =
     (case read_message conn of
        None \<Rightarrow> (sv, [])
      | Some (header, full_message, conn') \<Rightarrow>
          (let (sv', response) = process_request (evs i) et sv (client_name a) full_message;
               (sv'', rest) = handle_connection evs et (i + 1) sv' a conn'
           in (sv'', if response = [] then rest else response # rest)))"
  by pat_completeness auto
termination
  by (relation "measure (\<lambda>(evs, et, i, sv, a, conn). length (concat (inbox conn)))")
     (auto dest: read_message_consumes)

declare handle_connection.simps [simp del]

section \<open>Confinement\<close>

lemma handle_task_effects:
  assumes "clean_abs (sandbox_root (policy_guard sv))" "digest_ascii ev"
  shows "policy_guard (fst (handle_task ev et sv h pl a)) = policy_guard sv"
    and "same_outside (sandbox_root (policy_guard sv)) (sandbox_disk sv) (sandbox_disk (fst (handle_task ev et sv h pl a)))"
proof -
  have "same_outside (sandbox_root (policy_guard sv)) (sandbox_disk sv) d'"
    if "execute_plan ev (policy_guard sv) (sandbox_disk sv) plan = (d', r)" "build_plan ev et (opcode h) td c = Inr plan"
    for plan d' r td c
    using execute_plan_outside [OF assms build_plan_well_typed [OF that(2)], of "sandbox_disk sv"] that(1) by simp
  then show "policy_guard (fst (handle_task ev et sv h pl a)) = policy_guard sv"
    and "same_outside (sandbox_root (policy_guard sv)) (sandbox_disk sv) (sandbox_disk (fst (handle_task ev et sv h pl a)))"
    by (auto simp: handle_task_def Let_def error_simps split: sum.splits prod.splits option.splits list.splits)
qed

lemma run_handler_effects:
  assumes "clean_abs (sandbox_root (policy_guard sv))" "digest_ascii ev" "run_handler ev et sv h pl a = Some (sv', r)"
  shows "policy_guard sv' = policy_guard sv \<and>
    same_outside (sandbox_root (policy_guard sv)) (sandbox_disk sv) (sandbox_disk sv')"
proof -
  let ?g = "policy_guard sv" and ?d = "sandbox_disk sv" and ?m = "session_manager sv"
  note o = handle_put_meta_outside [OF assms(1), of ?d ev ?m pl] handle_put_chunk_outside [OF assms(1), of ?d ev ?m pl]
    handle_append_outside [OF assms(1), of ?d ev pl]
  show ?thesis
    using assms(3) o handle_task_effects [OF assms(1,2), of et h pl a]
    by (auto simp: run_handler_def Let_def split: if_splits prod.splits)
qed

lemma dispatch_effects:
  assumes "clean_abs (sandbox_root (policy_guard sv))" "digest_ascii ev"
  shows "policy_guard (fst (dispatch ev et sv h pl a)) = policy_guard sv \<and>
    same_outside (sandbox_root (policy_guard sv)) (sandbox_disk sv) (sandbox_disk (fst (dispatch ev et sv h pl a)))"
proof (cases "run_handler ev et sv h pl a")
  case (Some x)
  obtain sv' r where x: "x = (sv', r)" by (cases x)
  show ?thesis using run_handler_effects [OF assms, of et h pl a sv' r] Some x
    by (simp add: dispatch_def Let_def split: sum.split handler_result.split)
qed (simp add: dispatch_def Let_def)

lemma process_request_effects:
  assumes "clean_abs (sandbox_root (policy_guard sv))" "digest_ascii ev"
  shows "policy_guard (fst (process_request ev et sv cid data)) = policy_guard sv \<and>
    same_outside (sandbox_root (policy_guard sv)) (sandbox_disk sv) (sandbox_disk (fst (process_request ev et sv cid data)))"
proof -
  have "policy_guard (fst (dispatch ev et (sv\<lparr>idempotency_cache := c\<rparr>) h pl a)) = policy_guard sv \<and>
    same_outside (sandbox_root (policy_guard sv)) (sandbox_disk sv)
      (sandbox_disk (fst (dispatch ev et (sv\<lparr>idempotency_cache := c\<rparr>) h pl a)))" for c h pl a
    using dispatch_effects [of "sv\<lparr>idempotency_cache := c\<rparr>" ev et h pl a] assms by simp
  then show ?thesis
    by (auto simp: process_request_def Let_def split: sum.splits prod.splits option.splits list.splits)
       (metis fst_conv)+
qed

section \<open>Answers\<close>

text \<open>An envelope that answers a request: same identifier and opcode, and a correct length.\<close>

definition answers :: "int \<Rightarrow> int \<Rightarrow> bytes \<Rightarrow> bool" where
  "answers rid op r \<longleftrightarrow> (\<exists>h. 12 \<le> length r \<and> decode_header (take 12 r) = Inr h \<and> request_id h = rid \<and>
     opcode h = op \<and> h_flags h = 0 \<and> payload_len h = int (length (drop 12 r)))"

definition cache_ok :: "IdempotencyCache \<Rightarrow> bool" where
  "cache_ok c \<longleftrightarrow> (\<forall>cid rid op e. dict_get c (cid, rid, op) = Some e \<longrightarrow> answers rid op (response_data e))"

lemma build_response_answers: "build_response op rid st data err bin = Inr r \<Longrightarrow> answers rid op r"
  by (auto simp: build_response_def error_simps answers_def elim!: encode_message_ok)

lemma build_error_response_answers: "build_error_response op rid st msg = Inr r \<Longrightarrow> answers rid op r"
  by (auto simp: build_error_response_def dest: build_response_answers)

lemma get_response_cache_ok:
  assumes "cache_ok c" "get_response c (cid, rid, op) t = (r, c')"
  shows "cache_ok c'" "\<And>bs. r = Some bs \<Longrightarrow> answers rid op bs"
  using assms by (auto simp: get_response_def cache_ok_def dict_simps split: option.splits if_splits)

lemma store_response_cache_ok: "cache_ok c \<Longrightarrow> answers rid op bs \<Longrightarrow> cache_ok (store_response c (cid, rid, op) bs t)"
  by (auto simp: store_response_def cache_ok_def dict_simps)

lemma handle_task_answers:
  assumes "cache_ok (idempotency_cache sv)" "handle_task ev et sv h pl a = (sv', r)"
  shows "cache_ok (idempotency_cache sv') \<and>
    (\<forall>x. r = Inr x \<longrightarrow> (\<exists>bs. x = Response bs \<and> answers (request_id h) (opcode h) bs))"
proof (cases "parse_task pl")
  case (Inl e) then show ?thesis using assms by (auto simp: handle_task_def)
next
  case (Inr td)
  obtain cr c1 where g: "get_response (idempotency_cache sv) (task_client_id a, request_id h, opcode h) (now ev) = (cr, c1)"
    by fastforce
  note ok = get_response_cache_ok [OF assms(1) g]
  show ?thesis
    using assms(2) Inr g ok build_response_answers store_response_cache_ok
    by (auto simp: handle_task_def Let_def split: option.splits list.splits sum.splits prod.splits if_splits)
qed

lemma dispatch_answers:
  assumes "cache_ok (idempotency_cache sv)" "dispatch ev et sv h pl a = (sv', r)"
  shows "cache_ok (idempotency_cache sv') \<and> (\<forall>bs. r = Inr bs \<longrightarrow> answers (request_id h) (opcode h) bs)"
proof (cases "run_handler ev et sv h pl a")
  case None
  then show ?thesis using assms build_error_response_answers by (auto simp: dispatch_def Let_def)
next
  case (Some x)
  obtain sv1 q where x: "x = (sv1, q)" by (cases x)
  have q: "cache_ok (idempotency_cache sv1)" "\<And>bs. q = Inr (Response bs) \<Longrightarrow> answers (request_id h) (opcode h) bs"
  proof -
    have "(handle_task ev et sv h pl a = (sv1, q)) \<or>
        (idempotency_cache sv1 = idempotency_cache sv \<and> (\<forall>bs. q \<noteq> Inr (Response bs)))"
      using Some x
      by (auto simp: run_handler_def Let_def handle_list_def handle_put_meta_def handle_put_chunk_def handle_get_def
          handle_append_def error_simps split: if_splits prod.splits sum.splits option.splits)
    then show "cache_ok (idempotency_cache sv1)" "\<And>bs. q = Inr (Response bs) \<Longrightarrow> answers (request_id h) (opcode h) bs"
      using handle_task_answers [OF assms(1), of ev et h pl a sv1 q] assms(1) by auto
  qed
  show ?thesis
    using assms(2) Some x q build_response_answers build_error_response_answers
    by (auto simp: dispatch_def Let_def split: sum.splits handler_result.splits)
qed

lemma process_request_answers:
  assumes "cache_ok (idempotency_cache sv)" "process_request ev et sv cid data = (sv', r)"
  shows "cache_ok (idempotency_cache sv') \<and>
    (r \<noteq> [] \<longrightarrow> (\<exists>h. decode_header (take 12 data) = Inr h \<and> answers (request_id h) (opcode h) r))"
proof (cases "\<exists>h. data \<noteq> [] \<and> decode_header (take 12 data) = Inr h")
  case False
  then have "process_request ev et sv cid data = (sv, [])"
    by (cases "decode_header (take 12 data)") (auto simp: process_request_def)
  then show ?thesis using assms by auto
next
  case True
  then obtain h where h: "data \<noteq> []" "decode_header (take 12 data) = Inr h" by blast
  obtain cr c1 where g: "get_response (idempotency_cache sv) (cid, request_id h, opcode h) (now ev) = (cr, c1)" by fastforce
  note ok = get_response_cache_ok [OF assms(1) g]
  obtain sv2 q where d: "dispatch ev et (sv\<lparr>idempotency_cache := c1\<rparr>) h (drop 12 data) None = (sv2, q)" by fastforce
  have dk: "cache_ok (idempotency_cache sv2)" "\<And>bs. q = Inr bs \<Longrightarrow> answers (request_id h) (opcode h) bs"
    using dispatch_answers [OF _ d] ok(1) by auto
  show ?thesis
    using assms h g ok d dk store_response_cache_ok
    by (auto simp: process_request_def Let_def split: if_splits option.splits list.splits sum.splits)
qed

section \<open>The server as a transition system\<close>

text \<open>
  One step is one request, from any client, with any bytes and in any environment whose hash
  function gives ASCII digests; both transports call \<^const>\<open>process_request\<close> for it.
\<close>

inductive server_step :: "AgentServer \<Rightarrow> AgentServer \<Rightarrow> bool" where
  request: "digest_ascii ev \<Longrightarrow> server_step sv (fst (process_request ev et sv cid data))"

inductive_cases server_stepE: "server_step sv sv'"

definition server_inv :: "string \<Rightarrow> string \<Rightarrow> disk \<Rightarrow> AgentServer \<Rightarrow> bool" where
  "server_inv wd rdir d sv \<longleftrightarrow> starts_slash wd \<and> policy_guard sv = make_PolicyGuard wd rdir \<and>
     same_outside (sandbox_root (policy_guard sv)) d (sandbox_disk sv) \<and> cache_ok (idempotency_cache sv)"

lemma server_inv_clean: "server_inv wd rdir d sv \<Longrightarrow> clean_abs (sandbox_root (policy_guard sv))"
  using make_PolicyGuard_root(1) by (auto simp: server_inv_def)

interpretation agent_system: invariant_system
  "\<lambda>sv. starts_slash wd \<and> sv = new_AgentServer wd rdir n d" server_step "server_inv wd rdir d" for wd rdir n d
proof unfold_locales
  fix sv assume "starts_slash wd \<and> sv = new_AgentServer wd rdir n d"
  then show "server_inv wd rdir d sv"
    using same_outside_makedirs
    by (auto simp: server_inv_def new_AgentServer_def Let_def cache_ok_def)
next
  fix sv sv' assume inv: "server_inv wd rdir d sv" and "server_step sv sv'"
  then obtain ev et cid data where st: "digest_ascii ev" "sv' = fst (process_request ev et sv cid data)"
    by (auto elim: server_stepE)
  note eff = process_request_effects [OF server_inv_clean [OF inv] st(1), of et cid data]
  have "cache_ok (idempotency_cache sv')"
    using process_request_answers [of sv ev et cid data] inv st(2) by (metis server_inv_def prod.collapse)
  then show "server_inv wd rdir d sv'"
    using inv eff st(2) same_outside_trans by (auto simp: server_inv_def)
qed

lemma reachable_server_inv:
  "starts_slash wd \<Longrightarrow> server_step\<^sup>*\<^sup>* (new_AgentServer wd rdir n d) sv \<Longrightarrow> server_inv wd rdir d sv"
  using agent_system.reachable_inv by blast

section \<open>At most once\<close>

definition request_key_of :: "string \<Rightarrow> bytes \<Rightarrow> request_key option" where
  "request_key_of cid data =
     (case decode_header (take 12 data) of Inl _ \<Rightarrow> None | Inr h \<Rightarrow> Some (cid, request_id h, opcode h))"

definition server_run ::
  "(string \<Rightarrow> string \<Rightarrow> string) \<Rightarrow> AgentServer \<Rightarrow> (env \<times> string \<times> bytes) list \<Rightarrow> AgentServer" where
  "server_run et sv reqs = foldl (\<lambda>sv (ev, cid, data). fst (process_request ev et sv cid data)) sv reqs"

lemma get_response_frame: "key \<noteq> k \<Longrightarrow> dict_get (snd (get_response c k t)) key = dict_get c key"
  by (auto simp: get_response_def dict_simps split: option.split)

lemma store_response_frame: "key \<noteq> k \<Longrightarrow> dict_get (store_response c k bs t) key = dict_get c key"
  by (simp add: store_response_def dict_simps)

lemma handle_task_cache_frame:
  assumes "key \<noteq> (task_client_id a, request_id h, opcode h)"
  shows "dict_get (idempotency_cache (fst (handle_task ev et sv h pl a))) key = dict_get (idempotency_cache sv) key"
proof (cases "parse_task pl")
  case (Inr td)
  obtain cr c1 where g: "get_response (idempotency_cache sv) (task_client_id a, request_id h, opcode h) (now ev) = (cr, c1)"
    by fastforce
  have c1: "dict_get c1 key = dict_get (idempotency_cache sv) key"
    using get_response_frame [OF assms, of "idempotency_cache sv" "now ev"] g by simp
  show ?thesis
    using c1 store_response_frame [OF assms]
    by (auto simp: handle_task_def Let_def Inr g split: option.split list.split sum.split prod.split)
qed (simp add: handle_task_def)

lemma run_handler_cache_frame:
  assumes "run_handler ev et sv h pl None = Some (sv', r)" "fst key \<noteq> ''default_client''"
  shows "dict_get (idempotency_cache sv') key = dict_get (idempotency_cache sv) key"
proof -
  have "key \<noteq> (task_client_id None, request_id h, opcode h)" using assms(2) by (auto simp: task_client_id_def)
  from handle_task_cache_frame [OF this, of ev et sv pl] show ?thesis
    using assms(1) by (auto simp: run_handler_def Let_def split: if_splits prod.splits)
qed

lemma dispatch_cache_frame:
  assumes "fst key \<noteq> ''default_client''"
  shows "dict_get (idempotency_cache (fst (dispatch ev et sv h pl None))) key = dict_get (idempotency_cache sv) key"
proof (cases "run_handler ev et sv h pl None")
  case (Some x)
  obtain sv' r where x: "x = (sv', r)" by (cases x)
  show ?thesis using run_handler_cache_frame [OF _ assms, of ev et sv h pl sv' r] Some x
    by (simp add: dispatch_def Let_def split: sum.split handler_result.split)
qed (simp add: dispatch_def Let_def)

lemma process_request_cache_frame:
  assumes "fst key \<noteq> ''default_client''" "request_key_of cid data \<noteq> Some key"
  shows "dict_get (idempotency_cache (fst (process_request ev et sv cid data))) key = dict_get (idempotency_cache sv) key"
proof (cases "decode_header (take 12 data)")
  case (Inl e) then show ?thesis by (simp add: process_request_def)
next
  case (Inr h)
  then have k: "key \<noteq> (cid, request_id h, opcode h)" using assms(2) by (auto simp: request_key_of_def)
  obtain cr c1 where g: "get_response (idempotency_cache sv) (cid, request_id h, opcode h) (now ev) = (cr, c1)" by fastforce
  have c1: "dict_get c1 key = dict_get (idempotency_cache sv) key"
    using get_response_frame [OF k, of "idempotency_cache sv" "now ev"] g by simp
  obtain sv2 q where d: "dispatch ev et (sv\<lparr>idempotency_cache := c1\<rparr>) h (drop 12 data) None = (sv2, q)" by fastforce
  have "dict_get (idempotency_cache sv2) key = dict_get c1 key"
    using dispatch_cache_frame [OF assms(1), of ev et "sv\<lparr>idempotency_cache := c1\<rparr>" h "drop 12 data"] d by simp
  then show ?thesis
    using c1 store_response_frame [OF k] Inr g d
    by (auto simp: process_request_def Let_def split: option.split list.split sum.split)
qed

lemma server_run_cache_frame:
  assumes "fst key \<noteq> ''default_client''" "\<forall>(ev, cid, data) \<in> set reqs. request_key_of cid data \<noteq> Some key"
  shows "dict_get (idempotency_cache (server_run et sv reqs)) key = dict_get (idempotency_cache sv) key"
  using assms(2)
proof (induction reqs arbitrary: sv)
  case (Cons x reqs)
  obtain ev cid data where x: "x = (ev, cid, data)" by (cases x) auto
  then show ?case
    using Cons process_request_cache_frame [OF assms(1), of cid data ev et sv] by (simp add: server_run_def)
qed (simp add: server_run_def)

lemma process_request_stores:
  assumes "process_request ev et sv cid data = (sv1, r)" "r \<noteq> []" "decode_header (take 12 data) = Inr h"
    and "fst (get_response (idempotency_cache sv) (cid, request_id h, opcode h) (now ev)) = None"
  shows "dict_get (idempotency_cache sv1) (cid, request_id h, opcode h) = Some \<lparr>response_data = r, timestamp = now ev\<rparr>"
    and "int (length (drop 12 data)) = payload_len h" "data \<noteq> []"
  using assms
  by (auto simp: process_request_def Let_def store_response_def dict_simps split: prod.splits if_splits sum.splits)

lemma process_request_replays:
  assumes "dict_get (idempotency_cache sv) (cid, request_id h, opcode h) = Some \<lparr>response_data = r, timestamp = t\<rparr>"
    and "now ev - t < IDEMPOTENCY_TTL" "r \<noteq> []" "decode_header (take 12 data) = Inr h"
    and "int (length (drop 12 data)) = payload_len h" "data \<noteq> []"
  shows "process_request ev et sv cid data = (sv, r)"
proof -
  have "get_response (idempotency_cache sv) (cid, request_id h, opcode h) (now ev) = (Some r, idempotency_cache sv)"
    using assms(1,2) by (simp add: get_response_def)
  then show ?thesis using assms(3-6) by (cases r) (simp_all add: process_request_def Let_def)
qed

section \<open>Requests of a client\<close>

text \<open>A request that is not in the cache and whose handler succeeds is answered with the handler's result.\<close>

lemma get_response_absent: "dict_get cache key = None \<Longrightarrow> get_response cache key t = (None, cache)"
  by (simp add: get_response_def)

lemma process_request_result:
  assumes msg: "encode_message op 0 rid pl None = Inr msg"
    and fresh: "dict_get (idempotency_cache sv) (cid, rid, op) = None"
    and run: "run_handler ev et sv (request_header op rid pl) pl None = Some (sv', Inr (Result kvs bin))"
    and fits: "answer_fits kvs bin"
  shows "\<exists>r. process_request ev et sv cid msg =
      (sv'\<lparr>idempotency_cache := store_response (idempotency_cache sv') (cid, rid, op) r (now ev)\<rparr>, r) \<and>
    encode_message op 0 rid (answer_bytes kvs bin) None = Inr r"
proof -
  obtain r where r: "encode_message op 0 rid (answer_bytes kvs bin) None = Inr r"
    using encode_message_resize [OF msg answer_fits_body(3) [OF fits]] by blast
  then have "dispatch ev et sv (request_header op rid pl) pl None = (sv', Inr r)"
    using run by (simp add: dispatch_def Let_def build_response_def answer_payload [OF fits])
  moreover have "sv\<lparr>idempotency_cache := idempotency_cache sv\<rparr> = sv" by simp
  ultimately have "process_request ev et sv cid msg =
      (sv'\<lparr>idempotency_cache := store_response (idempotency_cache sv') (cid, rid, op) r (now ev)\<rparr>, r)"
    using decode_encoded [OF msg] get_response_absent [OF fresh, of "now ev"]
    by (simp add: process_request_def Let_def)
  with r show ?thesis by blast
qed

lemma get_answer_fits:
  assumes "name_ok f" "int (length content) + 8192 \<le> MAX_PAYLOAD_LEN"
  shows "answer_fits [(''filename'', JStr f), (''size'', JInt (int (length content)))] (Some content)"
proof -
  have "length (string_of_int (int (length content))) \<le> 7"
    by (rule string_of_int_length) (use assms(2) in \<open>simp_all add: size_consts\<close>)
  then have "length (dumps (JDict [(''filename'', JStr f), (''size'', JInt (int (length content)))])) \<le> 6300"
    using dumps_str_length [of f] assms(1) by (simp add: name_ok_def dumps_str_plain plain_def)
  then show ?thesis
    using assms by (simp add: answer_fits_def name_ok_def dict_ok_def encodable_ascii del: dumps.simps)
qed

lemma append_answer_fits:
  assumes "name_ok f" "0 \<le> n" "n \<le> MAX_FILE_SIZE"
  shows "answer_fits [(''filename'', JStr f), (''new_size'', JInt n)] None"
proof -
  have "length (string_of_int n) \<le> 7"
    by (rule string_of_int_length) (use assms(2,3) in \<open>simp_all add: size_consts\<close>)
  then have "length (dumps (JDict [(''filename'', JStr f), (''new_size'', JInt n)])) \<le> 6300"
    using dumps_str_length [of f] assms(1) by (simp add: name_ok_def dumps_str_plain plain_def)
  then show ?thesis
    using assms by (simp add: answer_fits_def name_ok_def dict_ok_def encodable_ascii size_consts del: dumps.simps)
qed

lemma ascii_keys_ok: "name_ok u \<Longrightarrow> json_ok (JDict [(''upload_id'', JStr u), (''status'', JStr ''ready'')])"
  by (simp add: name_ok_def dict_ok_def encodable_ascii)

lemma put_meta_answer_fits: "name_ok u \<Longrightarrow> answer_fits [(''upload_id'', JStr u), (''status'', JStr ''ready'')] None"
  using dumps_str_length [of u] ascii_keys_ok [of u]
  by (simp add: answer_fits_def name_ok_def dumps_str_plain plain_def size_consts del: json_ok.simps)

lemma put_chunk_answer_fits:
  assumes "name_ok u" "int (length data) \<le> MAX_FILE_SIZE" "msg = ''Upload Complete'' \<or> msg = ''Chunk Applied''"
  shows "answer_fits [(''upload_id'', JStr u), (''bytes_written'', JInt (int (length data))), (''complete'', JBool b),
    (''status'', JStr msg)] None"
proof -
  have "length (string_of_int (int (length data))) \<le> 7"
    by (rule string_of_int_length) (use assms(2) in \<open>simp_all add: size_consts\<close>)
  moreover have "length (dumps_str msg) \<le> 17" "encodable msg"
    using assms(3) by (auto simp: dumps_str_plain plain_def encodable_ascii)
  ultimately show ?thesis using dumps_str_length [of u] assms(1)
    by (simp add: answer_fits_def name_ok_def dumps_str_plain plain_def size_consts dict_ok_def encodable_ascii)
qed

section \<open>Properties\<close>

text \<open>
  C4. Confinement of the whole server: whatever requests arrive, from whatever clients and with
  whatever bytes (names with parent components, absolute names, forged sessions, tasks), every file
  outside the sandbox keeps its contents, and no file appears there.
\<close>

theorem server_confinement:
  assumes "starts_slash wd" and "server_step\<^sup>*\<^sup>* (new_AgentServer wd rdir n d) sv"
    and "\<not> inside (sandbox_root (make_PolicyGuard wd rdir)) p"
  shows "dict_get (files (sandbox_disk sv)) p = dict_get (files d) p"
  using reachable_server_inv [OF assms(1,2)] assms(3)
  by (auto simp: server_inv_def same_outside_def)

text \<open>
  Answers match requests: in every reachable state, whatever the server returns for a message
  (a fresh result, an error or a repeated answer from the cache) is an envelope with the opcode and
  the identifier of that message and the exact length of its payload; a message that is not a
  request gets no answer.
\<close>

theorem responses_match_requests:
  assumes "starts_slash wd" and "server_step\<^sup>*\<^sup>* (new_AgentServer wd rdir n d) sv"
    and "process_request ev et sv cid data = (sv', response)" and "response \<noteq> []"
  shows "\<exists>h. decode_header (take 12 data) = Inr h \<and> answers (request_id h) (opcode h) response"
  using reachable_server_inv [OF assms(1,2)] process_request_answers [OF _ assms(3)] assms(4)
  by (auto simp: server_inv_def)

text \<open>
  C5. At most once: when a request has been executed and answered, its repetition by the same
  client within 120 seconds (a retransmission after a lost answer, say), with any other requests
  in between, gets exactly the same answer and changes nothing: no second append, no second upload
  session, no second task.
\<close>

theorem repeated_request_has_no_effect:
  assumes "process_request ev et sv cid data = (sv1, response)" and "response \<noteq> []"
    and "request_key_of cid data = Some key"
    and "fst (get_response (idempotency_cache sv) key (now ev)) = None"
    and "cid \<noteq> ''default_client''"
    and "\<forall>(ev', cid', data') \<in> set others. request_key_of cid' data' \<noteq> Some key"
    and "now ev2 - now ev < 120"
  shows "process_request ev2 et2 (server_run et sv1 others) cid data = (server_run et sv1 others, response)"
proof -
  obtain h where h: "decode_header (take 12 data) = Inr h" "key = (cid, request_id h, opcode h)"
    using assms(3) by (auto simp: request_key_of_def split: sum.splits)
  note st = process_request_stores [OF assms(1,2) h(1) assms(4) [unfolded h(2)]]
  have "fst key \<noteq> ''default_client''" using h(2) assms(5) by simp
  from server_run_cache_frame [OF this assms(6), of et sv1] st(1) h(2)
  have "dict_get (idempotency_cache (server_run et sv1 others)) (cid, request_id h, opcode h) =
      Some \<lparr>response_data = response, timestamp = now ev\<rparr>" by simp
  from process_request_replays [OF this _ assms(2) h(1) st(2,3)] assms(7) show ?thesis
    by (simp add: IDEMPOTENCY_TTL_def)
qed

section \<open>A sample server\<close>

definition sample_server :: AgentServer where
  "sample_server = new_AgentServer ''/srv'' ''box'' 4096 sample_disk"

lemma sample_server_fields:
  "policy_guard sample_server = sample_guard" "sandbox_disk sample_server = sample_disk"
  "idempotency_cache sample_server = []" "session_manager sample_server = new_manager STRICT 300"
proof -
  have "os_exists sample_disk (sandbox_root sample_guard)"
    by (simp add: os_exists_def sample_guard_root ascii_path_ok sample_disk_def dict_has_def)
  then show "policy_guard sample_server = sample_guard" "sandbox_disk sample_server = sample_disk"
    "idempotency_cache sample_server = []" "session_manager sample_server = new_manager STRICT 300"
    by (simp_all add: sample_server_def new_AgentServer_def sample_guard_def)
qed

lemma sample_name_ok: "name_ok ''a.txt''" by (simp add: name_ok_def encodable_ascii)

text \<open>An APPEND of one byte to a file of the sample server.\<close>

lemma sample_append:
  "\<exists>msg r sv'. process_request sample_env et sample_server ''10.0.0.7:5000'' msg = (sv', r) \<and> r \<noteq> [] \<and>
     request_key_of ''10.0.0.7:5000'' msg = Some (''10.0.0.7:5000'', 7, OP_APPEND) \<and> msg \<noteq> [] \<and>
     dict_get (files (sandbox_disk sv')) ''/srv/box/a.txt'' = Some (str_bytes (''ab'' @ [CHR 0x0A] @ ''cd'' @ [CHR 0x0A]) @ [9])"
proof -
  let ?j = "name_json ''a.txt''" and ?d = "str_bytes (''ab'' @ [CHR 0x0A] @ ''cd'' @ [CHR 0x0A])"
  let ?pl = "be_bytes 4 (length (dumps ?j)) @ str_bytes (dumps ?j) @ [9]"
  have j: "json_ok ?j" "length (dumps ?j) \<le> 6200" by (rule name_json_ok [OF sample_name_ok], rule name_json_length [OF sample_name_ok])
  then have j32: "int (length (dumps ?j)) < 2 ^ 32" by (simp del: dumps.simps)
  obtain msg where msg: "encode_message OP_APPEND 0 7 ?pl None = Inr msg"
    using encode_message_exists [of OP_APPEND 7 ?pl] j(2) by (auto simp: opcode_consts size_consts simp del: dumps.simps)
  have "run_handler sample_env et sample_server (request_header OP_APPEND 7 ?pl) ?pl None =
      Some (sample_server\<lparr>sandbox_disk := put_file sample_disk ''/srv/box/a.txt'' (?d @ [9])\<rparr>,
        Inr (Result [(''filename'', JStr ''a.txt''), (''new_size'', JInt (int (length ?d) + int (length [9 :: byte])))] None))"
    using handle_append_ok [OF _ j(1) j32 sample_path(1) sample_read, of "[9]" sample_env]
    by (simp add: run_handler_def Let_def opcode_consts sample_server_fields size_consts del: dumps.simps json_ok.simps)
  from process_request_result [OF msg _ this, where cid = "''10.0.0.7:5000''"]
  obtain r where r: "process_request sample_env et sample_server ''10.0.0.7:5000'' msg =
      (sample_server\<lparr>sandbox_disk := put_file sample_disk ''/srv/box/a.txt'' (?d @ [9]),
        idempotency_cache := store_response [] (''10.0.0.7:5000'', 7, OP_APPEND) r (now sample_env)\<rparr>, r)"
      "encode_message OP_APPEND 0 7 (answer_bytes [(''filename'', JStr ''a.txt''), (''new_size'', JInt (int (length ?d) + int (length [9 :: byte])))] None) None = Inr r"
    using append_answer_fits [OF sample_name_ok] by (auto simp: sample_server_fields size_consts)
  have "request_key_of ''10.0.0.7:5000'' msg = Some (''10.0.0.7:5000'', 7, OP_APPEND)"
    using decode_encoded(3) [OF msg] by (simp add: request_key_of_def)
  then show ?thesis using r(1) decode_encoded(2) [OF r(2)] decode_encoded(2) [OF msg]
    by (intro exI [of _ msg] exI [of _ r] exI conjI) (assumption | simp)+
qed

theorem server_confinement_witness:
  "\<exists>sv. server_step\<^sup>*\<^sup>* (new_AgentServer ''/srv'' ''box'' 4096 sample_disk) sv \<and>
     dict_get (files (sandbox_disk sv)) ''/srv/box/a.txt'' \<noteq> dict_get (files sample_disk) ''/srv/box/a.txt'' \<and>
     dict_get (files (sandbox_disk sv)) ''/etc/passwd'' = dict_get (files sample_disk) ''/etc/passwd''"
proof -
  obtain msg r sv where p: "process_request sample_env (\<lambda>_ v. v) sample_server ''10.0.0.7:5000'' msg = (sv, r)"
    "dict_get (files (sandbox_disk sv)) ''/srv/box/a.txt'' = Some (str_bytes (''ab'' @ [CHR 0x0A] @ ''cd'' @ [CHR 0x0A]) @ [9])"
    using sample_append [of "\<lambda>_ v. v"] by blast
  have "digest_ascii sample_env" by (simp add: digest_ascii_def sample_env_def)
  from server_step.request [OF this, of sample_server "\<lambda>_ v. v" "''10.0.0.7:5000''" msg] p(1)
  have s: "server_step\<^sup>*\<^sup>* (new_AgentServer ''/srv'' ''box'' 4096 sample_disk) sv" by (simp add: sample_server_def)
  have "\<not> inside (sandbox_root (make_PolicyGuard ''/srv'' ''box'')) ''/etc/passwd''"
    using sample_guard_root(1) by (simp add: sample_guard_def inside_def path_comps_def)
  from server_confinement [OF _ s this] s p(2) show ?thesis
    by (auto simp: starts_slash_def sample_disk_def)
qed

theorem responses_match_requests_witness:
  "\<exists>msg response sv' h. process_request sample_env (\<lambda>_ v. v) sample_server ''10.0.0.7:5000'' msg = (sv', response) \<and>
     decode_header (take 12 msg) = Inr h \<and> answers (request_id h) (opcode h) response"
proof -
  obtain msg r sv where p: "process_request sample_env (\<lambda>_ v. v) sample_server ''10.0.0.7:5000'' msg = (sv, r)" "r \<noteq> []"
    using sample_append [of "\<lambda>_ v. v"] by blast
  from responses_match_requests [OF _ _ p, of "''/srv''" "''box''" 4096 sample_disk] p show ?thesis
    by (auto simp: sample_server_def starts_slash_def)
qed

theorem repeated_request_has_no_effect_witness:
  "\<exists>msg response sv1. process_request sample_env (\<lambda>_ v. v) sample_server ''10.0.0.7:5000'' msg = (sv1, response) \<and> response \<noteq> [] \<and>
     sandbox_disk sv1 \<noteq> sample_disk \<and>
     process_request (sample_env\<lparr>now := 15\<rparr>) (\<lambda>_ v. v) sv1 ''10.0.0.7:5000'' msg = (sv1, response)"
proof -
  obtain msg r sv where p: "process_request sample_env (\<lambda>_ v. v) sample_server ''10.0.0.7:5000'' msg = (sv, r)" "r \<noteq> []"
      "request_key_of ''10.0.0.7:5000'' msg = Some (''10.0.0.7:5000'', 7, OP_APPEND)"
      "dict_get (files (sandbox_disk sv)) ''/srv/box/a.txt'' = Some (str_bytes (''ab'' @ [CHR 0x0A] @ ''cd'' @ [CHR 0x0A]) @ [9])"
    using sample_append [of "\<lambda>_ v. v"] by blast
  have "sandbox_disk sv \<noteq> sample_disk" using p(4) by (auto simp: sample_disk_def)
  moreover from repeated_request_has_no_effect [OF p(1-3), of "[]" "sample_env\<lparr>now := 15\<rparr>" "\<lambda>_ v. v"]
  have "process_request (sample_env\<lparr>now := 15\<rparr>) (\<lambda>_ v. v) sv ''10.0.0.7:5000'' msg = (sv, r)"
    by (simp add: sample_server_fields get_response_def server_run_def sample_env_def)
  ultimately show ?thesis using p(1,2) by blast
qed

text \<open>
  Tasks reach their handler without the address of the client, so their answers are kept under one
  name for everybody.
\<close>

lemma task_answered_from_shared_cache:
  assumes "encode_message op 0 rid pl None = Inr msg"
    and "op \<in> {OP_TASK_SEARCH_REPORT, OP_TASK_FILTER_LINES, OP_TASK_HASH_AND_STORE}" and "parse_task pl = Inr task_data"
    and "dict_get (idempotency_cache sv) (cid, rid, op) = None"
    and "dict_get (idempotency_cache sv) (''default_client'', rid, op) = Some entry"
    and "now ev - timestamp entry < 120" and "response_data entry \<noteq> []"
  shows "\<exists>sv'. process_request ev et sv cid msg = (sv', response_data entry) \<and> sandbox_disk sv' = sandbox_disk sv"
proof -
  have g: "get_response (idempotency_cache sv) (''default_client'', rid, op) (now ev) = (Some (response_data entry), idempotency_cache sv)"
    using assms(5,6) by (simp add: get_response_def IDEMPOTENCY_TTL_def)
  obtain b bs where r: "response_data entry = b # bs" using assms(7) by (cases "response_data entry") auto
  have "run_handler ev et sv (request_header op rid pl) pl None = Some (handle_task ev et sv (request_header op rid pl) pl None)"
    using assms(2) by (auto simp: run_handler_def Let_def opcode_consts)
  moreover have "handle_task ev et sv (request_header op rid pl) pl None = (sv, Inr (Response (b # bs)))"
    using assms(3) g r by (simp add: handle_task_def Let_def task_client_id_def)
  ultimately have "dispatch ev et sv (request_header op rid pl) pl None = (sv, Inr (b # bs))"
    by (simp add: dispatch_def Let_def)
  then show ?thesis
    using decode_encoded [OF assms(1)] get_response_absent [OF assms(4), of "now ev"] r
    by (simp add: process_request_def Let_def)
qed

end
