(* ===== verification/HttpDns.thy ===== *)
theory HttpDns
  imports Json Caches
begin

text \<open>
  DNS over HTTP: the message builder \<^verbatim>\<open>src/common/http_packet.py\<close>, the server's message handler
  \<^verbatim>\<open>src/server/dns_server.py\<close> and the client's treatment of the answer
  \<^verbatim>\<open>src/client/dns_client.py\<close>. The transport between the two is the one of the theories on
  RUDP; here a request and a response are the bytes handed to it and by it. Shown: a name that the
  server's cache holds is resolved to exactly its address, any other name to nothing, and what
  cannot be a request is ignored.
\<close>

section \<open>HTTPBuilder\<close>

abbreviation crlf :: string where "crlf \<equiv> [CHR 0x0D, CHR 0x0A]"

definition build_doh_request :: "string \<Rightarrow> string \<Rightarrow> int \<Rightarrow> string" where
  "build_doh_request domain_name host port =
     ''GET /dns-query?name='' @ domain_name @ '' HTTP/1.1'' @ crlf
     @ ''Host: '' @ host @ '':'' @ string_of_int port @ crlf
     @ ''Accept: application/json'' @ crlf @ crlf"

text \<open>
  \<^verbatim>\<open>s.split(sep, 1)\<close> when \<^verbatim>\<open>sep in s\<close>; the first element of \<^verbatim>\<open>s.split(sep)\<close> is its
  first component, or \<^verbatim>\<open>s\<close>.
\<close>

fun split_once :: "string \<Rightarrow> string \<Rightarrow> (string \<times> string) option" where
  "split_once sep [] = (if sep = [] then Some ([], []) else None)"
| "split_once sep (c # s) =
     (if take (length sep) (c # s) = sep then Some ([], drop (length sep) (c # s))
      else map_option (\<lambda>(a, b). (c # a, b)) (split_once sep s))"

definition first_line :: "string \<Rightarrow> string" where
  "first_line raw_data = (case split_once crlf raw_data of None \<Rightarrow> raw_data | Some (l, _) \<Rightarrow> l)"

definition parse_request :: "string \<Rightarrow> string option" where
  "parse_request raw_data =
     (let parts = split_on (CHR '' '') (first_line raw_data)
      in if 2 \<le> length parts \<and> parts ! 0 = ''GET''
         then (let url = parts ! 1
               in if take 16 url = ''/dns-query?name=''
                  then Some (split_on (CHR '' '') (split_on (CHR ''='') url ! 1) ! 0)
                  else None)
         else None)"

definition status_text :: "int \<Rightarrow> string" where
  "status_text status_code =
     (if status_code = 404 then ''Not Found'' else if status_code \<noteq> 200 then ''Error'' else ''OK'')"

definition build_json_response :: "int \<Rightarrow> json \<Rightarrow> string" where
  "build_json_response status_code data =
     (let body_str = dumps data
      in ''HTTP/1.1 '' @ string_of_int status_code @ '' '' @ status_text status_code @ crlf
         @ ''Content-Type: application/json'' @ crlf
         @ ''Content-Length: '' @ string_of_nat (length body_str) @ crlf
         @ crlf @ body_str)"

definition parse_response :: "string \<Rightarrow> json option" where
  "parse_response raw_data =
     (case split_once (crlf @ crlf) raw_data of
        None \<Rightarrow> None
      | Some (_, body) \<Rightarrow> (case loads body of Inl _ \<Rightarrow> None | Inr v \<Rightarrow> Some v))"

section \<open>DoHRUDPServer\<close>

text \<open>
  \<^verbatim>\<open>handle_message\<close>: the cache afterwards and the bytes given to \<^verbatim>\<open>transport.send\<close>, if any.
  (A name is never empty text from a cache, and the responses are ASCII, so their encoding
  succeeds.)
\<close>

definition dns_handle_message :: "DNSCache \<Rightarrow> bytes \<Rightarrow> real \<Rightarrow> DNSCache \<times> bytes option" where
  "dns_handle_message cache data t =
     (case py_decode data of
        Inl _ \<Rightarrow> (cache, None)
      | Inr http_request \<Rightarrow>
          (case parse_request http_request of
             None \<Rightarrow> (cache, None)
           | Some name \<Rightarrow>
               if name = [] then (cache, None)
               else (let (ip, cache') = dns_get cache name t;
                         response =
                           (case ip of
                              Some a \<Rightarrow>
                                if a \<noteq> []
                                then build_json_response 200 (JDict [(''status'', JInt 200),
                                       (''data'', JDict [(''ip'', JStr a), (''ttl'', JInt 300)])])
                                else build_json_response 404 (JDict [(''status'', JInt 404),
                                       (''error'', JStr ''Not Found'')])
                            | None \<Rightarrow> build_json_response 404 (JDict [(''status'', JInt 404),
                                       (''error'', JStr ''Not Found'')]))
                     in (cache', Some (str_bytes response)))))"

section \<open>DNSClient.resolve\<close>

definition doh_request :: "string \<Rightarrow> string \<Rightarrow> int \<Rightarrow> py_error + bytes" where
  "doh_request hostname dns_server_ip port = py_encode (build_doh_request hostname dns_server_ip port)"

text \<open>
  What \<^verbatim>\<open>resolve\<close> returns for the first message received, or for none within the timeout;
  \<^const>\<open>JNull\<close> is \<^verbatim>\<open>None\<close>, and every exception leads to it.
\<close>

definition resolve_answer :: "bytes option \<Rightarrow> json" where
  "resolve_answer response =
     (case response of
        None \<Rightarrow> JNull
      | Some raw \<Rightarrow>
          (case py_decode raw of
             Inl _ \<Rightarrow> JNull
           | Inr text \<Rightarrow>
               (case parse_response text of
                  None \<Rightarrow> JNull
                | Some data \<Rightarrow>
                    if \<not> truthy data then JNull
                    else (case json_get data ''status'' JNull of
                            Inl _ \<Rightarrow> JNull
                          | Inr st \<Rightarrow>
                              if num_value st = Some 200
                              then (case json_get data ''data'' (JDict []) of
                                      Inl _ \<Rightarrow> JNull
                                    | Inr d \<Rightarrow> (case json_get d ''ip'' JNull of Inl _ \<Rightarrow> JNull | Inr ip \<Rightarrow> ip))
                              else JNull))))"

section \<open>Lemmas\<close>

lemma split_once_skip: "CHR 0x0D \<notin> set s \<Longrightarrow>
  split_once (CHR 0x0D # sep) (s @ t) = map_option (\<lambda>(a, b). (s @ a, b)) (split_once (CHR 0x0D # sep) t)"
  by (induction s) (auto simp: option.map_comp comp_def case_prod_beta map_option_case split: option.split)

lemma split_once_here: "split_once (CHR 0x0D # sep) ((CHR 0x0D # sep) @ t) = Some ([], t)"
  by simp

lemma digits_no_cr: "list_all is_digit s \<Longrightarrow> CHR 0x0D \<notin> set s"
  by (auto simp: list_all_iff is_digit_def digit_val_def)

lemma string_of_int_no_cr: "CHR 0x0D \<notin> set (string_of_int i)"
  using digits_no_cr [OF string_of_nat_digits_all] by (simp add: string_of_int_def)

lemma string_of_nat_no_cr: "CHR 0x0D \<notin> set (string_of_nat n)"
  by (rule digits_no_cr [OF string_of_nat_digits_all])

text \<open>A header line is not the end of the head.\<close>

lemma split_once_line:
  assumes "CHR 0x0D \<notin> set l" "c \<noteq> CHR 0x0D"
  shows "\<exists>a. split_once (crlf @ crlf) (l @ crlf @ c # t) = map_option (\<lambda>(x, b). (a @ x, b)) (split_once (crlf @ crlf) (c # t))"
proof -
  have "split_once (crlf @ crlf) (crlf @ c # t) = map_option (\<lambda>(x, b). (crlf @ x, b)) (split_once (crlf @ crlf) (c # t))"
    using assms(2) by (simp add: option.map_comp comp_def case_prod_beta)
  then show ?thesis using split_once_skip [OF assms(1), of "[CHR 0x0A, CHR 0x0D, CHR 0x0A]" "crlf @ c # t"]
    by (auto simp: option.map_comp comp_def case_prod_beta intro!: exI [of _ "l @ crlf"])
qed

lemma split_once_response:
  "\<exists>a. split_once (crlf @ crlf) (build_json_response st v) = Some (a, dumps v)"
proof -
  let ?l1 = "''HTTP/1.1 '' @ string_of_int st @ '' '' @ status_text st"
  let ?l2 = "''ontent-Type: application/json''"
  let ?l3 = "''ontent-Length: '' @ string_of_nat (length (dumps v))"
  have n: "CHR 0x0D \<notin> set ?l1" "CHR 0x0D \<notin> set (CHR ''C'' # ?l2)" "CHR 0x0D \<notin> set (CHR ''C'' # ?l3)"
    by (simp_all add: string_of_int_no_cr string_of_nat_no_cr status_text_def)
  have "\<exists>a. split_once (crlf @ crlf) ((CHR ''C'' # ?l3) @ crlf @ crlf @ dumps v) = Some (a, dumps v)"
    using split_once_skip [OF n(3), of "[CHR 0x0A, CHR 0x0D, CHR 0x0A]" "crlf @ crlf @ dumps v"] by simp
  then have "\<exists>a. split_once (crlf @ crlf) ((CHR ''C'' # ?l2) @ crlf @ (CHR ''C'' # ?l3) @ crlf @ crlf @ dumps v) = Some (a, dumps v)"
    using split_once_line [OF n(2), of "CHR ''C''" "?l3 @ crlf @ crlf @ dumps v"] by auto
  then have "\<exists>a. split_once (crlf @ crlf) (?l1 @ crlf @ (CHR ''C'' # ?l2) @ crlf @ (CHR ''C'' # ?l3) @ crlf @ crlf @ dumps v) = Some (a, dumps v)"
    using split_once_line [OF n(1), of "CHR ''C''" "?l2 @ crlf @ (CHR ''C'' # ?l3) @ crlf @ crlf @ dumps v"] by auto
  then show ?thesis by (simp add: build_json_response_def Let_def)
qed

lemma parse_build_response: "json_ok v \<Longrightarrow> parse_response (build_json_response st v) = Some v"
  using split_once_response [of st v] by (auto simp: parse_response_def loads_dumps)

lemma build_json_response_ascii: "json_ok v \<Longrightarrow> is_ascii (build_json_response st v)"
  by (simp add: build_json_response_def Let_def dumps_ascii string_of_int_ascii status_text_def
      digits_ascii string_of_nat_digits_all)

text \<open>Names that the request line carries unchanged.\<close>

definition query_name :: "string \<Rightarrow> bool" where
  "query_name n \<longleftrightarrow> n \<noteq> [] \<and> encodable n \<and> CHR '' '' \<notin> set n \<and> CHR ''='' \<notin> set n \<and> CHR 0x0D \<notin> set n"

lemma parse_build_request:
  assumes "query_name n"
  shows "parse_request (build_doh_request n host port) = Some n"
proof -
  let ?url = "''/dns-query?name='' @ n"
  let ?line = "''GET '' @ ?url @ '' HTTP/1.1''"
  have "CHR 0x0D \<notin> set ?line" using assms by (simp add: query_name_def)
  then have "first_line (build_doh_request n host port) = ?line"
    using split_once_skip [of ?line "[CHR 0x0A]"]
    by (simp add: first_line_def build_doh_request_def)
  moreover have "split_on (CHR '' '') ?line = [''GET'', ?url, ''HTTP/1.1'']"
    using assms split_on_append [of "CHR '' ''" ?url "''HTTP/1.1''"] by (simp add: query_name_def)
  moreover have "split_on (CHR ''='') ?url = [''/dns-query?name'', n]"
    using assms split_on_append [of "CHR ''=''" "''/dns-query?name''" n] by (simp add: query_name_def split_on_none)
  moreover have "split_on (CHR '' '') n = [n]" using assms by (simp add: query_name_def split_on_none)
  ultimately show ?thesis by (simp add: parse_request_def Let_def)
qed

definition cache_addresses_ok :: "DNSCache \<Rightarrow> bool" where
  "cache_addresses_ok c \<longleftrightarrow> list_all (\<lambda>(n, ip, e). ip \<noteq> [] \<and> encodable ip) c"

lemma dns_get_address_ok: "cache_addresses_ok c \<Longrightarrow> fst (dns_get c n t) = Some ip \<Longrightarrow> ip \<noteq> [] \<and> encodable ip"
  by (auto simp: cache_addresses_ok_def dns_get_def list_all_iff dest!: map_of_SomeD split: option.splits if_splits)

lemma resolve_of_response:
  assumes "json_ok v"
  shows "resolve_answer (Some (str_bytes (build_json_response st v))) =
    (if \<not> truthy v then JNull
     else (case json_get v ''status'' JNull of
             Inl _ \<Rightarrow> JNull
           | Inr s \<Rightarrow>
               if num_value s = Some 200
               then (case json_get v ''data'' (JDict []) of
                       Inl _ \<Rightarrow> JNull
                     | Inr d \<Rightarrow> (case json_get d ''ip'' JNull of Inl _ \<Rightarrow> JNull | Inr ip \<Rightarrow> ip))
               else JNull))"
  using encodable_ascii [OF build_json_response_ascii [OF assms]]
  by (simp add: resolve_answer_def py_decode_def parse_build_response [OF assms])

section \<open>Properties\<close>

text \<open>
  Resolution over HTTP is the server's cache: for every name that a request line can carry,
  the request is encoded, the server answers it exactly once, and what the client returns for the
  answer is the address that the cache holds for the name at that moment, and nothing if it holds
  none; the server's cache changes only by the look-up.
\<close>

theorem doh_resolves_from_cache:
  assumes "query_name name" and "encodable host" and "cache_addresses_ok cache"
  shows "\<exists>req. doh_request name host port = Inr req \<and>
    fst (dns_handle_message cache req t) = snd (dns_get cache name t) \<and>
    snd (dns_handle_message cache req t) \<noteq> None \<and>
    resolve_answer (snd (dns_handle_message cache req t)) =
      (case fst (dns_get cache name t) of None \<Rightarrow> JNull | Some ip \<Rightarrow> JStr ip)"
proof -
  let ?req = "build_doh_request name host port"
  have e: "encodable ?req"
    using assms(1,2) unfolding build_doh_request_def query_name_def
    by (intro encodable_append) (auto intro: encodable_ascii string_of_int_ascii)
  have dec: "py_decode (str_bytes ?req) = Inr ?req" using e by (simp add: py_decode_def)
  have "name \<noteq> []" using assms(1) by (simp add: query_name_def)
  then have h: "dns_handle_message cache (str_bytes ?req) t = (snd (dns_get cache name t),
      Some (str_bytes (case fst (dns_get cache name t) of
         Some a \<Rightarrow> build_json_response 200 (JDict [(''status'', JInt 200),
                     (''data'', JDict [(''ip'', JStr a), (''ttl'', JInt 300)])])
       | None \<Rightarrow> build_json_response 404 (JDict [(''status'', JInt 404), (''error'', JStr ''Not Found'')]))))"
    using parse_build_request [OF assms(1)] dns_get_address_ok [OF assms(3), of name t]
    by (auto simp: dns_handle_message_def dec Let_def split: prod.split option.split)
  have ascii: "encodable ''status''" "encodable ''data''" "encodable ''ip''" "encodable ''ttl''"
    "encodable ''error''" "encodable ''Not Found''" by (simp_all add: encodable_ascii)
  have "resolve_answer (snd (dns_handle_message cache (str_bytes ?req) t)) =
      (case fst (dns_get cache name t) of None \<Rightarrow> JNull | Some ip \<Rightarrow> JStr ip)"
    using dns_get_address_ok [OF assms(3), of name t] ascii
    by (auto simp: h resolve_of_response dict_ok_def split: option.split)
  then show ?thesis using e h by (intro exI [of _ "str_bytes ?req"]) (simp add: doh_request_def py_encode_def)
qed

theorem doh_resolves_from_cache_witness:
  "\<exists>req. doh_request ''agent.local'' ''127.0.0.1'' 8053 = Inr req \<and>
    resolve_answer (snd (dns_handle_message (new_DNSCache 0) req 5)) = JStr ''127.0.0.1''"
  using doh_resolves_from_cache [of "''agent.local''" "''127.0.0.1''" "new_DNSCache 0" 8053 5]
  by (auto simp: query_name_def encodable_ascii cache_addresses_ok_def new_DNSCache_def dns_set_def dns_get_def)

end
