(* ===== verification/FullStack.thy ===== *)
theory FullStack
  imports RudpLink AgentServer HttpDns
begin

text \<open>
  Services over the reliable transport: a server that registers a message handler with
  \<^verbatim>\<open>RUDPServerTransport\<close>, as \<^verbatim>\<open>AgentServer.run\<close> does with \<^verbatim>\<open>_on_udp_message\<close> and
  \<^verbatim>\<open>DoHRUDPServer\<close> with \<^verbatim>\<open>handle_message\<close>. Any number of clients send any messages over a network
  that loses, repeats, reorders and corrupts datagrams; what the transport delivers is handled by the
  service, and its answers go back through the transport. The answers to what one iteration of
  the receive loop delivers are handed to the transport at its end.

  Shown for every service that keeps an invariant, and then for the agent and for the DNS server:
  the service handles exactly what each client sent, in order and once, each client receives exactly
  the answers to its own messages, in order, and whatever was lost, every message sent so far can
  still be handled.
\<close>

section \<open>The system\<close>

text \<open>\<open>served\<close> is a ghost: for every client the messages processed, each with its answer, if any.\<close>

record 's stack =
  link :: rudp_system
  service :: 's
  served :: "addr \<Rightarrow> (bytes \<times> (bytes \<times> int) option) list"

definition init_stack :: "'s \<Rightarrow> 's stack" where
  "init_stack sv = \<lparr>link = init_system, service = sv, served = (\<lambda>_. [])\<rparr>"

text \<open>\<^verbatim>\<open>self.transport.send(response, header.request_id, client_addr)\<close>\<close>

definition send_answer :: "rudp_system \<Rightarrow> addr \<Rightarrow> bytes \<Rightarrow> int \<Rightarrow> real \<Rightarrow> rudp_system" where
  "send_answer L a r rid t =
     (let (sv', out) = RudpTransport.server_send (server L) r rid a t
      in L\<lparr>server := sv', net_down := net_down L \<union> set out,
           down_sent := (down_sent L)(a := down_sent L a @ [(rid, r)])\<rparr>)"

text \<open>
  A handler takes what it reads of its environment, its state, the message and the client's address.
\<close>

type_synonym ('e, 's) handler = "'e \<Rightarrow> 's \<Rightarrow> bytes \<Rightarrow> addr \<Rightarrow> 's \<times> (bytes \<times> int) option"

definition callback :: "('e, 's) handler \<Rightarrow> ('e \<Rightarrow> real) \<Rightarrow> 'e \<Rightarrow> 's stack \<Rightarrow> addr \<Rightarrow> bytes \<Rightarrow> 's stack" where
  "callback h clock e st a m =
     (let (sv', resp) = h e (service st) m a
      in st\<lparr>service := sv', served := (served st)(a := served st a @ [(m, resp)]),
            link := (case resp of None \<Rightarrow> link st | Some (r, rid) \<Rightarrow> send_answer (link st) a r rid (clock e))\<rparr>)"

fun callbacks :: "('e, 's) handler \<Rightarrow> ('e \<Rightarrow> real) \<Rightarrow> (nat \<Rightarrow> 'e) \<Rightarrow> nat \<Rightarrow> (addr \<times> bytes) list \<Rightarrow> 's stack \<Rightarrow> 's stack" where
  "callbacks h clock es i [] st = st"
| "callbacks h clock es i ((a, m) # ms) st = callbacks h clock es (i + 1) ms (callback h clock (es i) st a m)"

text \<open>
  A step of the stack: a step of the transport in which the server delivers nothing and its
  application sends nothing (everything clients do, starting and stopping, ticks, acknowledgements), or an
  iteration of the server's loop with the callbacks for what it delivers.
\<close>

inductive stack_step :: "('e, 's) handler \<Rightarrow> ('e \<Rightarrow> real) \<Rightarrow> ('e \<Rightarrow> bool) \<Rightarrow> 's stack \<Rightarrow> 's stack \<Rightarrow> bool"
  for h clock fit where
  quiet: "rudp_step (link st) L \<Longrightarrow> up_got L = up_got (link st) \<Longrightarrow> down_sent L = down_sent (link st) \<Longrightarrow>
    stack_step h clock fit st (st\<lparr>link := L\<rparr>)"
| deliver: "srv_running (server (link st)) \<Longrightarrow> pred_option (\<lambda>(a, d). arrives (net_up (link st)) a d) arrival \<Longrightarrow>
    server_iteration (server (link st)) arrival lost t t' = (sv', msgs, out) \<Longrightarrow> \<forall>i. fit (es i) \<Longrightarrow>
    stack_step h clock fit st (callbacks h clock es 0 msgs (st\<lparr>link := (link st)\<lparr>server := sv', net_down := net_down (link st) \<union> set out,
      up_got := (\<lambda>b. up_got (link st) b @ sends_to msgs b)\<rparr>\<rparr>))"

section \<open>Callbacks\<close>

lemma send_answer_step: "rudp_step L (send_answer L a r rid t)"
proof -
  obtain sv' out where "RudpTransport.server_send (server L) r rid a t = (sv', out)" by fastforce
  from rudp_step.server_send [OF this] show ?thesis by (simp add: send_answer_def \<open>RudpTransport.server_send _ _ _ _ _ = _\<close>)
qed

lemma send_answer_sel [simp]:
  "clients (send_answer L a r rid t) = clients L" "net_up (send_answer L a r rid t) = net_up L"
  "up_sent (send_answer L a r rid t) = up_sent L" "up_got (send_answer L a r rid t) = up_got L"
  "down_got (send_answer L a r rid t) = down_got L"
  "down_sent (send_answer L a r rid t) = (down_sent L)(a := down_sent L a @ [(rid, r)])"
  by (simp_all add: send_answer_def split: prod.split)

text \<open>The answers given to a client, as the transport was asked to send them.\<close>

definition answers_sent :: "(bytes \<times> (bytes \<times> int) option) list \<Rightarrow> (int \<times> bytes) list" where
  "answers_sent xs = List.map_filter (\<lambda>(m, resp). map_option (\<lambda>(r, rid). (rid, r)) resp) xs"

lemma answers_sent_simps [simp]:
  "answers_sent [] = []" "answers_sent (xs @ ys) = answers_sent xs @ answers_sent ys"
  "answers_sent [(m, None)] = []" "answers_sent [(m, Some (r, rid))] = [(rid, r)]"
  by (simp_all add: answers_sent_def List.map_filter_def)

section \<open>Services\<close>

text \<open>
  What a service promises: an invariant that its handler keeps, and exchanges (a message and its
  answer, if any) that are right; and there is an environment that is fit for it.
\<close>

locale rudp_service =
  fixes h :: "('e, 's) handler" and clock :: "'e \<Rightarrow> real" and fit :: "'e \<Rightarrow> bool"
    and start :: "'s \<Rightarrow> bool" and good :: "'s \<Rightarrow> bool" and right :: "bytes \<times> (bytes \<times> int) option \<Rightarrow> bool"
  assumes good_start: "start s \<Longrightarrow> good s"
    and good_handle: "good s \<Longrightarrow> fit e \<Longrightarrow> h e s m a = (s', r) \<Longrightarrow> good s' \<and> right (m, r)"
    and some_fit: "\<exists>e. fit e"
begin

text \<open>
  The invariant: the transport's, the service's, and that the callbacks account for everything
  delivered (apart from the messages \<open>due\<close>, delivered but not yet handled) and everything sent.
\<close>

definition stack_inv :: "(addr \<Rightarrow> bytes list) \<Rightarrow> 's stack \<Rightarrow> bool" where
  "stack_inv due st \<longleftrightarrow> system_inv (link st) \<and> good (service st) \<and>
     (\<forall>a. map fst (served st a) @ due a = up_got (link st) a \<and> answers_sent (served st a) = down_sent (link st) a \<and>
        list_all right (served st a))"

lemma stack_inv_peer:
  assumes "stack_inv due st"
  shows "system_inv (link st)" "good (service st)" "map fst (served st a) @ due a = up_got (link st) a"
    "answers_sent (served st a) = down_sent (link st) a" "list_all right (served st a)"
  using assms unfolding stack_inv_def by blast+

lemma callback_inv:
  assumes "stack_inv (due(a := m # due a)) st" "fit e"
  shows "stack_inv due (callback h clock e st a m)"
proof -
  obtain sv' resp where u: "h e (service st) m a = (sv', resp)" by fastforce
  note i = stack_inv_peer [OF assms(1)]
  have v: "good sv'" "right (m, resp)" using good_handle [OF i(2) assms(2) u] by blast+
  let ?L = "case resp of None \<Rightarrow> link st | Some (r, rid) \<Rightarrow> send_answer (link st) a r rid (clock e)"
  have "system_inv ?L" using i(1) system_inv_step [OF i(1) send_answer_step] by (auto split: option.split)
  moreover have "up_got ?L = up_got (link st)"
    "down_sent ?L = (down_sent (link st))(a := down_sent (link st) a @ answers_sent [(m, resp)])"
    by (auto split: option.split)
  moreover have "map fst (((served st)(a := served st a @ [(m, resp)])) b) @ due b = up_got (link st) b" for b
    using i(3) [of b] by (cases "b = a") simp_all
  moreover have "answers_sent (((served st)(a := served st a @ [(m, resp)])) b) =
      ((down_sent (link st))(a := down_sent (link st) a @ answers_sent [(m, resp)])) b" for b
    using i(4) [of b] by (cases "b = a") simp_all
  moreover have "list_all right (((served st)(a := served st a @ [(m, resp)])) b)" for b
    using i(5) [of b] v(2) by (cases "b = a") simp_all
  ultimately show ?thesis
    using v(1) unfolding stack_inv_def callback_def u prod.case by simp
qed

lemma callbacks_inv:
  assumes "stack_inv (\<lambda>b. sends_to msgs b) st" "\<forall>i. fit (es i)"
  shows "stack_inv (\<lambda>_. []) (callbacks h clock es i msgs st)"
  using assms(1)
proof (induction msgs arbitrary: i st)
  case (Cons x msgs)
  obtain a m where x: "x = (a, m)" by fastforce
  have "(\<lambda>b. sends_to (x # msgs) b) = (sends_to msgs)(a := m # sends_to msgs a)"
    by (auto simp: x sends_to_def)
  then have "stack_inv (sends_to msgs) (callback h clock (es i) st a m)"
    using Cons.prems callback_inv assms(2) by (metis (no_types))
  then show ?case using Cons.IH by (simp add: x)
next
  case Nil
  moreover have "(\<lambda>b. sends_to [] b) = (\<lambda>_. [])" by (simp add: sends_to_def)
  ultimately show ?case by simp
qed

lemma stack_inv_step:
  assumes "stack_inv (\<lambda>_. []) st" "stack_step h clock fit st st'"
  shows "stack_inv (\<lambda>_. []) st'"
  using assms(2)
proof (cases rule: stack_step.cases)
  case (quiet L)
  then show ?thesis using assms(1) system_inv_step by (auto simp: stack_inv_def)
next
  case (deliver arrival lost t t' sv' msgs out es)
  let ?L = "(link st)\<lparr>server := sv', net_down := net_down (link st) \<union> set out, up_got := (\<lambda>b. up_got (link st) b @ sends_to msgs b)\<rparr>"
  have "rudp_step (link st) ?L" using rudp_step.server_loop deliver(2-4) by blast
  then have "stack_inv (\<lambda>b. sends_to msgs b) (st\<lparr>link := ?L\<rparr>)"
    using assms(1) system_inv_step by (auto simp: stack_inv_def)
  then show ?thesis using callbacks_inv deliver(1,5) by blast
qed

lemma stack_inv_init: "start s \<Longrightarrow> stack_inv (\<lambda>_. []) (init_stack s)"
  using good_start system_inv_init by (auto simp: stack_inv_def init_stack_def init_system_def)

end

sublocale rudp_service \<subseteq> stack: invariant_system "\<lambda>st. \<exists>s. start s \<and> st = init_stack s" "stack_step h clock fit" "stack_inv (\<lambda>_. [])"
  by unfold_locales (auto intro: stack_inv_init stack_inv_step)

section \<open>Progress\<close>

lemma send_answer_frame:
  "net_down L \<subseteq> net_down (send_answer L a r rid t)" "link_up (send_answer L a r rid t) b = link_up L b"
proof -
  obtain sv' out where s: "RudpTransport.server_send (server L) r rid a t = (sv', out)" by fastforce
  obtain s' ds where "enqueue_data (fst (endpoint_of (server L) a)) r rid t = (s', ds)" by fastforce
  note p = server_send_props(4,5) [OF s this]
  show "net_down L \<subseteq> net_down (send_answer L a r rid t)" "link_up (send_answer L a r rid t) b = link_up L b"
    using p by (auto simp: send_answer_def s link_up_def)
qed

lemma callbacks_frame:
  "clients (link (callbacks h clock es i msgs st)) = clients (link st) \<and>
   up_sent (link (callbacks h clock es i msgs st)) = up_sent (link st) \<and>
   net_down (link st) \<subseteq> net_down (link (callbacks h clock es i msgs st)) \<and>
   link_up (link (callbacks h clock es i msgs st)) b = link_up (link st) b"
proof (induction msgs arbitrary: i st)
  case (Cons x msgs)
  obtain a m where x: "x = (a, m)" by fastforce
  let ?st = "callback h clock (es i) st a m"
  have "clients (link ?st) = clients (link st)" "up_sent (link ?st) = up_sent (link st)"
    "net_down (link st) \<subseteq> net_down (link ?st)" "link_up (link ?st) b = link_up (link st) b"
    using send_answer_frame by (auto simp: callback_def split: prod.split option.split)
  then show ?case using Cons.IH [of "i + 1" ?st] by (auto simp: x)
qed simp

context rudp_service
begin

lemma stack_round:
  assumes i: "system_inv (link st)" and c: "link_up (link st) a" and sb: "sendable (up_sent (link st) a)"
    and lt: "up_base (link st) a < int (length (hist_of (up_sent (link st) a)))"
  obtains st' where "(stack_step h clock fit)\<^sup>*\<^sup>* st st'" "link_up (link st') a" "up_base (link st) a < up_base (link st') a"
    "up_sent (link st') = up_sent (link st)"
proof -
  let ?S = "link st" let ?hist = "hist_of (up_sent ?S a)"
  have "packet_ok (?hist ! nat (up_base ?S a))"
    using sendable_packet_ok [OF sb] lt up_base_nonneg [OF i, of a] by simp
  then obtain d where d: "pack_bytes (?hist ! nat (up_base ?S a)) = Inr d" using pack_bytes_ok by blast
  obtain S1 where S1: "rudp_step ?S S1" "(a, d) \<in> net_up S1" "link_up S1 a" "up_base S1 a = up_base ?S a"
      "server S1 = server ?S" "up_sent S1 = up_sent ?S" "up_got S1 = up_got ?S" "down_sent S1 = down_sent ?S"
    by (rule progress_tick [OF i c lt d]) (simp add: same_sent_def)
  have i1: "system_inv S1" using system_inv_step [OF i S1(1)] .
  have p: "up_base S1 a < int (length (hist_of (up_sent S1 a)))"
      "pack_bytes (hist_of (up_sent S1 a) ! nat (up_base S1 a)) = Inr d"
      "int (length (hist_of (up_sent S1 a))) < 2 ^ 32"
    using lt d sb S1(4,6) by (simp_all add: sendable_def)
  obtain sv' msgs out e rw d' where r: "server_iteration (server S1) (Some (a, d)) False 0 0 = (sv', msgs, out)"
      "(a, d') \<in> set out" "srv_running sv'" "sock_open sv'" "pack_bytes (ack_packet e rw FLAG_ACK) = Inr d'" "up_base S1 a < e"
    using progress_receive [OF i1 S1(3) p(1,2) S1(2) p(3)] .
  obtain env where "fit env" using some_fit by blast
  let ?st1 = "st\<lparr>link := S1\<rparr>"
  let ?L2 = "S1\<lparr>server := sv', net_down := net_down S1 \<union> set out, up_got := (\<lambda>b. up_got S1 b @ sends_to msgs b)\<rparr>"
  let ?st2 = "callbacks h clock (\<lambda>_. env) 0 msgs (?st1\<lparr>link := ?L2\<rparr>)"
  have s1: "stack_step h clock fit st ?st1" using S1(1,7,8) by (rule stack_step.quiet)
  have run: "srv_running (server (link ?st1))" using S1(3) by (simp add: link_up_def)
  have arr: "pred_option (\<lambda>(b, x). arrives (net_up (link ?st1)) b x) (Some (a, d))" using S1(2) by (auto simp: arrives_def)
  have it: "server_iteration (server (link ?st1)) (Some (a, d)) False 0 0 = (sv', msgs, out)" using r(1) by simp
  have s2: "stack_step h clock fit ?st1 ?st2" using stack_step.deliver [OF run arr it, of fit "\<lambda>_. env" h clock] \<open>fit env\<close> by simp
  note f = callbacks_frame [of h clock "\<lambda>_. env" 0 msgs "?st1\<lparr>link := ?L2\<rparr>" a]
  have "link_up ?L2 a" using S1(3) r by (auto simp: link_up_def)
  then have u2: "link_up (link ?st2) a" "(a, d') \<in> net_down (link ?st2)" "up_base (link ?st2) a < e"
    using f r(2,6) by (auto simp: up_base_def)
  obtain S3 where S3: "rudp_step (link ?st2) S3" "link_up S3 a" "up_base S3 a = e" "up_sent S3 = up_sent (link ?st2)"
      "up_got S3 = up_got (link ?st2)" "down_sent S3 = down_sent (link ?st2)"
    by (rule progress_ack [OF u2(1) r(5) u2(2,3)]) (simp add: same_sent_def)
  have s3: "stack_step h clock fit ?st2 (?st2\<lparr>link := S3\<rparr>)" using S3(1,5,6) by (rule stack_step.quiet)
  have "(stack_step h clock fit)\<^sup>*\<^sup>* st (?st2\<lparr>link := S3\<rparr>)" using s1 s2 s3 by (rule rtranclp_three_steps)
  then show ?thesis using that S3(2-4) f r(6) S1(4,6) by simp
qed

lemma stack_progress:
  assumes "stack_inv (\<lambda>_. []) st" "link_up (link st) a" "sendable (up_sent (link st) a)"
  shows "\<exists>st'. (stack_step h clock fit)\<^sup>*\<^sup>* st st' \<and> map fst (served st' a) = map snd (up_sent (link st) a)"
  using assms
proof (induction "nat (int (length (hist_of (up_sent (link st) a))) - up_base (link st) a)" arbitrary: st rule: less_induct)
  case less
  have i: "system_inv (link st)" using less.prems(1) by (simp add: stack_inv_def)
  show ?case
  proof (cases "up_base (link st) a < int (length (hist_of (up_sent (link st) a)))")
    case True
    obtain st1 where s: "(stack_step h clock fit)\<^sup>*\<^sup>* st st1" "link_up (link st1) a" "up_base (link st) a < up_base (link st1) a"
        "up_sent (link st1) = up_sent (link st)"
      using stack_round [OF i less.prems(2,3) True] .
    have "stack_inv (\<lambda>_. []) st1" using stack.inv_steps [OF s(1) less.prems(1)] .
    then obtain st' where "(stack_step h clock fit)\<^sup>*\<^sup>* st1 st'" "map fst (served st' a) = map snd (up_sent (link st1) a)"
      using less.hyps [of st1] less.prems s True by auto
    then show ?thesis using s(1,4) by (metis rtranclp_trans)
  next
    case False
    then have "up_got (link st) a = map snd (up_sent (link st) a)" using up_complete [OF i] by auto
    then show ?thesis using stack_inv_peer(3) [OF less.prems(1), of a] by auto
  qed
qed

text \<open>What holds of a service in every reachable state, and what can still happen.\<close>

lemma stack_safety:
  assumes "start s" "(stack_step h clock fit)\<^sup>*\<^sup>* (init_stack s) st"
  shows "prefix (map fst (served st a)) (map snd (up_sent (link st) a))"
    "prefix (down_got (link st) a) (map snd (answers_sent (served st a)))" "list_all right (served st a)" "good (service st)"
proof -
  have i: "stack_inv (\<lambda>_. []) st" using stack.reachable_inv [OF _ assms(2)] assms(1) by blast
  note s = stack_inv_peer(1,2) [OF i] stack_inv_peer(3-5) [OF i, of a]
  show "prefix (map fst (served st a)) (map snd (up_sent (link st) a))"
    "prefix (down_got (link st) a) (map snd (answers_sent (served st a)))" "list_all right (served st a)" "good (service st)"
    using s system_inv_prefix [OF s(1), of a] by auto
qed

lemma stack_serves:
  assumes "start s" "(stack_step h clock fit)\<^sup>*\<^sup>* (init_stack s) st" "link_up (link st) a" "sendable (up_sent (link st) a)"
  shows "\<exists>st'. (stack_step h clock fit)\<^sup>*\<^sup>* st st' \<and> map fst (served st' a) = map snd (up_sent (link st) a)"
  using stack_progress [OF stack.reachable_inv [OF _ assms(2)]] assms(1,3,4) by blast

end

section \<open>The agent\<close>

text \<open>The environment of a request, with the text that the task handler makes of an unknown exception.\<close>

type_synonym agent_env = "env \<times> (string \<Rightarrow> string \<Rightarrow> string)"

definition agent_handle :: "(agent_env, AgentServer) handler" where
  "agent_handle e sv m a = on_udp_message (fst e) (snd e) sv m a"

abbreviation agent_step :: "AgentServer stack \<Rightarrow> AgentServer stack \<Rightarrow> bool" where
  "agent_step \<equiv> stack_step agent_handle (\<lambda>e. now (fst e)) (\<lambda>e. digest_ascii (fst e))"

text \<open>An exchange that is right: a request with its answer, or a message that gets none.\<close>

definition exchange_ok :: "bytes \<times> (bytes \<times> int) option \<Rightarrow> bool" where
  "exchange_ok x = (case snd x of None \<Rightarrow> True
     | Some (r, rid) \<Rightarrow> \<exists>h. decode_header (take 12 (fst x)) = Inr h \<and> request_id h = rid \<and> answers rid (opcode h) r)"

lemma on_udp_message_inv:
  assumes "server_inv wd rdir d ag" "digest_ascii ev" "on_udp_message ev et ag m a = (ag', resp)"
  shows "server_inv wd rdir d ag'" "exchange_ok (m, resp)"
proof -
  have st: "server_inv wd rdir d (fst (process_request ev et ag cid m))" for cid
    using agent_system.inv_step [OF assms(1) server_step.request [OF assms(2)]] .
  show "server_inv wd rdir d ag'"
    using assms(1,3) st [of "client_name a"]
    by (auto simp: on_udp_message_def split: if_splits sum.splits prod.splits)
  have c: "cache_ok (idempotency_cache ag)" using assms(1) by (simp add: server_inv_def)
  show "exchange_ok (m, resp)"
    using assms(3) process_request_answers [OF c, of ev et "client_name a" m]
    by (auto simp: on_udp_message_def exchange_ok_def HEADER_SIZE_eq split: if_splits sum.splits prod.splits)
qed

interpretation agent_service: rudp_service agent_handle "\<lambda>e. now (fst e)" "\<lambda>e. digest_ascii (fst e)"
  "\<lambda>sv. starts_slash wd \<and> sv = new_AgentServer wd rdir n d" "server_inv wd rdir d" exchange_ok for wd rdir n d
proof unfold_locales
  fix sv assume "starts_slash wd \<and> sv = new_AgentServer wd rdir n d"
  then show "server_inv wd rdir d sv" using agent_system.inv_init [of wd sv rdir n d] by simp
next
  show "\<exists>e :: agent_env. digest_ascii (fst e)"
    by (rule exI [of _ "(sample_env, \<lambda>_ v. v)"]) (simp add: digest_ascii_def sample_env_def)
qed (use on_udp_message_inv in \<open>auto simp: agent_handle_def\<close>)

section \<open>The DNS server\<close>

text \<open>\<^verbatim>\<open>DoHRUDPServer.handle_message\<close> answers with the request id 0; its environment is the clock.\<close>

definition dns_handle :: "(real, DNSCache) handler" where
  "dns_handle t c m a = (let (c', r) = dns_handle_message c m t in (c', map_option (\<lambda>r. (r, 0)) r))"

abbreviation dns_step :: "DNSCache stack \<Rightarrow> DNSCache stack \<Rightarrow> bool" where
  "dns_step \<equiv> stack_step dns_handle (\<lambda>t. t) (\<lambda>_. True)"

text \<open>
  The cache only ever holds the entry it started with. A right exchange: the answer to a query
  resolves to the agent's address for the agent's name or to nothing; other messages get no answer.
\<close>

definition dns_good :: "DNSCache \<Rightarrow> bool" where
  "dns_good c \<longleftrightarrow> list_all (\<lambda>(n, ip, e). n = ''agent.local'' \<and> ip = ''127.0.0.1'') c"

definition query_of :: "bytes \<Rightarrow> string option" where
  "query_of m = (case py_decode m of Inl e \<Rightarrow> None | Inr text \<Rightarrow> parse_request text)"

definition dns_exchange_ok :: "bytes \<times> (bytes \<times> int) option \<Rightarrow> bool" where
  "dns_exchange_ok x = (case snd x of None \<Rightarrow> True
     | Some (r, rid) \<Rightarrow> rid = 0 \<and> query_of (fst x) \<noteq> None \<and> (resolve_answer (Some r) = JNull \<or>
         query_of (fst x) = Some ''agent.local'' \<and> resolve_answer (Some r) = JStr ''127.0.0.1''))"

lemma dns_get_good:
  assumes "dns_good c" "dns_get c name t = (ip, c')"
  shows "dns_good c'" "ip \<noteq> None \<Longrightarrow> name = ''agent.local'' \<and> ip = Some ''127.0.0.1''"
proof -
  have "dns_good (dict_del name c)" using assms(1) by (auto simp: dns_good_def list_all_iff AList.delete_eq)
  then show "dns_good c'" using assms by (auto simp: dns_get_def split: option.splits if_splits)
  have "n = ''agent.local'' \<and> x = ''127.0.0.1''" if "(n, x, e) \<in> set c" for n x e
    using assms(1) that by (auto simp: dns_good_def list_all_iff)
  then show "name = ''agent.local'' \<and> ip = Some ''127.0.0.1''" if "ip \<noteq> None"
    using assms(2) that by (auto simp: dns_get_def dest!: map_of_SomeD split: option.splits if_splits)
qed

lemma dns_handle_good:
  assumes "dns_good c" "dns_handle t c m a = (c', r)"
  shows "dns_good c' \<and> dns_exchange_ok (m, r)"
proof -
  have ok: "json_ok (JDict [(''status'', JInt 200), (''data'', JDict [(''ip'', JStr ''127.0.0.1''), (''ttl'', JInt 300)])])"
    "json_ok (JDict [(''status'', JInt 404), (''error'', JStr ''Not Found'')])"
    by (simp_all add: dict_ok_def encodable_ascii)
  note res = resolve_of_response [OF ok(1), of 200] resolve_of_response [OF ok(2), of 404]
  show ?thesis
  proof (cases "\<exists>text name. py_decode m = Inr text \<and> parse_request text = Some name \<and> name \<noteq> []")
    case True
    then obtain "text" name where n: "py_decode m = Inr text" "parse_request text = Some name" "name \<noteq> []" by blast
    obtain ip c1 where g: "dns_get c name t = (ip, c1)" by fastforce
    show ?thesis
    proof (cases ip)
      case None
      then show ?thesis using assms(2) dns_get_good(1) [OF assms(1) g] res(2)
        by (auto simp: dns_handle_def dns_handle_message_def dns_exchange_ok_def query_of_def n g)
    next
      case (Some x)
      have nm: "name = ''agent.local''" "ip = Some ''127.0.0.1''" using dns_get_good(2) [OF assms(1) g] Some by auto
      show ?thesis using assms(2) dns_get_good(1) [OF assms(1) g] res(1)
        by (auto simp: dns_handle_def dns_handle_message_def dns_exchange_ok_def query_of_def n [unfolded nm] g [unfolded nm])
    qed
  next
    case False
    then show ?thesis
      using assms by (auto simp: dns_handle_def dns_handle_message_def dns_exchange_ok_def query_of_def split: sum.splits option.splits if_splits prod.splits)
  qed
qed

interpretation dns_service: rudp_service dns_handle "\<lambda>t. t" "\<lambda>_. True" "\<lambda>c. \<exists>t. c = new_DNSCache t" dns_good dns_exchange_ok
  by unfold_locales (auto simp: dns_handle_good, auto simp: dns_good_def new_DNSCache_def dns_set_def)

section \<open>Properties\<close>

text \<open>
  C1. The agent over the transport, safety: whatever the network does to the datagrams and
  whatever the clients send, in every reachable state and for every client, the messages the agent has
  processed are, in order, the first messages that client sent, each processed once; the
  messages the client has received are, in order, the first answers to them; each answer has the
  opcode and identifier of its request; and no file outside the sandbox has changed.
\<close>

theorem full_stack_safety:
  assumes "starts_slash wd" and "agent_step\<^sup>*\<^sup>* (init_stack (new_AgentServer wd rdir n d)) st"
  shows "prefix (map fst (served st a)) (map snd (up_sent (link st) a)) \<and>
    prefix (down_got (link st) a) (map snd (answers_sent (served st a))) \<and> list_all exchange_ok (served st a) \<and>
    same_outside (sandbox_root (make_PolicyGuard wd rdir)) d (sandbox_disk (service st))"
  using agent_service.stack_safety(1-3) [OF _ assms(2), of wd rdir n d a] agent_service.stack_safety(4) [OF _ assms(2), of wd rdir n d] assms(1)
  by (auto simp: server_inv_def)

text \<open>
  C6. The agent over the transport, liveness: from every reachable state in which the client's
  and the server's loops run, however much was lost, steps exist after which the agent has
  processed every message that client has sent so far.
\<close>

theorem full_stack_serves:
  assumes "starts_slash wd" and "agent_step\<^sup>*\<^sup>* (init_stack (new_AgentServer wd rdir n d)) st"
    and "link_up (link st) a" and "sendable (up_sent (link st) a)"
  shows "\<exists>st'. agent_step\<^sup>*\<^sup>* st st' \<and> map fst (served st' a) = map snd (up_sent (link st) a)"
  using agent_service.stack_serves [OF _ assms(2-4), where wd = wd and rdir = rdir and n = n and d = d] assms(1) by blast

text \<open>
  C20. DNS over HTTP over the transport: whatever the network does and the clients send, every
  client receives, in order, the first answers to its own queries and nothing else, and an answer
  resolves to the agent's address only when it answers a query for the agent's name; every other
  answer resolves to nothing.
\<close>

theorem dns_over_rudp_safety:
  assumes "dns_step\<^sup>*\<^sup>* (init_stack (new_DNSCache t)) st"
  shows "prefix (map fst (served st a)) (map snd (up_sent (link st) a)) \<and>
    prefix (down_got (link st) a) (map snd (answers_sent (served st a))) \<and> list_all dns_exchange_ok (served st a)"
  using dns_service.stack_safety(1-3) [OF _ assms, of a] by blast

section \<open>A sample run\<close>

text \<open>What a step of the transport can only extend.\<close>

lemma ghosts_grow:
  assumes "rudp_step\<^sup>*\<^sup>* S S'"
  shows "prefix (up_got S a) (up_got S' a)" "prefix (down_sent S a) (down_sent S' a)"
proof -
  have "prefix (up_got S a) (up_got S' a) \<and> prefix (down_sent S a) (down_sent S' a)"
    using assms
  proof (induction rule: rtranclp_induct)
    case (step y z)
    show ?case using rudp_step_ghosts [OF step.hyps(2), of a] step.IH by (metis prefix_append append_prefixD prefixI prefix_order.trans)
  qed simp
  then show "prefix (up_got S a) (up_got S' a)" "prefix (down_sent S a) (down_sent S' a)" by simp_all
qed

lemma quiet_steps:
  assumes "rudp_step\<^sup>*\<^sup>* (link st) S" "up_got S = up_got (link st)" "down_sent S = down_sent (link st)"
  shows "(stack_step h clock fit)\<^sup>*\<^sup>* st (st\<lparr>link := S\<rparr>)"
  using assms
proof (induction rule: rtranclp_induct)
  case (step y z)
  have "prefix (up_got (link st) a) (up_got y a) \<and> prefix (up_got y a) (up_got z a)"
    "prefix (down_sent (link st) a) (down_sent y a) \<and> prefix (down_sent y a) (down_sent z a)" for a
    using ghosts_grow [OF step.hyps(1)] ghosts_grow [OF r_into_rtranclp [of rudp_step, OF step.hyps(2)]] by auto
  then have e: "up_got y = up_got (link st)" "down_sent y = down_sent (link st)"
    using step.prems by (metis ext prefix_order.antisym)+
  have "stack_step h clock fit (st\<lparr>link := y\<rparr>) (st\<lparr>link := y, link := z\<rparr>)"
    using step.hyps(2) step.prems e by (intro stack_step.quiet) simp_all
  then show ?case using step.IH [OF e] by simp
qed simp

text \<open>
  A LIST request, the query that the DNS client sends for the name of the agent, and a client that
  has sent one message, which is still on the network.
\<close>

definition sample_request :: bytes where
  "sample_request = [1, 5, 0, 0, 0, 0, 0, 7, 0, 0, 0, 0]"

definition sample_query :: bytes where
  "sample_query = str_bytes (build_doh_request ''agent.local'' ''127.0.0.1'' 8053)"

definition sample_stack :: "'s \<Rightarrow> int \<Rightarrow> bytes \<Rightarrow> 's stack" where
  "sample_stack s k q = (init_stack s)\<lparr>link := init_system
     \<lparr>server := RudpTransport.server_start new_server,
      clients := (\<lambda>_. new_client)(sample_peer := fst (RudpTransport.client_send (RudpTransport.client_start new_client) q k 0)),
      net_up := Pair sample_peer ` set (snd (RudpTransport.client_send (RudpTransport.client_start new_client) q k 0)),
      up_sent := (\<lambda>_. [])(sample_peer := [(k, q)])\<rparr>\<rparr>"

lemma sample_stack_reachable: "(stack_step h clock fit)\<^sup>*\<^sup>* (init_stack s) (sample_stack s k q)"
proof -
  let ?c = "RudpTransport.client_start new_client"
  let ?S1 = "init_system\<lparr>server := RudpTransport.server_start (server init_system)\<rparr>"
  let ?S2 = "?S1\<lparr>clients := (clients ?S1)(sample_peer := RudpTransport.client_start (clients ?S1 sample_peer))\<rparr>"
  obtain c' out where cs: "RudpTransport.client_send ?c q k 0 = (c', out)" by fastforce
  then have "RudpTransport.client_send (clients ?S2 sample_peer) q k 0 = (c', out)"
    by (simp add: init_system_def)
  note s3 = rudp_step.client_send [OF this]
  have "?S2\<lparr>clients := (clients ?S2)(sample_peer := c'), net_up := net_up ?S2 \<union> Pair sample_peer ` set out,
      up_sent := (up_sent ?S2)(sample_peer := up_sent ?S2 sample_peer @ [(k, q)])\<rparr> = link (sample_stack s k q)"
    by (simp add: sample_stack_def init_system_def cs)
  with s3 have s3': "rudp_step ?S2 (link (sample_stack s k q))" by simp
  have "rudp_step init_system ?S1" "rudp_step ?S1 ?S2"
    by (rule rudp_step.server_start, rule rudp_step.client_start)
  then have "rudp_step\<^sup>*\<^sup>* init_system (link (sample_stack s k q))" using s3' by (rule rtranclp_three_steps)
  then have "(stack_step h clock fit)\<^sup>*\<^sup>* (init_stack s) ((init_stack s)\<lparr>link := link (sample_stack s k q)\<rparr>)"
    by (intro quiet_steps) (simp_all add: init_stack_def sample_stack_def init_system_def)
  then show ?thesis by (simp add: sample_stack_def)
qed

lemma sample_stack_up:
  "link_up (link (sample_stack s k q)) sample_peer" "up_sent (link (sample_stack s k q)) sample_peer = [(k, q)]"
  "\<lbrakk>0 \<le> k; k < 100; length q < 1000\<rbrakk> \<Longrightarrow> sendable [(k, q)]"
proof -
  show "link_up (link (sample_stack s k q)) sample_peer"
    by (simp add: link_up_def sample_stack_def server_start_def client_send_def client_start_def new_client_def split: prod.split)
  show "up_sent (link (sample_stack s k q)) sample_peer = [(k, q)]"
    by (simp add: sample_stack_def init_system_def)
  have "hist_of [(k, q)] = packets_of [] k q" by (simp add: hist_of_def)
  moreover have "length (chunks_of q) \<le> 2" if "length q < 1000" using that by (simp add: chunks_of_def mss_eq)
  ultimately show "\<lbrakk>0 \<le> k; k < 100; length q < 1000\<rbrakk> \<Longrightarrow> sendable [(k, q)]"
    by (simp add: sendable_def packets_of_def)
qed

lemma sample_sendable: "sendable [(7, sample_request)]" "sendable [(1, sample_query)]"
proof -
  show "sendable [(7, sample_request)]" by (rule sample_stack_up(3)) (simp_all add: sample_request_def)
  have "length (string_of_int 8053) < 100"
    by (simp add: string_of_int_def) (simp add: string_of_nat.simps)
  then show "sendable [(1, sample_query)]"
    by (intro sample_stack_up(3)) (simp_all add: sample_query_def build_doh_request_def)
qed

lemma sample_query_is_query:
  "doh_request ''agent.local'' ''127.0.0.1'' 8053 = Inr sample_query" "query_of sample_query = Some ''agent.local''"
proof -
  have e: "encodable (build_doh_request ''agent.local'' ''127.0.0.1'' 8053)"
    unfolding build_doh_request_def by (intro encodable_append) (auto intro: encodable_ascii string_of_int_ascii)
  then show "doh_request ''agent.local'' ''127.0.0.1'' 8053 = Inr sample_query"
    by (simp add: doh_request_def py_encode_def sample_query_def)
  have "query_name ''agent.local''" by (simp add: query_name_def encodable_ascii)
  with e show "query_of sample_query = Some ''agent.local''"
    by (simp add: query_of_def sample_query_def py_decode_def parse_build_request)
qed

lemma sample_slash: "starts_slash ''/srv''" by (simp add: starts_slash_def)

theorem full_stack_safety_witness:
  "\<exists>st. agent_step\<^sup>*\<^sup>* (init_stack sample_server) st \<and> map fst (served st sample_peer) = [sample_request] \<and>
     prefix (down_got (link st) sample_peer) (map snd (answers_sent (served st sample_peer))) \<and>
     list_all exchange_ok (served st sample_peer)"
proof -
  have start: "starts_slash ''/srv'' \<and> sample_server = new_AgentServer ''/srv'' ''box'' 4096 sample_disk"
    using sample_slash by (simp add: sample_server_def)
  obtain st where st: "agent_step\<^sup>*\<^sup>* (sample_stack sample_server 7 sample_request) st" "map fst (served st sample_peer) = [sample_request]"
    using agent_service.stack_serves [OF start sample_stack_reachable sample_stack_up(1)] sample_sendable(1) sample_stack_up(2) [of sample_server] by force
  have r: "agent_step\<^sup>*\<^sup>* (init_stack sample_server) st" using sample_stack_reachable st(1) by (rule rtranclp_trans)
  from full_stack_safety [OF sample_slash r [unfolded sample_server_def], of sample_peer] r st(2) show ?thesis
    by (intro exI [of _ st]) simp
qed

theorem full_stack_serves_witness:
  "\<exists>st'. agent_step\<^sup>*\<^sup>* (sample_stack sample_server 7 sample_request) st' \<and> map fst (served st' sample_peer) = [sample_request]"
  using full_stack_serves [OF sample_slash sample_stack_reachable [of _ _ _ sample_server 7 sample_request, unfolded sample_server_def], of sample_peer]
    sample_stack_up(1,2) [of sample_server] sample_sendable(1) by (simp add: sample_server_def)

theorem dns_over_rudp_safety_witness:
  "\<exists>q st. doh_request ''agent.local'' ''127.0.0.1'' 8053 = Inr q \<and> query_of q = Some ''agent.local'' \<and>
     dns_step\<^sup>*\<^sup>* (init_stack (new_DNSCache 0)) st \<and> map fst (served st sample_peer) = [q] \<and>
     prefix (down_got (link st) sample_peer) (map snd (answers_sent (served st sample_peer))) \<and>
     list_all dns_exchange_ok (served st sample_peer)"
proof -
  have start: "\<exists>t. new_DNSCache 0 = new_DNSCache t" by blast
  obtain st where st: "dns_step\<^sup>*\<^sup>* (sample_stack (new_DNSCache 0) 1 sample_query) st" "map fst (served st sample_peer) = [sample_query]"
    using dns_service.stack_serves [OF start sample_stack_reachable sample_stack_up(1)] sample_sendable(2) sample_stack_up(2) [of "new_DNSCache 0"] by force
  have r: "dns_step\<^sup>*\<^sup>* (init_stack (new_DNSCache 0)) st" using sample_stack_reachable st(1) by (rule rtranclp_trans)
  from dns_over_rudp_safety [OF r, of sample_peer] r st(2) show ?thesis
    by (intro exI [of _ sample_query] exI [of _ st]) (simp add: sample_query_is_query)
qed

end
