(* ===== verification/AgentClient.thy ===== *)
theory AgentClient
  imports Handlers TcpTransport ResponseBuilder PyText
begin

text \<open>
  The agent client: \<^verbatim>\<open>src/client/agent_client.py\<close>, the registry and the data classes of
  \<^verbatim>\<open>src/client/agent/dispatcher.py\<close>, the upload helper \<^verbatim>\<open>src/client/agent/upload_client.py\<close>
  and the handlers under \<^verbatim>\<open>src/client/agent/handlers/\<close>. What lies beyond the socket is a
  \<open>network\<close>: a state, whether a send succeeds, and what a message that was sent brings back,
  as segments of the TCP stream or as messages that the RUDP transport delivers before the time-out.
  Shown: the retry loop, the decoding of responses, and what each operation returns.
\<close>

section \<open>Requests and results\<close>

datatype encoding_mode = ENCODING_JSON | ENCODING_MIXED

record ClientRequestSpec =
  spec_opcode :: int
  spec_meta :: "(string, json) dict"
  spec_binary :: "bytes option"
  spec_mode :: encoding_mode

datatype op_data = NoData | JsonData json | BinData bytes

record OperationResult =
  res_status :: json
  res_data :: op_data
  res_error :: json

datatype ClientHandler =
    GetHandler
  | AppendHandler
  | ListHandler
  | PutMetaHandler
  | PutChunkHandler
  | UploadHandler
  | TaskHandler int

text \<open>The keyword arguments of \<^verbatim>\<open>execute\<close>, by the handler that takes them.\<close>

datatype kwargs =
    KwGet json
  | KwAppend string bytes
  | KwList
  | KwPutMeta string int bool
  | KwPutChunk json int bytes
  | KwUpload string string
  | KwTask "(string, json) dict"

text \<open>The format \<^verbatim>\<open>#x\<close> of an opcode.\<close>

fun hex_of_nat :: "nat \<Rightarrow> string" where
  "hex_of_nat n = (if n < 16 then [hex_digit n] else hex_of_nat (n div 16) @ [hex_digit (n mod 16)])"

declare hex_of_nat.simps [simp del]

definition hex_format :: "int \<Rightarrow> string" where
  "hex_format i = (if i < 0 then ''-'' else []) @ ''0x'' @ hex_of_nat (nat \<bar>i\<bar>)"

definition get_handler :: "(int, ClientHandler) dict \<Rightarrow> int \<Rightarrow> py_error + ClientHandler" where
  "get_handler hs op =
     (case dict_get hs op of
        None \<Rightarrow> Inl (ValueError (''No handler registered for opcode '' @ hex_format op))
      | Some h \<Rightarrow> Inr h)"

definition register_handler :: "(int, ClientHandler) dict \<Rightarrow> int \<Rightarrow> ClientHandler \<Rightarrow> (int, ClientHandler) dict" where
  "register_handler hs op h = dict_set op h hs"

section \<open>Request builders\<close>

definition build_get :: "json \<Rightarrow> ClientRequestSpec" where
  "build_get fname =
     \<lparr>spec_opcode = OP_GET, spec_meta = [(''filename'', fname)], spec_binary = None, spec_mode = ENCODING_JSON\<rparr>"

definition build_append :: "string \<Rightarrow> bytes \<Rightarrow> ClientRequestSpec" where
  "build_append fname data =
     \<lparr>spec_opcode = OP_APPEND, spec_meta = [(''filename'', JStr fname)], spec_binary = Some data,
      spec_mode = ENCODING_MIXED\<rparr>"

definition build_list :: ClientRequestSpec where
  "build_list = \<lparr>spec_opcode = OP_LIST, spec_meta = [], spec_binary = None, spec_mode = ENCODING_JSON\<rparr>"

definition build_put_meta :: "string \<Rightarrow> int \<Rightarrow> bool \<Rightarrow> ClientRequestSpec" where
  "build_put_meta fname tsize overwrite =
     \<lparr>spec_opcode = OP_PUT_META,
      spec_meta = [(''filename'', JStr fname), (''total_size'', JInt tsize), (''overwrite'', JBool overwrite)],
      spec_binary = None, spec_mode = ENCODING_JSON\<rparr>"

definition build_put_chunk :: "json \<Rightarrow> int \<Rightarrow> bytes \<Rightarrow> ClientRequestSpec" where
  "build_put_chunk uid off chunk_data =
     \<lparr>spec_opcode = OP_PUT_CHUNK,
      spec_meta = [(''upload_id'', uid), (''offset'', JInt off), (''chunk_len'', JInt (int (length chunk_data)))],
      spec_binary = Some chunk_data, spec_mode = ENCODING_MIXED\<rparr>"

definition build_task :: "int \<Rightarrow> (string, json) dict \<Rightarrow> ClientRequestSpec" where
  "build_task op kw = \<lparr>spec_opcode = op, spec_meta = kw, spec_binary = None, spec_mode = ENCODING_JSON\<rparr>"

text \<open>A call with arguments that the handler does not have is a \<^verbatim>\<open>TypeError\<close>.\<close>

fun build_request :: "ClientHandler \<Rightarrow> kwargs \<Rightarrow> py_error + ClientRequestSpec" where
  "build_request GetHandler (KwGet fname) = Inr (build_get fname)"
| "build_request AppendHandler (KwAppend fname data) = Inr (build_append fname data)"
| "build_request ListHandler KwList = Inr build_list"
| "build_request PutMetaHandler (KwPutMeta fname tsize overwrite) = Inr (build_put_meta fname tsize overwrite)"
| "build_request PutChunkHandler (KwPutChunk uid off chunk_data) = Inr (build_put_chunk uid off chunk_data)"
| "build_request (TaskHandler op) (KwTask kw) = Inr (build_task op kw)"
| "build_request UploadHandler _ =
     Inl (NotImplementedError ''UploadHandler is an orchestrator and does not build single requests.'')"
| "build_request _ _ = Inl TypeError"

section \<open>Response parsers\<close>

definition status_is :: "json \<Rightarrow> int \<Rightarrow> bool" where
  "status_is st n \<longleftrightarrow> num_value st = Some (of_int n)"

text \<open>The branch of an error status, with or without the metadata as data.\<close>

definition error_result :: "json \<Rightarrow> json \<Rightarrow> string \<Rightarrow> op_data \<Rightarrow> py_error + OperationResult" where
  "error_result status_code meta dflt data =
     ebind (json_get meta ''error'' (JStr dflt)) (\<lambda>error_msg.
       Inr \<lparr>res_status = status_code, res_data = data, res_error = error_msg\<rparr>)"

definition success :: "op_data \<Rightarrow> OperationResult" where
  "success data = \<lparr>res_status = JInt 200, res_data = data, res_error = JNull\<rparr>"

definition parse_get :: "json \<Rightarrow> json \<Rightarrow> bytes option \<Rightarrow> py_error + OperationResult" where
  "parse_get status_code meta binary =
     (if status_is status_code 200
      then Inr (success (case binary of None \<Rightarrow> NoData | Some b \<Rightarrow> BinData b))
      else error_result status_code meta ''Unknown GET Error'' NoData)"

definition parse_append :: "json \<Rightarrow> json \<Rightarrow> bytes option \<Rightarrow> py_error + OperationResult" where
  "parse_append status_code meta binary =
     (if status_is status_code 200 then Inr (success (JsonData meta))
      else error_result status_code meta ''Unknown APPEND Error'' (JsonData meta))"

definition parse_list :: "json \<Rightarrow> json \<Rightarrow> bytes option \<Rightarrow> py_error + OperationResult" where
  "parse_list status_code meta binary =
     (if status_is status_code 200
      then ebind (json_get meta ''data'' (JDict [])) (\<lambda>pl.
             case pl of
               JDict kvs \<Rightarrow> ebind (json_get pl ''files'' (JList [])) (\<lambda>fs. Inr (success (JsonData fs)))
             | _ \<Rightarrow> Inr (success (JsonData (JList []))))
      else error_result status_code meta ''Unknown LIST Error'' (JsonData meta))"

definition parse_put_meta :: "json \<Rightarrow> json \<Rightarrow> bytes option \<Rightarrow> py_error + OperationResult" where
  "parse_put_meta status_code meta binary =
     (if status_is status_code 200
      then ebind (json_get meta ''data'' (JDict [])) (\<lambda>data.
           ebind (json_get data ''upload_id'' JNull) (\<lambda>uid.
           ebind (if truthy uid then Inr uid else json_get meta ''upload_id'' uid) (\<lambda>uid'.
             Inr (success (JsonData (JDict [(''upload_id'', uid')]))))))
      else error_result status_code meta ''Unknown PUT_META Error'' (JsonData meta))"

definition parse_put_chunk :: "json \<Rightarrow> json \<Rightarrow> bytes option \<Rightarrow> py_error + OperationResult" where
  "parse_put_chunk status_code meta binary =
     (if status_is status_code 200 then Inr (success (JsonData meta))
      else error_result status_code meta ''Unknown PUT_CHUNK Error'' (JsonData meta))"

text \<open>\<^verbatim>\<open>status_code >= 300\<close> on whatever JSON sent.\<close>

fun status_ge_300 :: "json \<Rightarrow> py_error + bool" where
  "status_ge_300 (JInt i) = Inr (300 \<le> i)"
| "status_ge_300 (JBool b) = Inr False"
| "status_ge_300 (JFloat lit) =
     Inr (lit = ''Infinity'' \<or> (is_finite_literal lit \<and> 300 \<le> float_value lit))"
| "status_ge_300 _ = Inl TypeError"

definition parse_task_response :: "json \<Rightarrow> json \<Rightarrow> bytes option \<Rightarrow> py_error + OperationResult" where
  "parse_task_response status_code meta binary =
     ebind (status_ge_300 status_code) (\<lambda>failed.
       if failed
       then ebind (json_get meta ''message'' (JStr ''Task Failed'')) (\<lambda>m.
              Inr \<lparr>res_status = status_code, res_data = NoData, res_error = m\<rparr>)
       else Inr \<lparr>res_status = status_code, res_data = JsonData meta, res_error = JNull\<rparr>)"

fun parse_client_response :: "ClientHandler \<Rightarrow> json \<Rightarrow> json \<Rightarrow> bytes option \<Rightarrow> py_error + OperationResult" where
  "parse_client_response GetHandler st meta b = parse_get st meta b"
| "parse_client_response AppendHandler st meta b = parse_append st meta b"
| "parse_client_response ListHandler st meta b = parse_list st meta b"
| "parse_client_response PutMetaHandler st meta b = parse_put_meta st meta b"
| "parse_client_response PutChunkHandler st meta b = parse_put_chunk st meta b"
| "parse_client_response UploadHandler st meta b =
     Inl (NotImplementedError ''UploadHandler does not parse single responses.'')"
| "parse_client_response (TaskHandler op) st meta b = parse_task_response st meta b"

section \<open>State\<close>

datatype client_transport = Tcp TCPClient | Rudp

record AgentClient =
  transport :: client_transport
  current_id :: int
  pending_requests :: "(int, bytes option) dict"
  handlers :: "(int, ClientHandler) dict"
  active_request_override :: "int option"

text \<open>
  A pending request is its response, if it has arrived (then its event is set). The RUDP transport
  itself is verified apart; here it is what the network delivers to \<^verbatim>\<open>_on_message_received\<close>.
\<close>

definition create_transport :: "string \<Rightarrow> py_error + client_transport" where
  "create_transport mode =
     (if ascii_lower mode = ''tcp'' then Inr (Tcp \<lparr>tcp_sock = None\<rparr>)
      else if ascii_lower mode = ''rudp'' then Inr Rudp
      else Inl (ValueError (''Unknown transport mode: '' @ mode)))"

definition new_AgentClient :: "client_transport \<Rightarrow> AgentClient" where
  "new_AgentClient tr =
     \<lparr>transport = tr, current_id = 0, pending_requests = [],
      handlers = foldl (\<lambda>hs (op, h). register_handler hs op h) []
       [(OP_GET, GetHandler), (OP_APPEND, AppendHandler), (OP_LIST, ListHandler),
        (OP_PUT_META, PutMetaHandler), (OP_PUT_CHUNK, PutChunkHandler), (OP_UPLOAD, UploadHandler),
        (OP_TASK_SEARCH_REPORT, TaskHandler OP_TASK_SEARCH_REPORT),
        (OP_TASK_FILTER_LINES, TaskHandler OP_TASK_FILTER_LINES),
        (OP_TASK_HASH_AND_STORE, TaskHandler OP_TASK_HASH_AND_STORE)],
      active_request_override = None\<rparr>"

definition next_id :: "AgentClient \<Rightarrow> AgentClient \<times> int" where
  "next_id c = (let n = current_id c + 1 in (c\<lparr>current_id := n\<rparr>, n))"

definition on_message_received :: "AgentClient \<Rightarrow> bytes \<Rightarrow> AgentClient" where
  "on_message_received c data =
     (if length data < HEADER_SIZE then c
      else case decode_header (take HEADER_SIZE data) of
        Inl e \<Rightarrow> c
      | Inr header \<Rightarrow>
          if dict_has (pending_requests c) (request_id header)
          then c\<lparr>pending_requests := dict_set (request_id header) (Some data) (pending_requests c)\<rparr> else c)"

definition is_async :: "AgentClient \<Rightarrow> bool" where
  "is_async c = (transport c = Rudp)"

definition close_transport :: "AgentClient \<Rightarrow> AgentClient" where
  "close_transport c =
     (case transport c of Tcp t \<Rightarrow> c\<lparr>transport := Tcp (client_tcp_close t)\<rparr> | Rudp \<Rightarrow> c)"

section \<open>One exchange\<close>

record 'w network =
  net_up :: "'w \<Rightarrow> bool"
  net_reply :: "'w \<Rightarrow> bytes \<Rightarrow> 'w \<times> bytes list"
  net_sleep :: "'w \<Rightarrow> real \<Rightarrow> 'w"

text \<open>The TCP flow: the reply of the peer joins what is still unread on the connection.\<close>

definition tcp_arrive :: "TCPClient \<Rightarrow> bytes list \<Rightarrow> TCPClient" where
  "tcp_arrive t segments =
     (case tcp_sock t of None \<Rightarrow> t | Some s \<Rightarrow> t\<lparr>tcp_sock := Some (s\<lparr>inbox := inbox s @ segments\<rparr>)\<rparr>)"

definition tcp_payload :: "TCPClient \<Rightarrow> int \<Rightarrow> TCPClient \<times> (py_error + bytes)" where
  "tcp_payload t final_req_id =
     (case client_receive_exact t HEADER_SIZE of
        Inl e \<Rightarrow> (t, Inl e)
      | Inr (header_data, t1) \<Rightarrow>
          (case decode_header header_data of
             Inl e \<Rightarrow> (t1, Inl e)
           | Inr header \<Rightarrow>
               if payload_len header > MAX_PAYLOAD_LEN
               then (t1, Inl (ValueError (''Payload too large: '' @ string_of_int (payload_len header))))
               else if request_id header \<noteq> final_req_id
               then (client_tcp_close t1, Inl (ConnectionError ''Request ID Mismatch''))
               else (case client_receive_exact t1 (nat (payload_len header)) of
                       Inl e \<Rightarrow> (t1, Inl e)
                     | Inr (payload_data, t2) \<Rightarrow> (t2, Inr payload_data))))"

definition tcp_flow :: "'w network \<Rightarrow> 'w \<Rightarrow> TCPClient \<Rightarrow> bytes \<Rightarrow> int \<Rightarrow> 'w \<times> TCPClient \<times> (py_error + bytes)" where
  "tcp_flow net w t full_message final_req_id =
     (case client_send_bytes t full_message (net_up net w) of
        Inl e \<Rightarrow> (w, t, Inl e)
      | Inr t1 \<Rightarrow>
          (let (w', segments) = net_reply net w full_message;
               (t2, r) = tcp_payload (tcp_arrive t1 segments) final_req_id
           in (w', t2, r)))"

text \<open>The RUDP flow: \<^verbatim>\<open>event.wait\<close> succeeds when a response for this request has arrived.\<close>

definition RESPONSE_TIMEOUT :: string where "RESPONSE_TIMEOUT = ''15.0''"

definition rudp_flow :: "'w network \<Rightarrow> 'w \<Rightarrow> AgentClient \<Rightarrow> bytes \<Rightarrow> int \<Rightarrow> 'w \<times> AgentClient \<times> (py_error + bytes)" where
  "rudp_flow net w c full_message final_req_id =
     (let c1 = c\<lparr>pending_requests := dict_set final_req_id None (pending_requests c)\<rparr>;
          (w', msgs) = net_reply net w full_message;
          c2 = foldl on_message_received c1 msgs;
          c3 = c2\<lparr>pending_requests := dict_del final_req_id (pending_requests c2)\<rparr>
      in case dict_get (pending_requests c2) final_req_id of
           Some (Some resp) \<Rightarrow>
             (w', c3, ebind (decode_header (take HEADER_SIZE resp)) (\<lambda>header.
                if payload_len header > MAX_PAYLOAD_LEN
                then Inl (ValueError (''Payload too large: '' @ string_of_int (payload_len header)))
                else Inr (take (nat (payload_len header)) (drop HEADER_SIZE resp))))
         | _ \<Rightarrow> (w', c3, Inl (TimeoutError (''RUDP response timed out after '' @ RESPONSE_TIMEOUT @ ''s''))))"

definition exchange :: "'w network \<Rightarrow> 'w \<Rightarrow> AgentClient \<Rightarrow> bytes \<Rightarrow> int \<Rightarrow> 'w \<times> AgentClient \<times> (py_error + bytes)" where
  "exchange net w c full_message final_req_id =
     (case transport c of
        Tcp t \<Rightarrow> (let (w', t', r) = tcp_flow net w t full_message final_req_id in (w', c\<lparr>transport := Tcp t'\<rparr>, r))
      | Rudp \<Rightarrow> rudp_flow net w c full_message final_req_id)"

section \<open>Decoding of responses\<close>

text \<open>
  Mixed mode first; only a \<^verbatim>\<open>ValueError\<close> of its decoder leads to JSON. A payload that is
  neither is an error unless it is empty. \<^verbatim>\<open>repr\<close> of the first hundred bytes is \<open>obj_text\<close>.
\<close>

definition decode_response :: "env \<Rightarrow> bytes \<Rightarrow> py_error + json \<times> json \<times> bytes option" where
  "decode_response ev payload_data =
     (case (if 4 \<le> length payload_data then mixed_decode (exc_text ev) payload_data else Inl (ValueError [])) of
        Inr (resp_meta, resp_binary) \<Rightarrow>
          ebind (json_get resp_meta ''status'' (JInt 200)) (\<lambda>st. Inr (st, resp_meta, Some resp_binary))
      | Inl e \<Rightarrow>
          if \<not> is_ValueError e then Inl e
          else ebind (py_decode payload_data) (\<lambda>text.
            case loads text of
              Inr resp_meta \<Rightarrow> ebind (json_get resp_meta ''status'' (JInt 200)) (\<lambda>st. Inr (st, resp_meta, None))
            | Inl _ \<Rightarrow>
                if payload_data = [] then Inr (JInt 200, JDict [], None)
                else Inl (ValueError (''Invalid response format: '' @ obj_text ev))))"

section \<open>Requests with retries\<close>

fun is_retryable :: "py_error \<Rightarrow> bool" where
  "is_retryable (ConnectionError _) = True"
| "is_retryable (TimeoutError _) = True"
| "is_retryable e = is_ValueError e"

definition attempt ::
  "env \<Rightarrow> 'w network \<Rightarrow> 'w \<Rightarrow> AgentClient \<Rightarrow> int \<Rightarrow> bytes \<Rightarrow> int \<Rightarrow> int option
    \<Rightarrow> 'w \<times> AgentClient \<times> (py_error + json \<times> json \<times> bytes option)" where
  "attempt ev net w c op payload_bytes generated_id override =
     (case encode_message op 0 generated_id payload_bytes override of
        Inl e \<Rightarrow> (w, c, Inl e)
      | Inr full_message \<Rightarrow>
          (let (w', c', r) = exchange net w c full_message
                 (case override of Some i \<Rightarrow> i | None \<Rightarrow> generated_id)
           in (w', c', ebind r (decode_response ev))))"

function request_loop ::
  "env \<Rightarrow> 'w network \<Rightarrow> 'w \<Rightarrow> AgentClient \<Rightarrow> int \<Rightarrow> bytes \<Rightarrow> int \<Rightarrow> int option \<Rightarrow> int
    \<Rightarrow> 'w \<times> AgentClient \<times> (py_error + json \<times> json \<times> bytes option)" where
  "request_loop ev net w c op payload_bytes generated_id override retries =
     (if retries > MAX_RETRIES then (w, c, Inl (TimeoutError ''Unreachable''))
      else case attempt ev net w c op payload_bytes generated_id override of
        (w', c', Inr r) \<Rightarrow> (w', c', Inr r)
      | (w', c', Inl e) \<Rightarrow>
          if \<not> is_retryable e then (w', c', Inl e)
          else (let c'' = (if is_async c' then c' else close_transport c')
                in if retries + 1 > MAX_RETRIES
                   then (w', c'', Inl (TimeoutError (''Max retries exceeded for ReqID=''
                          @ string_of_int (case override of Some i \<Rightarrow> i | None \<Rightarrow> generated_id))))
                   else request_loop ev net (net_sleep net w' (min (INITIAL_RTO * 2 ^ nat retries) MAX_RTO))
                          c'' op payload_bytes generated_id override (retries + 1)))"
  by pat_completeness auto
termination
  by (relation "measure (\<lambda>(ev, net, w, c, op, pl, g, ov, retries). nat (MAX_RETRIES + 1 - retries))") auto

declare request_loop.simps [simp del]

definition encode_payload :: "ClientRequestSpec \<Rightarrow> py_error + bytes" where
  "encode_payload spec =
     (if spec_mode spec = ENCODING_MIXED then mixed_encode (JDict (spec_meta spec)) (spec_binary spec)
      else py_encode (dumps (JDict (spec_meta spec))))"

definition send_request_spec ::
  "env \<Rightarrow> 'w network \<Rightarrow> 'w \<Rightarrow> AgentClient \<Rightarrow> ClientRequestSpec
    \<Rightarrow> 'w \<times> AgentClient \<times> (py_error + json \<times> json \<times> bytes option)" where
  "send_request_spec ev net w c spec =
     (case encode_payload spec of
        Inl e \<Rightarrow> (w, c, Inl e)
      | Inr payload_bytes \<Rightarrow>
          (let override = active_request_override c;
               (c1, generated_id) = next_id (c\<lparr>active_request_override := None\<rparr>)
           in request_loop ev net w c1 (spec_opcode spec) payload_bytes generated_id override 0))"

section \<open>execute\<close>

definition is_orchestrator :: "ClientHandler \<Rightarrow> bool" where
  "is_orchestrator h = (case h of UploadHandler \<Rightarrow> True | TaskHandler _ \<Rightarrow> True | _ \<Rightarrow> False)"

type_synonym 'w outcome = "'w \<times> AgentClient \<times> (py_error + OperationResult)"

text \<open>
  \<^verbatim>\<open>execute\<close> with the orchestrators' \<^verbatim>\<open>run\<close> as an argument. An orchestrator itself
  executes only operations whose handlers are not orchestrators, as the client registers them.
\<close>

definition execute_with ::
  "('w \<Rightarrow> AgentClient \<Rightarrow> ClientHandler \<Rightarrow> kwargs \<Rightarrow> 'w outcome)
    \<Rightarrow> env \<Rightarrow> 'w network \<Rightarrow> 'w \<Rightarrow> AgentClient \<Rightarrow> int \<Rightarrow> int option \<Rightarrow> kwargs \<Rightarrow> 'w outcome" where
  "execute_with run ev net w c op request_id_override kw =
     (case get_handler (handlers c) op of
        Inl e \<Rightarrow> (w, c, Inl e)
      | Inr handler \<Rightarrow>
          (let previous_override = active_request_override c;
               active_override = (case request_id_override of Some i \<Rightarrow> Some i | None \<Rightarrow> previous_override);
               c1 = (case active_override of Some i \<Rightarrow> c\<lparr>active_request_override := Some i\<rparr> | None \<Rightarrow> c);
               (w', c2, r) =
                 (if is_orchestrator handler then run w c1 handler kw
                  else case build_request handler kw of
                    Inl e \<Rightarrow> (w, c1, Inl e)
                  | Inr req_spec \<Rightarrow>
                      (let (w2, c3, resp) = send_request_spec ev net w c1 req_spec
                       in (w2, c3, ebind resp (\<lambda>(st, resp_meta, resp_binary).
                            parse_client_response handler st resp_meta resp_binary))))
           in (w', c2\<lparr>active_request_override := previous_override\<rparr>, r)))"

definition execute_request ::
  "env \<Rightarrow> 'w network \<Rightarrow> 'w \<Rightarrow> AgentClient \<Rightarrow> int \<Rightarrow> int option \<Rightarrow> kwargs \<Rightarrow> 'w outcome" where
  "execute_request = execute_with (\<lambda>w c h kw. (w, c,
     Inl (NotImplementedError ''Orchestrator handlers must implement run()'')))"

section \<open>Upload\<close>

definition validate_file :: "disk \<Rightarrow> string \<Rightarrow> py_error + string option" where
  "validate_file ld local_path =
     (if \<not> os_exists ld local_path then Inr (Some (''File not found: '' @ local_path))
      else ebind (os_getsize ld local_path) (\<lambda>file_size.
        Inr (if file_size > MAX_FILE_SIZE
             then Some (''File size '' @ string_of_int file_size @ '' exceeds limit '' @ string_of_int MAX_FILE_SIZE)
             else None)))"

definition basename :: "string \<Rightarrow> string" where
  "basename p = rev (takeWhile (\<lambda>ch. ch \<noteq> CHR ''/'') (rev p))"

definition get_file_info :: "disk \<Rightarrow> string \<Rightarrow> py_error + string \<times> int" where
  "get_file_info ld local_path = ebind (os_getsize ld local_path) (\<lambda>n. Inr (basename local_path, n))"

text \<open>The loop of \<^verbatim>\<open>get_chunks\<close>: \<open>rest\<close> is what is left to read of the file.\<close>

function read_chunks :: "nat \<Rightarrow> int \<Rightarrow> int \<Rightarrow> bytes \<Rightarrow> (int \<times> bytes) list" where
  "read_chunks chunk_size file_size off rest =
     (let chunk_data = take chunk_size rest
      in if off < file_size \<and> chunk_data \<noteq> []
         then (off, chunk_data) # read_chunks chunk_size file_size (off + int (length chunk_data)) (drop chunk_size rest)
         else [])"
  by pat_completeness auto
termination
  by (relation "measure (\<lambda>(k, n, off, rest). length rest)") auto

declare read_chunks.simps [simp del]

definition CHUNK_SIZE :: nat where "CHUNK_SIZE = 8192"

definition get_chunks :: "disk \<Rightarrow> string \<Rightarrow> py_error + (int \<times> bytes) list" where
  "get_chunks ld local_path =
     ebind (os_getsize ld local_path) (\<lambda>file_size.
     ebind (read_bytes ld local_path) (\<lambda>content.
       Inr (read_chunks CHUNK_SIZE file_size 0 content)))"

text \<open>\<^verbatim>\<open>int(hexdigest, 16)\<close>.\<close>

definition hex_int :: "string \<Rightarrow> py_error + int" where
  "hex_int digits =
     (if digits = [] \<or> \<not> list_all (\<lambda>ch. hex_val ch \<noteq> None) digits
      then Inl (ValueError (''invalid literal for int() with base 16: '' @ digits))
      else Inr (foldl (\<lambda>a ch. 16 * a + int (the (hex_val ch))) 0 digits))"

definition generate_chunk_req_id :: "env \<Rightarrow> json \<Rightarrow> int \<Rightarrow> py_error + int" where
  "generate_chunk_req_id ev uid off =
     ebind (py_encode (py_str ev uid @ '':'' @ string_of_int off)) (\<lambda>raw.
     ebind (hex_int (sha256 ev raw)) (\<lambda>n. Inr (n mod 2 ^ 31)))"

definition failure_result :: "int \<Rightarrow> string \<Rightarrow> OperationResult" where
  "failure_result st msg = \<lparr>res_status = JInt st, res_data = NoData, res_error = JStr msg\<rparr>"

text \<open>The loop over the chunks: the result with which it returns, if it does.\<close>

fun upload_chunks ::
  "env \<Rightarrow> 'w network \<Rightarrow> 'w \<Rightarrow> AgentClient \<Rightarrow> json \<Rightarrow> (int \<times> bytes) list \<Rightarrow> 'w \<times> AgentClient \<times> OperationResult option" where
  "upload_chunks ev net w c uid [] = (w, c, None)"
| "upload_chunks ev net w c uid ((off, chunk_data) # chunks) =
     (case generate_chunk_req_id ev uid off of
        Inl e \<Rightarrow> (w, c, Some (failure_result 500 (err_str ev e)))
      | Inr stable_req_id \<Rightarrow>
          (case execute_request ev net w c OP_PUT_CHUNK (Some stable_req_id) (KwPutChunk uid off chunk_data) of
             (w', c', Inl e) \<Rightarrow> (w', c', Some (failure_result 500 (err_str ev e)))
           | (w', c', Inr chunk_res) \<Rightarrow>
               if \<not> status_is (res_status chunk_res) 200 then (w', c', Some chunk_res)
               else upload_chunks ev net w' c' uid chunks))"

text \<open>\<^verbatim>\<open>meta_res.data.get('upload_id')\<close>, and nothing when the data is not a dictionary.\<close>

definition result_upload_id :: "OperationResult \<Rightarrow> json" where
  "result_upload_id res =
     (case res_data res of
        JsonData (JDict kvs) \<Rightarrow> (case dict_get kvs ''upload_id'' of Some v \<Rightarrow> v | None \<Rightarrow> JNull)
      | _ \<Rightarrow> JNull)"

definition upload_run ::
  "env \<Rightarrow> disk \<Rightarrow> 'w network \<Rightarrow> 'w \<Rightarrow> AgentClient \<Rightarrow> string \<Rightarrow> string \<Rightarrow> 'w outcome" where
  "upload_run ev ld net w c local_path remote_name =
     (case validate_file ld local_path of
        Inl e \<Rightarrow> (w, c, Inl e)
      | Inr (Some error) \<Rightarrow> (w, c, Inr (failure_result 400 error))
      | Inr None \<Rightarrow>
          (case get_file_info ld local_path of
             Inl e \<Rightarrow> (w, c, Inl e)
           | Inr (file_name, file_size) \<Rightarrow>
               (case execute_request ev net w c OP_PUT_META None (KwPutMeta remote_name file_size True) of
                  (w1, c1, Inl e) \<Rightarrow> (w1, c1, Inl e)
                | (w1, c1, Inr meta_res) \<Rightarrow>
                    if \<not> status_is (res_status meta_res) 200 then (w1, c1, Inr meta_res)
                    else if \<not> truthy (result_upload_id meta_res)
                    then (w1, c1, Inr (failure_result 500 ''Server did not return upload_id''))
                    else (case get_chunks ld local_path of
                            Inl e \<Rightarrow> (w1, c1, Inr (failure_result 500 (err_str ev e)))
                          | Inr chunks \<Rightarrow>
                              (case upload_chunks ev net w1 c1 (result_upload_id meta_res) chunks of
                                 (w2, c2, Some res) \<Rightarrow> (w2, c2, Inr res)
                               | (w2, c2, None) \<Rightarrow>
                                   (w2, c2, Inr (success (JsonData (JDict
                                      [(''status'', JStr ''Upload Complete''), (''size'', JInt file_size)])))))))))"

section \<open>Tasks\<close>

text \<open>
  Every task whose answer names an artifact calls \<^verbatim>\<open>client.get_file\<close>, a method the client does
  not have: the \<^verbatim>\<open>AttributeError\<close> is caught and becomes the result.
\<close>

definition task_run ::
  "env \<Rightarrow> 'w network \<Rightarrow> 'w \<Rightarrow> AgentClient \<Rightarrow> int \<Rightarrow> (string, json) dict \<Rightarrow> 'w outcome" where
  "task_run ev net w c op kw =
     (case send_request_spec ev net w c (build_task op kw) of
        (w', c', Inl e) \<Rightarrow> (w', c', Inr (failure_result 500 (err_str ev e)))
      | (w', c', Inr (st, meta, binary)) \<Rightarrow>
          (w', c',
            ebind (parse_task_response st meta binary) (\<lambda>task_res.
            ebind (status_ge_300 (res_status task_res)) (\<lambda>failed.
              if failed then Inr task_res
              else ebind (case res_data task_res of
                            JsonData (JDict kvs) \<Rightarrow> json_get (JDict kvs) ''data'' (JDict [])
                          | _ \<Rightarrow> Inr (JDict [])) (\<lambda>inner_data.
                   ebind (json_get inner_data ''artifact_path'' JNull) (\<lambda>artifact_file.
                     if truthy artifact_file
                     then Inr (failure_result 500 (''Artifact Retrieval Failed: '' @ err_str ev AttributeError))
                     else Inr task_res))))))"

section \<open>All operations\<close>

definition run_orchestrator ::
  "env \<Rightarrow> disk \<Rightarrow> 'w network \<Rightarrow> 'w \<Rightarrow> AgentClient \<Rightarrow> ClientHandler \<Rightarrow> kwargs \<Rightarrow> 'w outcome" where
  "run_orchestrator ev ld net w c h kw =
     (case (h, kw) of
        (UploadHandler, KwUpload local_path remote_name) \<Rightarrow> upload_run ev ld net w c local_path remote_name
      | (TaskHandler op, KwTask args) \<Rightarrow> task_run ev net w c op args
      | _ \<Rightarrow> (w, c, Inl TypeError))"

definition execute ::
  "env \<Rightarrow> disk \<Rightarrow> 'w network \<Rightarrow> 'w \<Rightarrow> AgentClient \<Rightarrow> int \<Rightarrow> int option \<Rightarrow> kwargs \<Rightarrow> 'w outcome" where
  "execute ev ld net = execute_with (run_orchestrator ev ld net) ev net"

section \<open>A link to a server\<close>

definition request_of :: "ClientRequestSpec \<Rightarrow> int \<Rightarrow> py_error + bytes" where
  "request_of spec rid = ebind (encode_payload spec) (\<lambda>pl. encode_message (spec_opcode spec) 0 rid pl None)"

text \<open>
  What the client relies on: a ready client that sends a message for which the peer has an answer
  with the same identifier gets exactly the payload of the answer, and is ready again. Both
  transports provide it.
\<close>

locale agent_link =
  fixes net :: "'w network" and serve :: "'w \<Rightarrow> bytes \<Rightarrow> 'w \<times> bytes" and ready :: "AgentClient \<Rightarrow> bool"
  assumes ready_fields: "ready c \<Longrightarrow> ready (c\<lparr>active_request_override := ov, current_id := n\<rparr>)"
    and exchange_ok: "ready c \<Longrightarrow> serve w m = (w', r) \<Longrightarrow> encode_message op 0 rid pl None = Inr r \<Longrightarrow>
      \<exists>c'. exchange net w c m rid = (w', c', Inr pl) \<and> ready c' \<and> current_id c' = current_id c \<and>
        handlers c' = handlers c \<and> active_request_override c' = active_request_override c"
begin

lemma attempt_ok:
  assumes "ready c" "encode_message op 0 rid pl None = Inr msg" "rid = (case ov of Some i \<Rightarrow> i | None \<Rightarrow> gid)"
    and "serve w msg = (w', r)" "encode_message op' 0 rid rpl None = Inr r"
  shows "\<exists>c'. attempt ev net w c op pl gid ov = (w', c', decode_response ev rpl) \<and> ready c' \<and>
    current_id c' = current_id c \<and> handlers c' = handlers c \<and> active_request_override c' = active_request_override c"
  using exchange_ok [OF assms(1,4,5)] assms(2,3) encode_message_override [of op 0 gid pl ov]
  by (auto simp: attempt_def)

lemma send_request_spec_ok:
  assumes "ready c" "request_of spec rid = Inr msg"
    and "rid = (case active_request_override c of Some i \<Rightarrow> i | None \<Rightarrow> current_id c + 1)"
    and "serve w msg = (w', r)" "encode_message op' 0 rid rpl None = Inr r" "decode_response ev rpl = Inr x"
  shows "\<exists>c'. send_request_spec ev net w c spec = (w', c', Inr x) \<and> ready c' \<and>
    current_id c' = current_id c + 1 \<and> handlers c' = handlers c \<and> active_request_override c' = None"
proof -
  obtain pl where pl: "encode_payload spec = Inr pl" "encode_message (spec_opcode spec) 0 rid pl None = Inr msg"
    using assms(2) by (auto simp: request_of_def error_simps)
  let ?c = "c\<lparr>active_request_override := None, current_id := current_id c + 1\<rparr>"
  obtain c' where "attempt ev net w ?c (spec_opcode spec) pl (current_id c + 1) (active_request_override c) = (w', c', Inr x)"
    "ready c'" "current_id c' = current_id c + 1" "handlers c' = handlers c" "active_request_override c' = None"
    using attempt_ok [OF ready_fields [OF assms(1), where n = "current_id c + 1" and ov = None] pl(2) assms(3-5), where ev = ev] assms(6) by auto
  then show ?thesis
    by (simp add: send_request_spec_def pl(1) next_id_def Let_def request_loop.simps [where retries = 0] MAX_RETRIES_def)
qed

lemma execute_ok:
  assumes "ready c" "active_request_override c = None" "get_handler (handlers c) op = Inr h" "\<not> is_orchestrator h"
    and "build_request h kw = Inr spec" "request_of spec rid = Inr msg"
    and "rid = (case ov of Some i \<Rightarrow> i | None \<Rightarrow> current_id c + 1)"
    and "serve w msg = (w', r)" "encode_message op' 0 rid rpl None = Inr r" "decode_response ev rpl = Inr (st, meta, bin)"
  shows "\<exists>c'. execute_with run ev net w c op ov kw = (w', c', parse_client_response h st meta bin) \<and> ready c' \<and>
    current_id c' = current_id c + 1 \<and> handlers c' = handlers c \<and> active_request_override c' = None"
proof -
  let ?c = "case ov of Some i \<Rightarrow> c\<lparr>active_request_override := Some i\<rparr> | None \<Rightarrow> c"
  have c: "ready ?c" "current_id ?c = current_id c" "handlers ?c = handlers c" "active_request_override ?c = ov"
    using assms(1,2) ready_fields [OF assms(1), where n = "current_id c"]
    by (auto split: option.split)
  obtain c' where c': "send_request_spec ev net w ?c spec = (w', c', Inr (st, meta, bin))" "ready c'"
    "current_id c' = current_id c + 1" "handlers c' = handlers c" "active_request_override c' = None"
    using send_request_spec_ok [OF c(1) assms(6) _ assms(8-10)] unfolding c using assms(7) by blast
  have "ready (c'\<lparr>active_request_override := None\<rparr>)"
    using ready_fields [OF c'(2), where n = "current_id c'" and ov = None] by simp
  then show ?thesis
    using assms(2-5) c' by (cases ov) (simp_all add: execute_with_def)
qed

end

section \<open>Both transports provide the link\<close>

text \<open>
  A peer that answers every message, behind a network that loses nothing. Over TCP its answers come
  in any segments; the RUDP transport delivers whole messages.
\<close>

definition peer_network :: "(bytes \<Rightarrow> bytes list) \<Rightarrow> ('w \<Rightarrow> bytes \<Rightarrow> 'w \<times> bytes) \<Rightarrow> 'w network" where
  "peer_network seg serve =
     \<lparr>net_up = (\<lambda>w. True), net_reply = (\<lambda>w m. let (w', r) = serve w m in (w', seg r)), net_sleep = (\<lambda>w d. w)\<rparr>"

definition link_ready :: "(bytes \<Rightarrow> bytes list) \<Rightarrow> AgentClient \<Rightarrow> bool" where
  "link_ready seg c \<longleftrightarrow>
     (case transport c of
        Tcp t \<Rightarrow> (\<forall>r. concat (seg r) = r \<and> chunks_ok (seg r)) \<and> (\<exists>s. tcp_sock t = Some s \<and> inbox s = [])
      | Rudp \<Rightarrow> (\<forall>r. seg r = [r]))"

lemma chunks_ok_concat_Nil: "chunks_ok cs \<Longrightarrow> concat cs = [] \<Longrightarrow> cs = []"
  by (cases cs) (auto simp: chunks_ok_def)

lemma tcp_payload_ok:
  assumes "encode_message op 0 rid pl None = Inr r" "tcp_sock t = Some s" "chunks_ok (inbox s)" "concat (inbox s) = r"
  shows "\<exists>t' s'. tcp_payload t rid = (t', Inr pl) \<and> tcp_sock t' = Some s' \<and> inbox s' = []"
proof -
  obtain d where d: "r = d @ pl" "length d = 12" "decode_header d = Inr \<lparr>version = PROTOCOL_VERSION,
      opcode = op, h_flags = 0, reserved = 0, request_id = rid, payload_len = int (length pl)\<rparr>"
    using encode_message_ok [OF assms(1)] by auto
  have le: "\<not> MAX_PAYLOAD_LEN < int (length pl)"
    using decode_header_ok(1) [OF d(3)] by (simp add: header_ok_def)
  have st: "concat (inbox s) = d @ pl" using assms(4) d(1) by simp
  obtain t1 s1 where t1: "client_receive_exact t HEADER_SIZE = Inr (d, t1)" "tcp_sock t1 = Some s1"
      "concat (inbox s1) = pl" "chunks_ok (inbox s1)"
    using client_receive_exact_ok [OF assms(2,3), of HEADER_SIZE] st d(2) by (auto simp: HEADER_SIZE_eq)
  obtain t2 s2 where t2: "client_receive_exact t1 (length pl) = Inr (pl, t2)" "tcp_sock t2 = Some s2"
      "concat (inbox s2) = []" "chunks_ok (inbox s2)"
    using client_receive_exact_ok [OF t1(2,4), of "length pl"] t1(3) by auto
  show ?thesis using t1(1) t2 le chunks_ok_concat_Nil [OF t2(4,3)] by (simp add: tcp_payload_def d(3))
qed

lemma rudp_flow_ok:
  assumes "encode_message op 0 rid pl None = Inr r" "net_reply net w m = (w', [r])"
  shows "\<exists>p. rudp_flow net w c m rid = (w', c\<lparr>pending_requests := p\<rparr>, Inr pl)"
proof -
  obtain d where d: "r = d @ pl" "length d = 12" "decode_header d = Inr \<lparr>version = PROTOCOL_VERSION,
      opcode = op, h_flags = 0, reserved = 0, request_id = rid, payload_len = int (length pl)\<rparr>"
    using encode_message_ok [OF assms(1)] by auto
  have le: "\<not> MAX_PAYLOAD_LEN < int (length pl)"
    using decode_header_ok(1) [OF d(3)] by (simp add: header_ok_def)
  show ?thesis
    using le d(2) by (auto simp: rudp_flow_def Let_def assms(2) d(1,3) on_message_received_def HEADER_SIZE_eq dict_simps)
qed

lemma exchange_peer:
  assumes "link_ready seg c" "serve w m = (w', r)" "encode_message op 0 rid pl None = Inr r"
  shows "\<exists>c'. exchange (peer_network seg serve) w c m rid = (w', c', Inr pl) \<and> link_ready seg c' \<and>
    current_id c' = current_id c \<and> handlers c' = handlers c \<and> active_request_override c' = active_request_override c"
proof (cases "transport c")
  case (Tcp t)
  then obtain s where s: "\<And>r. concat (seg r) = r" "\<And>r. chunks_ok (seg r)" "tcp_sock t = Some s" "inbox s = []"
    using assms(1) by (auto simp: link_ready_def)
  let ?t = "tcp_arrive (t\<lparr>tcp_sock := Some (sendall s m)\<rparr>) (seg r)"
  have "tcp_sock ?t = Some ((sendall s m)\<lparr>inbox := seg r\<rparr>)"
    by (simp add: tcp_arrive_def sendall_def s(4))
  then obtain t' s' where t': "tcp_payload ?t rid = (t', Inr pl)" "tcp_sock t' = Some s'" "inbox s' = []"
    using tcp_payload_ok [OF assms(3), of ?t] s(1,2) by auto
  then show ?thesis
    using Tcp s assms(2)
    by (simp add: exchange_def tcp_flow_def client_send_bytes_def peer_network_def link_ready_def)
next
  case Rudp
  then have "net_reply (peer_network seg serve) w m = (w', [r])"
    using assms(1,2) by (simp add: peer_network_def link_ready_def)
  from rudp_flow_ok [OF assms(3) this, of c] show ?thesis
    using Rudp assms(1) by (auto simp: exchange_def link_ready_def)
qed

interpretation peer: agent_link "peer_network seg serve" serve "link_ready seg" for seg serve
proof unfold_locales
  show "link_ready seg c \<Longrightarrow> link_ready seg (c\<lparr>active_request_override := ov, current_id := n\<rparr>)" for c n ov
    by (simp add: link_ready_def)
qed (rule exchange_peer)

section \<open>Decoding of the server's answers\<close>

lemma mixed_decode_text:
  assumes "take 4 bs = str_bytes [CHR ''{'', CHR 0x22, CHR ''s'', CHR ''t'']" "int (length bs) \<le> MAX_PAYLOAD_LEN"
  shows "\<exists>m. mixed_decode xt bs = Inl (ValueError m)"
proof -
  have "struct_unpack META_LEN_FORMAT (take 4 bs) = Inr [0x7B227374]"
    by (simp add: assms(1) struct_unpack_def META_LEN_FORMAT_def struct_read.simps be_nat_def str_bytes_def)
  moreover have "4 \<le> length bs" using arg_cong [OF assms(1), of length] by simp
  ultimately show ?thesis using assms(2)
    by (simp add: mixed_decode_def META_LEN_SIZE_eq size_consts)
qed

lemma response_body_head:
  "take 4 (str_bytes (dumps (response_body st data err))) = str_bytes [CHR ''{'', CHR 0x22, CHR ''s'', CHR ''t'']"
  by (simp add: response_body_def dumps_str_def decode_cps_ascii escape_cp_def str_bytes_def)

lemma decode_response_json:
  assumes "json_ok (response_body st data err)" "int (length (dumps (response_body st data err))) \<le> MAX_PAYLOAD_LEN"
  shows "decode_response ev (str_bytes (dumps (response_body st data err))) =
    Inr (JInt st, response_body st data err, None)"
proof -
  have g: "json_get (response_body st data err) ''status'' d = Inr (JInt st)" for d by (simp add: response_body_def)
  obtain m where "mixed_decode (exc_text ev) (str_bytes (dumps (response_body st data err))) = Inl (ValueError m)"
    using mixed_decode_text [OF response_body_head, of st data err] assms(2) by fastforce
  then show ?thesis
    by (simp add: decode_response_def py_decode_dumps [OF assms(1)] loads_dumps [OF assms(1)] g)
qed

lemma decode_response_mixed:
  assumes "json_ok (response_body st data err)" "int (length (dumps (response_body st data err))) \<le> MAX_PAYLOAD_LEN"
  shows "decode_response ev (be_bytes 4 (length (dumps (response_body st data err))) @
      str_bytes (dumps (response_body st data err)) @ b) = Inr (JInt st, response_body st data err, Some b)"
proof -
  have g: "json_get (response_body st data err) ''status'' d = Inr (JInt st)" for d by (simp add: response_body_def)
  have "int (length (dumps (response_body st data err))) < 2 ^ 32" using assms(2) by (simp add: size_consts)
  from mixed_decode_bytes [OF assms(1) this, of "exc_text ev" b] show ?thesis
    by (simp add: decode_response_def g)
qed

lemma decode_answer:
  assumes "answer_fits kvs bin"
  shows "decode_response ev (answer_bytes kvs bin) = Inr (JInt 200, response_body 200 (JDict kvs) None, bin)"
  using decode_response_json decode_response_mixed answer_fits_body [OF assms]
  by (simp add: answer_bytes_def Let_def split: option.split)

section \<open>Chunks of a file\<close>

text \<open>Chunks that cover a file from \<open>off\<close> to its end \<open>N\<close> without gaps.\<close>

fun contiguous :: "int \<Rightarrow> int \<Rightarrow> (int \<times> bytes) list \<Rightarrow> bool" where
  "contiguous off N [] \<longleftrightarrow> off = N"
| "contiguous off N ((o', ch) # chs) \<longleftrightarrow> o' = off \<and> ch \<noteq> [] \<and> contiguous (off + int (length ch)) N chs"

lemma read_chunks_ok:
  "0 < k \<Longrightarrow> N = off + int (length rest) \<Longrightarrow> contiguous off N (read_chunks k N off rest) \<and>
   concat (map snd (read_chunks k N off rest)) = rest \<and> list_all (\<lambda>(o', ch). length ch \<le> k) (read_chunks k N off rest)"
proof (induction k N off rest rule: read_chunks.induct)
  case (1 k N off rest)
  show ?case
  proof (cases "rest = []")
    case True
    then show ?thesis using 1(3) by (subst (1 2 3) read_chunks.simps) simp
  next
    case False
    have c: "off < N \<and> take k rest \<noteq> []" using False 1(2,3) by simp
    have n: "N = off + int (length (take k rest)) + int (length (drop k rest))" using 1(3) by (simp add: min_def)
    note IH = 1(1) [OF refl c 1(2) n]
    have eq: "read_chunks k N off rest = (off, take k rest) # read_chunks k N (off + int (length (take k rest))) (drop k rest)"
      using c by (subst read_chunks.simps) (simp add: Let_def)
    show ?thesis using IH c by (simp add: eq)
  qed
qed

lemma contiguous_le: "contiguous off N chs \<Longrightarrow> off \<le> N"
  by (induction off N chs rule: contiguous.induct) auto

definition chunk_ids :: "env \<Rightarrow> string \<Rightarrow> (int \<times> bytes) list \<Rightarrow> (py_error + int) list" where
  "chunk_ids ev u chs = map (\<lambda>(off, ch). generate_chunk_req_id ev (JStr u) off) chs"

lemma generate_chunk_req_id_bounds: "generate_chunk_req_id ev uid off = Inr rid \<Longrightarrow> 0 \<le> rid \<and> rid < 2 ^ 32"
  by (auto simp: generate_chunk_req_id_def error_simps intro: order.strict_trans [OF pos_mod_bound])

section \<open>Failures\<close>

lemma attempt_failed_transport:
  assumes "transport c = Tcp t" "attempt ev net w c op pl gid ov = (w', c', r)"
  shows "\<exists>t'. transport c' = Tcp t'"
  using assms by (auto simp: attempt_def exchange_def split: sum.splits prod.splits)

lemma attempt_disconnected:
  assumes "transport c = Tcp t" "tcp_sock t = None" "encode_message op 0 gid pl ov = Inr msg"
  shows "attempt ev net w c op pl gid ov = (w, c, Inl (ConnectionError ''Not connected''))"
  using assms by (simp add: attempt_def exchange_def tcp_flow_def client_send_bytes_def)

lemma request_loop_disconnected:
  assumes "transport c = Tcp t" "tcp_sock t = None" "encode_message op 0 gid pl ov = Inr msg" "0 \<le> retries" "retries \<le> MAX_RETRIES"
  shows "\<exists>w' c'. request_loop ev net w c op pl gid ov retries = (w', c', Inl (TimeoutError (''Max retries exceeded for ReqID=''
      @ string_of_int (case ov of Some i \<Rightarrow> i | None \<Rightarrow> gid))))"
  using assms
proof (induction "nat (MAX_RETRIES - retries)" arbitrary: retries w c t)
  case (0 retries w c t)
  then show ?case
    by (subst request_loop.simps) (simp add: attempt_disconnected Let_def)
next
  case (Suc n retries w c t)
  let ?c = "close_transport c"
  have c: "transport ?c = Tcp (client_tcp_close t)" "tcp_sock (client_tcp_close t) = None" "\<not> is_async c"
    using Suc.prems(1) by (simp_all add: close_transport_def client_tcp_close_def is_async_def)
  have n: "n = nat (MAX_RETRIES - (retries + 1))" "0 \<le> retries + 1" "retries + 1 \<le> MAX_RETRIES" using Suc by linarith+
  have "request_loop ev net w c op pl gid ov retries =
      request_loop ev net (net_sleep net w (min (INITIAL_RTO * 2 ^ nat retries) MAX_RTO)) ?c op pl gid ov (retries + 1)"
    using n(3) c(3) Suc.prems by (subst request_loop.simps) (simp add: attempt_disconnected [OF Suc.prems(1-3)])
  with Suc.hyps(1) [OF n(1) c(1,2) Suc.prems(3) n(2,3)] show ?case by simp
qed

section \<open>Properties\<close>

text \<open>
  C36. Retries over TCP are futile: when the first attempt of a request on a TCP connection fails in
  a way the client retries (lost connection, bad answer), the client closes the connection and never
  opens another, so whatever the network then does the request ends, after all its attempts and
  delays, in a time-out.
\<close>

theorem tcp_retries_are_futile:
  assumes "transport c = Tcp t" and "encode_payload spec = Inr pl"
    and "encode_message (spec_opcode spec) 0 (current_id c + 1) pl (active_request_override c) = Inr msg"
    and "attempt ev net w (c\<lparr>active_request_override := None, current_id := current_id c + 1\<rparr>) (spec_opcode spec) pl
           (current_id c + 1) (active_request_override c) = (w1, c1, Inl e)"
    and "is_retryable e"
  shows "\<exists>w2 c2 text. send_request_spec ev net w c spec = (w2, c2, Inl (TimeoutError text))"
proof -
  obtain t1 where t1: "transport c1 = Tcp t1" using attempt_failed_transport [OF _ assms(4)] assms(1) by auto
  have c: "transport (close_transport c1) = Tcp (client_tcp_close t1)" "tcp_sock (client_tcp_close t1) = None" "\<not> is_async c1"
    using t1 by (simp_all add: close_transport_def client_tcp_close_def is_async_def)
  have "send_request_spec ev net w c spec =
      request_loop ev net (net_sleep net w1 (min (INITIAL_RTO * 2 ^ nat 0) MAX_RTO)) (close_transport c1) (spec_opcode spec) pl
        (current_id c + 1) (active_request_override c) (0 + 1)"
    using assms(2,4,5) c(3)
    by (simp add: send_request_spec_def next_id_def Let_def request_loop.simps [where retries = 0] MAX_RETRIES_def)
  moreover have "0 \<le> (0 :: int) + 1" "0 + 1 \<le> MAX_RETRIES" by (simp_all add: MAX_RETRIES_def)
  ultimately show ?thesis using request_loop_disconnected [OF c(1,2) assms(3)] by metis
qed

theorem tcp_retries_are_futile_witness:
  "\<exists>w2 c2 text. send_request_spec sample_env (peer_network (\<lambda>r. [r]) (\<lambda>w m. (w, []))) ()
      (new_AgentClient (Tcp \<lparr>tcp_sock = None\<rparr>)) build_list = (w2, c2, Inl (TimeoutError text))"
proof -
  let ?c = "new_AgentClient (Tcp \<lparr>tcp_sock = None\<rparr>)" and ?net = "peer_network (\<lambda>r. [r]) (\<lambda>w m. (w, [])) :: unit network"
  have p: "encode_payload build_list = Inr (str_bytes ''{}'')"
    using py_encode_dumps [of "JDict []"] by (simp add: encode_payload_def build_list_def dict_ok_def)
  obtain msg where m: "encode_message (spec_opcode build_list) 0 (current_id ?c + 1) (str_bytes ''{}'') (active_request_override ?c) = Inr msg"
    using encode_message_exists [of OP_LIST 1 "str_bytes ''{}''"]
    by (auto simp: build_list_def new_AgentClient_def opcode_consts size_consts)
  have "attempt sample_env ?net () (?c\<lparr>active_request_override := None, current_id := current_id ?c + 1\<rparr>) (spec_opcode build_list)
      (str_bytes ''{}'') (current_id ?c + 1) (active_request_override ?c) =
      ((), ?c\<lparr>active_request_override := None, current_id := current_id ?c + 1\<rparr>, Inl (ConnectionError ''Not connected''))"
    by (rule attempt_disconnected [OF _ _ m, of _ "\<lparr>tcp_sock = None\<rparr>"]) (simp_all add: new_AgentClient_def)
  from tcp_retries_are_futile [OF _ p m this] show ?thesis by (simp add: new_AgentClient_def)
qed

text \<open>
  Artifacts are never retrieved: whenever the server's answer to a task names an artifact, the
  operation of the client ends with status 500, although the task succeeded and the artifact is
  there.
\<close>

theorem task_artifact_is_lost:
  assumes "send_request_spec ev net w c (build_task op kw) = (w', c', Inr (JInt st, meta, binary))" and "st < 300"
    and "json_get meta ''data'' (JDict []) = Inr (JDict data)" and "dict_get data ''artifact_path'' = Some (JStr path)" and "path \<noteq> []"
  shows "task_run ev net w c op kw =
    (w', c', Inr (failure_result 500 (''Artifact Retrieval Failed: '' @ err_str ev AttributeError)))"
proof -
  obtain kvs where m: "meta = JDict kvs" using assms(3) by (cases meta) auto
  show ?thesis using assms by (simp add: task_run_def parse_task_response_def m)
qed

theorem task_artifact_is_lost_witness:
  "\<exists>w' c' text. task_run sample_env (peer_network (\<lambda>r. [r]) (\<lambda>w m. (w,
      case encode_message OP_TASK_SEARCH_REPORT 0 1 (answer_bytes [(''artifact_path'', JStr ''a'')] None) None of Inr r \<Rightarrow> r | _ \<Rightarrow> [])))
      () (new_AgentClient Rudp) OP_TASK_SEARCH_REPORT [] = (w', c', Inr (failure_result 500 text))"
proof -
  let ?kvs = "[(''artifact_path'', JStr ''a'')]" and ?c = "new_AgentClient Rudp" and ?spec = "build_task OP_TASK_SEARCH_REPORT []"
  let ?serve = "\<lambda>(w :: unit) (m :: bytes). (w,
      case encode_message OP_TASK_SEARCH_REPORT 0 1 (answer_bytes ?kvs None) None of Inr r \<Rightarrow> r | _ \<Rightarrow> [])"
  have fits: "answer_fits ?kvs None"
    by (simp add: answer_fits_def dict_ok_def encodable_ascii dumps_str_plain plain_def size_consts)
  obtain r where r: "encode_message OP_TASK_SEARCH_REPORT 0 1 (answer_bytes ?kvs None) None = Inr r"
    using encode_message_exists [of OP_TASK_SEARCH_REPORT 1, OF _ _ _ _ answer_fits_body(3) [OF fits]] by (auto simp: opcode_consts)
  have p: "encode_payload ?spec = Inr (str_bytes ''{}'')"
    using py_encode_dumps [of "JDict []"] by (simp add: encode_payload_def build_task_def dict_ok_def)
  obtain msg where m: "request_of ?spec 1 = Inr msg"
    using encode_message_exists [of OP_TASK_SEARCH_REPORT 1 "str_bytes ''{}''"] p
    by (auto simp: request_of_def build_task_def opcode_consts size_consts)
  have "link_ready (\<lambda>r. [r]) ?c" "1 = (case active_request_override ?c of Some i \<Rightarrow> i | None \<Rightarrow> current_id ?c + 1)"
    by (simp_all add: link_ready_def new_AgentClient_def)
  from peer.send_request_spec_ok [OF this(1) m this(2) _ r decode_answer [OF fits], where serve = ?serve and w = "()" and w' = "()" and ev = sample_env]
  obtain c' where s: "send_request_spec sample_env (peer_network (\<lambda>r. [r]) ?serve) () ?c ?spec =
      ((), c', Inr (JInt 200, response_body 200 (JDict ?kvs) None, None))" using r by auto
  show ?thesis using task_artifact_is_lost [OF s] by (auto simp: response_body_def)
qed

end
