(* ===== verification/AgentSystem.thy ===== *)
theory AgentSystem
  imports AgentServer AgentClient
begin

text \<open>
  The client against the server: operations of \<^verbatim>\<open>AgentClient.execute\<close> whose messages are
  processed by \<^verbatim>\<open>AgentServer.process_request\<close>, over either transport. Shown end to end: a file
  that the client uploads in chunks is on the server's disk byte for byte, what was appended is what
  a later GET returns, and a LIST returns exactly the sandbox directory in the order of the names.
\<close>

section \<open>The server behind a link\<close>

text \<open>The environment of the \<open>i\<close>-th request is \<open>evs i\<close>; \<open>cid\<close> names the client.\<close>

definition agent_serve ::
  "(nat \<Rightarrow> env) \<Rightarrow> (string \<Rightarrow> string \<Rightarrow> string) \<Rightarrow> string \<Rightarrow> AgentServer \<times> nat \<Rightarrow> bytes \<Rightarrow> (AgentServer \<times> nat) \<times> bytes" where
  "agent_serve evs et cid w m =
     (let (sv', r) = process_request (evs (snd w)) et (fst w) cid m in ((sv', snd w + 1), r))"

definition client_ok :: "(bytes \<Rightarrow> bytes list) \<Rightarrow> AgentClient \<Rightarrow> bool" where
  "client_ok seg c \<longleftrightarrow> link_ready seg c \<and> active_request_override c = None \<and>
     handlers c = handlers (new_AgentClient Rudp) \<and> 0 \<le> current_id c"

lemma client_ok_handlers:
  assumes "client_ok seg c"
  shows "get_handler (handlers c) OP_GET = Inr GetHandler" "get_handler (handlers c) OP_APPEND = Inr AppendHandler"
    "get_handler (handlers c) OP_LIST = Inr ListHandler" "get_handler (handlers c) OP_PUT_META = Inr PutMetaHandler"
    "get_handler (handlers c) OP_PUT_CHUNK = Inr PutChunkHandler" "get_handler (handlers c) OP_UPLOAD = Inr UploadHandler"
  using assms by (simp_all add: client_ok_def new_AgentClient_def register_handler_def get_handler_def opcode_consts)

text \<open>One operation of the client against the server.\<close>

lemma call_ok:
  assumes c: "client_ok seg c" and h: "get_handler (handlers c) op = Inr h" "\<not> is_orchestrator h"
    and spec: "build_request h kw = Inr spec" "spec_opcode spec = op" "encode_payload spec = Inr pl"
    and rid: "rid = (case ov of Some i \<Rightarrow> i | None \<Rightarrow> current_id c + 1)" "0 \<le> rid" "rid < 2 ^ 32"
    and sizes: "0 \<le> op" "op < 256" "int (length pl) \<le> MAX_PAYLOAD_LEN"
    and fresh: "dict_get (idempotency_cache sv) (cid, rid, op) = None"
    and run: "run_handler (evs i) et sv (request_header op rid pl) pl None = Some (sv', Inr (Result kvs bin))"
    and fits: "answer_fits kvs bin"
  shows "\<exists>c' r. execute_with orch ev (peer_network seg (agent_serve evs et cid)) (sv, i) c op ov kw =
      ((sv'\<lparr>idempotency_cache := store_response (idempotency_cache sv') (cid, rid, op) r (now (evs i))\<rparr>, i + 1), c',
       parse_client_response h (JInt 200) (response_body 200 (JDict kvs) None) bin) \<and>
    encode_message op 0 rid (answer_bytes kvs bin) None = Inr r \<and> client_ok seg c' \<and> current_id c' = current_id c + 1"
proof -
  obtain msg where msg: "encode_message op 0 rid pl None = Inr msg"
    using encode_message_exists [OF sizes(1,2) rid(2,3) sizes(3)] by blast
  obtain r where r: "process_request (evs i) et sv cid msg =
      (sv'\<lparr>idempotency_cache := store_response (idempotency_cache sv') (cid, rid, op) r (now (evs i))\<rparr>, r)"
    "encode_message op 0 rid (answer_bytes kvs bin) None = Inr r"
    using process_request_result [OF msg fresh run fits] by blast
  have serve: "agent_serve evs et cid (sv, i) msg =
      ((sv'\<lparr>idempotency_cache := store_response (idempotency_cache sv') (cid, rid, op) r (now (evs i))\<rparr>, i + 1), r)"
    by (simp add: agent_serve_def r(1))
  have req: "request_of spec rid = Inr msg" using msg spec by (simp add: request_of_def)
  have c': "link_ready seg c" "active_request_override c = None" using c by (auto simp: client_ok_def)
  show ?thesis
    using peer.execute_ok [where serve = "agent_serve evs et cid", OF c' h spec(1) req rid(1) serve r(2) decode_answer [OF fits, of ev], of orch] c r(2) by (auto simp: client_ok_def)
qed

text \<open>The same operation again, under the same identifier, while the server remembers its answer.\<close>

lemma call_replay:
  assumes c: "client_ok seg c" and h: "get_handler (handlers c) op = Inr h" "\<not> is_orchestrator h"
    and spec: "build_request h kw = Inr spec" "spec_opcode spec = op" "encode_payload spec = Inr pl"
    and rid: "0 \<le> rid" "rid < 2 ^ 32"
    and sizes: "0 \<le> op" "op < 256" "int (length pl) \<le> MAX_PAYLOAD_LEN"
    and cached: "dict_get (idempotency_cache sv) (cid, rid, op) = Some \<lparr>response_data = r, timestamp = t\<rparr>"
      "encode_message op 0 rid (answer_bytes kvs bin) None = Inr r" "now (evs i) - t < 120"
    and fits: "answer_fits kvs bin"
  shows "\<exists>c'. execute_with orch ev (peer_network seg (agent_serve evs et cid)) (sv, i) c op (Some rid) kw =
      ((sv, i + 1), c', parse_client_response h (JInt 200) (response_body 200 (JDict kvs) None) bin) \<and>
    client_ok seg c' \<and> current_id c' = current_id c + 1"
proof -
  obtain msg where msg: "encode_message op 0 rid pl None = Inr msg"
    using encode_message_exists [OF sizes(1,2) rid sizes(3)] by blast
  note d = decode_encoded [OF msg]
  have "process_request (evs i) et sv cid msg = (sv, r)"
    using process_request_replays [of sv cid "request_header op rid pl" r t "evs i" msg et] cached d
      decode_encoded(2) [OF cached(2)] by (simp add: IDEMPOTENCY_TTL_def)
  then have serve: "agent_serve evs et cid (sv, i) msg = ((sv, i + 1), r)" by (simp add: agent_serve_def)
  have req: "request_of spec rid = Inr msg" using msg spec by (simp add: request_of_def)
  have c': "link_ready seg c" "active_request_override c = None" using c by (auto simp: client_ok_def)
  show ?thesis
    using peer.execute_ok [where serve = "agent_serve evs et cid" and ov = "Some rid", OF c' h spec(1) req _ serve cached(2)
        decode_answer [OF fits, of ev], of orch] c by (auto simp: client_ok_def)
qed

lemma client_get_as:
  assumes "client_ok seg c" "rid < 2 ^ 32" "name_ok f"
    and "validate_path (policy_guard sv) f = Inr p" "read_bytes (sandbox_disk sv) p = Inr content"
    and "int (length content) + 8192 \<le> MAX_PAYLOAD_LEN"
    and "dict_get (idempotency_cache sv) (cid, rid, OP_GET) = None"
    and "rid = (case ov of Some i \<Rightarrow> i | None \<Rightarrow> current_id c + 1)" "0 \<le> rid"
  shows "\<exists>c' r. execute ev ld (peer_network seg (agent_serve evs et cid)) (sv, i) c OP_GET ov (KwGet (JStr f)) =
      ((sv\<lparr>idempotency_cache := store_response (idempotency_cache sv) (cid, rid, OP_GET) r (now (evs i))\<rparr>, i + 1),
       c', Inr (success (BinData content))) \<and> client_ok seg c' \<and> current_id c' = current_id c + 1"
proof -
  let ?pl = "str_bytes (dumps (name_json f))"
  have spec: "encode_payload (build_get (JStr f)) = Inr ?pl" "spec_opcode (build_get (JStr f)) = OP_GET"
    using name_json_ok [OF assms(3)] by (simp_all add: encode_payload_def build_get_def py_encode_dumps del: dumps.simps)
  have "handle_get (policy_guard sv) (sandbox_disk sv) ?pl =
      Inr (Result [(''filename'', JStr f), (''size'', JInt (int (length content)))] (Some content))"
    using handle_get_ok [OF _ _ assms(4,5)] assms(3,6) by (simp add: name_ok_def size_consts del: dumps.simps)
  then have run: "run_handler (evs i) et sv (request_header OP_GET rid ?pl) ?pl None =
      Some (sv, Inr (Result [(''filename'', JStr f), (''size'', JInt (int (length content)))] (Some content)))"
    by (simp add: run_handler_def Let_def opcode_consts del: dumps.simps)
  have len: "int (length ?pl) \<le> MAX_PAYLOAD_LEN" using name_json_length [OF assms(3)] by (simp add: size_consts del: dumps.simps)
  show ?thesis
    using call_ok [where evs = evs and i = i and kw = "KwGet (JStr f)" and ov = ov and ev = ev and
        orch = "run_orchestrator ev ld (peer_network seg (agent_serve evs et cid))",
        OF assms(1) client_ok_handlers(1) [OF assms(1)] _ _ spec(2,1) assms(8,9,2) _ _ len assms(7) run
        get_answer_fits [OF assms(3,6)]]
    by (auto simp: execute_def is_orchestrator_def opcode_consts parse_get_def status_is_def simp del: dumps.simps)
qed

lemma client_get:
  assumes "client_ok seg c" "current_id c + 1 < 2 ^ 32" "name_ok f"
    and "validate_path (policy_guard sv) f = Inr p" "read_bytes (sandbox_disk sv) p = Inr content"
    and "int (length content) + 8192 \<le> MAX_PAYLOAD_LEN"
    and "dict_get (idempotency_cache sv) (cid, current_id c + 1, OP_GET) = None"
  shows "\<exists>c' r. execute ev ld (peer_network seg (agent_serve evs et cid)) (sv, i) c OP_GET None (KwGet (JStr f)) =
      ((sv\<lparr>idempotency_cache := store_response (idempotency_cache sv) (cid, current_id c + 1, OP_GET) r (now (evs i))\<rparr>, i + 1),
       c', Inr (success (BinData content))) \<and> client_ok seg c' \<and> current_id c' = current_id c + 1"
  using client_get_as [where ov = None, OF assms(1-7)] assms(1) by (simp add: client_ok_def)

text \<open>The answer to an APPEND that left \<open>n\<close> bytes in the file.\<close>

definition append_fields :: "string \<Rightarrow> int \<Rightarrow> (string, json) dict" where
  "append_fields f n = [(''filename'', JStr f), (''new_size'', JInt n)]"

definition append_answer :: "string \<Rightarrow> int \<Rightarrow> json" where
  "append_answer f n = response_body 200 (JDict (append_fields f n)) None"

lemma client_append:
  assumes "client_ok seg c" "rid < 2 ^ 32" "name_ok f"
    and "validate_path (policy_guard sv) f = Inr p" "read_bytes (sandbox_disk sv) p = Inr content"
    and "int (length content) + int (length data) + 8192 \<le> MAX_PAYLOAD_LEN"
    and "dict_get (idempotency_cache sv) (cid, rid, OP_APPEND) = None"
    and "rid = (case ov of Some i \<Rightarrow> i | None \<Rightarrow> current_id c + 1)" "0 \<le> rid"
  shows "\<exists>c' r. execute ev ld (peer_network seg (agent_serve evs et cid)) (sv, i) c OP_APPEND ov (KwAppend f data) =
      ((sv\<lparr>sandbox_disk := put_file (sandbox_disk sv) p (content @ data),
          idempotency_cache := store_response (idempotency_cache sv) (cid, rid, OP_APPEND) r (now (evs i))\<rparr>, i + 1),
       c', Inr (success (JsonData (append_answer f (int (length content) + int (length data)))))) \<and>
    encode_message OP_APPEND 0 rid (answer_bytes (append_fields f (int (length content) + int (length data))) None) None = Inr r \<and> client_ok seg c' \<and> current_id c' = current_id c + 1"
proof -
  let ?j = "name_json f" and ?kvs = "append_fields f (int (length content) + int (length data))"
  let ?pl = "be_bytes 4 (length (dumps ?j)) @ str_bytes (dumps ?j) @ data"
  have j: "json_ok ?j" "length (dumps ?j) \<le> 6200" using name_json_ok [OF assms(3)] name_json_length [OF assms(3)] by blast+
  then have j32: "int (length (dumps ?j)) < 2 ^ 32" by (simp del: dumps.simps)
  have spec: "encode_payload (build_append f data) = Inr ?pl" "spec_opcode (build_append f data) = OP_APPEND"
    using mixed_encode_ok [OF j(1) j32, of "Some data"] by (simp_all add: encode_payload_def build_append_def del: dumps.simps)
  have sz: "int (length content) + int (length data) \<le> MAX_FILE_SIZE" using assms(6) by (simp add: size_consts)
  have run: "run_handler (evs i) et sv (request_header OP_APPEND rid ?pl) ?pl None =
      Some (sv\<lparr>sandbox_disk := put_file (sandbox_disk sv) p (content @ data)\<rparr>, Inr (Result ?kvs None))"
    using handle_append_ok [OF _ j(1) j32 assms(4,5) sz] assms(3)
    by (simp add: run_handler_def Let_def opcode_consts name_ok_def append_fields_def del: dumps.simps)
  have len: "int (length ?pl) \<le> MAX_PAYLOAD_LEN" using j(2) assms(6) by (simp add: size_consts del: dumps.simps)
  have fits: "answer_fits ?kvs None" using append_answer_fits [OF assms(3) _ sz] by (simp add: append_fields_def)
  show ?thesis
    using call_ok [where evs = evs and i = i and kw = "KwAppend f data" and ov = ov and ev = ev and
        orch = "run_orchestrator ev ld (peer_network seg (agent_serve evs et cid))",
        OF assms(1) client_ok_handlers(2) [OF assms(1)] _ _ spec(2,1) assms(8,9,2) _ _ len assms(7) run fits]
    by (auto simp: execute_def is_orchestrator_def opcode_consts parse_append_def status_is_def append_answer_def simp del: dumps.simps)
qed

lemma client_append_replay:
  assumes "client_ok seg c" "0 \<le> rid" "rid < 2 ^ 32" "name_ok f" "0 \<le> n" "n \<le> MAX_FILE_SIZE" "int (length data) + 8192 \<le> MAX_PAYLOAD_LEN"
    and cached: "dict_get (idempotency_cache sv) (cid, rid, OP_APPEND) = Some \<lparr>response_data = r, timestamp = t\<rparr>"
      "encode_message OP_APPEND 0 rid (answer_bytes (append_fields f n) None) None = Inr r" "now (evs i) - t < 120"
  shows "\<exists>c'. execute ev ld (peer_network seg (agent_serve evs et cid)) (sv, i) c OP_APPEND (Some rid) (KwAppend f data) =
      ((sv, i + 1), c', Inr (success (JsonData (append_answer f n)))) \<and> client_ok seg c' \<and> current_id c' = current_id c + 1"
proof -
  let ?j = "name_json f"
  let ?pl = "be_bytes 4 (length (dumps ?j)) @ str_bytes (dumps ?j) @ data"
  have j: "json_ok ?j" "length (dumps ?j) \<le> 6200" using name_json_ok [OF assms(4)] name_json_length [OF assms(4)] by blast+
  then have j32: "int (length (dumps ?j)) < 2 ^ 32" by (simp del: dumps.simps)
  have spec: "encode_payload (build_append f data) = Inr ?pl" "spec_opcode (build_append f data) = OP_APPEND"
    using mixed_encode_ok [OF j(1) j32, of "Some data"] by (simp_all add: encode_payload_def build_append_def del: dumps.simps)
  have len: "int (length ?pl) \<le> MAX_PAYLOAD_LEN" using j(2) assms(7) by (simp add: size_consts del: dumps.simps)
  have fits: "answer_fits (append_fields f n) None" using append_answer_fits [OF assms(4-6)] by (simp add: append_fields_def)
  show ?thesis
    using call_replay [where evs = evs and i = i and kw = "KwAppend f data" and ev = ev and
        orch = "run_orchestrator ev ld (peer_network seg (agent_serve evs et cid))",
        OF assms(1) client_ok_handlers(2) [OF assms(1)] _ _ spec(2,1) assms(2,3) _ _ len cached fits]
    by (auto simp: execute_def is_orchestrator_def opcode_consts parse_append_def status_is_def append_answer_def simp del: dumps.simps)
qed

lemma client_put_meta:
  assumes "client_ok seg c" "current_id c + 1 < 2 ^ 32" "name_ok f" "0 \<le> n" "n \<le> MAX_FILE_SIZE"
    and "validate_path (policy_guard sv) f = Inr p" "creatable (evs i) (sandbox_disk sv) p"
    and "name_ok (uuid4 (evs i))" "upload_mode (session_manager sv) = STRICT"
    and "dict_get (idempotency_cache sv) (cid, current_id c + 1, OP_PUT_META) = None"
  shows "\<exists>c' r sv'. execute_request ev (peer_network seg (agent_serve evs et cid)) (sv, i) c OP_PUT_META None (KwPutMeta f n True) =
      ((sv', i + 1), c', Inr (success (JsonData (JDict [(''upload_id'', JStr (uuid4 (evs i)))])))) \<and>
    client_ok seg c' \<and> current_id c' = current_id c + 1 \<and> policy_guard sv' = policy_guard sv \<and>
    read_bytes (sandbox_disk sv') p = Inr [] \<and> uploading (session_manager sv') (uuid4 (evs i)) f n 0 \<and>
    idempotency_cache sv' = store_response (idempotency_cache sv) (cid, current_id c + 1, OP_PUT_META) r (now (evs i))"
proof -
  let ?j = "put_meta_json f n True" and ?u = "uuid4 (evs i)" and ?m = "session_manager sv"
  let ?pl = "str_bytes (dumps ?j)"
  let ?kvs = "[(''upload_id'', JStr ?u), (''status'', JStr ''ready'')]"
  have spec: "encode_payload (build_put_meta f n True) = Inr ?pl" "spec_opcode (build_put_meta f n True) = OP_PUT_META"
    using put_meta_json_ok [OF assms(3)] by (simp_all add: encode_payload_def build_put_meta_def py_encode_dumps del: dumps.simps)
  obtain d' where d': "handle_put_meta (evs i) (policy_guard sv) (sandbox_disk sv) ?m ?pl =
      (d', fst (create_session ?m f n ?u (now (evs i))), Inr (Result ?kvs None))" "read_bytes d' p = Inr []"
    using handle_put_meta_ok [OF assms(3-7)] by blast
  let ?sv = "sv\<lparr>sandbox_disk := d', session_manager := fst (create_session ?m f n ?u (now (evs i)))\<rparr>"
  have run: "run_handler (evs i) et sv (request_header OP_PUT_META (current_id c + 1) ?pl) ?pl None = Some (?sv, Inr (Result ?kvs None))"
    using d'(1) by (simp add: run_handler_def Let_def opcode_consts del: dumps.simps)
  have len: "int (length ?pl) \<le> MAX_PAYLOAD_LEN"
    using put_meta_json_length [OF assms(3-5), of True] by (simp add: size_consts del: dumps.simps)
  have id: "0 \<le> current_id c + 1" using assms(1) by (simp add: client_ok_def)
  have up: "uploading (session_manager ?sv) ?u f n 0"
    using assms(9) by (simp add: uploading_def create_session_def dict_simps)
  show ?thesis
    using call_ok [where evs = evs and i = i and kw = "KwPutMeta f n True" and ov = None and ev = ev,
        OF assms(1) client_ok_handlers(4) [OF assms(1)] _ _ spec(2,1) _ id assms(2) _ _ len assms(10) run put_meta_answer_fits [OF assms(8)]]
      d'(2) up assms(8)
    by (fastforce simp: execute_request_def is_orchestrator_def opcode_consts parse_put_meta_def status_is_def
        response_body_def name_ok_def simp del: dumps.simps)
qed

lemma client_put_chunk:
  assumes "client_ok seg c" "0 \<le> rid" "rid < 2 ^ 32" "name_ok u"
    and "uploading (session_manager sv) u f N (int (length content))"
    and "validate_path (policy_guard sv) f = Inr p" "read_bytes (sandbox_disk sv) p = Inr content"
    and "int (length content) \<le> MAX_FILE_SIZE" "length data \<le> 8192"
    and "dict_get (idempotency_cache sv) (cid, rid, OP_PUT_CHUNK) = None"
  shows "\<exists>c' r sv' meta. execute_request ev (peer_network seg (agent_serve evs et cid)) (sv, i) c OP_PUT_CHUNK (Some rid)
        (KwPutChunk (JStr u) (int (length content)) data) = ((sv', i + 1), c', Inr (success (JsonData meta))) \<and>
    client_ok seg c' \<and> policy_guard sv' = policy_guard sv \<and>
    read_bytes (sandbox_disk sv') p = Inr (content @ data) \<and>
    (int (length content) + int (length data) \<noteq> N \<longrightarrow>
      uploading (session_manager sv') u f N (int (length content) + int (length data))) \<and>
    idempotency_cache sv' = store_response (idempotency_cache sv) (cid, rid, OP_PUT_CHUNK) r (now (evs i))"
proof -
  let ?j = "put_chunk_json u (int (length content)) data" and ?m = "session_manager sv"
  let ?pl = "put_chunk_payload u (int (length content)) data"
  have sz: "int (length data) \<le> MAX_FILE_SIZE" using assms(9) by (simp add: size_consts)
  have jl: "length (dumps ?j) \<le> 6400" using put_chunk_json_length [OF assms(4) _ assms(8) sz] by simp
  then have j32: "int (length (dumps ?j)) < 2 ^ 32" by (simp del: dumps.simps)
  have spec: "encode_payload (build_put_chunk (JStr u) (int (length content)) data) = Inr ?pl"
      "spec_opcode (build_put_chunk (JStr u) (int (length content)) data) = OP_PUT_CHUNK"
    using mixed_encode_ok [OF put_chunk_json_ok [OF assms(4)] j32, of "Some data"]
    by (simp_all add: encode_payload_def build_put_chunk_def del: dumps.simps)
  obtain m' msg where h: "handle_put_chunk (evs i) (policy_guard sv) (sandbox_disk sv) ?m ?pl =
      (put_file (sandbox_disk sv) p (content @ data), m', Inr (Result [(''upload_id'', JStr u), (''bytes_written'', JInt (int (length data))),
         (''complete'', JBool (int (length content) + int (length data) = N)), (''status'', JStr msg)] None))"
      "msg = ''Upload Complete'' \<or> msg = ''Chunk Applied''"
      "int (length content) + int (length data) \<noteq> N \<longrightarrow> uploading m' u f N (int (length content) + int (length data))"
    using handle_put_chunk_ok [OF assms(4) j32 assms(5-7), of "evs i"] by blast
  let ?sv = "sv\<lparr>sandbox_disk := put_file (sandbox_disk sv) p (content @ data), session_manager := m'\<rparr>"
  have run: "run_handler (evs i) et sv (request_header OP_PUT_CHUNK rid ?pl) ?pl None =
      Some (?sv, Inr (Result [(''upload_id'', JStr u), (''bytes_written'', JInt (int (length data))),
         (''complete'', JBool (int (length content) + int (length data) = N)), (''status'', JStr msg)] None))"
    using h(1) by (simp add: run_handler_def Let_def opcode_consts del: dumps.simps)
  have len: "int (length ?pl) \<le> MAX_PAYLOAD_LEN" using jl assms(9) by (simp add: size_consts del: dumps.simps)
  have rb: "read_bytes (sandbox_disk ?sv) p = Inr (content @ data)"
    using read_bytes_Inr [OF assms(7)] by (simp add: read_bytes_def)
  show ?thesis
    using call_ok [where evs = evs and i = i and kw = "KwPutChunk (JStr u) (int (length content)) data" and ov = "Some rid" and ev = ev,
        OF assms(1) client_ok_handlers(5) [OF assms(1)] _ _ spec(2,1) _ assms(2,3) _ _ len assms(10) run put_chunk_answer_fits [OF assms(4) sz h(2)]]
      rb h(3)
    by (fastforce simp: execute_request_def is_orchestrator_def opcode_consts parse_put_chunk_def status_is_def
        simp del: dumps.simps)
qed

lemma upload_chunks_ok:
  assumes "client_ok seg c" "name_ok u" "contiguous (int (length content)) N chs" "list_all (\<lambda>(o', ch). length ch \<le> 8192) chs"
    and "chs \<noteq> [] \<longrightarrow> uploading (session_manager sv) u f N (int (length content))"
    and "validate_path (policy_guard sv) f = Inr p" "read_bytes (sandbox_disk sv) p = Inr content" "N \<le> MAX_FILE_SIZE"
    and "distinct (chunk_ids ev u chs)"
    and "\<forall>r \<in> set (chunk_ids ev u chs). \<exists>rid. r = Inr rid \<and> dict_get (idempotency_cache sv) (cid, rid, OP_PUT_CHUNK) = None"
  shows "\<exists>c' sv'. upload_chunks ev (peer_network seg (agent_serve evs et cid)) (sv, i) c (JStr u) chs =
      ((sv', i + length chs), c', None) \<and> client_ok seg c' \<and> policy_guard sv' = policy_guard sv \<and>
    read_bytes (sandbox_disk sv') p = Inr (content @ concat (map snd chs))"
  using assms
proof (induction chs arbitrary: sv i c content)
  case Nil
  then show ?case by simp
next
  case (Cons x chs)
  obtain data where x: "x = (int (length content), data)" "data \<noteq> []"
    "contiguous (int (length (content @ data))) N chs" "length data \<le> 8192"
    using Cons.prems(3,4) by (cases x) auto
  obtain rid where rid: "generate_chunk_req_id ev (JStr u) (int (length content)) = Inr rid"
      "dict_get (idempotency_cache sv) (cid, rid, OP_PUT_CHUNK) = None"
    using Cons.prems(10) x(1) by (auto simp: chunk_ids_def)
  have le: "int (length content) \<le> MAX_FILE_SIZE" using contiguous_le [OF x(3)] Cons.prems(8) by simp
  obtain c1 r sv1 meta where e: "execute_request ev (peer_network seg (agent_serve evs et cid)) (sv, i) c OP_PUT_CHUNK (Some rid)
        (KwPutChunk (JStr u) (int (length content)) data) = ((sv1, i + 1), c1, Inr (success (JsonData meta)))"
    "client_ok seg c1" "policy_guard sv1 = policy_guard sv" "read_bytes (sandbox_disk sv1) p = Inr (content @ data)"
    "int (length content) + int (length data) \<noteq> N \<longrightarrow> uploading (session_manager sv1) u f N (int (length content) + int (length data))"
    "idempotency_cache sv1 = store_response (idempotency_cache sv) (cid, rid, OP_PUT_CHUNK) r (now (evs i))"
    using client_put_chunk [OF Cons.prems(1) _ _ Cons.prems(2) _ Cons.prems(6,7) le x(4) rid(2),
        where ev = ev and evs = evs and et = et and i = i and N = N] Cons.prems(5) generate_chunk_req_id_bounds [OF rid(1)] by auto
  have up: "chs \<noteq> [] \<longrightarrow> uploading (session_manager sv1) u f N (int (length (content @ data)))"
  proof
    assume "chs \<noteq> []"
    then obtain o' ch chs' where "chs = (o', ch) # chs'" by (cases chs) auto
    then have "int (length (content @ data)) \<noteq> N" using x(3) contiguous_le by fastforce
    then show "uploading (session_manager sv1) u f N (int (length (content @ data)))" using e(5) by simp
  qed
  have ids: "\<forall>r \<in> set (chunk_ids ev u chs). \<exists>rid. r = Inr rid \<and> dict_get (idempotency_cache sv1) (cid, rid, OP_PUT_CHUNK) = None"
  proof
    fix q assume q: "q \<in> set (chunk_ids ev u chs)"
    have "Inr rid \<notin> set (chunk_ids ev u chs)" using Cons.prems(9) x(1) rid(1) by (auto simp: chunk_ids_def)
    moreover obtain rid' where "q = Inr rid'" "dict_get (idempotency_cache sv) (cid, rid', OP_PUT_CHUNK) = None"
      using Cons.prems(10) q by (auto simp: chunk_ids_def)
    ultimately show "\<exists>rid. q = Inr rid \<and> dict_get (idempotency_cache sv1) (cid, rid, OP_PUT_CHUNK) = None"
      using q e(6) by (auto simp: store_response_def dict_simps)
  qed
  obtain c' sv' where "upload_chunks ev (peer_network seg (agent_serve evs et cid)) (sv1, i + 1) c1 (JStr u) chs =
      ((sv', i + 1 + length chs), c', None)" "client_ok seg c'" "policy_guard sv' = policy_guard sv1"
      "read_bytes (sandbox_disk sv') p = Inr ((content @ data) @ concat (map snd chs))"
    using Cons.IH [where i = "i + 1", OF e(2) Cons.prems(2) x(3) _ up _ e(4) Cons.prems(8) _ ids] Cons.prems(4,6,9) e(3)
    by (auto simp: chunk_ids_def)
  then show ?case using e(1,3) rid(1) by (simp add: x(1) success_def status_is_def)
qed

section \<open>The whole upload\<close>

lemma upload_run_ok:
  assumes "client_ok seg c" "current_id c + 1 < 2 ^ 32" "name_ok f"
    and "read_bytes ld lp = Inr content" "int (length content) \<le> MAX_FILE_SIZE"
    and "validate_path (policy_guard sv) f = Inr p" "creatable (evs i) (sandbox_disk sv) p"
    and "name_ok (uuid4 (evs i))" "upload_mode (session_manager sv) = STRICT"
    and "dict_get (idempotency_cache sv) (cid, current_id c + 1, OP_PUT_META) = None"
    and "chs = read_chunks CHUNK_SIZE (int (length content)) 0 content"
    and "distinct (chunk_ids ev (uuid4 (evs i)) chs)"
    and "\<forall>r \<in> set (chunk_ids ev (uuid4 (evs i)) chs). \<exists>rid. r = Inr rid \<and> dict_get (idempotency_cache sv) (cid, rid, OP_PUT_CHUNK) = None"
  shows "\<exists>c' sv' n. upload_run ev ld (peer_network seg (agent_serve evs et cid)) (sv, i) c lp f =
      ((sv', n), c', Inr (success (JsonData (JDict [(''status'', JStr ''Upload Complete''), (''size'', JInt (int (length content)))])))) \<and>
    client_ok seg c' \<and> read_bytes (sandbox_disk sv') p = Inr content"
proof -
  let ?u = "uuid4 (evs i)" and ?N = "int (length content)" and ?net = "peer_network seg (agent_serve evs et cid)"
  note ld = read_bytes_Inr [OF assms(4)]
  obtain c1 r sv1 where e: "execute_request ev ?net (sv, i) c OP_PUT_META None (KwPutMeta f ?N True) =
      ((sv1, i + 1), c1, Inr (success (JsonData (JDict [(''upload_id'', JStr ?u)]))))"
    "client_ok seg c1" "policy_guard sv1 = policy_guard sv" "read_bytes (sandbox_disk sv1) p = Inr []"
    "uploading (session_manager sv1) ?u f ?N 0"
    "idempotency_cache sv1 = store_response (idempotency_cache sv) (cid, current_id c + 1, OP_PUT_META) r (now (evs i))"
    using client_put_meta [where evs = evs and i = i and et = et and ev = ev, OF assms(1-3) _ assms(5-10)] by auto
  have chs: "contiguous 0 ?N chs" "concat (map snd chs) = content" "list_all (\<lambda>(o', ch). length ch \<le> 8192) chs"
    using read_chunks_ok [of CHUNK_SIZE ?N 0 content] assms(11) by (auto simp: CHUNK_SIZE_def)
  have ids: "\<forall>r \<in> set (chunk_ids ev ?u chs). \<exists>rid. r = Inr rid \<and> dict_get (idempotency_cache sv1) (cid, rid, OP_PUT_CHUNK) = None"
    using assms(13) e(6) by (auto simp: store_response_def dict_simps opcode_consts)
  obtain c2 sv2 where u: "upload_chunks ev ?net (sv1, i + 1) c1 (JStr ?u) chs = ((sv2, i + 1 + length chs), c2, None)"
    "client_ok seg c2" "read_bytes (sandbox_disk sv2) p = Inr content"
    using upload_chunks_ok [OF e(2) assms(8) _ chs(3) _ _ e(4) assms(5,12) ids, where f = f and evs = evs and et = et and i = "i + 1"]
      chs e(3,5) assms(6) by auto
  have "get_chunks ld lp = Inr chs" using assms(4,11) ld by (simp add: get_chunks_def)
  moreover have "validate_file ld lp = Inr None" "get_file_info ld lp = Inr (basename lp, ?N)"
    using ld assms(5) by (simp_all add: validate_file_def get_file_info_def)
  moreover have "truthy (JStr ?u)" using assms(8) by (simp add: name_ok_def)
  ultimately show ?thesis
    using e(1) u by (simp add: upload_run_def success_def status_is_def result_upload_id_def)
qed

section \<open>LIST\<close>

text \<open>The reference listing: the entries of the sandbox directory in order of their names, with size and time.\<close>

definition entry_size :: "disk \<Rightarrow> string \<Rightarrow> int" where
  "entry_size d p = (case dict_get (files d) p of Some content \<Rightarrow> int (length content)
     | None \<Rightarrow> (case dict_get (dirs d) p of Some n \<Rightarrow> n | None \<Rightarrow> 0))"

definition listing_entry :: "env \<Rightarrow> PolicyGuard \<Rightarrow> disk \<Rightarrow> string \<Rightarrow> string \<times> int \<times> string" where
  "listing_entry ev g d nm = (let p = os_join (sandbox_root g) nm in (nm, entry_size d p, mtime ev p))"

definition listing :: "env \<Rightarrow> PolicyGuard \<Rightarrow> disk \<Rightarrow> json" where
  "listing ev g d = JList (map ((\<lambda>(nm, n, mt). JDict [(''name'', JStr nm), (''size'', JInt n), (''mtime'', JFloat mt)]) \<circ> listing_entry ev g d)
     (sort (entries d (sandbox_root g))))"

lemma sort_key_of_map: "sort_key f (map g xs) = map g (sort_key (f \<circ> g) xs)"
proof -
  have "insort_key f (g x) (map g ys) = map g (insort_key (f \<circ> g) x ys)" for x ys by (induction ys) auto
  then show ?thesis by (induction xs) simp_all
qed

lemma collect_metadata_ok:
  assumes "\<forall>nm \<in> set nms. os_exists d (os_join (sandbox_root g) nm)"
  shows "collect_metadata ev g d nms = Inr (map (listing_entry ev g d) nms)"
proof -
  have "os_exists d p \<Longrightarrow> os_stat ev d p = Inr (entry_size d p, mtime ev p)" for p
    by (auto simp: os_stat_def os_getsize_def os_exists_def entry_size_def dict_has_def split: option.splits)
  then show ?thesis using assms by (induction nms) (simp_all add: listing_entry_def Let_def)
qed

lemma handle_list_ok:
  assumes "os_listdir d (sandbox_root g) = Inr nms" "\<forall>nm \<in> set nms. os_exists d (os_join (sandbox_root g) nm)"
  shows "handle_list ev g d = Inr (Result [(''files'', listing ev g d)] None)"
proof -
  have "nms = entries d (sandbox_root g)" using assms(1) by (auto simp: os_listdir_def split: option.splits if_splits)
  moreover have "fst \<circ> listing_entry ev g d = id" by (simp add: fun_eq_iff listing_entry_def Let_def)
  ultimately show ?thesis
    using assms collect_metadata_ok [OF assms(2), of ev]
    by (simp add: handle_list_def listing_def sort_key_of_map id_def)
qed

section \<open>Properties\<close>

text \<open>
  C3. An upload arrives: when a client executes the upload of a local file of at most 1 MiB, over
  TCP in any segmentation or over RUDP, to a name the sandbox accepts and whose file can be created,
  then the result is success and the file on the server is byte for byte the local one. (The
  identifiers that the client derives from a hash of upload and offset must differ between the
  chunks and must not be those of requests the server still remembers.)
\<close>

theorem upload_end_to_end:
  assumes "client_ok seg c" and "current_id c + 1 < 2 ^ 32" and "name_ok remote"
    and "read_bytes ld local = Inr content" and "int (length content) \<le> MAX_FILE_SIZE"
    and "validate_path (policy_guard sv) remote = Inr p" and "creatable (evs i) (sandbox_disk sv) p"
    and "name_ok (uuid4 (evs i))" and "upload_mode (session_manager sv) = STRICT"
    and "dict_get (idempotency_cache sv) (cid, current_id c + 1, OP_PUT_META) = None"
    and "get_chunks ld local = Inr chunks" and "distinct (chunk_ids ev (uuid4 (evs i)) chunks)"
    and "\<forall>r \<in> set (chunk_ids ev (uuid4 (evs i)) chunks). \<exists>rid. r = Inr rid \<and>
           dict_get (idempotency_cache sv) (cid, rid, OP_PUT_CHUNK) = None"
  shows "\<exists>sv' n c' res. execute ev ld (peer_network seg (agent_serve evs et cid)) (sv, i) c OP_UPLOAD None (KwUpload local remote) =
      ((sv', n), c', Inr res) \<and> res_status res = JInt 200 \<and> dict_get (files (sandbox_disk sv')) p = Some content"
proof -
  have chs: "chunks = read_chunks CHUNK_SIZE (int (length content)) 0 content"
    using assms(4,11) read_bytes_Inr [OF assms(4)] by (simp add: get_chunks_def)
  have c: "active_request_override c = None" using assms(1) by (simp add: client_ok_def)
  obtain c' sv' n where u: "upload_run ev ld (peer_network seg (agent_serve evs et cid)) (sv, i) c local remote =
      ((sv', n), c', Inr (success (JsonData (JDict [(''status'', JStr ''Upload Complete''), (''size'', JInt (int (length content)))]))))"
    "read_bytes (sandbox_disk sv') p = Inr content"
    using upload_run_ok [where evs = evs and i = i and et = et, OF assms(1-10) chs assms(12,13)] by blast
  have "execute ev ld (peer_network seg (agent_serve evs et cid)) (sv, i) c OP_UPLOAD None (KwUpload local remote) =
      ((sv', n), c'\<lparr>active_request_override := None\<rparr>,
       Inr (success (JsonData (JDict [(''status'', JStr ''Upload Complete''), (''size'', JInt (int (length content)))]))))"
    using client_ok_handlers(6) [OF assms(1)] c u(1)
    by (simp add: execute_def execute_with_def is_orchestrator_def run_orchestrator_def)
  then show ?thesis using read_bytes_Inr(2) [OF u(2)] by (auto simp: success_def)
qed

lemma sample_client: "client_ok (\<lambda>r. [r]) (new_AgentClient Rudp)" "current_id (new_AgentClient Rudp) = 0"
  by (simp_all add: client_ok_def link_ready_def new_AgentClient_def)

lemma sample_uuid: "uuid4 sample_env = ''u1''" "name_ok ''u1''"
  by (simp_all add: sample_env_def name_ok_def encodable_ascii)

lemma sample_creatable: "creatable sample_env sample_disk ''/srv/box/h.txt''"
  using sample_makedirs [of 4096]
  by (simp add: creatable_def sample_env_def truncate_file_def open_write_def ascii_path_ok sample_disk_def dict_has_def
      os_isdir_def dirname_def Let_def)

lemma sample_chunks: "get_chunks sample_disk ''/srv/box/a.txt'' = Inr [(0, str_bytes (''ab'' @ [CHR 0x0A] @ ''cd'' @ [CHR 0x0A]))]"
  using read_bytes_Inr(5) [OF sample_read] sample_read
  by (simp add: get_chunks_def read_chunks.simps CHUNK_SIZE_def Let_def flip: length_greater_0_conv)

theorem upload_end_to_end_witness:
  "\<exists>sv' n c' res. execute sample_env sample_disk (peer_network (\<lambda>r. [r]) (agent_serve (\<lambda>_. sample_env) (\<lambda>_ v. v) ''10.0.0.7:5000''))
      (sample_server, 0) (new_AgentClient Rudp) OP_UPLOAD None (KwUpload ''/srv/box/a.txt'' ''h.txt'') = ((sv', n), c', Inr res) \<and>
    res_status res = JInt 200 \<and> dict_get (files (sandbox_disk sv')) ''/srv/box/h.txt'' = Some (str_bytes (''ab'' @ [CHR 0x0A] @ ''cd'' @ [CHR 0x0A]))"
proof -
  have id: "generate_chunk_req_id sample_env (JStr ''u1'') 0 = Inr 0xE3B0"
    by (simp add: generate_chunk_req_id_def py_encode_def encodable_ascii string_of_int_def string_of_nat.simps sample_env_def
        hex_int_def hex_val_def)
  show ?thesis
    by (rule upload_end_to_end [OF sample_client(1) _ _ sample_read _ _ _ _ _ _ sample_chunks])
       (simp_all add: sample_client sample_uuid sample_creatable sample_server_fields sample_path size_consts name_ok_def
          encodable_ascii new_manager_def chunk_ids_def id)
qed

text \<open>
  C10. APPEND and GET: after a client appends bytes to a file of the sandbox, its GET of the same name
  returns exactly the old contents followed by these bytes, over either transport, as long as the
  file with some room for the metadata fits into one answer.
\<close>

theorem append_then_get:
  assumes "client_ok seg c" and "current_id c + 2 < 2 ^ 32" and "name_ok f"
    and "validate_path (policy_guard sv) f = Inr p" and "read_bytes (sandbox_disk sv) p = Inr content"
    and "int (length content) + int (length data) + 8192 \<le> MAX_PAYLOAD_LEN"
    and "dict_get (idempotency_cache sv) (cid, current_id c + 1, OP_APPEND) = None"
    and "dict_get (idempotency_cache sv) (cid, current_id c + 2, OP_GET) = None"
    and net: "net = peer_network seg (agent_serve evs et cid)"
  shows "\<exists>w1 c1 meta w2 c2.
    execute ev ld net (sv, i) c OP_APPEND None (KwAppend f data) = (w1, c1, Inr (success (JsonData meta))) \<and>
    execute ev2 ld2 net w1 c1 OP_GET None (KwGet (JStr f)) = (w2, c2, Inr (success (BinData (content @ data))))"
proof -
  obtain c1 r where a: "execute ev ld net (sv, i) c OP_APPEND None (KwAppend f data) =
      ((sv\<lparr>sandbox_disk := put_file (sandbox_disk sv) p (content @ data),
          idempotency_cache := store_response (idempotency_cache sv) (cid, current_id c + 1, OP_APPEND) r (now (evs i))\<rparr>, i + 1),
       c1, Inr (success (JsonData (append_answer f (int (length content) + int (length data))))))" (is "_ = ((?sv, _), _)") "client_ok seg c1" "current_id c1 = current_id c + 1"
    using client_append [OF assms(1) _ assms(3-7), where ov = None and ev = ev and ld = ld and evs = evs and et = et and i = i] assms(1,2) net by (auto simp: client_ok_def)
  have "read_bytes (sandbox_disk ?sv) p = Inr (content @ data)"
    using read_bytes_Inr [OF assms(5)] by (simp add: read_bytes_def)
  moreover have "dict_get (idempotency_cache ?sv) (cid, current_id c1 + 1, OP_GET) = None"
    using assms(8) a(3) by (simp add: store_response_def dict_simps opcode_consts add.commute)
  ultimately obtain c2 w2 where "execute ev2 ld2 net (?sv, i + 1) c1 OP_GET None (KwGet (JStr f)) =
      (w2, c2, Inr (success (BinData (content @ data))))"
    using client_get [OF a(2) _ assms(3), where sv = ?sv and p = p and content = "content @ data" and cid = cid
        and ev = ev2 and ld = ld2 and evs = evs and et = et and i = "i + 1"] assms(2,4,6) a(3) net by auto
  then show ?thesis using a(1) by blast
qed

theorem append_then_get_witness:
  "\<exists>w1 c1 meta w2 c2. let net = peer_network (\<lambda>r. [r]) (agent_serve (\<lambda>_. sample_env) (\<lambda>_ v. v) ''10.0.0.7:5000'') in
    execute sample_env sample_disk net (sample_server, 0) (new_AgentClient Rudp) OP_APPEND None (KwAppend ''a.txt'' [9]) =
      (w1, c1, Inr (success (JsonData meta))) \<and>
    execute sample_env sample_disk net w1 c1 OP_GET None (KwGet (JStr ''a.txt'')) =
      (w2, c2, Inr (success (BinData (str_bytes (''ab'' @ [CHR 0x0A] @ ''cd'' @ [CHR 0x0A]) @ [9]))))"
  unfolding Let_def
  by (rule append_then_get [OF sample_client(1) _ sample_name_ok _ sample_read [folded sample_server_fields(2)] _ _ _ refl])
     (simp_all add: sample_client sample_server_fields sample_path size_consts)

text \<open>
  C14. LIST: the client receives exactly the entries of the sandbox directory, in the order of their
  names, each with its size and modification time, and nothing changes, as long as the entries can be
  examined and the listing fits into one answer.
\<close>

theorem list_end_to_end:
  assumes "client_ok seg c" and "current_id c + 1 < 2 ^ 32"
    and "os_listdir (sandbox_disk sv) (sandbox_root (policy_guard sv)) = Inr nms"
    and "\<forall>nm \<in> set nms. os_exists (sandbox_disk sv) (os_join (sandbox_root (policy_guard sv)) nm)"
    and "answer_fits [(''files'', listing (evs i) (policy_guard sv) (sandbox_disk sv))] None"
    and "dict_get (idempotency_cache sv) (cid, current_id c + 1, OP_LIST) = None"
  shows "\<exists>sv' c'. execute ev ld (peer_network seg (agent_serve evs et cid)) (sv, i) c OP_LIST None KwList =
      ((sv', i + 1), c', Inr (success (JsonData (listing (evs i) (policy_guard sv) (sandbox_disk sv))))) \<and>
    sandbox_disk sv' = sandbox_disk sv"
proof -
  let ?pl = "str_bytes (dumps (JDict []))"
  have spec: "encode_payload build_list = Inr ?pl" "spec_opcode build_list = OP_LIST"
    by (simp_all add: encode_payload_def build_list_def py_encode_dumps dict_ok_def del: dumps.simps)
  have run: "run_handler (evs i) et sv (request_header OP_LIST (current_id c + 1) ?pl) ?pl None =
      Some (sv, Inr (Result [(''files'', listing (evs i) (policy_guard sv) (sandbox_disk sv))] None))"
    using handle_list_ok [OF assms(3,4)] by (simp add: run_handler_def Let_def opcode_consts del: dumps.simps)
  have len: "int (length ?pl) \<le> MAX_PAYLOAD_LEN" by (simp add: size_consts)
  have id: "0 \<le> current_id c + 1" using assms(1) by (simp add: client_ok_def)
  show ?thesis
    using call_ok [where evs = evs and i = i and kw = KwList and ov = None and ev = ev and
        orch = "run_orchestrator ev ld (peer_network seg (agent_serve evs et cid))",
        OF assms(1) client_ok_handlers(3) [OF assms(1)] _ _ spec(2,1) _ id assms(2) _ _ len assms(6) run assms(5)]
    by (auto simp: execute_def is_orchestrator_def opcode_consts parse_list_def status_is_def response_body_def simp del: dumps.simps)
qed


lemma sample_listing: "os_listdir sample_disk (sandbox_root sample_guard) = Inr [''a.txt'']"
  "os_exists sample_disk (os_join (sandbox_root sample_guard) ''a.txt'')"
  "listing sample_env sample_guard sample_disk =
     JList [JDict [(''name'', JStr ''a.txt''), (''size'', JInt 6), (''mtime'', JFloat ''0.0'')]]"
  by (simp_all add: os_listdir_def ascii_path_ok sample_guard_root os_isdir_def entries_def path_comps_def sample_disk_def dict_has_def
      os_exists_def os_join_def starts_slash_def listing_def listing_entry_def entry_size_def sample_env_def Let_def)

theorem list_end_to_end_witness:
  "\<exists>sv' c'. execute sample_env sample_disk (peer_network (\<lambda>r. [r]) (agent_serve (\<lambda>_. sample_env) (\<lambda>_ v. v) ''10.0.0.7:5000''))
      (sample_server, 0) (new_AgentClient Rudp) OP_LIST None KwList =
      ((sv', 1), c', Inr (success (JsonData (JList [JDict [(''name'', JStr ''a.txt''), (''size'', JInt 6), (''mtime'', JFloat ''0.0'')]])))) \<and>
    sandbox_disk sv' = sample_disk"
proof -
  have "scan_number ''0.0'' = Some (JFloat ''0.0'', [])" by code_simp
  then have "answer_fits [(''files'', listing sample_env sample_guard sample_disk)] None"
    by (simp add: answer_fits_def sample_listing(3) dict_ok_def encodable_ascii dumps_str_plain plain_def size_consts string_of_int_def string_of_nat.simps)
  then show ?thesis
    using list_end_to_end [where evs = "\<lambda>_. sample_env" and sv = sample_server and i = 0, OF sample_client(1)] sample_listing
    by (simp add: sample_server_fields sample_client)
qed

end
