(* ===== verification/Servers.thy ===== *)
theory Servers
  imports AgentSystem TcpTransport FailureSim
begin

text \<open>
  The loops that run the servers: \<^verbatim>\<open>AgentServer.run\<close> in TCP mode, the orchestrator \<^verbatim>\<open>src/server/__main__.py\<close>, and the PING client of
  \<^verbatim>\<open>src/client/transport/tcp_client.py\<close>. (The RUDP mode is in \<^verbatim>\<open>FullStack\<close>.) The loop that waits for
  the next connection is a function of the list of those that arrive; the interrupt that stops it
  comes after the last. Shown: a connection is served message by message whatever the
  segmentation; a run answers every connection with what its messages get one after the other, leaves none
  registered and nothing outside the sandbox changed; the
  PING client never sees a PONG.
\<close>

section \<open>Connections\<close>

text \<open>The reference: the messages of a client one after the other.\<close>

fun sequential :: "(nat \<Rightarrow> env) \<Rightarrow> (string \<Rightarrow> string \<Rightarrow> string) \<Rightarrow> nat \<Rightarrow> AgentServer \<Rightarrow> string \<Rightarrow> bytes list \<Rightarrow> AgentServer \<times> bytes list" where
  "sequential evs et i sv cid [] = (sv, [])"
| "sequential evs et i sv cid (m # ms) =
     (let (sv', response) = process_request (evs i) et sv cid m;
          (sv'', rest) = sequential evs et (i + 1) sv' cid ms
      in (sv'', if response = [] then rest else response # rest))"

text \<open>
  The messages of a stream of bytes: envelopes as long as their headers say, up to the first header that is
  incomplete or bad, or the first payload that is cut off.
\<close>

function messages_of :: "bytes \<Rightarrow> bytes list" where
  "messages_of stream =
     (if length stream < 12 then []
      else case decode_header (take 12 stream) of
             Inl e \<Rightarrow> []
           | Inr h \<Rightarrow>
               (let n = 12 + nat (payload_len h)
                in if length stream < n then [] else take n stream # messages_of (drop n stream)))"
  by pat_completeness auto
termination
  by (relation "measure length") auto

declare messages_of.simps [simp del]

text \<open>All connections one after the other, given by what their clients send.\<close>

fun sequential_all ::
  "(nat \<Rightarrow> nat \<Rightarrow> env) \<Rightarrow> (string \<Rightarrow> string \<Rightarrow> string) \<Rightarrow> nat \<Rightarrow> AgentServer \<Rightarrow> (addr \<times> bytes) list
    \<Rightarrow> AgentServer \<times> (addr \<times> bytes list) list" where
  "sequential_all evs et k sv [] = (sv, [])"
| "sequential_all evs et k sv ((a, stream) # rest) =
     (let (sv', responses) = sequential (evs k) et 0 sv (client_name a) (messages_of stream);
          (sv'', out) = sequential_all evs et (k + 1) sv' rest
      in (sv'', (a, responses) # out))"

definition is_message :: "bytes \<Rightarrow> bool" where
  "is_message m \<longleftrightarrow> (\<exists>h. decode_header (take 12 m) = Inr h \<and> int (length m) = 12 + payload_len h)"

lemma receive_exact_ok:
  assumes "chunks_ok (inbox s)" "n \<le> length (concat (inbox s))"
  shows "\<exists>s'. receive_exact s n = Inr (take n (concat (inbox s)), s') \<and>
    concat (inbox s') = drop n (concat (inbox s)) \<and> chunks_ok (inbox s')"
  using read_loop_props [OF assms(1), of "[]" n "\<lambda>_. ConnectionError ''Connection closed before reading complete message''"] assms(2)
  by (auto simp: receive_exact_def)

lemma receive_exact_short:
  assumes "chunks_ok (inbox s)" "length (concat (inbox s)) < n"
  shows "\<exists>e. receive_exact s n = Inl e"
  using read_loop_props [OF assms(1), of "[]" n "\<lambda>_. ConnectionError ''Connection closed before reading complete message''"] assms(2)
  by (auto simp: receive_exact_def)

text \<open>One message is read, and what follows it is left, or the stream has none.\<close>

lemma read_message_of:
  assumes "chunks_ok (inbox s)"
  shows "case messages_of (concat (inbox s)) of
      [] \<Rightarrow> read_message s = None
    | m # ms \<Rightarrow> \<exists>h s'. read_message s = Some (h, m, s') \<and> chunks_ok (inbox s') \<and> messages_of (concat (inbox s')) = ms"
proof -
  let ?b = "concat (inbox s)"
  consider (short) "length ?b < 12" | (bad) e where "12 \<le> length ?b" "decode_header (take 12 ?b) = Inl e"
    | (cut) h where "12 \<le> length ?b" "decode_header (take 12 ?b) = Inr h" "length ?b < 12 + nat (payload_len h)"
    | (msg) h where "12 \<le> length ?b" "decode_header (take 12 ?b) = Inr h" "12 + nat (payload_len h) \<le> length ?b"
    by (meson not_less sum.exhaust)
  then show ?thesis
  proof cases
    case short
    then show ?thesis using receive_exact_short [OF assms, of 12]
      by (auto simp: messages_of.simps [of ?b] read_message_def HEADER_SIZE_eq)
  next
    case bad
    then show ?thesis using receive_exact_ok [OF assms, of 12]
      by (auto simp: messages_of.simps [of ?b] read_message_def HEADER_SIZE_eq)
  next
    case cut
    obtain s1 where s1: "receive_exact s 12 = Inr (take 12 ?b, s1)" "concat (inbox s1) = drop 12 ?b" "chunks_ok (inbox s1)"
      using receive_exact_ok [OF assms cut(1)] by blast
    have "length (concat (inbox s1)) < nat (payload_len h)" using cut(1,3) by (simp only: s1(2) length_drop)
    from receive_exact_short [OF s1(3) this] show ?thesis using cut s1(1)
      by (auto simp: messages_of.simps [of ?b] read_message_def HEADER_SIZE_eq)
  next
    case msg
    let ?n = "nat (payload_len h)"
    obtain s1 where s1: "receive_exact s 12 = Inr (take 12 ?b, s1)" "concat (inbox s1) = drop 12 ?b" "chunks_ok (inbox s1)"
      using receive_exact_ok [OF assms msg(1)] by blast
    have n: "?n \<le> length (concat (inbox s1))" using msg(1,3) unfolding s1(2) length_drop by linarith
    obtain s2 where s2: "receive_exact s1 ?n = Inr (take ?n (drop 12 ?b), s2)" "concat (inbox s2) = drop ?n (drop 12 ?b)" "chunks_ok (inbox s2)"
      using receive_exact_ok [OF s1(3) n] unfolding s1(2) by blast
    have "read_message s = Some (h, take (12 + ?n) ?b, s2)"
      using msg(2) by (simp add: read_message_def HEADER_SIZE_eq s1(1) s2(1) take_add)
    moreover have "messages_of ?b = take (12 + ?n) ?b # messages_of (concat (inbox s2))"
      using msg by (simp add: messages_of.simps [of ?b] s2(2) Let_def add.commute)
    ultimately show ?thesis using s2(3) by simp
  qed
qed

lemma handle_connection_sequential:
  assumes "chunks_ok (inbox s)"
  shows "handle_connection evs et i sv a s = sequential evs et i sv (client_name a) (messages_of (concat (inbox s)))"
  using assms
proof (induction "messages_of (concat (inbox s))" arbitrary: i sv s)
  case Nil
  then show ?case using read_message_of [OF Nil.prems] by (simp add: handle_connection.simps [of evs et i sv a s])
next
  case (Cons m ms)
  then obtain h s' where "read_message s = Some (h, m, s')" "chunks_ok (inbox s')" "ms = messages_of (concat (inbox s'))"
    using read_message_of [OF Cons.prems] by (auto split: list.splits)
  then show ?case
    using Cons.hyps(1) [of s'] by (simp add: handle_connection.simps [of evs et i sv a s] Cons.hyps(2) [symmetric] split: prod.split)
qed

lemma messages_of_concat: "list_all is_message ms \<Longrightarrow> messages_of (concat ms) = ms"
proof (induction ms)
  case (Cons m ms)
  then obtain h where h: "decode_header (take 12 m) = Inr h" "int (length m) = 12 + payload_len h"
    by (auto simp: is_message_def)
  have "0 \<le> payload_len h" using decode_header_ok(1) [OF h(1)] by (simp add: header_ok_def)
  then have "12 \<le> length m" "12 + nat (payload_len h) = length m" using h(2) by linarith+
  then show ?case using Cons h(1) by (simp add: messages_of.simps [of "m @ concat ms"])
qed (simp add: messages_of.simps)

lemma handle_connection_steps:
  assumes "\<And>i. digest_ascii (evs i)" "handle_connection evs et i sv a s = (sv', out)"
  shows "server_step\<^sup>*\<^sup>* sv sv'"
  using assms(2)
proof (induction "length (concat (inbox s))" arbitrary: i sv s sv' out rule: less_induct)
  case less
  show ?case
  proof (cases "read_message s")
    case None
    then show ?thesis using less.prems by (simp add: handle_connection.simps [of evs et i sv a s])
  next
    case (Some x)
    obtain h m s1 where x: "x = (h, m, s1)" using prod_cases3 by blast
    obtain sv1 r where p: "process_request (evs i) et sv (client_name a) m = (sv1, r)" by fastforce
    obtain sv2 rest where c: "handle_connection evs et (Suc i) sv1 a s1 = (sv2, rest)" by fastforce
    have "server_step sv sv1" using server_step.request [OF assms(1) [of i], of sv et "client_name a" m] p by simp
    moreover have "server_step\<^sup>*\<^sup>* sv1 sv2"
      using less.hyps [OF _ c] read_message_consumes Some x by blast
    moreover have "sv' = sv2" using less.prems Some by (simp add: handle_connection.simps [of evs et i sv a s] x p c)
    ultimately show ?thesis by (simp add: converse_rtranclp_into_rtranclp)
  qed
qed

section \<open>The accept loop\<close>

text \<open>
  Connections that arrive, in order, with all that their clients send; \<open>evs k i\<close> is the environment
  of the \<open>i\<close>-th request of the \<open>k\<close>-th connection. The result lists the responses by connection.
\<close>

fun accept_loop ::
  "(nat \<Rightarrow> nat \<Rightarrow> env) \<Rightarrow> (string \<Rightarrow> string \<Rightarrow> string) \<Rightarrow> nat \<Rightarrow> AgentServer \<Rightarrow> TCPServerTransport \<Rightarrow> (addr \<times> tcp_socket) list
    \<Rightarrow> AgentServer \<times> TCPServerTransport \<times> (addr \<times> bytes list) list \<times> py_error option" where
  "accept_loop evs et k sv tr [] = (sv, tr, [], None)"
| "accept_loop evs et k sv tr ((a, conn) # conns) =
     (case tcp_accept tr a conn of
        Inl e \<Rightarrow> (sv, tr, [], Some e)
      | Inr tr1 \<Rightarrow>
          (let (sv', responses) = handle_connection (evs k) et 0 sv a conn;
               tr2 = tr1\<lparr>active_conns := dict_del a (active_conns tr1)\<rparr>;
               (sv'', tr', out, err) = accept_loop evs et (k + 1) sv' tr2 conns
           in (sv'', tr', (a, responses) # out, err)))"

text \<open>\<^verbatim>\<open>run\<close>: the transport is started before, and closed after, whatever happens.\<close>

definition run_tcp ::
  "(nat \<Rightarrow> nat \<Rightarrow> env) \<Rightarrow> (string \<Rightarrow> string \<Rightarrow> string) \<Rightarrow> AgentServer \<Rightarrow> bool \<Rightarrow> (addr \<times> tcp_socket) list
    \<Rightarrow> py_error + AgentServer \<times> TCPServerTransport \<times> (addr \<times> bytes list) list \<times> py_error option" where
  "run_tcp evs et sv bind_ok conns =
     (case tcp_start new_tcp_server bind_ok of
        Inl e \<Rightarrow> Inl e
      | Inr tr \<Rightarrow> (let (sv', tr', out, err) = accept_loop evs et 0 sv tr conns in Inr (sv', tcp_close tr', out, err)))"

lemma accept_loop_props:
  assumes "\<And>k i. digest_ascii (evs k i)" "srv_sock tr = Listening" "active_conns tr = []"
    and "accept_loop evs et k sv tr conns = (sv', tr', out, err)" "list_all (\<lambda>(a, s). chunks_ok (inbox s)) conns"
  shows "server_step\<^sup>*\<^sup>* sv sv' \<and> active_conns tr' = [] \<and> srv_sock tr' = Listening \<and> err = None \<and>
    (sv', out) = sequential_all evs et k sv (map (\<lambda>(a, s). (a, concat (inbox s))) conns)"
  using assms(2-5)
proof (induction conns arbitrary: k sv tr sv' tr' out err)
  case (Cons x conns)
  obtain a conn where x: "x = (a, conn)" by fastforce
  obtain sv1 rs where h: "handle_connection (evs k) et 0 sv a conn = (sv1, rs)" by fastforce
  let ?tr = "tr\<lparr>active_conns := dict_del a (dict_set a conn (active_conns tr))\<rparr>"
  obtain sv2 tr2 out2 err2 where l: "accept_loop evs et (Suc k) sv1 ?tr conns = (sv2, tr2, out2, err2)"
    using prod_cases4 by blast
  have "server_step\<^sup>*\<^sup>* sv sv1" using handle_connection_steps [OF _ h] assms(1) by blast
  moreover have "server_step\<^sup>*\<^sup>* sv1 sv2 \<and> active_conns tr2 = [] \<and> srv_sock tr2 = Listening \<and> err2 = None \<and>
      (sv2, out2) = sequential_all evs et (Suc k) sv1 (map (\<lambda>(a, s). (a, concat (inbox s))) conns)"
    using Cons.IH [OF _ _ l] Cons.prems(1,2,4) by simp
  moreover have "sequential (evs k) et 0 sv (client_name a) (messages_of (concat (inbox conn))) = (sv1, rs)"
    using handle_connection_sequential [of conn "evs k" et 0 sv a] h Cons.prems(4) by (simp add: x)
  moreover have "sv' = sv2" "tr' = tr2" "out = (a, rs) # out2" "err = err2"
    using Cons.prems(1,3) by (simp_all add: x tcp_accept_def h l)
  ultimately show ?case by (auto simp: x split: prod.splits)
qed simp

section \<open>The orchestrator\<close>

record server_args =
  arg_rudp :: bool
  arg_loss :: int
  arg_latency :: int
  arg_dup :: int
  arg_all :: bool
  arg_dhcp_only :: bool
  arg_dns_only :: bool
  arg_agent_only :: bool

datatype started = DhcpThread | DnsThread | AgentMain bool "FailureEngine option"

text \<open>
  What \<^verbatim>\<open>main\<close> starts, in order: threads, and the agent in the main thread, with the engine that its
  transport gets (the TCP transport takes none). \<open>Inl 2\<close> is the exit of the argument parser when
  more than one of the exclusive flags is given.
\<close>

definition server_main :: "server_args \<Rightarrow> int + started list" where
  "server_main a =
     (if length (filter (\<lambda>b. b) [arg_all a, arg_dhcp_only a, arg_dns_only a, arg_agent_only a]) > 1 then Inl 2
      else
        (let every = (arg_all a \<or> \<not> (arg_all a \<or> arg_dhcp_only a \<or> arg_agent_only a \<or> arg_dns_only a));
             dhcp = (if every \<or> arg_dhcp_only a then [DhcpThread] else []);
             dns = (if every \<or> arg_dns_only a then [DnsThread] else []);
             agent = (if every \<or> arg_agent_only a
                      then [AgentMain (arg_rudp a) (if arg_rudp a then engine_of_flags (arg_loss a) (arg_latency a) (arg_dup a) else None)]
                      else [])
         in Inr (if arg_dhcp_only a then dhcp else if arg_dns_only a then dhcp @ dns else dhcp @ dns @ agent)))"

text \<open>A server thread that ends with an exception ends the process with status 1.\<close>

definition start_thread :: "py_error option \<Rightarrow> int option" where
  "start_thread raised = (case raised of None \<Rightarrow> None | Some e \<Rightarrow> Some 1)"

text \<open>How the agent's loop ends in the main thread, and the exit status of the process.\<close>

datatype ended = Returned | Interrupted | Raised py_error

definition agent_status :: "ended \<Rightarrow> int" where
  "agent_status e = (case e of Returned \<Rightarrow> 0 | Interrupted \<Rightarrow> 0 | Raised x \<Rightarrow> 1)"

section \<open>The PING client\<close>

datatype ping_outcome = PongReceived | Uncertain int | ClientError py_error

text \<open>
  \<open>result\<close> is the socket that the connection gives, with all that the server is going to send;
  \<open>ok\<close>: whether the send succeeds.
\<close>

definition run_client :: "tcp_socket option \<Rightarrow> bool \<Rightarrow> ping_outcome" where
  "run_client result ok =
     (case tcp_connect \<lparr>tcp_sock = None\<rparr> result of
        Inl e \<Rightarrow> ClientError e
      | Inr c1 \<Rightarrow>
          (case encode_message OP_PING 0 12345 (str_bytes ''PING Payload Data'') None of
             Inl e \<Rightarrow> ClientError e
           | Inr full_message \<Rightarrow>
               (case client_send_bytes c1 full_message ok of
                  Inl e \<Rightarrow> ClientError e
                | Inr c2 \<Rightarrow>
                    (case receive_response c2 of
                       Inl e \<Rightarrow> ClientError e
                     | Inr ((op, fl, rid, pl), c3) \<Rightarrow> if op = OP_PONG then PongReceived else Uncertain op))))"

section \<open>Properties\<close>

text \<open>
  C16. A connection is served sequentially: however the client's messages are split into segments on the
  TCP stream, the server processes exactly those messages, in order, and answers them as if each had
  been handed to \<^verbatim>\<open>process_request\<close> on its own.
\<close>

theorem tcp_connection_is_sequential:
  assumes "chunks_ok (inbox s)" and "concat (inbox s) = concat ms" and "list_all is_message ms"
  shows "handle_connection evs et i sv a s = sequential evs et i sv (client_name a) ms"
  using handle_connection_sequential [OF assms(1)] messages_of_concat [OF assms(3)] assms(2) by simp

text \<open>
  C24. The TCP server: whatever bytes its clients send, in whatever segments, a run that gets its port
  serves every connection that arrives, in order: the answers on each are those that the messages of its
  stream get when handed to \<^verbatim>\<open>process_request\<close> one after the other, and the server's state passes
  from connection to connection. The run ends without an error, leaves no connection registered,
  closes its socket, and has changed no file outside the sandbox.
\<close>

theorem tcp_server_run:
  assumes "starts_slash wd" and "\<And>k i. digest_ascii (evs k i)" and "list_all (\<lambda>(a, s). chunks_ok (inbox s)) conns"
  shows "\<exists>sv tr out. run_tcp evs et (new_AgentServer wd rdir n d) True conns = Inr (sv, tr, out, None) \<and>
    (sv, out) = sequential_all evs et 0 (new_AgentServer wd rdir n d) (map (\<lambda>(a, s). (a, concat (inbox s))) conns) \<and>
    active_conns tr = [] \<and> srv_sock tr = ClosedSocket \<and>
    same_outside (sandbox_root (make_PolicyGuard wd rdir)) d (sandbox_disk sv)"
proof -
  let ?sv = "new_AgentServer wd rdir n d" and ?tr = "new_tcp_server\<lparr>srv_sock := Listening\<rparr>"
  obtain sv tr out err where l: "accept_loop evs et 0 ?sv ?tr conns = (sv, tr, out, err)" using prod_cases4 by blast
  have p: "server_step\<^sup>*\<^sup>* ?sv sv \<and> active_conns tr = [] \<and> srv_sock tr = Listening \<and> err = None \<and>
      (sv, out) = sequential_all evs et 0 ?sv (map (\<lambda>(a, s). (a, concat (inbox s))) conns)"
    by (rule accept_loop_props [OF _ _ _ l assms(3)]) (simp_all add: assms(2) new_tcp_server_def)
  then have "server_inv wd rdir d sv" using reachable_server_inv [OF assms(1)] by blast
  then show ?thesis using l p by (auto simp: run_tcp_def tcp_start_def tcp_close_def server_inv_def)
qed

text \<open>
  C37. The PING client never passes against the agent: the server's answer to any message has the
  opcode of that message, so the client, which looks for the opcode of a PONG, finds the PING's own,
  whatever the segments in which the answer arrives.
\<close>

theorem ping_is_not_answered_with_pong:
  assumes "cache_ok (idempotency_cache sv)" and "encode_message OP_PING 0 12345 (str_bytes ''PING Payload Data'') None = Inr m"
    and "process_request ev et sv cid m = (sv', r)" and "r \<noteq> []" and "chunks_ok (inbox s)" and "concat (inbox s) = r"
  shows "run_client (Some s) True = Uncertain OP_PING"
proof -
  have "answers 12345 OP_PING r"
    using process_request_answers [OF assms(1,3)] assms(4) decode_encoded(3) [OF assms(2)] by auto
  then obtain h where h: "12 \<le> length r" "decode_header (take 12 r) = Inr h" "opcode h = OP_PING" "payload_len h = int (length (drop 12 r))"
    by (auto simp: answers_def)
  let ?c = "\<lparr>tcp_sock = Some (sendall s m)\<rparr>"
  have ib: "chunks_ok (inbox (sendall s m))" "concat (inbox (sendall s m)) = r" using assms(5,6) by (simp_all add: sendall_def)
  obtain c1 s1 where c1: "client_receive_exact ?c 12 = Inr (take 12 r, c1)" "tcp_sock c1 = Some s1" "concat (inbox s1) = drop 12 r" "chunks_ok (inbox s1)"
    using client_receive_exact_ok [of ?c "sendall s m" 12] ib h(1) by auto
  obtain c2 where c2: "client_receive_exact c1 (length r - 12) = Inr (drop 12 r, c2)"
    using client_receive_exact_ok [OF c1(2,4), of "length r - 12"] c1(3) by auto
  have "\<not> MAX_PAYLOAD_LEN < payload_len h" using decode_header_ok(1) [OF h(2)] by (simp add: header_ok_def)
  moreover have "nat (payload_len h) = length r - 12" using h(1,4) by simp
  ultimately have "receive_response ?c = Inr ((OP_PING, h_flags h, request_id h, drop 12 r), c2)"
    using c1(1) c2 h(1-3) by (simp add: receive_response_def HEADER_SIZE_eq)
  then show ?thesis
    using assms(2) by (simp add: run_client_def tcp_connect_def client_send_bytes_def OP_PING_def OP_PONG_def)
qed

section \<open>Samples\<close>

lemma sample_messages: "list_all is_message [[1, 5, 0, 0, 0, 0, 0, 7, 0, 0, 0, 0], [1, 5, 0, 0, 0, 0, 0, 8, 0, 0, 0, 0]]"
proof -
  have m: "is_message m" if "encode_message op 0 rid [] None = Inr m" for op rid m
  proof -
    have "length m = 12" using that by (auto elim!: encode_message_ok)
    then show ?thesis using decode_encoded(3) [OF that] by (simp add: is_message_def)
  qed
  have "encode_message OP_LIST 0 7 [] None = Inr [1, 5, 0, 0, 0, 0, 0, 7, 0, 0, 0, 0]"
    "encode_message OP_LIST 0 8 [] None = Inr [1, 5, 0, 0, 0, 0, 0, 8, 0, 0, 0, 0]" by (code_simp, code_simp)
  then show ?thesis using m by (simp del: struct_pack.simps)
qed

theorem tcp_connection_is_sequential_witness:
  "handle_connection (\<lambda>_. sample_env) (\<lambda>_ v. v) 0 sample_server (''10.0.0.7'', 5000)
     \<lparr>inbox = [[1, 5, 0, 0, 0], [0, 0, 7, 0, 0, 0, 0, 1, 5], [0, 0, 0, 0, 0, 8, 0, 0, 0, 0]], outbox = []\<rparr> =
   sequential (\<lambda>_. sample_env) (\<lambda>_ v. v) 0 sample_server (client_name (''10.0.0.7'', 5000))
     [[1, 5, 0, 0, 0, 0, 0, 7, 0, 0, 0, 0], [1, 5, 0, 0, 0, 0, 0, 8, 0, 0, 0, 0]]"
  by (rule tcp_connection_is_sequential [OF _ _ sample_messages]) (simp_all add: chunks_ok_def)

theorem tcp_server_run_witness:
  "\<exists>sv tr out. run_tcp (\<lambda>_ _. sample_env) (\<lambda>_ v. v) (new_AgentServer ''/srv'' ''box'' 4096 sample_disk) True
      [((''10.0.0.7'', 5000), \<lparr>inbox = [[1, 5, 0, 0, 0], [0, 0, 7, 0, 0, 0, 0]], outbox = []\<rparr>)] = Inr (sv, tr, out, None) \<and>
    out = [((''10.0.0.7'', 5000), snd (sequential (\<lambda>_. sample_env) (\<lambda>_ v. v) 0 (new_AgentServer ''/srv'' ''box'' 4096 sample_disk)
      (client_name (''10.0.0.7'', 5000)) [[1, 5, 0, 0, 0, 0, 0, 7, 0, 0, 0, 0]]))] \<and> active_conns tr = []"
proof -
  have "messages_of [1, 5, 0, 0, 0, 0, 0, 7, 0, 0, 0, 0] = [[1, 5, 0, 0, 0, 0, 0, 7, 0, 0, 0, 0]]"
    using messages_of_concat [of "[[1, 5, 0, 0, 0, 0, 0, 7, 0, 0, 0, 0]]"] sample_messages by simp
  with tcp_server_run [of "''/srv''" "\<lambda>_ _. sample_env" "[((''10.0.0.7'', 5000), \<lparr>inbox = [[1, 5, 0, 0, 0], [0, 0, 7, 0, 0, 0, 0]], outbox = []\<rparr>)]"
      "\<lambda>_ v. v" "''box''" 4096 sample_disk]
  show ?thesis by (auto simp: starts_slash_def digest_ascii_def sample_env_def chunks_ok_def split: prod.splits)
qed

lemma sample_ping:
  assumes "encode_message OP_PING 0 12345 (str_bytes ''PING Payload Data'') None = Inr m"
  shows "\<exists>r. snd (process_request sample_env et sample_server ''10.0.0.7:5000'' m) = r \<and> r \<noteq> []"
proof -
  let ?b = "response_body (code_value BAD_REQUEST) JNull (Some (''Unknown Opcode: '' @ string_of_int OP_PING))"
  have ok: "json_ok ?b" by (simp add: response_body_ok encodable_ascii string_of_int_ascii)
  have "string_of_int OP_PING = ''255''" by code_simp
  then have "length (str_bytes (dumps ?b)) \<le> 200"
    by (simp add: response_body_def dumps_str_plain plain_def string_of_int_def string_of_nat.simps)
  then obtain r where r: "encode_message OP_PING 0 12345 (str_bytes (dumps ?b)) None = Inr r"
    using encode_message_exists [of OP_PING 12345 "str_bytes (dumps ?b)"] by (auto simp: OP_PING_def size_consts simp del: dumps.simps)
  have be: "build_error_response OP_PING 12345 (code_value BAD_REQUEST) (''Unknown Opcode: '' @ string_of_int OP_PING) = Inr r"
    unfolding build_error_response_def build_response_def response_payload_json [OF ok] ebind_def sum.case by (rule r)
  have "run_handler sample_env et sample_server (request_header OP_PING 12345 pl) pl None = None" for pl
    by (simp add: run_handler_def Let_def OP_PING_def opcode_consts)
  then have "dispatch sample_env et sample_server (request_header OP_PING 12345 pl) pl None = (sample_server, Inr r)" for pl
    using be unfolding dispatch_def Let_def by simp
  moreover have "sample_server\<lparr>idempotency_cache := []\<rparr> = sample_server"
    by (rule AgentServer.equality) (simp_all add: sample_server_fields)
  ultimately have "dispatch sample_env et (sample_server\<lparr>idempotency_cache := []\<rparr>)
      (request_header OP_PING 12345 (str_bytes ''PING Payload Data'')) (str_bytes ''PING Payload Data'') None = (sample_server, Inr r)"
    by (simp only:)
  then show ?thesis
    using decode_encoded [OF assms] decode_encoded(2) [OF r]
    by (simp add: process_request_def Let_def sample_server_fields get_response_def)
qed

theorem ping_is_not_answered_with_pong_witness:
  "\<exists>m r. encode_message OP_PING 0 12345 (str_bytes ''PING Payload Data'') None = Inr m \<and> r \<noteq> [] \<and>
     snd (process_request sample_env (\<lambda>_ v. v) sample_server ''10.0.0.7:5000'' m) = r \<and>
     run_client (Some \<lparr>inbox = [r], outbox = []\<rparr>) True = Uncertain OP_PING"
proof -
  obtain m where m: "encode_message OP_PING 0 12345 (str_bytes ''PING Payload Data'') None = Inr m"
    using encode_message_exists [of OP_PING 12345 "str_bytes ''PING Payload Data''"] by (auto simp: OP_PING_def size_consts str_bytes_def)
  obtain sv r where p: "process_request sample_env (\<lambda>_ v. v) sample_server ''10.0.0.7:5000'' m = (sv, r)" by fastforce
  have "r \<noteq> []" using sample_ping [OF m, of "\<lambda>_ v. v"] p by simp
  moreover have "cache_ok (idempotency_cache sample_server)" by (simp add: sample_server_fields cache_ok_def)
  ultimately show ?thesis
    using ping_is_not_answered_with_pong [OF _ m p, of "\<lparr>inbox = [r], outbox = []\<rparr>"] m p by (auto simp: chunks_ok_def)
qed

end
