(* ===== verification/PyValue.thy ===== *)
theory PyValue
  imports Json "HOL-Library.Char_ord" "HOL-Library.List_Lexorder"
begin

text \<open>
  Python's equality on the values that \<^verbatim>\<open>json.loads\<close> returns, and which of them can be the key of
  a dictionary. Numbers compare by value across \<^verbatim>\<open>bool\<close>, \<^verbatim>\<open>int\<close> and \<^verbatim>\<open>float\<close>; a
  \<^verbatim>\<open>float\<close> has the value of its literal rounded to the nearest double. Shown: equality is an
  equivalence but for \<^verbatim>\<open>NaN\<close>, and on integers and texts it is that of the model.
\<close>

section \<open>The double of a literal\<close>

datatype number = Finite real | PosInf | NegInf | NotANumber

text \<open>Round to the nearest integer, a tie to the even one.\<close>

definition nearest_even :: "real \<Rightarrow> int" where
  "nearest_even x =
     (let n = \<lfloor>x\<rfloor>; d = x - of_int n
      in if d < 1 / 2 then n else if d > 1 / 2 then n + 1 else if even n then n else n + 1)"

text \<open>
  How often a number is halved until 53 bits hold its integer part. The numbers here are in units of
  the smallest positive double, $2^{-1074}$; the largest binade is reached after 2045 halvings.
\<close>

primrec halvings :: "nat \<Rightarrow> real \<Rightarrow> nat" where
  "halvings 0 y = 0"
| "halvings (Suc k) y = (if y < 2 ^ 53 then 0 else Suc (halvings k (y / 2)))"

definition nearest_double :: "real \<Rightarrow> number" where
  "nearest_double x =
     (let y = \<bar>x\<bar> * 2 ^ 1074;
          n = halvings 2045 y;
          v = of_int (nearest_even (y / 2 ^ n)) * 2 ^ n
      in if v \<ge> 2 ^ 2098 then (if x < 0 then NegInf else PosInf)
         else Finite (sgn x * v / 2 ^ 1074))"

definition float_number :: "string \<Rightarrow> number" where
  "float_number lit =
     (if lit = ''NaN'' then NotANumber
      else if lit = ''Infinity'' then PosInf
      else if lit = ''-Infinity'' then NegInf
      else nearest_double (float_value lit))"

section \<open>Equality\<close>

text \<open>
  Two parsed values are equal for Python if their canonical forms are equal: numbers by value,
  dictionaries whatever the order of their items. A \<^verbatim>\<open>NaN\<close> is the exception, unequal even to
  itself; but the parser returns one and the same object for every \<^verbatim>\<open>NaN\<close>, so inside of lists
  and dictionaries and as a key, where identity is tested first, it does equal itself.
\<close>

datatype py_value =
    PyNone
  | PyNum number
  | PyStr string
  | PyList "py_value list"
  | PyDict "(string \<times> py_value) list"

fun canon :: "json \<Rightarrow> py_value"
  and canon_items :: "json list \<Rightarrow> py_value list"
  and canon_members :: "(string \<times> json) list \<Rightarrow> (string \<times> py_value) list"
where
  "canon JNull = PyNone"
| "canon (JBool b) = PyNum (Finite (if b then 1 else 0))"
| "canon (JInt i) = PyNum (Finite (of_int i))"
| "canon (JFloat lit) = PyNum (float_number lit)"
| "canon (JStr s) = PyStr s"
| "canon (JList vs) = PyList (canon_items vs)"
| "canon (JDict kvs) = PyDict (sort_key fst (canon_members kvs))"
| "canon_items [] = []"
| "canon_items (v # vs) = canon v # canon_items vs"
| "canon_members [] = []"
| "canon_members ((k, v) # kvs) = (k, canon v) # canon_members kvs"

definition py_eq :: "json \<Rightarrow> json \<Rightarrow> bool" where
  "py_eq x y \<longleftrightarrow> canon x = canon y \<and> canon x \<noteq> PyNum NotANumber"

text \<open>The key under which a dictionary finds a value; lists and dictionaries cannot be hashed.\<close>

fun py_key :: "json \<Rightarrow> py_value option" where
  "py_key (JList vs) = None"
| "py_key (JDict kvs) = None"
| "py_key v = Some (canon v)"

section \<open>Lemmas\<close>

lemma py_eq_sym: "py_eq x y \<Longrightarrow> py_eq y x"
  by (auto simp: py_eq_def)

lemma py_eq_trans: "py_eq x y \<Longrightarrow> py_eq y z \<Longrightarrow> py_eq x z"
  by (auto simp: py_eq_def)

lemma py_eq_int [simp]: "py_eq (JInt i) (JInt j) \<longleftrightarrow> i = j"
  by (simp add: py_eq_def)

lemma py_eq_str [simp]: "py_eq x (JStr s) \<longleftrightarrow> x = JStr s"
  by (cases x) (auto simp: py_eq_def)

lemma py_key_canon: "py_key x = Some k \<Longrightarrow> k = canon x"
  by (cases x) auto

lemma py_key_eq:
  assumes "py_eq x y"
  shows "py_key x = py_key y"
  using assms by (cases x; cases y) (auto simp: py_eq_def)

text \<open>Integers that a double can hold are not rounded.\<close>

lemma nearest_even_int [simp]: "nearest_even (of_int i) = i"
  by (simp add: nearest_even_def)

lemma halvings_le: "y < 2 ^ (53 + j) \<Longrightarrow> halvings k y \<le> j"
proof (induction k arbitrary: y j)
  case (Suc k)
  show ?case
  proof (cases j)
    case 0
    then show ?thesis using Suc.prems by simp
  next
    case j: (Suc j')
    have "y / 2 < 2 ^ (53 + j')" using Suc.prems by (simp add: j power_add)
    from Suc.IH [OF this] show ?thesis by (simp add: j)
  qed
qed simp

lemma nearest_double_int:
  assumes "\<bar>i\<bar> < 2 ^ 53"
  shows "nearest_double (of_int i) = Finite (of_int i)"
proof -
  define y where "y = \<bar>real_of_int i\<bar> * 2 ^ 1074"
  define n where "n = halvings 2045 y"
  have a: "\<bar>real_of_int i\<bar> < 2 ^ 53" using assms by (simp flip: of_int_abs)
  then have "y < 2 ^ 53 * 2 ^ 1074" unfolding y_def by (intro mult_strict_right_mono) simp_all
  then have n: "n \<le> 1074" unfolding n_def by (intro halvings_le) (simp only: power_add)
  then have "y / 2 ^ n = \<bar>real_of_int i\<bar> * 2 ^ (1074 - n)"
    unfolding y_def by (simp only: power_diff times_divide_eq_right)
  also have "\<dots> = of_int (\<bar>i\<bar> * 2 ^ (1074 - n))" by simp
  finally have q: "y / 2 ^ n = of_int (\<bar>i\<bar> * 2 ^ (1074 - n))" .
  then have "of_int (nearest_even (y / 2 ^ n)) = y / 2 ^ n" by (simp only: nearest_even_int)
  then have "of_int (nearest_even (y / 2 ^ n)) * 2 ^ n = y" by simp
  then have v: "nearest_double (of_int i) = (if y \<ge> 2 ^ 2098 then (if i < 0 then NegInf else PosInf)
      else Finite (sgn (of_int i) * y / 2 ^ 1074))"
    unfolding nearest_double_def Let_def y_def [symmetric] n_def [symmetric] by simp
  have "y < 2 ^ 2098"
  proof -
    have "y < 2 ^ 53 * 2 ^ 1074" by fact
    also have "\<dots> \<le> (2::real) ^ 2098" unfolding power_add [symmetric] by (rule power_increasing) simp_all
    finally show ?thesis .
  qed
  moreover have "sgn (real_of_int i) * y / 2 ^ 1074 = of_int i" by (simp add: y_def sgn_mult_abs)
  ultimately show ?thesis unfolding v by simp
qed

end
