(* ===== verification/IpManager.thy ===== *)
theory IpManager
  imports Constants PyValue
begin

unbundle bit_operations_syntax

text \<open>
  The address pool of the DHCP server, \<^verbatim>\<open>src/server/dhcp/ip_manager.py\<close>: leases by hardware
  address, the set of allocated addresses, allocation, renewal, binding and expiry. Hardware address,
  transaction id and requested address are what a parsed packet has in these fields, any JSON value:
  leases are found under the dictionary key of the hardware address, and transaction ids are compared as
  Python does. The clock is an argument of each operation: \<open>t\<close> where the expired leases are collected, \<open>t'\<close> where a new
  expiry is computed. Shown: at no moment do two clients hold the same address, every leased
  address is in the pool, the allocated set is exactly the set of leased addresses, and an
  address is refused only when all are taken.
\<close>

section \<open>State\<close>

datatype lease_state = SELECTING | BOUND

record lease =
  l_ip :: string
  l_xid :: json
  expires_at :: real
  l_state :: lease_state

record IPManager =
  start_ip :: string
  end_ip :: string
  leased_ips :: "(py_value, lease) dict"
  allocated_ips :: "string set"

definition new_IPManager :: "string \<Rightarrow> string \<Rightarrow> IPManager" where
  "new_IPManager s e = \<lparr>start_ip = s, end_ip = e, leased_ips = [], allocated_ips = {}\<rparr>"

definition default_IPManager :: IPManager where
  "default_IPManager = new_IPManager ''127.0.0.2'' ''127.0.0.254''"

section \<open>Addresses\<close>

text \<open>A part that is not a number raises \<^verbatim>\<open>ValueError\<close>, too few parts \<^verbatim>\<open>IndexError\<close>.\<close>

definition ip_to_int :: "string \<Rightarrow> py_error + int" where
  "ip_to_int ip =
     (let parts = map int_of_string (split_on (CHR ''.'') ip)
      in if None \<in> set parts then Inl (ValueError ''invalid literal for int() with base 10'')
         else case map the parts of
                a # b # c # d # _ \<Rightarrow> Inr (push_bit 24 a + push_bit 16 b + push_bit 8 c + d)
              | _ \<Rightarrow> Inl IndexError)"

definition int_to_ip :: "int \<Rightarrow> string" where
  "int_to_ip i = string_of_int (drop_bit 24 i AND 0xFF) @ ''.'' @ string_of_int (drop_bit 16 i AND 0xFF)
     @ ''.'' @ string_of_int (drop_bit 8 i AND 0xFF) @ ''.'' @ string_of_int (i AND 0xFF)"

function first_free :: "int \<Rightarrow> int \<Rightarrow> string set \<Rightarrow> string option" where
  "first_free i stop taken =
     (if i \<ge> stop then None
      else if int_to_ip i \<notin> taken then Some (int_to_ip i) else first_free (i + 1) stop taken)"
  by pat_completeness auto
termination
  by (relation "measure (\<lambda>(i, stop, taken). nat (stop - i))") auto

declare first_free.simps [simp del]

definition get_next_available_ip :: "IPManager \<Rightarrow> py_error + string option" where
  "get_next_available_ip m =
     (case ip_to_int (start_ip m) of
        Inl e \<Rightarrow> Inl e
      | Inr start \<Rightarrow>
          (case ip_to_int (end_ip m) of
             Inl e \<Rightarrow> Inl e
           | Inr stop \<Rightarrow> Inr (first_free start (stop + 1) (allocated_ips m))))"

section \<open>Operations\<close>

definition expired :: "real \<Rightarrow> lease \<Rightarrow> bool" where
  "expired t l \<longleftrightarrow> t > expires_at l"

definition evict :: "IPManager \<Rightarrow> py_value \<Rightarrow> IPManager" where
  "evict m mac =
     (case dict_get (leased_ips m) mac of
        None \<Rightarrow> m
      | Some l \<Rightarrow> m\<lparr>allocated_ips := allocated_ips m - {l_ip l},
                     leased_ips := dict_del mac (leased_ips m)\<rparr>)"

definition cleanup_expired_leases :: "IPManager \<Rightarrow> real \<Rightarrow> IPManager" where
  "cleanup_expired_leases m t =
     (let expired_macs = map fst (filter (\<lambda>(mac, l). expired t l) (leased_ips m))
      in foldl evict m expired_macs)"

definition fresh_expiry :: "real \<Rightarrow> real" where
  "fresh_expiry t = t + of_int DHCP_DEFAULT_LEASE_TIME"

text \<open>
  The operations take the key of the hardware address; \<^verbatim>\<open>py_key\<close> has none for a list or a dictionary,
  for which the first look-up raises \<^verbatim>\<open>TypeError\<close> after the clean-up (see \<open>server_discover\<close>).
\<close>

definition handle_discover ::
  "IPManager \<Rightarrow> py_value \<Rightarrow> json \<Rightarrow> real \<Rightarrow> real \<Rightarrow> py_error + (IPManager \<times> string option \<times> int)" where
  "handle_discover m mac xid t t' =
     (let m1 = cleanup_expired_leases m t
      in case dict_get (leased_ips m1) mac of
           Some l \<Rightarrow>
             if py_eq (l_xid l) xid
             then Inr (m1\<lparr>leased_ips := dict_set mac (l\<lparr>expires_at := fresh_expiry t'\<rparr>) (leased_ips m1)\<rparr>,
                       Some (l_ip l), DHCP_DEFAULT_LEASE_TIME)
             else Inr (m1\<lparr>leased_ips := dict_set mac
                           (l\<lparr>l_xid := xid, l_state := SELECTING, expires_at := fresh_expiry t'\<rparr>) (leased_ips m1)\<rparr>,
                       Some (l_ip l), DHCP_DEFAULT_LEASE_TIME)
         | None \<Rightarrow>
             (case get_next_available_ip m1 of
                Inl e \<Rightarrow> Inl e
              | Inr None \<Rightarrow> Inr (m1, None, 0)
              | Inr (Some new_ip) \<Rightarrow>
                  Inr (m1\<lparr>allocated_ips := insert new_ip (allocated_ips m1),
                          leased_ips := dict_set mac \<lparr>l_ip = new_ip, l_xid = xid,
                            expires_at = fresh_expiry t', l_state = SELECTING\<rparr> (leased_ips m1)\<rparr>,
                       Some new_ip, DHCP_DEFAULT_LEASE_TIME)))"

definition handle_request ::
  "IPManager \<Rightarrow> py_value \<Rightarrow> json \<Rightarrow> json \<Rightarrow> real \<Rightarrow> real \<Rightarrow> IPManager \<times> bool" where
  "handle_request m mac xid requested_ip t t' =
     (let m1 = cleanup_expired_leases m t
      in case dict_get (leased_ips m1) mac of
           None \<Rightarrow> (m1, False)
         | Some l \<Rightarrow>
             if JStr (l_ip l) \<noteq> requested_ip then (m1, False)
             else if py_eq (l_xid l) xid \<and> l_state l = BOUND
             then (m1\<lparr>leased_ips := dict_set mac (l\<lparr>expires_at := fresh_expiry t'\<rparr>) (leased_ips m1)\<rparr>, True)
             else if l_state l = SELECTING
             then (m1\<lparr>leased_ips := dict_set mac (l\<lparr>l_xid := xid, l_state := BOUND,
                        expires_at := fresh_expiry t'\<rparr>) (leased_ips m1)\<rparr>, True)
             else (m1, False))"

section \<open>Invariant\<close>

definition pool :: "IPManager \<Rightarrow> string set" where
  "pool m = (case (ip_to_int (start_ip m), ip_to_int (end_ip m)) of
     (Inr a, Inr b) \<Rightarrow> int_to_ip ` {a..b} | _ \<Rightarrow> {})"

definition ips_of :: "(py_value, lease) dict \<Rightarrow> string list" where
  "ips_of ls = map (\<lambda>(mac, l). l_ip l) ls"

definition lease_inv :: "IPManager \<Rightarrow> bool" where
  "lease_inv m \<longleftrightarrow> dict_ok (leased_ips m) \<and> distinct (ips_of (leased_ips m)) \<and>
     allocated_ips m = set (ips_of (leased_ips m)) \<and> allocated_ips m \<subseteq> pool m"

section \<open>Lemmas\<close>

lemma pool_frame [simp]:
  "pool (m\<lparr>leased_ips := x\<rparr>) = pool m" "pool (m\<lparr>allocated_ips := y\<rparr>) = pool m"
  by (simp_all add: pool_def)

lemma first_free_Some:
  "first_free i stop taken = Some ip \<Longrightarrow> \<exists>j. i \<le> j \<and> j < stop \<and> ip = int_to_ip j \<and> ip \<notin> taken"
proof (induction i stop taken rule: first_free.induct)
  case (1 i stop taken)
  show ?case
  proof (cases "i < stop \<and> int_to_ip i \<in> taken")
    case True
    then have "first_free (i + 1) stop taken = Some ip" using "1.prems" by (simp add: first_free.simps [of i])
    then obtain j where "i + 1 \<le> j" "j < stop" "ip = int_to_ip j" "ip \<notin> taken" using "1.IH" True by auto
    then show ?thesis by (intro exI [of _ j]) auto
  next
    case False
    then show ?thesis using "1.prems" by (auto simp: first_free.simps [of i] split: if_splits)
  qed
qed

lemma first_free_None:
  "first_free i stop taken = None \<Longrightarrow> int_to_ip ` {i..<stop} \<subseteq> taken"
proof (induction i stop taken rule: first_free.induct)
  case (1 i stop taken)
  show ?case
  proof (cases "i < stop")
    case True
    then have "int_to_ip i \<in> taken" "first_free (i + 1) stop taken = None"
      using "1.prems" by (auto simp: first_free.simps [of i] split: if_splits)
    moreover have "{i..<stop} = insert i {i + 1..<stop}" using True by auto
    ultimately show ?thesis using "1.IH" True by auto
  qed simp
qed

lemma ips_of_update:
  assumes "dict_get ls mac = Some l" "l_ip l' = l_ip l"
  shows "ips_of (dict_set mac l' ls) = ips_of ls"
  using assms by (induction ls) (auto simp: ips_of_def)

lemma distinct_ips_filter: "distinct (ips_of ls) \<Longrightarrow> distinct (ips_of (filter P ls))"
  by (auto simp: ips_of_def distinct_map_filter)

lemma ips_of_delete:
  assumes "dict_ok ls" "dict_get ls mac = Some l" "distinct (ips_of ls)"
  shows "set (ips_of (dict_del mac ls)) = set (ips_of ls) - {l_ip l}"
  using assms
proof (induction ls)
  case (Cons x ls)
  obtain k v where x: "x = (k, v)" by fastforce
  show ?case
  proof (cases "k = mac")
    case True
    then have "mac \<notin> fst ` set ls" "v = l" using Cons.prems by (auto simp: x dict_ok_def)
    then have "dict_del mac ls = ls" by (simp add: delete_id)
    then show ?thesis using Cons.prems(3) True \<open>v = l\<close> by (simp add: x ips_of_def)
  next
    case False
    then have g: "dict_get ls mac = Some l" using Cons.prems by (simp add: x)
    then have "l_ip l \<in> set (ips_of ls)" by (force simp: ips_of_def dest: map_of_SomeD)
    moreover have "l_ip v \<notin> set (ips_of ls)" using Cons.prems(3) by (simp add: x ips_of_def)
    moreover have "dict_ok ls" "distinct (ips_of ls)" using Cons.prems by (simp_all add: x dict_ok_def ips_of_def)
    ultimately show ?thesis using Cons.IH g False by (auto simp: x ips_of_def)
  qed
qed simp

lemma evict_inv:
  assumes "lease_inv m"
  shows "lease_inv (evict m mac)" "leased_ips (evict m mac) = dict_del mac (leased_ips m)"
    "start_ip (evict m mac) = start_ip m" "end_ip (evict m mac) = end_ip m"
proof -
  show l: "leased_ips (evict m mac) = dict_del mac (leased_ips m)"
    by (auto simp: evict_def map_of_eq_None_iff delete_id split: option.split)
  show se: "start_ip (evict m mac) = start_ip m" "end_ip (evict m mac) = end_ip m"
    by (simp_all add: evict_def split: option.split)
  show "lease_inv (evict m mac)"
  proof (cases "dict_get (leased_ips m) mac")
    case None
    then show ?thesis using assms by (simp add: evict_def)
  next
    case (Some x)
    have "distinct (ips_of (dict_del mac (leased_ips m)))"
      using assms distinct_ips_filter by (simp add: lease_inv_def AList.delete_eq)
    moreover have "set (ips_of (dict_del mac (leased_ips m))) = allocated_ips m - {l_ip x}"
      using ips_of_delete [OF _ Some] assms by (simp add: lease_inv_def)
    moreover have "evict m mac = m\<lparr>allocated_ips := allocated_ips m - {l_ip x},
        leased_ips := dict_del mac (leased_ips m)\<rparr>" using Some by (simp only: evict_def option.case)
    ultimately show ?thesis using assms by (auto simp: lease_inv_def pool_def)
  qed
qed

lemma evict_all:
  "lease_inv m \<Longrightarrow> lease_inv (foldl evict m macs) \<and>
     leased_ips (foldl evict m macs) = filter (\<lambda>(k, _). k \<notin> set macs) (leased_ips m) \<and>
     start_ip (foldl evict m macs) = start_ip m \<and> end_ip (foldl evict m macs) = end_ip m"
proof (induction macs arbitrary: m)
  case (Cons mac macs)
  note e = evict_inv [OF Cons.prems, of mac]
  show ?case using Cons.IH [OF e(1)] e(2-4)
    by (auto simp: AList.delete_eq intro!: filter_cong)
qed simp

lemma cleanup_props:
  assumes "lease_inv m"
  shows "lease_inv (cleanup_expired_leases m t)"
    and "leased_ips (cleanup_expired_leases m t) = filter (\<lambda>(_, l). \<not> expired t l) (leased_ips m)"
    and "pool (cleanup_expired_leases m t) = pool m"
    and "start_ip (cleanup_expired_leases m t) = start_ip m" "end_ip (cleanup_expired_leases m t) = end_ip m"
proof -
  let ?macs = "map fst (filter (\<lambda>(mac, l). expired t l) (leased_ips m))"
  note ea = evict_all [OF assms, of ?macs]
  have "dict_ok (leased_ips m)" using assms by (simp add: lease_inv_def)
  then have "x \<in> set (leased_ips m) \<Longrightarrow> fst x \<in> set ?macs \<longleftrightarrow> expired t (snd x)" for x
    by (cases x) (force simp: dict_ok_mem)
  then have "filter (\<lambda>(k, _). k \<notin> set ?macs) (leased_ips m) = filter (\<lambda>(_, l). \<not> expired t l) (leased_ips m)"
    by (intro filter_cong) (auto simp: case_prod_unfold)
  with ea show "lease_inv (cleanup_expired_leases m t)"
      "leased_ips (cleanup_expired_leases m t) = filter (\<lambda>(_, l). \<not> expired t l) (leased_ips m)"
      "pool (cleanup_expired_leases m t) = pool m"
      "start_ip (cleanup_expired_leases m t) = start_ip m" "end_ip (cleanup_expired_leases m t) = end_ip m"
    by (simp_all add: cleanup_expired_leases_def pool_def)
qed

subsection \<open>Dotted addresses\<close>

lemma and_0xFF: "(c::int) AND 255 = c mod 256"
proof -
  have "c AND mask 8 = take_bit 8 c" by (simp add: take_bit_eq_mask)
  then show ?thesis by (simp add: mask_eq_exp_minus_1 take_bit_eq_mod)
qed

lemma string_of_int_no_dot: "0 \<le> n \<Longrightarrow> CHR ''.'' \<notin> set (string_of_int n)"
  using string_of_nat_digits [of "CHR ''.''" "nat n"] by (auto simp: string_of_int_def digit_val_def)

lemma int_of_string_of_int: "0 \<le> n \<Longrightarrow> int_of_string (string_of_int n) = Some n"
  by (simp add: string_of_int_def)

lemma ip_to_int_int_to_ip:
  assumes "0 \<le> i" "i < 2 ^ 32"
  shows "ip_to_int (int_to_ip i) = Inr i"
proof -
  let ?a = "(i div 2 ^ 24) mod 256" and ?b = "(i div 2 ^ 16) mod 256"
    and ?c = "(i div 2 ^ 8) mod 256" and ?d = "i mod 256"
  have ip: "int_to_ip i = string_of_int ?a @ CHR ''.'' # string_of_int ?b @ CHR ''.'' #
      string_of_int ?c @ CHR ''.'' # string_of_int ?d"
    by (simp add: int_to_ip_def and_0xFF drop_bit_eq_div)
  have "split_on (CHR ''.'') (int_to_ip i) =
      [string_of_int ?a, string_of_int ?b, string_of_int ?c, string_of_int ?d]"
    unfolding ip by (simp add: split_on_append split_on_none string_of_int_no_dot)
  then have parts: "map int_of_string (split_on (CHR ''.'') (int_to_ip i)) = [Some ?a, Some ?b, Some ?c, Some ?d]"
    by (simp add: int_of_string_of_int)
  have "ip_to_int (int_to_ip i) = Inr (?a * 2 ^ 24 + ?b * 2 ^ 16 + ?c * 2 ^ 8 + ?d)"
    unfolding ip_to_int_def parts Let_def by (simp add: push_bit_eq_mult)
  moreover have "?a * 2 ^ 24 + ?b * 2 ^ 16 + ?c * 2 ^ 8 + ?d = i"
  proof -
    define q1 q2 q3 where q: "q1 = i div 256" "q2 = q1 div 256" "q3 = q2 div 256"
    have d: "i div 2 ^ 8 = q1" "i div 2 ^ 16 = q2" "i div 2 ^ 24 = q3"
      unfolding q by (simp_all only: zdiv_zmult2_eq [symmetric] zero_le_numeral) simp_all
    have "0 \<le> q3" "q3 < 256" using assms d(3) by auto
    then have "q3 mod 256 = q3" by simp
    moreover have "256 * q3 + q2 mod 256 = q2" "256 * q2 + q1 mod 256 = q1" "256 * q1 + i mod 256 = i"
      by (simp_all add: q)
    moreover have "a * 2 ^ 24 + b * 2 ^ 16 + c * 2 ^ 8 + x = i"
      if "256 * a + b = e" "256 * e + c = f" "256 * f + x = i" for a b c e f x
      unfolding that [symmetric] by simp
    ultimately show ?thesis unfolding d by metis
  qed
  ultimately show ?thesis by (simp only:)
qed

lemma int_to_ip_inj: "inj_on int_to_ip {0..<2 ^ 32}"
  by (rule inj_onI) (metis atLeastLessThan_iff ip_to_int_int_to_ip sum.inject(2))

subsection \<open>The operations keep the invariant\<close>

lemma lease_ipI:
  "l_ip l' = l_ip l \<Longrightarrow> \<exists>l''. l_ip l'' = l_ip l \<and>
     m\<lparr>leased_ips := dict_set mac l' ls\<rparr> = m\<lparr>leased_ips := dict_set mac l'' ls\<rparr>"
  by blast

lemma lease_inv_renew:
  assumes "lease_inv m" "dict_get (leased_ips m) mac = Some l" "l_ip l' = l_ip l"
  shows "lease_inv (m\<lparr>leased_ips := dict_set mac l' (leased_ips m)\<rparr>)"
  using assms ips_of_update [OF assms(2,3)] by (auto simp: lease_inv_def)

lemma lease_inv_allocate:
  assumes "lease_inv m" "dict_get (leased_ips m) mac = None" "get_next_available_ip m = Inr (Some ip)" "l_ip l = ip"
  shows "lease_inv (m\<lparr>allocated_ips := insert ip (allocated_ips m), leased_ips := dict_set mac l (leased_ips m)\<rparr>)"
proof -
  obtain a b where ab: "ip_to_int (start_ip m) = Inr a" "ip_to_int (end_ip m) = Inr b"
      "first_free a (b + 1) (allocated_ips m) = Some ip"
    using assms(3) by (auto simp: get_next_available_ip_def split: sum.splits)
  then have "ip \<notin> allocated_ips m" "ip \<in> pool m"
    using first_free_Some [OF ab(3)] by (auto simp: pool_def)
  moreover have "dict_set mac l (leased_ips m) = leased_ips m @ [(mac, l)]"
    using assms(2) by (simp add: length_update_new dict_has_def)
  ultimately show ?thesis
    using assms(1,2,4) by (auto simp: lease_inv_def ips_of_def dict_ok_def map_of_eq_None_iff)
qed

lemma handle_discover_inv:
  assumes "lease_inv m" "handle_discover m mac xid t t' = Inr (m', offer, dur)"
  shows "lease_inv m' \<and> pool m' = pool m"
proof -
  let ?m1 = "cleanup_expired_leases m t"
  note c = cleanup_props [OF assms(1), of t]
  show ?thesis
  proof (cases "dict_get (leased_ips ?m1) mac")
    case (Some l)
    then have "\<exists>l'. l_ip l' = l_ip l \<and> m' = ?m1\<lparr>leased_ips := dict_set mac l' (leased_ips ?m1)\<rparr>"
      using assms(2) unfolding handle_discover_def Let_def Some option.case
      by (cases "py_eq (l_xid l) xid") (auto intro: lease_ipI)
    then show ?thesis using lease_inv_renew [OF c(1) Some] c(3) by auto
  next
    case None
    show ?thesis
    proof (cases "get_next_available_ip ?m1")
      case (Inl e)
      then show ?thesis using assms(2) unfolding handle_discover_def Let_def None option.case by simp
    next
      case (Inr r)
      then show ?thesis
        using assms(2) lease_inv_allocate [OF c(1) None] c(1,3)
        unfolding handle_discover_def Let_def None option.case
        by (cases r) auto
    qed
  qed
qed

lemma handle_request_inv:
  assumes "lease_inv m" "handle_request m mac xid ip t t' = (m', ok)"
  shows "lease_inv m' \<and> pool m' = pool m"
proof -
  let ?m1 = "cleanup_expired_leases m t"
  note c = cleanup_props [OF assms(1), of t]
  show ?thesis
  proof (cases "dict_get (leased_ips ?m1) mac")
    case (Some l)
    then have "m' = ?m1 \<or> (\<exists>l'. l_ip l' = l_ip l \<and> m' = ?m1\<lparr>leased_ips := dict_set mac l' (leased_ips ?m1)\<rparr>)"
      using assms(2) unfolding handle_request_def Let_def Some option.case
      by (auto split: if_splits intro: lease_ipI)
    then show ?thesis using lease_inv_renew [OF c(1) Some] c(1,3) by auto
  next
    case None
    then show ?thesis using assms(2) c(1,3) unfolding handle_request_def Let_def None option.case by simp
  qed
qed

section \<open>Runs of the pool\<close>

inductive pool_step :: "IPManager \<Rightarrow> IPManager \<Rightarrow> bool" where
  discover: "handle_discover m mac xid t t' = Inr (m', offer, dur) \<Longrightarrow> pool_step m m'"
| request: "handle_request m mac xid ip t t' = (m', ok) \<Longrightarrow> pool_step m m'"
| cleanup: "pool_step m (cleanup_expired_leases m t)"

definition pool_inv :: "IPManager \<Rightarrow> IPManager \<Rightarrow> bool" where
  "pool_inv m0 m \<longleftrightarrow> lease_inv m \<and> pool m = pool m0"

lemma pool_inv_step: "pool_inv m0 m \<Longrightarrow> pool_step m m' \<Longrightarrow> pool_inv m0 m'"
  by (erule pool_step.cases)
    (auto simp: pool_inv_def cleanup_props dest: handle_discover_inv handle_request_inv)

lemma lease_inv_new: "lease_inv (new_IPManager s e)"
  by (simp add: lease_inv_def new_IPManager_def ips_of_def)

interpretation lease_pool: invariant_system "\<lambda>m. m = new_IPManager s e" pool_step
    "pool_inv (new_IPManager s e)" for s e
proof unfold_locales
  fix m assume "m = new_IPManager s e"
  then show "pool_inv (new_IPManager s e) m" by (simp add: pool_inv_def lease_inv_new)
qed (rule pool_inv_step)

lemma lease_inv_exclusive:
  assumes "lease_inv m" "dict_get (leased_ips m) mac = Some l" "dict_get (leased_ips m) mac' = Some l'"
    and "mac \<noteq> mac'"
  shows "l_ip l \<noteq> l_ip l'"
proof
  assume eq: "l_ip l = l_ip l'"
  have mem: "(mac, l) \<in> set (leased_ips m)" "(mac', l') \<in> set (leased_ips m)"
    using assms(2,3) by (auto dest: map_of_SomeD)
  have "inj_on (\<lambda>(mac, l). l_ip l) (set (leased_ips m))"
    using assms(1) by (simp add: lease_inv_def ips_of_def distinct_map)
  from inj_onD [OF this _ mem] eq have "(mac, l) = (mac', l')" by simp
  with assms(4) show False by simp
qed

lemma card_leases:
  assumes "lease_inv m"
  shows "card (allocated_ips m) = length (leased_ips m)"
  using assms by (simp add: lease_inv_def distinct_card) (simp add: ips_of_def)

lemma default_pool:
  "ip_to_int ''127.0.0.2'' = Inr 2130706434" "ip_to_int ''127.0.0.254'' = Inr 2130706686"
proof -
  show "ip_to_int ''127.0.0.2'' = Inr 2130706434"
    by (simp add: ip_to_int_def int_of_string_def digit_val_def push_bit_eq_mult Let_def)
  show "ip_to_int ''127.0.0.254'' = Inr 2130706686"
    by (simp add: ip_to_int_def int_of_string_def digit_val_def push_bit_eq_mult Let_def)
qed

lemma default_pool_card:
  assumes "start_ip m = ''127.0.0.2''" "end_ip m = ''127.0.0.254''"
  shows "card (pool m) = 253" "finite (pool m)"
proof -
  have p: "pool m = int_to_ip ` {2130706434..2130706686}" by (simp add: pool_def assms default_pool)
  have "inj_on int_to_ip {2130706434..2130706686}"
    by (rule inj_on_subset [OF int_to_ip_inj]) auto
  then show "card (pool m) = 253" by (simp add: p card_image)
  show "finite (pool m)" by (simp add: p)
qed

definition live_leases :: "IPManager \<Rightarrow> real \<Rightarrow> (py_value, lease) dict" where
  "live_leases m t = filter (\<lambda>(_, l). \<not> expired t l) (leased_ips m)"

lemma handle_discover_total:
  assumes inv: "lease_inv m" and d: "start_ip m = ''127.0.0.2''" "end_ip m = ''127.0.0.254''"
  shows "\<exists>m' offer dur. handle_discover m mac xid t t' = Inr (m', offer, dur) \<and>
    (offer = None \<longleftrightarrow> \<not> dict_has (live_leases m t) mac \<and> length (live_leases m t) = 253)"
proof -
  let ?m1 = "cleanup_expired_leases m t"
  note c = cleanup_props [OF inv, of t]
  have ll: "live_leases m t = leased_ips ?m1" by (simp add: live_leases_def c)
  have se: "start_ip ?m1 = ''127.0.0.2''" "end_ip ?m1 = ''127.0.0.254''" using c(4,5) d by simp_all
  note pc = default_pool_card [OF se]
  show ?thesis
  proof (cases "dict_get (leased_ips ?m1) mac")
    case (Some l)
    then show ?thesis
      unfolding handle_discover_def Let_def ll Some option.case dict_has_def by simp
  next
    case None
    have g: "get_next_available_ip ?m1 = Inr (first_free 2130706434 2130706687 (allocated_ips ?m1))"
      by (simp add: get_next_available_ip_def se default_pool)
    have pool: "pool ?m1 = int_to_ip ` {2130706434..<2130706687}"
      by (simp add: pool_def se default_pool) (rule arg_cong [where f = "image int_to_ip"], auto)
    have sub: "allocated_ips ?m1 \<subseteq> pool ?m1" using c(1) unfolding lease_inv_def by blast
    have "first_free 2130706434 2130706687 (allocated_ips ?m1) = None \<longleftrightarrow> length (leased_ips ?m1) = 253"
    proof
      assume "first_free 2130706434 2130706687 (allocated_ips ?m1) = None"
      from first_free_None [OF this] sub pool have "allocated_ips ?m1 = pool ?m1" by auto
      then show "length (leased_ips ?m1) = 253" using card_leases [OF c(1)] pc(1) by simp
    next
      assume "length (leased_ips ?m1) = 253"
      then have all: "allocated_ips ?m1 = pool ?m1"
        using card_leases [OF c(1)] pc card_subset_eq [OF pc(2) sub] by simp
      show "first_free 2130706434 2130706687 (allocated_ips ?m1) = None"
      proof (cases "first_free 2130706434 2130706687 (allocated_ips ?m1)")
        case (Some ip)
        from first_free_Some [OF this] have "ip \<notin> allocated_ips ?m1" "ip \<in> pool ?m1" unfolding pool by auto
        with all show ?thesis by simp
      qed simp
    qed
    then show ?thesis
      unfolding handle_discover_def Let_def ll None option.case dict_has_def g
      by (cases "first_free 2130706434 2130706687 (allocated_ips ?m1)") auto
  qed
qed

lemma live_get: "dict_ok (leased_ips m) \<Longrightarrow> dict_get (live_leases m t) mac =
    (case dict_get (leased_ips m) mac of None \<Rightarrow> None | Some l \<Rightarrow> if expired t l then None else Some l)"
  by (auto simp: live_leases_def map_of_filter_dict split: option.split)

lemma cleanup_get:
  assumes "lease_inv m"
  shows "leased_ips (cleanup_expired_leases m t) = live_leases m t"
  using cleanup_props(2) [OF assms] by (simp add: live_leases_def)

text \<open>The transaction of a lease is that of the last packet, or was equal to it before.\<close>

lemma discover_lease:
  assumes "handle_discover m mac xid t t' = Inr (m', Some ip, dur)"
  obtains l where "dict_get (leased_ips m') mac = Some l" "l_ip l = ip" "expires_at l = fresh_expiry t'"
    "dur = DHCP_DEFAULT_LEASE_TIME" "py_eq (l_xid l) xid \<or> (l_xid l = xid \<and> l_state l = SELECTING)"
  using assms
  by (auto simp: handle_discover_def Let_def map_of_update split: option.splits if_splits sum.splits)

lemma discover_request_bound:
  assumes "lease_inv m" and "handle_discover m mac xid t1 t2 = Inr (m1, Some ip, dur)"
    and "t3 \<le> t2 + of_int DHCP_DEFAULT_LEASE_TIME" and "handle_request m1 mac xid (JStr ip) t3 t4 = (m2, ok)"
  shows "ok \<and> (\<exists>x. dict_get (leased_ips m2) mac = Some \<lparr>l_ip = ip, l_xid = x,
    expires_at = t4 + of_int DHCP_DEFAULT_LEASE_TIME, l_state = BOUND\<rparr> \<and> (x = xid \<or> py_eq x xid)) \<and>
    dur = DHCP_DEFAULT_LEASE_TIME"
proof -
  let ?m = "cleanup_expired_leases m t1"
  have inv1: "lease_inv m1" using handle_discover_inv [OF assms(1,2)] by simp
  obtain l where l: "dict_get (leased_ips m1) mac = Some l" "l_ip l = ip" "expires_at l = fresh_expiry t2"
      "dur = DHCP_DEFAULT_LEASE_TIME" "py_eq (l_xid l) xid \<or> (l_xid l = xid \<and> l_state l = SELECTING)"
    using discover_lease [OF assms(2)] .
  then have g: "dict_get (leased_ips (cleanup_expired_leases m1 t3)) mac = Some l"
    unfolding cleanup_get [OF inv1] using inv1 assms(3) live_get [of m1 t3 mac]
    by (simp add: lease_inv_def expired_def fresh_expiry_def)
  show ?thesis
    using assms(4) l(2,4,5) unfolding handle_request_def Let_def g option.case
    by (cases l; cases "l_state l") (auto simp: map_of_update fresh_expiry_def split: if_splits)
qed

text \<open>A small run: two clients discover addresses of the default pool.\<close>

definition sample_lease :: "int \<Rightarrow> int \<Rightarrow> lease" where
  "sample_lease i xid = \<lparr>l_ip = int_to_ip i, l_xid = JInt xid, expires_at = 3600, l_state = SELECTING\<rparr>"

definition pool_one :: IPManager where
  "pool_one = default_IPManager\<lparr>leased_ips := [(PyStr ''AA'', sample_lease 2130706434 7)],
     allocated_ips := {int_to_ip 2130706434}\<rparr>"

definition pool_two :: IPManager where
  "pool_two = default_IPManager\<lparr>
     leased_ips := [(PyStr ''AA'', sample_lease 2130706434 7), (PyStr ''BB'', sample_lease 2130706435 8)],
     allocated_ips := {int_to_ip 2130706435, int_to_ip 2130706434}\<rparr>"

lemmas sample_pool_simps = handle_discover_def get_next_available_ip_def cleanup_expired_leases_def
  default_IPManager_def new_IPManager_def default_pool fresh_expiry_def DHCP_DEFAULT_LEASE_TIME_def
  sample_lease_def expired_def Let_def

lemma sample_discover_one:
  "handle_discover default_IPManager (PyStr ''AA'') (JInt 7) 0 0 = Inr (pool_one, Some (int_to_ip 2130706434), 3600)"
  by (simp add: sample_pool_simps first_free.simps [of 2130706434] pool_one_def)

lemma sample_discover_two:
  "handle_discover pool_one (PyStr ''BB'') (JInt 8) 0 0 = Inr (pool_two, Some (int_to_ip 2130706435), 3600)"
proof -
  have "int_to_ip 2130706435 \<noteq> int_to_ip 2130706434"
    using inj_onD [OF int_to_ip_inj, of 2130706435 2130706434] by auto
  then show ?thesis
    by (simp add: sample_pool_simps first_free.simps [of 2130706434] first_free.simps [of 2130706435]
        pool_one_def pool_two_def)
qed

lemma sample_pool_reachable: "pool_step\<^sup>*\<^sup>* (new_IPManager ''127.0.0.2'' ''127.0.0.254'') pool_two"
  using pool_step.discover [OF sample_discover_one] pool_step.discover [OF sample_discover_two]
  unfolding default_IPManager_def by (rule rtranclp.rtrancl_into_rtrancl [OF r_into_rtranclp])

lemma sample_pool_inv: "lease_inv pool_one"
  using handle_discover_inv [OF _ sample_discover_one] lease_inv_new by (simp add: default_IPManager_def)

section \<open>Properties\<close>

text \<open>
  Exclusive leases: in every state of the pool that DISCOVER, REQUEST and expiry can produce,
  two different clients never hold the same address, every leased address lies in the configured
  range, and the set of allocated addresses is exactly the set of leased ones.
\<close>

theorem leases_exclusive:
  assumes "pool_step\<^sup>*\<^sup>* (new_IPManager s e) m" and "mac \<noteq> mac'"
    and "dict_get (leased_ips m) mac = Some l" "dict_get (leased_ips m) mac' = Some l'"
  shows "l_ip l \<noteq> l_ip l' \<and> l_ip l \<in> pool (new_IPManager s e) \<and>
    allocated_ips m = l_ip ` snd ` set (leased_ips m)"
proof -
  have inv: "lease_inv m" "pool m = pool (new_IPManager s e)"
    using lease_pool.reachable_inv [OF refl assms(1)] by (simp_all add: pool_inv_def)
  have "allocated_ips m = l_ip ` snd ` set (leased_ips m)"
    using inv(1) by (simp add: lease_inv_def ips_of_def case_prod_unfold image_image)
  moreover have "l_ip l \<in> l_ip ` snd ` set (leased_ips m)" using assms(3) by (force dest: map_of_SomeD)
  moreover have "allocated_ips m \<subseteq> pool m" using inv(1) unfolding lease_inv_def by blast
  ultimately show ?thesis using lease_inv_exclusive [OF inv(1) assms(3,4,2)] inv(2) by blast
qed

theorem leases_exclusive_witness:
  "pool_step\<^sup>*\<^sup>* (new_IPManager ''127.0.0.2'' ''127.0.0.254'') pool_two \<and> PyStr ''AA'' \<noteq> PyStr ''BB'' \<and>
   l_ip (sample_lease 2130706434 7) \<noteq> l_ip (sample_lease 2130706435 8)"
  using leases_exclusive [OF sample_pool_reachable, of "PyStr ''AA''" "PyStr ''BB''" "sample_lease 2130706434 7"
      "sample_lease 2130706435 8"] sample_pool_reachable
  by (simp add: pool_two_def)

text \<open>
  The pool of 127.0.0.2 to 127.0.0.254 refuses a client only when it must: DISCOVER never
  raises, and it offers nothing exactly when the client has no live lease and 253 leases are live.
\<close>

theorem discover_refuses_only_when_full:
  assumes "lease_inv m" and "start_ip m = ''127.0.0.2''" "end_ip m = ''127.0.0.254''"
  shows "\<exists>m' offer dur. handle_discover m mac xid t t' = Inr (m', offer, dur) \<and>
    (offer = None \<longleftrightarrow> \<not> dict_has (live_leases m t) mac \<and> length (live_leases m t) = 253)"
  using handle_discover_total [OF assms] .

theorem discover_refuses_only_when_full_witness:
  "\<exists>m' offer dur. handle_discover default_IPManager (PyStr ''AA'') (JInt 7) 0 0 = Inr (m', offer, dur) \<and> offer \<noteq> None"
proof -
  have "lease_inv default_IPManager" by (simp add: default_IPManager_def lease_inv_new)
  from discover_refuses_only_when_full [OF this, of "PyStr ''AA''" "JInt 7" 0 0] show ?thesis
    by (auto simp: default_IPManager_def new_IPManager_def live_leases_def)
qed

text \<open>
  The handshake: after a DISCOVER that offers an address, a REQUEST of the same client for
  that address that comes before the offer expires succeeds, whatever transaction the earlier
  lease had, and leaves the address bound to the client for a full lease time.
\<close>

theorem offer_then_request_binds:
  assumes "lease_inv m" and "handle_discover m mac xid t1 t2 = Inr (m1, Some ip, dur)"
    and "t3 \<le> t2 + of_int DHCP_DEFAULT_LEASE_TIME" and "handle_request m1 mac xid (JStr ip) t3 t4 = (m2, ok)"
  shows "ok \<and> (\<exists>x. dict_get (leased_ips m2) mac = Some \<lparr>l_ip = ip, l_xid = x,
    expires_at = t4 + of_int DHCP_DEFAULT_LEASE_TIME, l_state = BOUND\<rparr> \<and> (x = xid \<or> py_eq x xid)) \<and>
    dur = DHCP_DEFAULT_LEASE_TIME"
  using discover_request_bound [OF assms] .

theorem offer_then_request_binds_witness:
  "\<exists>m2 x. handle_request pool_one (PyStr ''AA'') (JInt 7) (JStr (int_to_ip 2130706434)) 5 6 = (m2, True) \<and>
     dict_get (leased_ips m2) (PyStr ''AA'') =
       Some \<lparr>l_ip = int_to_ip 2130706434, l_xid = x, expires_at = 3606, l_state = BOUND\<rparr>"
proof -
  obtain m2 ok where r: "handle_request pool_one (PyStr ''AA'') (JInt 7) (JStr (int_to_ip 2130706434)) 5 6 = (m2, ok)" by fastforce
  have "lease_inv default_IPManager" by (simp add: default_IPManager_def lease_inv_new)
  from offer_then_request_binds [OF this sample_discover_one _ r] r show ?thesis
    by (auto simp: DHCP_DEFAULT_LEASE_TIME_def)
qed

text \<open>
  A REQUEST is granted only to the owner: success means that the client had a live lease of
  exactly that address, and the operation never touches the live lease of another client.
\<close>

theorem request_grants_only_owner:
  assumes "lease_inv m" and "handle_request m mac xid (JStr ip) t t' = (m', ok)" and "mac' \<noteq> mac"
  shows "(ok \<longrightarrow> (\<exists>l. dict_get (leased_ips m) mac = Some l \<and> \<not> expired t l \<and> l_ip l = ip)) \<and>
    dict_get (leased_ips m') mac' = dict_get (live_leases m t) mac'"
proof -
  let ?m1 = "cleanup_expired_leases m t"
  have ll: "leased_ips ?m1 = live_leases m t" by (rule cleanup_get [OF assms(1)])
  have gm: "dict_get (live_leases m t) mac = (case dict_get (leased_ips m) mac of None \<Rightarrow> None
      | Some l \<Rightarrow> if expired t l then None else Some l)"
    using assms(1) live_get [of m t mac] by (simp add: lease_inv_def)
  show ?thesis
  proof (cases "dict_get (leased_ips ?m1) mac")
    case None
    then show ?thesis using assms(2) unfolding handle_request_def Let_def None option.case by (auto simp: ll)
  next
    case (Some l)
    then have "dict_get (leased_ips m) mac = Some l \<and> \<not> expired t l"
      using gm by (simp add: ll split: option.splits if_splits)
    moreover have "l_ip l = ip" if ok
      using assms(2) that unfolding handle_request_def Let_def Some option.case
      by (auto split: if_splits)
    moreover have "dict_get (leased_ips m') mac' = dict_get (leased_ips ?m1) mac'"
      using assms(2,3) unfolding handle_request_def Let_def Some option.case
      by (auto simp: map_of_update split: if_splits)
    ultimately show ?thesis by (simp add: ll)
  qed
qed

theorem request_grants_only_owner_witness:
  "\<exists>m' ok. lease_inv pool_one \<and> handle_request pool_one (PyStr ''BB'') (JInt 9) (JStr (int_to_ip 2130706434)) 1 1 = (m', ok) \<and>
     dict_get (leased_ips m') (PyStr ''AA'') = Some (sample_lease 2130706434 7) \<and>
     \<not> dict_has (leased_ips pool_one) (PyStr ''BB'') \<and> \<not> ok"
proof -
  obtain m' ok where r: "handle_request pool_one (PyStr ''BB'') (JInt 9) (JStr (int_to_ip 2130706434)) 1 1 = (m', ok)" by fastforce
  have n: "dict_get (leased_ips pool_one) (PyStr ''BB'') = None" by (simp add: pool_one_def)
  have "dict_get (live_leases pool_one 1) (PyStr ''AA'') = Some (sample_lease 2130706434 7)"
    by (simp add: live_leases_def pool_one_def expired_def sample_lease_def)
  with request_grants_only_owner [OF sample_pool_inv r, of "PyStr ''AA''"] n r sample_pool_inv show ?thesis
    by (auto simp: dict_has_def)
qed

end
