(* ===== verification/Dhcp.thy ===== *)
theory Dhcp
  imports IpManager
begin

text \<open>
  The DHCP protocol, \<^verbatim>\<open>src/common/dhcp_packet.py\<close>, \<^verbatim>\<open>src/server/dhcp_server.py\<close> and
  \<^verbatim>\<open>src/client/dhcp_client.py\<close>. A datagram is the result of \<^verbatim>\<open>DHCPPacket.from_bytes\<close>
  (the JSON text itself is in \<open>DhcpWire\<close>): a packet or a \<^verbatim>\<open>ValueError\<close>. The server's packets
  have any JSON value in any field, the client's have the declared types. The client's
  waiting loops receive, per attempt, the list of results of \<^verbatim>\<open>_receive_packet\<close> before its
  timeout. Shown: what the server answers, that the client binds only to an address that was
  offered and acknowledged in its own transaction, that a handshake over a working network binds
  the client to an address the server has bound to it, and the duration that the client then has.
\<close>

section \<open>Packets\<close>

record DHCPPacket =
  message_type :: string
  xid :: int
  client_mac :: string
  offered_ip :: string
  lease_time :: int

text \<open>
  The dataclass does not check types: a received packet has arbitrary JSON values in its fields. One
  whose values have the declared types is a \<^typ>\<open>DHCPPacket\<close>.
\<close>

record RawDHCPPacket =
  raw_message_type :: json
  raw_xid :: json
  raw_client_mac :: json
  raw_offered_ip :: json
  raw_lease_time :: json

definition raw_packet :: "DHCPPacket \<Rightarrow> RawDHCPPacket" where
  "raw_packet p = \<lparr>raw_message_type = JStr (message_type p), raw_xid = JInt (xid p),
     raw_client_mac = JStr (client_mac p), raw_offered_ip = JStr (offered_ip p), raw_lease_time = JInt (lease_time p)\<rparr>"

fun typed_packet :: "RawDHCPPacket \<Rightarrow> DHCPPacket option" where
  "typed_packet p =
     (case (raw_message_type p, raw_xid p, raw_client_mac p, raw_offered_ip p, raw_lease_time p) of
        (JStr mt, JInt x, JStr mac, JStr ip, JInt l) \<Rightarrow>
          Some \<lparr>message_type = mt, xid = x, client_mac = mac, offered_ip = ip, lease_time = l\<rparr>
      | _ \<Rightarrow> None)"

lemma typed_raw [simp]: "typed_packet (raw_packet p) = Some p"
  by (simp add: raw_packet_def)

lemma typed_packet_Some: "typed_packet raw = Some p \<longleftrightarrow> raw = raw_packet p"
  by (cases raw) (auto simp: raw_packet_def split: json.splits)

declare typed_packet.simps [simp del]

lemma raw_packet_fields [simp]:
  "raw_message_type (raw_packet p) = JStr (message_type p)" "raw_xid (raw_packet p) = JInt (xid p)"
  "raw_client_mac (raw_packet p) = JStr (client_mac p)" "raw_offered_ip (raw_packet p) = JStr (offered_ip p)"
  "raw_lease_time (raw_packet p) = JInt (lease_time p)"
  by (simp_all add: raw_packet_def)

section \<open>Server\<close>

text \<open>
  \<^verbatim>\<open>_handle_discover\<close> and \<^verbatim>\<open>_handle_request\<close> with the packets they send. An exception of the
  pool (a hardware address that cannot be hashed, a malformed range) is logged by
  \<^verbatim>\<open>serve_forever\<close>; only the clean-up has happened then.
\<close>

definition server_discover :: "IPManager \<Rightarrow> RawDHCPPacket \<Rightarrow> real \<Rightarrow> real \<Rightarrow> IPManager \<times> RawDHCPPacket list" where
  "server_discover m packet t t' =
     (case py_key (raw_client_mac packet) of
        None \<Rightarrow> (cleanup_expired_leases m t, [])
      | Some mac \<Rightarrow>
          (case handle_discover m mac (raw_xid packet) t t' of
             Inl _ \<Rightarrow> (cleanup_expired_leases m t, [])
           | Inr (m', None, _) \<Rightarrow> (m', [])
           | Inr (m', Some ip, dur) \<Rightarrow>
               if ip = [] then (m', [])
               else (m', [\<lparr>raw_message_type = JStr ''OFFER'', raw_xid = raw_xid packet,
                           raw_client_mac = raw_client_mac packet, raw_offered_ip = JStr ip, raw_lease_time = JInt dur\<rparr>])))"

definition server_request :: "IPManager \<Rightarrow> RawDHCPPacket \<Rightarrow> real \<Rightarrow> real \<Rightarrow> IPManager \<times> RawDHCPPacket list" where
  "server_request m packet t t' =
     (case py_key (raw_client_mac packet) of
        None \<Rightarrow> (cleanup_expired_leases m t, [])
      | Some mac \<Rightarrow>
          (let (m', success) = handle_request m mac (raw_xid packet) (raw_offered_ip packet) t t'
           in if success
              then (m', [\<lparr>raw_message_type = JStr ''ACK'', raw_xid = raw_xid packet,
                          raw_client_mac = raw_client_mac packet, raw_offered_ip = raw_offered_ip packet,
                          raw_lease_time = raw_lease_time packet\<rparr>])
              else (m', [\<lparr>raw_message_type = JStr ''NACK'', raw_xid = raw_xid packet,
                          raw_client_mac = raw_client_mac packet, raw_offered_ip = JStr [], raw_lease_time = JInt 0\<rparr>])))"

definition handle_packet ::
  "IPManager \<Rightarrow> py_error + RawDHCPPacket \<Rightarrow> real \<Rightarrow> real \<Rightarrow> IPManager \<times> RawDHCPPacket list" where
  "handle_packet m data t t' =
     (case data of
        Inl _ \<Rightarrow> (m, [])
      | Inr packet \<Rightarrow>
          if raw_message_type packet = JStr ''DISCOVER'' then server_discover m packet t t'
          else if raw_message_type packet = JStr ''REQUEST'' then server_request m packet t t'
          else (m, []))"

section \<open>Client\<close>

datatype client_state = C_INIT | C_SELECTING | C_REQUESTING | C_BOUND

record DHCPClient =
  mac_address :: string
  state :: client_state
  assigned_ip :: "string option"
  c_lease_time :: int
  lease_expiry :: real

definition new_DHCPClient :: "string \<Rightarrow> DHCPClient" where
  "new_DHCPClient mac = \<lparr>mac_address = mac, state = C_INIT, assigned_ip = None, c_lease_time = 0,
     lease_expiry = 0\<rparr>"

definition MAX_RETRIES_PER_STAGE :: nat where "MAX_RETRIES_PER_STAGE = 5"
definition FALLBACK_THRESHOLD :: nat where "FALLBACK_THRESHOLD = 2"

definition dest_ip :: "nat \<Rightarrow> string" where
  "dest_ip attempt = (if attempt > FALLBACK_THRESHOLD then ''127.0.0.1'' else ''255.255.255.255'')"

definition discover_packet :: "DHCPClient \<Rightarrow> int \<Rightarrow> DHCPPacket" where
  "discover_packet c x = \<lparr>message_type = ''DISCOVER'', xid = x, client_mac = mac_address c,
     offered_ip = [], lease_time = 0\<rparr>"

definition request_packet :: "DHCPClient \<Rightarrow> int \<Rightarrow> string \<Rightarrow> DHCPPacket" where
  "request_packet c x ip = \<lparr>message_type = ''REQUEST'', xid = x, client_mac = mac_address c,
     offered_ip = ip, lease_time = 0\<rparr>"

text \<open>The inner loop of \<^verbatim>\<open>_perform_selecting\<close>: the first usable OFFER of the transaction.\<close>

fun wait_offer :: "int \<Rightarrow> DHCPPacket option list \<Rightarrow> DHCPPacket option" where
  "wait_offer x [] = None"
| "wait_offer x (None # ps) = wait_offer x ps"
| "wait_offer x (Some p # ps) =
     (if xid p = x \<and> message_type p = ''OFFER'' \<and> offered_ip p \<noteq> [] then Some p else wait_offer x ps)"

fun selecting_loop ::
  "DHCPClient \<Rightarrow> int \<Rightarrow> nat list \<Rightarrow> (nat \<Rightarrow> DHCPPacket option list)
    \<Rightarrow> DHCPClient \<times> string option \<times> (string \<times> DHCPPacket) list" where
  "selecting_loop c x [] arrivals = (c, None, [])"
| "selecting_loop c x (attempt # attempts) arrivals =
     (case wait_offer x (arrivals attempt) of
        Some p \<Rightarrow> (c\<lparr>c_lease_time := lease_time p\<rparr>, Some (offered_ip p),
                   [(dest_ip attempt, discover_packet c x)])
      | None \<Rightarrow>
          (let (c', ip, sent) = selecting_loop c x attempts arrivals
           in (c', ip, (dest_ip attempt, discover_packet c x) # sent)))"

definition perform_selecting ::
  "DHCPClient \<Rightarrow> int \<Rightarrow> (nat \<Rightarrow> DHCPPacket option list)
    \<Rightarrow> DHCPClient \<times> string option \<times> (string \<times> DHCPPacket) list" where
  "perform_selecting c x arrivals =
     selecting_loop (c\<lparr>state := C_SELECTING\<rparr>) x [1..<MAX_RETRIES_PER_STAGE + 1] arrivals"

text \<open>The inner loop of \<^verbatim>\<open>_perform_requesting\<close>: \<open>Some (Some p)\<close> an ACK, \<open>Some None\<close> a NACK.\<close>

fun wait_ack :: "int \<Rightarrow> string \<Rightarrow> DHCPPacket option list \<Rightarrow> DHCPPacket option option" where
  "wait_ack x ip [] = None"
| "wait_ack x ip (None # ps) = wait_ack x ip ps"
| "wait_ack x ip (Some p # ps) =
     (if xid p = x
      then if message_type p = ''ACK''
           then if offered_ip p = ip then Some (Some p) else wait_ack x ip ps
           else if message_type p = ''NACK'' then Some None
           else wait_ack x ip ps
      else wait_ack x ip ps)"

fun requesting_loop ::
  "DHCPClient \<Rightarrow> int \<Rightarrow> string \<Rightarrow> nat list \<Rightarrow> (nat \<Rightarrow> DHCPPacket option list) \<Rightarrow> real
    \<Rightarrow> DHCPClient \<times> bool \<times> (string \<times> DHCPPacket) list" where
  "requesting_loop c x ip [] arrivals now = (c, False, [])"
| "requesting_loop c x ip (attempt # attempts) arrivals now =
     (case wait_ack x ip (arrivals attempt) of
        Some (Some p) \<Rightarrow>
          (c\<lparr>assigned_ip := Some (offered_ip p), c_lease_time := lease_time p,
             lease_expiry := now + of_int (lease_time p), state := C_BOUND\<rparr>, True,
           [(dest_ip attempt, request_packet c x ip)])
      | Some None \<Rightarrow> (c, False, [(dest_ip attempt, request_packet c x ip)])
      | None \<Rightarrow>
          (let (c', ok, sent) = requesting_loop c x ip attempts arrivals now
           in (c', ok, (dest_ip attempt, request_packet c x ip) # sent)))"

definition perform_requesting ::
  "DHCPClient \<Rightarrow> int \<Rightarrow> string \<Rightarrow> (nat \<Rightarrow> DHCPPacket option list) \<Rightarrow> real
    \<Rightarrow> DHCPClient \<times> bool \<times> (string \<times> DHCPPacket) list" where
  "perform_requesting c x ip arrivals now =
     requesting_loop (c\<lparr>state := C_REQUESTING\<rparr>) x ip [1..<MAX_RETRIES_PER_STAGE + 1] arrivals now"

definition acquire_lease ::
  "DHCPClient \<Rightarrow> int \<Rightarrow> (nat \<Rightarrow> DHCPPacket option list) \<Rightarrow> (nat \<Rightarrow> DHCPPacket option list) \<Rightarrow> real
    \<Rightarrow> DHCPClient \<times> bool \<times> (string \<times> DHCPPacket) list" where
  "acquire_lease c x offers acks now =
     (case perform_selecting (c\<lparr>state := C_INIT\<rparr>) x offers of
        (c1, None, sent) \<Rightarrow> (c1, False, sent)
      | (c1, Some ip, sent) \<Rightarrow>
          if ip = [] then (c1, False, sent)
          else (let (c2, ok, sent') = perform_requesting c1 x ip acks now in (c2, ok, sent @ sent')))"

section \<open>Lemmas\<close>

lemma wait_offer_Some:
  "wait_offer x ps = Some p \<Longrightarrow>
     Some p \<in> set ps \<and> xid p = x \<and> message_type p = ''OFFER'' \<and> offered_ip p \<noteq> []"
  by (induction x ps rule: wait_offer.induct) (auto split: if_splits)

lemma wait_ack_Some:
  "wait_ack x ip ps = Some (Some p) \<Longrightarrow>
     Some p \<in> set ps \<and> xid p = x \<and> message_type p = ''ACK'' \<and> offered_ip p = ip"
  by (induction x ip ps rule: wait_ack.induct) (auto split: if_splits)

lemma selecting_loop_props:
  assumes "selecting_loop c x as arrivals = (c', ip, sent)"
  shows "mac_address c' = mac_address c \<and> state c' = state c \<and> assigned_ip c' = assigned_ip c \<and>
    length sent \<le> length as \<and> list_all (\<lambda>(_, p). p = discover_packet c x) sent \<and>
    (case ip of None \<Rightarrow> c' = c | Some i \<Rightarrow>
       \<exists>a p. a \<in> set as \<and> Some p \<in> set (arrivals a) \<and> xid p = x \<and> message_type p = ''OFFER'' \<and>
         offered_ip p = i \<and> i \<noteq> [])"
  using assms
proof (induction c x as arrivals arbitrary: c' ip sent rule: selecting_loop.induct)
  case (2 c x a as arrivals)
  show ?case
  proof (cases "wait_offer x (arrivals a)")
    case (Some p)
    then show ?thesis using "2.prems" wait_offer_Some [OF Some]
      by (auto intro!: exI [of _ a] exI [of _ p])
  next
    case None
    obtain c1 i1 s1 where r: "selecting_loop c x as arrivals = (c1, i1, s1)" using prod_cases3 by blast
    from "2.IH" [OF None r] "2.prems" show ?thesis
      by (auto simp: None r split: option.splits)
  qed
qed auto

lemma requesting_loop_props:
  assumes "requesting_loop c x ip as arrivals now = (c', ok, sent)"
  shows "length sent \<le> length as \<and> list_all (\<lambda>(_, p). p = request_packet c x ip) sent \<and>
    mac_address c' = mac_address c \<and>
    (if ok then state c' = C_BOUND \<and> assigned_ip c' = Some ip \<and>
       (\<exists>a p. a \<in> set as \<and> Some p \<in> set (arrivals a) \<and> xid p = x \<and> message_type p = ''ACK'' \<and>
          offered_ip p = ip \<and> c_lease_time c' = lease_time p \<and> lease_expiry c' = now + of_int (lease_time p))
     else c' = c)"
  using assms
proof (induction c x ip as arrivals now arbitrary: c' ok sent rule: requesting_loop.induct)
  case (2 c x ip a as arrivals now)
  show ?case
  proof (cases "wait_ack x ip (arrivals a)")
    case (Some r)
    then show ?thesis using "2.prems" wait_ack_Some [of x ip "arrivals a"]
      by (cases r) (auto intro!: exI [of _ a] exI [of _ "the r"])
  next
    case None
    obtain c1 o1 s1 where r: "requesting_loop c x ip as arrivals now = (c1, o1, s1)" using prod_cases3 by blast
    from "2.IH" [OF None r] "2.prems" show ?thesis by (auto simp: None r split: if_splits)
  qed
qed auto

text \<open>Addresses handed out are never empty strings.\<close>

lemma int_to_ip_not_Nil [simp]: "int_to_ip i \<noteq> []"
  by (simp add: int_to_ip_def)

lemma pool_not_Nil: "[] \<notin> pool m"
proof
  assume "[] \<in> pool m"
  then obtain i where "[] = int_to_ip i" by (auto simp: pool_def split: sum.splits)
  then show False using int_to_ip_not_Nil [of i] by simp
qed

lemma handle_discover_offer_in_pool:
  assumes "lease_inv m" "handle_discover m mac x t t' = Inr (m', Some ip, dur)"
  shows "ip \<in> pool m"
proof -
  have inv: "lease_inv m'" "pool m' = pool m" using handle_discover_inv [OF assms] by simp_all
  obtain l where "dict_get (leased_ips m') mac = Some l" "l_ip l = ip"
    using discover_lease [OF assms(2)] by metis
  then have "ip \<in> set (ips_of (leased_ips m'))" by (force simp: ips_of_def dest: map_of_SomeD)
  then show ?thesis using inv unfolding lease_inv_def by blast
qed

section \<open>Properties\<close>

text \<open>
  The client binds only to what the server granted: \<^verbatim>\<open>acquire_lease\<close> succeeds only if an OFFER
  and then an ACK of its own transaction arrived for one and the same non-empty address, and then
  the client is BOUND to that address for the time the ACK carries; in every case it sends at
  most 5 DISCOVER and 5 REQUEST packets, all of that transaction.
\<close>

theorem acquire_lease_sound:
  assumes "acquire_lease c x offers acks now = (c', ok, sent)"
  shows "(if ok then state c' = C_BOUND \<and> (\<exists>p q a b.
       Some p \<in> set (offers a) \<and> xid p = x \<and> message_type p = ''OFFER'' \<and> offered_ip p \<noteq> [] \<and>
       Some q \<in> set (acks b) \<and> xid q = x \<and> message_type q = ''ACK'' \<and> offered_ip q = offered_ip p \<and>
       assigned_ip c' = Some (offered_ip p) \<and> c_lease_time c' = lease_time q)
     else assigned_ip c' = assigned_ip c) \<and>
    length sent \<le> 10 \<and> list_all (\<lambda>(_, p). xid p = x \<and> client_mac p = mac_address c) sent"
proof -
  obtain c1 ip s1 where sel: "perform_selecting (c\<lparr>state := C_INIT\<rparr>) x offers = (c1, ip, s1)"
    using prod_cases3 by blast
  note sp = selecting_loop_props [OF sel [unfolded perform_selecting_def]]
  have s1: "length s1 \<le> 5" "list_all (\<lambda>(_, p). xid p = x \<and> client_mac p = mac_address c) s1"
    using sp by (auto simp: MAX_RETRIES_PER_STAGE_def discover_packet_def elim!: list.pred_mono_strong)
  show ?thesis
  proof (cases "ip = None \<or> ip = Some []")
    case True
    then have "c' = c1" "\<not> ok" "sent = s1"
      using assms by (auto simp: acquire_lease_def sel split: option.splits)
    then show ?thesis using sp s1 by simp
  next
    case False
    then obtain i where i: "ip = Some i" "i \<noteq> []" by auto
    obtain c2 o2 s2 where rq: "perform_requesting c1 x i acks now = (c2, o2, s2)"
      using prod_cases3 by blast
    note rp = requesting_loop_props [OF rq [unfolded perform_requesting_def]]
    have r: "c' = c2" "ok = o2" "sent = s1 @ s2" using assms i rq by (auto simp: acquire_lease_def sel)
    have s2: "length s2 \<le> 5" "list_all (\<lambda>(_, p). xid p = x \<and> client_mac p = mac_address c) s2"
      using rp sp by (auto simp: MAX_RETRIES_PER_STAGE_def request_packet_def elim!: list.pred_mono_strong)
    obtain a p where p: "Some p \<in> set (offers a)" "xid p = x" "message_type p = ''OFFER''" "offered_ip p = i"
      using sp i(1) by auto
    show ?thesis
    proof (cases ok)
      case True
      then obtain b q where q: "Some q \<in> set (acks b)" "xid q = x" "message_type q = ''ACK''" "offered_ip q = i"
          "c_lease_time c2 = lease_time q" "state c2 = C_BOUND" "assigned_ip c2 = Some i"
        using rp r(2) by auto
      have "\<exists>p q a b.
         Some p \<in> set (offers a) \<and> xid p = x \<and> message_type p = ''OFFER'' \<and> offered_ip p \<noteq> [] \<and>
         Some q \<in> set (acks b) \<and> xid q = x \<and> message_type q = ''ACK'' \<and> offered_ip q = offered_ip p \<and>
         assigned_ip c' = Some (offered_ip p) \<and> c_lease_time c' = lease_time q"
        by (rule exI [of _ p], rule exI [of _ q], rule exI [of _ a], rule exI [of _ b])
          (use p q r(1) i(2) in simp)
      then show ?thesis using True q(6) s1 s2 r by (simp add: list_all_append)
    next
      case False
      then show ?thesis using rp sp r s1 s2 by (auto simp: list_all_append)
    qed
  qed
qed

definition sample_offer :: DHCPPacket where
  "sample_offer = \<lparr>message_type = ''OFFER'', xid = 7, client_mac = ''AA'', offered_ip = ''127.0.0.2'',
     lease_time = 3600\<rparr>"

theorem acquire_lease_sound_witness:
  "\<exists>c' sent. acquire_lease (new_DHCPClient ''AA'') 7 (\<lambda>_. [None, Some sample_offer])
       (\<lambda>_. [Some (sample_offer\<lparr>message_type := ''ACK''\<rparr>)]) 5 = (c', True, sent) \<and>
     state c' = C_BOUND \<and> length sent \<le> 10"
proof -
  obtain c' ok sent where r: "acquire_lease (new_DHCPClient ''AA'') 7 (\<lambda>_. [None, Some sample_offer])
       (\<lambda>_. [Some (sample_offer\<lparr>message_type := ''ACK''\<rparr>)]) 5 = (c', ok, sent)"
    using prod_cases3 by blast
  then have ok by (auto simp: acquire_lease_def perform_selecting_def perform_requesting_def
      MAX_RETRIES_PER_STAGE_def upt_conv_Cons sample_offer_def)
  with acquire_lease_sound [OF r] r show ?thesis by simp
qed

text \<open>
  One handshake over a network that delivers everything at once: the client's first DISCOVER, the
  server's answer, the client's REQUEST, the server's answer.
\<close>

definition handshake ::
  "IPManager \<Rightarrow> DHCPClient \<Rightarrow> int \<Rightarrow> real \<Rightarrow> real \<Rightarrow> real \<Rightarrow> IPManager \<times> DHCPClient \<times> bool" where
  "handshake m c x t t' now =
     (let (m1, offers) = handle_packet m (Inr (raw_packet (discover_packet c x))) t t';
          ip = (case wait_offer x (map typed_packet offers) of Some p \<Rightarrow> offered_ip p | None \<Rightarrow> []);
          (m2, acks) = handle_packet m1 (Inr (raw_packet (request_packet c x ip))) t' t';
          (c', ok, _) = acquire_lease c x (\<lambda>_. map typed_packet offers) (\<lambda>_. map typed_packet acks) now
      in (m2, c', ok))"

lemma request_packet_state [simp]: "request_packet (c\<lparr>state := s\<rparr>) x ip = request_packet c x ip"
    "request_packet (c\<lparr>c_lease_time := k\<rparr>) x ip = request_packet c x ip"
  by (simp_all add: request_packet_def)

text \<open>The replies to the packets of a client, as typed packets.\<close>

abbreviation offer :: "string \<Rightarrow> int \<Rightarrow> string \<Rightarrow> DHCPPacket" where
  "offer mac x ip \<equiv> \<lparr>message_type = ''OFFER'', xid = x, client_mac = mac, offered_ip = ip, lease_time = 3600\<rparr>"

abbreviation ack :: "string \<Rightarrow> int \<Rightarrow> string \<Rightarrow> DHCPPacket" where
  "ack mac x ip \<equiv> \<lparr>message_type = ''ACK'', xid = x, client_mac = mac, offered_ip = ip, lease_time = 0\<rparr>"

lemma discover_answered:
  assumes "handle_discover m (PyStr (mac_address c)) (JInt x) t t' = Inr (m', Some ip, 3600)" "ip \<noteq> []"
  shows "handle_packet m (Inr (raw_packet (discover_packet c x))) t t' = (m', [raw_packet (offer (mac_address c) x ip)])"
  using assms by (simp add: handle_packet_def server_discover_def discover_packet_def raw_packet_def)

lemma request_answered:
  assumes "handle_request m (PyStr (mac_address c)) (JInt x) (JStr ip) t t' = (m', True)"
  shows "handle_packet m (Inr (raw_packet (request_packet c x ip))) t t' = (m', [raw_packet (ack (mac_address c) x ip)])"
  using assms by (simp add: handle_packet_def server_request_def request_packet_def raw_packet_def)

lemma handshake_result:
  assumes inv: "lease_inv m" and d: "start_ip m = ''127.0.0.2''" "end_ip m = ''127.0.0.254''"
    and room: "dict_has (live_leases m t) (PyStr (mac_address c)) \<or> length (live_leases m t) < 253" and "t \<le> t'"
  obtains m2 ip y where "handshake m c x t t' now = (m2, c\<lparr>state := C_BOUND, assigned_ip := Some ip,
      c_lease_time := 0, lease_expiry := now\<rparr>, True)" "lease_inv m2" "ip \<in> pool m"
    "dict_get (leased_ips m2) (PyStr (mac_address c)) = Some \<lparr>l_ip = ip, l_xid = y,
       expires_at = t' + of_int DHCP_DEFAULT_LEASE_TIME, l_state = BOUND\<rparr>" "py_eq y (JInt x)"
proof -
  let ?mac = "PyStr (mac_address c)"
  obtain m1 ip dur where dc: "handle_discover m ?mac (JInt x) t t' = Inr (m1, Some ip, dur)"
    using handle_discover_total [OF inv d, of ?mac "JInt x" t t'] room by auto
  have ipp: "ip \<in> pool m" "ip \<noteq> []" using handle_discover_offer_in_pool [OF inv dc] pool_not_Nil by auto
  have inv1: "lease_inv m1" using handle_discover_inv [OF inv dc] by simp
  obtain m2 ok where rq: "handle_request m1 ?mac (JInt x) (JStr ip) t' t' = (m2, ok)" by fastforce
  have "t' \<le> t' + of_int DHCP_DEFAULT_LEASE_TIME" by (simp add: DHCP_DEFAULT_LEASE_TIME_def)
  note bound = discover_request_bound [OF inv dc this rq]
  then obtain y where y: "dict_get (leased_ips m2) ?mac = Some \<lparr>l_ip = ip, l_xid = y,
       expires_at = t' + of_int DHCP_DEFAULT_LEASE_TIME, l_state = BOUND\<rparr>" "py_eq y (JInt x)" by auto
  have dur: "dur = 3600" using bound by (simp add: DHCP_DEFAULT_LEASE_TIME_def)
  have rq': "handle_request m1 ?mac (JInt x) (JStr ip) t' t' = (m2, True)" using rq bound by simp
  have "handshake m c x t t' now = (m2, c\<lparr>state := C_BOUND, assigned_ip := Some ip,
      c_lease_time := 0, lease_expiry := now\<rparr>, True)"
    using ipp(2) by (simp add: handshake_def discover_answered [OF dc [unfolded dur] ipp(2)] request_answered [OF rq']
        acquire_lease_def perform_selecting_def perform_requesting_def MAX_RETRIES_PER_STAGE_def upt_conv_Cons)
  then show ?thesis using that handle_request_inv [OF inv1 rq] y ipp(1) by blast
qed

text \<open>
  A handshake over a working network: if the client has a live lease or fewer than 253 are
  live, the client ends BOUND to an address of the pool that the server holds BOUND to exactly this
  client, with a server-side lease of 3600 seconds, and no other client holds that address.
\<close>

theorem handshake_agrees:
  assumes "lease_inv m" "start_ip m = ''127.0.0.2''" "end_ip m = ''127.0.0.254''"
    and "dict_has (live_leases m t) (PyStr (mac_address c)) \<or> length (live_leases m t) < 253" and "t \<le> t'"
  shows "\<exists>m2 c' ip y. handshake m c x t t' now = (m2, c', True) \<and> state c' = C_BOUND \<and>
    assigned_ip c' = Some ip \<and> ip \<in> pool m \<and> py_eq y (JInt x) \<and>
    dict_get (leased_ips m2) (PyStr (mac_address c)) = Some \<lparr>l_ip = ip, l_xid = y, expires_at = t' + 3600,
      l_state = BOUND\<rparr> \<and>
    (\<forall>mac l. mac \<noteq> PyStr (mac_address c) \<longrightarrow> dict_get (leased_ips m2) mac = Some l \<longrightarrow> l_ip l \<noteq> ip)"
proof -
  obtain m2 ip y where h: "handshake m c x t t' now = (m2, c\<lparr>state := C_BOUND, assigned_ip := Some ip,
      c_lease_time := 0, lease_expiry := now\<rparr>, True)" "lease_inv m2" "ip \<in> pool m"
    "dict_get (leased_ips m2) (PyStr (mac_address c)) = Some \<lparr>l_ip = ip, l_xid = y,
       expires_at = t' + of_int DHCP_DEFAULT_LEASE_TIME, l_state = BOUND\<rparr>" "py_eq y (JInt x)"
    using handshake_result [OF assms] .
  have "l_ip l \<noteq> ip" if "mac \<noteq> PyStr (mac_address c)" "dict_get (leased_ips m2) mac = Some l" for mac l
    using lease_inv_exclusive [OF h(2) that(2) h(4) that(1)] by simp
  with h show ?thesis by (simp add: DHCP_DEFAULT_LEASE_TIME_def)
qed

theorem handshake_agrees_witness:
  "\<exists>m2 c' ip. handshake default_IPManager (new_DHCPClient ''AA'') 7 0 1 2 = (m2, c', True) \<and>
     assigned_ip c' = Some ip \<and> (\<exists>l. dict_get (leased_ips m2) (PyStr ''AA'') = Some l \<and> l_ip l = ip)"
proof -
  have "lease_inv default_IPManager" by (simp add: default_IPManager_def lease_inv_new)
  from handshake_agrees [OF this, of 0 "new_DHCPClient ''AA''" 1 7 2] show ?thesis
    by (auto simp: default_IPManager_def new_IPManager_def live_leases_def new_DHCPClient_def)
qed

text \<open>
  The duration is lost on the way: the server's ACK repeats the lease time of the REQUEST,
  and the client's REQUEST carries 0, so after a successful handshake the client's lease time is
  0 and its lease has expired at the moment it is bound, while the server keeps the lease for 3600
  seconds.
\<close>

theorem handshake_loses_lease_time:
  assumes "lease_inv m" "start_ip m = ''127.0.0.2''" "end_ip m = ''127.0.0.254''"
    and "dict_has (live_leases m t) (PyStr (mac_address c)) \<or> length (live_leases m t) < 253" and "t \<le> t'"
  shows "\<exists>m2 c'. handshake m c x t t' now = (m2, c', True) \<and> c_lease_time c' = 0 \<and> lease_expiry c' = now"
proof (rule handshake_result [OF assms, of x now])
  fix m2 ip
  assume "handshake m c x t t' now = (m2, c\<lparr>state := C_BOUND, assigned_ip := Some ip,
      c_lease_time := 0, lease_expiry := now\<rparr>, True)"
  then show ?thesis by simp
qed

theorem handshake_loses_lease_time_witness:
  "\<exists>m2 c'. handshake default_IPManager (new_DHCPClient ''AA'') 7 0 1 2 = (m2, c', True) \<and>
     c_lease_time c' = 0"
proof -
  have "lease_inv default_IPManager" by (simp add: default_IPManager_def lease_inv_new)
  from handshake_loses_lease_time [OF this, of 0 "new_DHCPClient ''AA''" 1 7 2] show ?thesis
    by (auto simp: default_IPManager_def new_IPManager_def live_leases_def)
qed

end
