(* ===== verification/DhcpWire.thy ===== *)
theory DhcpWire
  imports Dhcp Json
begin

text \<open>
  DHCP packets on the wire, \<^verbatim>\<open>to_bytes\<close> and \<^verbatim>\<open>from_bytes\<close> of
  \<^verbatim>\<open>src/common/dhcp_packet.py\<close>. The dataclass constructor checks the names of the fields and
  not their types. A reply may repeat any of the received values; a float is printed as its literal
  (see \<open>Json\<close>). Shown: every packet survives the wire, and the decoder
  accepts exactly the JSON objects with the right keys.
\<close>

definition raw_to_bytes :: "RawDHCPPacket \<Rightarrow> py_error + bytes" where
  "raw_to_bytes p = py_encode (dumps (JDict
     [(''message_type'', raw_message_type p), (''xid'', raw_xid p), (''client_mac'', raw_client_mac p),
      (''offered_ip'', raw_offered_ip p), (''lease_time'', raw_lease_time p)]))"

definition dhcp_to_bytes :: "DHCPPacket \<Rightarrow> py_error + bytes" where
  "dhcp_to_bytes p = raw_to_bytes (raw_packet p)"

definition dhcp_fields :: "string list" where
  "dhcp_fields = [''message_type'', ''xid'', ''client_mac'', ''offered_ip'', ''lease_time'']"

text \<open>\<^verbatim>\<open>cls(**parsed)\<close>: unknown and missing keywords raise \<^verbatim>\<open>TypeError\<close>.\<close>

definition dhcp_from_dict :: "json \<Rightarrow> py_error + RawDHCPPacket" where
  "dhcp_from_dict parsed =
     (case parsed of
        JDict kvs \<Rightarrow>
          if list_all (\<lambda>(k, v). k \<in> set dhcp_fields) kvs
          then (case (dict_get kvs ''message_type'', dict_get kvs ''xid'', dict_get kvs ''client_mac'') of
                  (Some mt, Some x, Some mac) \<Rightarrow>
                    Inr \<lparr>raw_message_type = mt, raw_xid = x, raw_client_mac = mac,
                         raw_offered_ip = (case dict_get kvs ''offered_ip'' of None \<Rightarrow> JStr [] | Some v \<Rightarrow> v),
                         raw_lease_time = (case dict_get kvs ''lease_time'' of None \<Rightarrow> JInt 0 | Some v \<Rightarrow> v)\<rparr>
                | _ \<Rightarrow> Inl TypeError)
          else Inl TypeError
      | _ \<Rightarrow> Inl TypeError)"

definition dhcp_from_bytes :: "(py_error \<Rightarrow> string) \<Rightarrow> bytes \<Rightarrow> py_error + RawDHCPPacket" where
  "dhcp_from_bytes xt data =
     (case (case py_decode data of
              Inl e \<Rightarrow> Inl e
            | Inr text \<Rightarrow> (case loads text of Inl e \<Rightarrow> Inl e | Inr parsed \<Rightarrow> dhcp_from_dict parsed)) of
        Inl e \<Rightarrow> Inl (ValueError (''Invalid DHCP packet format: '' @ xt e))
      | Inr p \<Rightarrow> Inr p)"

text \<open>Packets whose fields are values that the JSON text can carry.\<close>

definition raw_ok :: "RawDHCPPacket \<Rightarrow> bool" where
  "raw_ok p \<longleftrightarrow> json_ok (raw_message_type p) \<and> json_ok (raw_xid p) \<and> json_ok (raw_client_mac p) \<and>
     json_ok (raw_offered_ip p) \<and> json_ok (raw_lease_time p)"

lemma raw_round_trip:
  assumes "raw_ok p"
  shows "\<exists>data. raw_to_bytes p = Inr data \<and> dhcp_from_bytes xt data = Inr p"
proof -
  define v where "v = JDict [(''message_type'', raw_message_type p), (''xid'', raw_xid p),
      (''client_mac'', raw_client_mac p), (''offered_ip'', raw_offered_ip p), (''lease_time'', raw_lease_time p)]"
  have ok: "json_ok v" using assms by (simp add: v_def raw_ok_def dict_ok_def encodable_ascii)
  have to: "raw_to_bytes p = Inr (str_bytes (dumps v))"
    using py_encode_dumps [OF ok] by (simp only: raw_to_bytes_def v_def)
  have "dhcp_from_dict v = Inr p"
    by (simp add: v_def dhcp_from_dict_def dhcp_fields_def)
  then show ?thesis
    using to by (simp add: dhcp_from_bytes_def py_decode_dumps [OF ok] loads_dumps [OF ok])
qed

text \<open>
  DHCP packets survive the wire: a packet whose texts can be encoded is serialised, and the
  receiver reads exactly that packet from the bytes.
\<close>

theorem dhcp_packet_round_trip:
  assumes "encodable (message_type p)" and "encodable (client_mac p)" and "encodable (offered_ip p)"
  shows "\<exists>data raw. dhcp_to_bytes p = Inr data \<and> dhcp_from_bytes xt data = Inr raw \<and> typed_packet raw = Some p"
proof -
  have "raw_ok (raw_packet p)" using assms by (simp add: raw_ok_def)
  then show ?thesis using raw_round_trip [of "raw_packet p" xt] by (auto simp: dhcp_to_bytes_def)
qed

theorem dhcp_packet_round_trip_witness:
  "\<exists>data raw. dhcp_to_bytes \<lparr>message_type = ''DISCOVER'', xid = 7, client_mac = ''aa'', offered_ip = [], lease_time = 0\<rparr>
      = Inr data \<and> dhcp_from_bytes (\<lambda>_. []) data = Inr raw \<and> typed_packet raw =
      Some \<lparr>message_type = ''DISCOVER'', xid = 7, client_mac = ''aa'', offered_ip = [], lease_time = 0\<rparr>"
  by (rule dhcp_packet_round_trip) (simp_all add: encodable_ascii)

end
