(* ===== verification/DhcpSystem.thy ===== *)
theory DhcpSystem
  imports DhcpWire
begin

text \<open>
  DHCP on datagrams: the loop of \<^verbatim>\<open>src/server/dhcp_server.py\<close> and the sockets of
  \<^verbatim>\<open>src/client/dhcp_client.py\<close>, over the packets of \<^verbatim>\<open>src/common/dhcp_packet.py\<close>, and client and
  server together over a network that loses packets and replies. Shown: the server on bytes is the
  server on packets, its leases stay exclusive whatever arrives, and a handshake in which one attempt
  of each stage gets through binds both sides to one address, whatever was lost before.
\<close>

section \<open>The server's loop\<close>

text \<open>A reply as it is sent: one that cannot be encoded is logged and dropped.\<close>

definition send_packet :: "RawDHCPPacket \<Rightarrow> bytes option" where
  "send_packet p = (case raw_to_bytes p of Inl e \<Rightarrow> None | Inr d \<Rightarrow> Some d)"

text \<open>\<^verbatim>\<open>handle_packet\<close> on a datagram, with the datagrams sent back.\<close>

definition dhcp_datagram :: "(py_error \<Rightarrow> string) \<Rightarrow> IPManager \<Rightarrow> bytes \<Rightarrow> real \<Rightarrow> real \<Rightarrow> IPManager \<times> bytes list" where
  "dhcp_datagram xt m data t t' =
     (let (m', replies) = handle_packet m (dhcp_from_bytes xt data) t t'
      in (m', List.map_filter send_packet replies))"

text \<open>\<^verbatim>\<open>recvfrom(4096)\<close> cuts a longer datagram off.\<close>

fun dhcp_serve :: "(py_error \<Rightarrow> string) \<Rightarrow> IPManager \<Rightarrow> (bytes \<times> real \<times> real) list \<Rightarrow> IPManager \<times> bytes list" where
  "dhcp_serve xt m [] = (m, [])"
| "dhcp_serve xt m ((data, t, t') # ds) =
     (let (m', out) = dhcp_datagram xt m (take 4096 data) t t';
          (m'', out') = dhcp_serve xt m' ds
      in (m'', out @ out'))"

text \<open>\<^verbatim>\<open>DHCPServer.start\<close>: a new pool, a bound socket, the loop.\<close>

definition dhcp_start :: "(py_error \<Rightarrow> string) \<Rightarrow> bool \<Rightarrow> (bytes \<times> real \<times> real) list \<Rightarrow> py_error + IPManager \<times> bytes list" where
  "dhcp_start xt bind_ok ds =
     (if bind_ok then Inr (dhcp_serve xt default_IPManager ds) else Inl OSError)"

section \<open>The client's socket\<close>

datatype bind_result = BindOk | BindDenied | BindFailed

text \<open>The local port asked for: 68, or any when that one needs privileges.\<close>

definition init_socket :: "bind_result \<Rightarrow> bind_result \<Rightarrow> int \<Rightarrow> py_error + int" where
  "init_socket first second port =
     (case first of
        BindOk \<Rightarrow> Inr port
      | BindDenied \<Rightarrow> (if second = BindOk then Inr 0 else Inl OSError)
      | BindFailed \<Rightarrow> Inl OSError)"

text \<open>
  \<^verbatim>\<open>_receive_packet\<close> on the datagram that arrives in time, if any: \<open>Some None\<close> for nothing or a malformed
  packet. \<open>None\<close>: a packet with fields of other types than declared, outside the model.
\<close>

definition receive_packet :: "(py_error \<Rightarrow> string) \<Rightarrow> bytes option \<Rightarrow> DHCPPacket option option" where
  "receive_packet xt arrival =
     (case arrival of
        None \<Rightarrow> Some None
      | Some data \<Rightarrow>
          (case dhcp_from_bytes xt (take 2048 data) of
             Inl e \<Rightarrow> Some None
           | Inr raw \<Rightarrow> map_option Some (typed_packet raw)))"

definition received :: "(py_error \<Rightarrow> string) \<Rightarrow> bytes option list \<Rightarrow> DHCPPacket option list" where
  "received xt arrivals = map (\<lambda>d. the (receive_packet xt d)) arrivals"

definition readable :: "(py_error \<Rightarrow> string) \<Rightarrow> (nat \<Rightarrow> bytes option list) \<Rightarrow> bool" where
  "readable xt arrivals \<longleftrightarrow>
     list_all (\<lambda>a. list_all (\<lambda>d. receive_packet xt d \<noteq> None) (arrivals a)) [1..<MAX_RETRIES_PER_STAGE + 1]"

text \<open>
  \<^verbatim>\<open>acquire_lease\<close> with its sockets: the datagrams sent, each with its destination. Any exception (the
  socket's, or that of a packet that cannot be encoded, which is already the first of its stage) ends
  it with \<^verbatim>\<open>False\<close>; sending succeeds. \<open>None\<close> if an arriving packet is outside the model.
\<close>

definition acquire_on_socket ::
  "(py_error \<Rightarrow> string) \<Rightarrow> bind_result \<Rightarrow> bind_result \<Rightarrow> DHCPClient \<Rightarrow> int \<Rightarrow> (nat \<Rightarrow> bytes option list) \<Rightarrow> (nat \<Rightarrow> bytes option list) \<Rightarrow> real
    \<Rightarrow> (DHCPClient \<times> bool \<times> (string \<times> bytes) list) option" where
  "acquire_on_socket xt first second c x offers acks now =
     (case init_socket first second DHCP_CLIENT_PORT of
        Inl e \<Rightarrow> Some (c, False, [])
      | Inr port \<Rightarrow>
          (case dhcp_to_bytes (discover_packet c x) of
             Inl e \<Rightarrow> Some (c\<lparr>state := C_SELECTING\<rparr>, False, [])
           | Inr discover \<Rightarrow>
               if \<not> readable xt offers then None
               else
                 (let (c1, ip, sent) = perform_selecting (c\<lparr>state := C_INIT\<rparr>) x (received xt \<circ> offers);
                      ds = map (\<lambda>(a, p). (a, discover)) sent
                  in if ip = None \<or> ip = Some [] then Some (c1, False, ds)
                     else (case dhcp_to_bytes (request_packet c1 x (the ip)) of
                             Inl e \<Rightarrow> Some (c1\<lparr>state := C_REQUESTING\<rparr>, False, ds)
                           | Inr request \<Rightarrow>
                               if \<not> readable xt acks then None
                               else (let (c2, ok, sent') = perform_requesting c1 x (the ip) (received xt \<circ> acks) now
                                     in Some (c2, ok, ds @ map (\<lambda>(a, p). (a, request)) sent'))))))"

section \<open>Client and server over a lossy network\<close>

text \<open>
  What happens to one attempt of the client: its packet is lost, the server's reply is lost, or both
  arrive. \<open>ts a\<close> are the times at which the server handles attempt \<open>a\<close>. The client sends the same
  datagram again until it gets a reply.
\<close>

datatype fate = PacketLost | ReplyLost | Delivered

fun serve_attempts ::
  "(py_error \<Rightarrow> string) \<Rightarrow> IPManager \<Rightarrow> bytes \<Rightarrow> (nat \<Rightarrow> fate) \<Rightarrow> (nat \<Rightarrow> real \<times> real) \<Rightarrow> nat list
    \<Rightarrow> IPManager \<times> (nat \<Rightarrow> bytes option list)" where
  "serve_attempts xt m data net ts [] = (m, \<lambda>_. [])"
| "serve_attempts xt m data net ts (a # as) =
     (if net a = PacketLost then serve_attempts xt m data net ts as
      else (let (m', out) = dhcp_serve xt m [(data, ts a)]
            in if net a = Delivered then (m', (\<lambda>_. [])(a := map Some out))
               else serve_attempts xt m' data net ts as))"

section \<open>Packets and datagrams\<close>

definition packet_ok :: "DHCPPacket \<Rightarrow> bool" where
  "packet_ok p \<longleftrightarrow> encodable (message_type p) \<and> encodable (client_mac p) \<and> encodable (offered_ip p)"

definition packet_small :: "DHCPPacket \<Rightarrow> bool" where
  "packet_small p \<longleftrightarrow> length (message_type p) \<le> 8 \<and> length (client_mac p) \<le> 64 \<and> length (offered_ip p) \<le> 15 \<and>
     0 \<le> xid p \<and> xid p < 2 ^ 32 \<and> 0 \<le> lease_time p \<and> lease_time p < 2 ^ 32"

lemma packet_wire:
  assumes "packet_ok p"
  obtains data where "dhcp_to_bytes p = Inr data" "dhcp_from_bytes xt data = Inr (raw_packet p)"
    "packet_small p \<Longrightarrow> length data \<le> 2048"
proof -
  define v where "v = JDict [(''message_type'', JStr (message_type p)), (''xid'', JInt (xid p)),
      (''client_mac'', JStr (client_mac p)), (''offered_ip'', JStr (offered_ip p)), (''lease_time'', JInt (lease_time p))]"
  have ok: "json_ok v" using assms by (simp add: packet_ok_def v_def dict_ok_def encodable_ascii)
  have to: "dhcp_to_bytes p = Inr (str_bytes (dumps v))"
    using py_encode_dumps [OF ok] by (simp only: dhcp_to_bytes_def raw_to_bytes_def raw_packet_fields v_def)
  have "length (str_bytes (dumps v)) \<le> 2048" if "packet_small p"
  proof -
    have "length (string_of_int i) \<le> 10" if "0 \<le> i" "i < 2 ^ 32" for i
      using string_of_int_length [of 10 i] that by simp
    then have "length (string_of_int (xid p)) \<le> 10" "length (string_of_int (lease_time p)) \<le> 10"
      using that by (simp_all add: packet_small_def)
    then show ?thesis
      using that dumps_str_length [of "message_type p"] dumps_str_length [of "client_mac p"] dumps_str_length [of "offered_ip p"]
      by (simp add: v_def packet_small_def dumps_str_plain plain_def)
  qed
  moreover have "dhcp_from_bytes xt (str_bytes (dumps v)) = Inr (raw_packet p)"
    using raw_round_trip [of "raw_packet p" xt] assms to by (auto simp: packet_ok_def raw_ok_def dhcp_to_bytes_def)
  ultimately show ?thesis using that to by blast
qed

lemma send_packet_ok: "packet_ok p \<Longrightarrow> \<exists>d. send_packet (raw_packet p) = Some d"
  by (rule packet_wire [of p "\<lambda>_. []"]) (auto simp: send_packet_def dhcp_to_bytes_def)

lemma dhcp_datagram_packet:
  assumes "packet_ok p" "dhcp_to_bytes p = Inr data" "handle_packet m (Inr (raw_packet p)) t t' = (m', replies)"
  shows "dhcp_datagram xt m data t t' = (m', List.map_filter send_packet replies)"
proof -
  have "dhcp_from_bytes xt data = Inr (raw_packet p)"
    using packet_wire [OF assms(1), of xt] assms(2) by (metis sum.inject(2))
  then show ?thesis using assms(3) by (simp add: dhcp_datagram_def)
qed

lemma receive_sent:
  assumes "packet_ok p" "packet_small p" "send_packet (raw_packet p) = Some d"
  shows "receive_packet xt (Some d) = Some (Some p)"
proof -
  have "dhcp_to_bytes p = Inr d" using assms(3) by (simp add: send_packet_def dhcp_to_bytes_def split: sum.splits)
  then have "dhcp_from_bytes xt d = Inr (raw_packet p)" "length d \<le> 2048"
    using packet_wire [OF assms(1), of xt] assms(2) by (metis sum.inject(2))+
  then show ?thesis by (simp add: receive_packet_def)
qed

section \<open>Runs of the server\<close>

lemma handle_packet_steps: "handle_packet m x t t' = (m', replies) \<Longrightarrow> pool_step\<^sup>*\<^sup>* m m'"
  by (auto simp: handle_packet_def server_discover_def server_request_def
      split: sum.splits if_splits option.splits prod.splits intro: pool_step.intros)

lemma dhcp_serve_steps: "dhcp_serve xt m ds = (m', out) \<Longrightarrow> pool_step\<^sup>*\<^sup>* m m'"
proof (induction ds arbitrary: m out rule: list.induct)
  case (Cons d ds)
  obtain data t t' where d: "d = (data, t, t')" using prod_cases3 by blast
  from Cons.prems obtain m1 o1 o2 where "handle_packet m (dhcp_from_bytes xt (take 4096 data)) t t' = (m1, o1)"
      "dhcp_serve xt m1 ds = (m', o2)"
    by (auto simp: d dhcp_datagram_def split: prod.splits)
  then show ?case using handle_packet_steps Cons.IH rtranclp_trans by meson
qed simp

section \<open>Retries\<close>

text \<open>The server holds an address for a client's transaction, at least until \<open>T\<close>.\<close>

definition holds :: "string set \<Rightarrow> py_value \<Rightarrow> string \<Rightarrow> int \<Rightarrow> real \<Rightarrow> IPManager \<Rightarrow> bool" where
  "holds ps mac ip x T m \<longleftrightarrow> lease_inv m \<and> pool m = ps \<and>
     (\<exists>l. dict_get (leased_ips m) mac = Some l \<and> l_ip l = ip \<and> py_eq (l_xid l) (JInt x) \<and> T \<le> expires_at l)"

lemma holds_live:
  assumes "holds ps mac ip x T m" "t \<le> T"
  obtains l where "dict_get (leased_ips (cleanup_expired_leases m t)) mac = Some l" "l_ip l = ip" "py_eq (l_xid l) (JInt x)"
    "lease_inv (cleanup_expired_leases m t)" "pool (cleanup_expired_leases m t) = ps"
proof -
  obtain l where l: "lease_inv m" "pool m = ps" "dict_get (leased_ips m) mac = Some l" "l_ip l = ip" "py_eq (l_xid l) (JInt x)" "T \<le> expires_at l"
    using assms(1) by (auto simp: holds_def)
  then have "dict_get (leased_ips (cleanup_expired_leases m t)) mac = Some l"
    unfolding cleanup_get [OF l(1)] using live_get [of m t mac] assms(2) by (simp add: lease_inv_def expired_def)
  then show ?thesis using that l cleanup_props [OF l(1)] by simp
qed

lemma discover_first:
  assumes "lease_inv m" "handle_discover m mac (JInt x) t t' = Inr (m1, Some ip, dur)" "T \<le> t' + 3600"
  shows "holds (pool m) mac ip x T m1" "dur = 3600"
proof -
  obtain l where "dict_get (leased_ips m1) mac = Some l" "l_ip l = ip" "py_eq (l_xid l) (JInt x)" "expires_at l = fresh_expiry t'"
      "dur = DHCP_DEFAULT_LEASE_TIME"
    using discover_lease [OF assms(2)] py_eq_int by metis
  then show "holds (pool m) mac ip x T m1" "dur = 3600"
    using handle_discover_inv [OF assms(1,2)] assms(3) by (auto simp: holds_def fresh_expiry_def DHCP_DEFAULT_LEASE_TIME_def)
qed

lemma discover_again:
  assumes "holds ps mac ip x T m" "t \<le> T" "T \<le> t' + 3600"
  shows "\<exists>m1. handle_discover m mac (JInt x) t t' = Inr (m1, Some ip, 3600) \<and> holds ps mac ip x T m1"
proof -
  obtain l where l: "dict_get (leased_ips (cleanup_expired_leases m t)) mac = Some l" "l_ip l = ip" "py_eq (l_xid l) (JInt x)"
    using holds_live [OF assms(1,2)] .
  then obtain m1 where h: "handle_discover m mac (JInt x) t t' = Inr (m1, Some ip, 3600)"
    by (simp add: handle_discover_def Let_def DHCP_DEFAULT_LEASE_TIME_def)
  have "lease_inv m" "pool m = ps" using assms(1) by (auto simp: holds_def)
  then show ?thesis using h discover_first(1) [OF _ h assms(3)] by auto
qed

lemma request_again:
  assumes "holds ps mac ip x T m" "t \<le> T" "T \<le> t' + 3600"
  shows "\<exists>m1 y. handle_request m mac (JInt x) (JStr ip) t t' = (m1, True) \<and> holds ps mac ip x T m1 \<and>
    dict_get (leased_ips m1) mac = Some \<lparr>l_ip = ip, l_xid = y, expires_at = t' + 3600, l_state = BOUND\<rparr>"
proof -
  obtain l where l: "dict_get (leased_ips (cleanup_expired_leases m t)) mac = Some l" "l_ip l = ip" "py_eq (l_xid l) (JInt x)"
    using holds_live [OF assms(1,2)] .
  have inv: "lease_inv m" "pool m = ps" using assms(1) by (auto simp: holds_def)
  define m0 y where "m0 = cleanup_expired_leases m t" and "y = (if l_state l = BOUND then l_xid l else JInt x)"
  define m1 where "m1 = m0\<lparr>leased_ips := dict_set mac \<lparr>l_ip = ip, l_xid = y, expires_at = t' + 3600, l_state = BOUND\<rparr>
    (leased_ips m0)\<rparr>"
  have h: "handle_request m mac (JInt x) (JStr ip) t t' = (m1, True)" "py_eq y (JInt x)"
      "dict_get (leased_ips m1) mac = Some \<lparr>l_ip = ip, l_xid = y, expires_at = t' + 3600, l_state = BOUND\<rparr>"
    using l by (cases l; cases "l_state l"; simp add: handle_request_def Let_def map_of_update fresh_expiry_def
      DHCP_DEFAULT_LEASE_TIME_def m0_def m1_def y_def)+
  then show ?thesis using handle_request_inv [OF inv(1) h(1)] inv(2) assms(3) by (auto simp: holds_def)
qed

text \<open>
  A stage in which the server, whenever a packet gets through, gives the same reply and stays as the
  stage needs it: the client gets exactly that reply, in the first attempt that is delivered.
\<close>

lemma serve_attempts_reply:
  assumes "\<And>m a. Q m \<Longrightarrow> a \<in> set as \<Longrightarrow> \<exists>m'. dhcp_serve xt m [(data, ts a)] = (m', [d]) \<and> Q m' \<and> R m'" "Q m"
    and "\<exists>a\<in>set as. net a = Delivered"
  shows "\<exists>m' b. serve_attempts xt m data net ts as = (m', (\<lambda>_. [])(b := [Some d])) \<and> b \<in> set as \<and> Q m' \<and> R m'"
  using assms
proof (induction as arbitrary: m)
  case (Cons a as)
  obtain m1 where m1: "dhcp_serve xt m [(data, ts a)] = (m1, [d])" "Q m1" "R m1" using Cons.prems(1,2) by (meson list.set_intros(1))
  have IH: "\<exists>m' b. serve_attempts xt m0 data net ts as = (m', (\<lambda>_. [])(b := [Some d])) \<and> b \<in> set as \<and> Q m' \<and> R m'"
    if "Q m0" "net a \<noteq> Delivered" for m0
    by (rule Cons.IH [OF _ that(1)]) (use Cons.prems(1,3) that(2) in \<open>auto simp del: dhcp_serve.simps\<close>)
  show ?case
  proof (cases "net a")
    case PacketLost
    then show ?thesis using IH [OF Cons.prems(2)] by (auto simp del: fun_upd_apply)
  next
    case ReplyLost
    then show ?thesis using IH [OF m1(2)] m1(1) by (auto simp del: dhcp_serve.simps fun_upd_apply)
  next
    case Delivered
    then show ?thesis using m1 by (intro exI [of _ m1] exI [of _ a]) (simp del: dhcp_serve.simps fun_upd_apply)
  qed
qed simp

text \<open>The client's two loops, when one attempt of each is answered.\<close>

lemma selecting_answered:
  assumes "b \<in> set as" "wait_offer x (g b) = Some p" "\<And>a. a \<noteq> b \<Longrightarrow> wait_offer x (g a) = None"
  shows "\<exists>sent. selecting_loop c x as g = (c\<lparr>c_lease_time := lease_time p\<rparr>, Some (offered_ip p), sent)"
  using assms(1)
proof (induction as)
  case (Cons a as)
  show ?case
  proof (cases "a = b")
    case True
    then show ?thesis using assms(2) by simp
  next
    case False
    then obtain sent where "selecting_loop c x as g = (c\<lparr>c_lease_time := lease_time p\<rparr>, Some (offered_ip p), sent)" using Cons by auto
    then show ?thesis using assms(3) [OF False] by simp
  qed
qed simp

lemma requesting_answered:
  assumes "b \<in> set as" "wait_ack x ip (g b) = Some (Some p)" "\<And>a. a \<noteq> b \<Longrightarrow> wait_ack x ip (g a) = None"
  shows "\<exists>sent. requesting_loop c x ip as g now = (c\<lparr>assigned_ip := Some (offered_ip p), c_lease_time := lease_time p,
     lease_expiry := now + of_int (lease_time p), state := C_BOUND\<rparr>, True, sent)"
  using assms(1)
proof (induction as)
  case (Cons a as)
  show ?case
  proof (cases "a = b")
    case True
    then show ?thesis using assms(2) by simp
  next
    case False
    then obtain sent where "requesting_loop c x ip as g now = (c\<lparr>assigned_ip := Some (offered_ip p), c_lease_time := lease_time p,
        lease_expiry := now + of_int (lease_time p), state := C_BOUND\<rparr>, True, sent)" using Cons by auto
    then show ?thesis using assms(3) [OF False] by simp
  qed
qed simp

lemma serve_packet:
  assumes "packet_ok p" "packet_small p" "dhcp_to_bytes p = Inr data"
    and "handle_packet m (Inr (raw_packet p)) t t' = (m', [q])" "send_packet q = Some d"
  shows "dhcp_serve xt m [(data, t, t')] = (m', [d])"
proof -
  have "length data \<le> 2048" using packet_wire [OF assms(1), of xt] assms(2,3) by (metis sum.inject(2))
  then show ?thesis using dhcp_datagram_packet [OF assms(1,3,4), of xt] assms(5) by (simp add: List.map_filter_def)
qed

section \<open>Handshakes\<close>

lemma pool_ip: "ip \<in> pool m \<Longrightarrow> is_ascii ip \<and> length ip \<le> 15"
proof -
  have "is_ascii (int_to_ip i) \<and> length (int_to_ip i) \<le> 15" for i
  proof -
    have d: "length (string_of_int (j mod 256)) \<le> 3" for j :: int using string_of_int_length [of 3 "j mod 256"] by simp
    show ?thesis
      using d [of "drop_bit 24 i"] d [of "drop_bit 16 i"] d [of "drop_bit 8 i"] d [of i]
      by (simp add: int_to_ip_def and_0xFF string_of_int_ascii)
  qed
  then show "ip \<in> pool m \<Longrightarrow> is_ascii ip \<and> length ip \<le> 15" by (auto simp: pool_def split: sum.splits)
qed



lemma discover_granted:
  assumes "lease_inv m" "start_ip m = ''127.0.0.2''" "end_ip m = ''127.0.0.254''"
    and "dict_has (leased_ips m) mac \<or> length (leased_ips m) < 253"
  shows "\<exists>m1 ip dur. handle_discover m mac (JInt x) t t' = Inr (m1, Some ip, dur)"
proof -
  have len: "length (leased_ips m) \<le> 253"
    using card_leases [OF assms(1)] card_mono [OF default_pool_card(2) [OF assms(2,3)]] default_pool_card(1) [OF assms(2,3)] assms(1)
    by (metis lease_inv_def)
  have "dict_has (live_leases m t) mac" if "length (live_leases m t) = 253"
  proof -
    have "length (live_leases m t) = length (leased_ips m)" using that len length_filter_le [of _ "leased_ips m"] by (metis le_antisym live_leases_def)
    then have "live_leases m t = leased_ips m" unfolding live_leases_def by (metis filter_True length_filter_less less_irrefl)
    then show ?thesis using assms(4) that by auto
  qed
  then show ?thesis using handle_discover_total [OF assms(1-3), of mac "JInt x" t t'] by (metis not_Some_eq)
qed

text \<open>A client whose hardware address fits into the packets, and a transaction id of 32 bits.\<close>

definition client_fits :: "DHCPClient \<Rightarrow> int \<Rightarrow> bool" where
  "client_fits c x \<longleftrightarrow> encodable (mac_address c) \<and> length (mac_address c) \<le> 64 \<and> 0 \<le> x \<and> x < 2 ^ 32"

lemma handshake_packets:
  assumes "client_fits c x"
  shows "packet_ok (discover_packet c x)" "packet_small (discover_packet c x)"
    and "ip \<in> pool m \<Longrightarrow> packet_ok (request_packet c x ip) \<and> packet_small (request_packet c x ip) \<and>
      packet_ok (offer (mac_address c) x ip) \<and> packet_small (offer (mac_address c) x ip) \<and>
      packet_ok (ack (mac_address c) x ip) \<and> packet_small (ack (mac_address c) x ip)"
  using assms pool_ip [of ip m]
  by (auto simp: client_fits_def packet_ok_def packet_small_def discover_packet_def request_packet_def encodable_ascii)

lemma serve_discover:
  assumes "client_fits c x" "dhcp_to_bytes (discover_packet c x) = Inr data" "ip \<in> pool m0"
    and "send_packet (raw_packet (offer (mac_address c) x ip)) = Some d"
    and "handle_discover m (PyStr (mac_address c)) (JInt x) t t' = Inr (m', Some ip, 3600)"
  shows "dhcp_serve xt m [(data, t, t')] = (m', [d])"
proof -
  have "ip \<noteq> []" using assms(3) pool_not_Nil by metis
  then show ?thesis
    using serve_packet [OF handshake_packets(1,2) [OF assms(1)] assms(2) discover_answered [OF assms(5)] assms(4)] by simp
qed

lemma serve_request:
  assumes "client_fits c x" "dhcp_to_bytes (request_packet c x ip) = Inr data" "ip \<in> pool m0"
    and "send_packet (raw_packet (ack (mac_address c) x ip)) = Some d"
    and "handle_request m (PyStr (mac_address c)) (JInt x) (JStr ip) t t' = (m', True)"
  shows "dhcp_serve xt m [(data, t, t')] = (m', [d])"
  using serve_packet [OF _ _ assms(2) request_answered [OF assms(5)] assms(4)] handshake_packets(3) [OF assms(1,3)] by blast

text \<open>The times at which the server handles the attempts lie within one lease.\<close>

definition in_lease :: "real \<Rightarrow> (nat \<Rightarrow> real \<times> real) \<Rightarrow> bool" where
  "in_lease t0 ts \<longleftrightarrow> (\<forall>a. fst (ts a) \<le> t0 + 3600 \<and> t0 \<le> snd (ts a))"

lemma discover_stage:
  assumes m: "lease_inv m" "start_ip m = ''127.0.0.2''" "end_ip m = ''127.0.0.254''"
    and room: "dict_has (leased_ips m) (PyStr (mac_address c)) \<or> length (leased_ips m) < 253"
    and c: "client_fits c x" "dhcp_to_bytes (discover_packet c x) = Inr data" and ts: "in_lease t0 ts"
    and "\<exists>a\<in>set as. net a = Delivered"
  shows "\<exists>m1 b ip d. serve_attempts xt m data net ts as = (m1, (\<lambda>_. [])(b := [Some d])) \<and> b \<in> set as \<and>
    holds (pool m) (PyStr (mac_address c)) ip x (t0 + 3600) m1 \<and> ip \<in> pool m \<and> send_packet (raw_packet (offer (mac_address c) x ip)) = Some d"
  using assms(8)
proof (induction as)
  case (Cons a as)
  obtain t t' where t: "ts a = (t, t')" by fastforce
  obtain m1 ip dur where h: "handle_discover m (PyStr (mac_address c)) (JInt x) t t' = Inr (m1, Some ip, dur)"
    using discover_granted [OF m room] by blast
  have ip: "ip \<in> pool m" using handle_discover_offer_in_pool [OF m(1) h] .
  obtain d where d: "send_packet (raw_packet (offer (mac_address c) x ip)) = Some d"
    using send_packet_ok handshake_packets(3) [OF c(1) ip] by blast
  have t': "t0 + 3600 \<le> t' + 3600" using ts t by (simp add: in_lease_def) (metis snd_conv)
  note held = discover_first [OF m(1) h t']
  have s: "dhcp_serve xt m [(data, ts a)] = (m1, [d])"
    unfolding t by (rule serve_discover [OF c ip d]) (use h held(2) in simp)
  show ?case
  proof (cases "net a")
    case PacketLost
    then show ?thesis using Cons by (auto simp del: fun_upd_apply)
  next
    case ReplyLost
    have "\<exists>m' b. serve_attempts xt m1 data net ts as = (m', (\<lambda>_. [])(b := [Some d])) \<and> b \<in> set as \<and>
        holds (pool m) (PyStr (mac_address c)) ip x (t0 + 3600) m'"
    proof (rule serve_attempts_reply [where R = "\<lambda>_. True", simplified])
      fix m2 a' assume q: "holds (pool m) (PyStr (mac_address c)) ip x (t0 + 3600) m2" "a' \<in> set as"
      have "fst (ts a') \<le> t0 + 3600" "t0 + 3600 \<le> snd (ts a') + 3600" using ts by (auto simp: in_lease_def)
      then obtain m3 where "handle_discover m2 (PyStr (mac_address c)) (JInt x) (fst (ts a')) (snd (ts a')) = Inr (m3, Some ip, 3600)"
          "holds (pool m) (PyStr (mac_address c)) ip x (t0 + 3600) m3"
        using discover_again [OF q(1)] by blast
      then show "\<exists>m'. dhcp_serve xt m2 [(data, ts a')] = (m', [d]) \<and> holds (pool m) (PyStr (mac_address c)) ip x (t0 + 3600) m'"
        using serve_discover [OF c ip d] by (metis prod.collapse)
    qed (use held Cons.prems ReplyLost in auto)
    then show ?thesis using ReplyLost s ip d by (auto simp del: dhcp_serve.simps fun_upd_apply)
  next
    case Delivered
    then show ?thesis using s held ip d by (intro exI [of _ m1] exI [of _ a] exI [of _ ip] exI [of _ d]) (simp del: dhcp_serve.simps fun_upd_apply)
  qed
qed simp

lemma request_stage:
  assumes "holds ps (PyStr (mac_address c)) ip x (t0 + 3600) m" "ip \<in> pool m0"
    and c: "client_fits c x" "dhcp_to_bytes (request_packet c x ip) = Inr data" and ts: "in_lease t0 ts"
    and "\<exists>a\<in>set as. net a = Delivered" and d: "send_packet (raw_packet (ack (mac_address c) x ip)) = Some d"
  shows "\<exists>m1 b. serve_attempts xt m data net ts as = (m1, (\<lambda>_. [])(b := [Some d])) \<and> b \<in> set as \<and>
    holds ps (PyStr (mac_address c)) ip x (t0 + 3600) m1 \<and>
    (\<exists>l. dict_get (leased_ips m1) (PyStr (mac_address c)) = Some l \<and> l_ip l = ip \<and> l_state l = BOUND)"
proof (rule serve_attempts_reply [where Q = "holds ps (PyStr (mac_address c)) ip x (t0 + 3600)", OF _ assms(1,6)])
  fix m2 a assume q: "holds ps (PyStr (mac_address c)) ip x (t0 + 3600) m2" "a \<in> set as"
  have "fst (ts a) \<le> t0 + 3600" "t0 + 3600 \<le> snd (ts a) + 3600" using ts by (auto simp: in_lease_def)
  then obtain m3 where "handle_request m2 (PyStr (mac_address c)) (JInt x) (JStr ip) (fst (ts a)) (snd (ts a)) = (m3, True)" "holds ps (PyStr (mac_address c)) ip x (t0 + 3600) m3"
      "\<exists>l. dict_get (leased_ips m3) (PyStr (mac_address c)) = Some l \<and> l_ip l = ip \<and> l_state l = BOUND"
    using request_again [OF q(1)] by fastforce
  then show "\<exists>m'. dhcp_serve xt m2 [(data, ts a)] = (m', [d]) \<and> holds ps (PyStr (mac_address c)) ip x (t0 + 3600) m' \<and>
      (\<exists>l. dict_get (leased_ips m') (PyStr (mac_address c)) = Some l \<and> l_ip l = ip \<and> l_state l = BOUND)"
    using serve_request [OF c assms(2) d] by (metis prod.collapse)
qed

text \<open>The client reads exactly what was delivered to it.\<close>

lemma received_reply:
  assumes "receive_packet xt (Some d) = Some (Some p)"
  shows "readable xt ((\<lambda>_. [])(b := [Some d]))" "(received xt \<circ> (\<lambda>_. [])(b := [Some d])) b = [Some p]"
    and "a \<noteq> b \<Longrightarrow> (received xt \<circ> (\<lambda>_. [])(b := [Some d])) a = []"
  using assms by (auto simp: readable_def received_def list_all_iff)

lemma client_bound:
  assumes c: "client_fits c x" and ip: "ip \<in> pool m0"
    and o: "send_packet (raw_packet (offer (mac_address c) x ip)) = Some d" "b \<in> set [1..<6]"
    and k: "send_packet (raw_packet (ack (mac_address c) x ip)) = Some d'" "b' \<in> set [1..<6]"
  shows "\<exists>sent. acquire_on_socket xt BindOk s2 c x ((\<lambda>_. [])(b := [Some d])) ((\<lambda>_. [])(b' := [Some d'])) now =
    Some (c\<lparr>assigned_ip := Some ip, c_lease_time := 0, lease_expiry := now, state := C_BOUND\<rparr>, True, sent)"
proof -
  let ?mac = "mac_address c" and ?o = "(\<lambda>_. [])(b := [Some d])" and ?k = "(\<lambda>_. [])(b' := [Some d'])"
  note pk = handshake_packets [OF c] handshake_packets(3) [OF c ip]
  have ne: "ip \<noteq> []" using ip pool_not_Nil by metis
  note ro = received_reply [OF receive_sent [OF _ _ o(1), of xt]] and rk = received_reply [OF receive_sent [OF _ _ k(1), of xt]]
  obtain dd where dd: "dhcp_to_bytes (discover_packet c x) = Inr dd" using packet_wire [OF pk(1)] by blast
  obtain dr where dr: "dhcp_to_bytes (request_packet c x ip) = Inr dr" using packet_wire pk(4) by blast
  obtain s1 where s1: "perform_selecting (c\<lparr>state := C_INIT\<rparr>) x (received xt \<circ> ?o) = (c\<lparr>state := C_SELECTING, c_lease_time := 3600\<rparr>, Some ip, s1)"
    using selecting_answered [of b "[1..<6]" x "received xt \<circ> ?o" "offer ?mac x ip" "c\<lparr>state := C_SELECTING\<rparr>"] o(2) ro pk(4) ne
    by (auto simp: perform_selecting_def MAX_RETRIES_PER_STAGE_def)
  obtain s2 where s2: "perform_requesting (c\<lparr>state := C_SELECTING, c_lease_time := 3600\<rparr>) x ip (received xt \<circ> ?k) now =
      (c\<lparr>assigned_ip := Some ip, c_lease_time := 0, lease_expiry := now, state := C_BOUND\<rparr>, True, s2)"
    using requesting_answered [of b' "[1..<6]" x ip "received xt \<circ> ?k" "ack ?mac x ip" "c\<lparr>c_lease_time := 3600, state := C_REQUESTING\<rparr>" now] k(2) rk pk(4)
    by (auto simp: perform_requesting_def MAX_RETRIES_PER_STAGE_def)
  show ?thesis using dd dr s1 s2 ne ro(1) rk(1) pk(4) by (simp add: acquire_on_socket_def init_socket_def)
qed

text \<open>The states of the running server.\<close>

lemma pool_step_range:
  assumes "lease_inv m" "pool_step m m'"
  shows "start_ip m' = start_ip m \<and> end_ip m' = end_ip m"
  using assms(2) cleanup_props(4,5) [OF assms(1)]
  by (cases rule: pool_step.cases)
    (auto simp: handle_discover_def handle_request_def Let_def split: option.splits if_splits sum.splits)

lemma served_pool:
  assumes "dhcp_start xt ok ds = Inr (m, out)"
  shows "lease_inv m \<and> pool m = pool default_IPManager \<and> start_ip m = ''127.0.0.2'' \<and> end_ip m = ''127.0.0.254''"
proof -
  have r: "pool_step\<^sup>*\<^sup>* default_IPManager m"
    using assms dhcp_serve_steps by (fastforce simp: dhcp_start_def split: if_splits)
  then have "lease_inv m \<and> start_ip m = ''127.0.0.2'' \<and> end_ip m = ''127.0.0.254''"
  proof (induction rule: rtranclp_induct)
    case (step y z)
    then show ?case using pool_inv_step [of y y z] pool_step_range by (metis pool_inv_def)
  qed (simp add: default_IPManager_def lease_inv_new, simp add: new_IPManager_def)
  moreover have "pool m = pool default_IPManager"
    using lease_pool.reachable_inv [OF refl r [unfolded default_IPManager_def]] by (simp add: pool_inv_def default_IPManager_def)
  ultimately show ?thesis by blast
qed

section \<open>Properties\<close>

text \<open>
  C17. The DHCP service never leases an address twice: whatever datagrams arrive, in whatever order and
  at whatever times, every client has one lease, no two leases share an address, the addresses marked
  as allocated are exactly the leased ones, and all of them lie in the server's range.
\<close>

theorem dhcp_service_exclusive:
  assumes "dhcp_start xt ok ds = Inr (m, out)"
  shows "distinct (map fst (leased_ips m)) \<and> distinct (map (\<lambda>(mac, l). l_ip l) (leased_ips m)) \<and>
    allocated_ips m = set (map (\<lambda>(mac, l). l_ip l) (leased_ips m)) \<and> allocated_ips m \<subseteq> pool default_IPManager"
  using served_pool [OF assms] unfolding lease_inv_def ips_of_def dict_ok_def by metis


text \<open>
  C27. Handshakes survive losses: whatever a running server has received before, if the client already
  has a lease or fewer than 253 are recorded, and within one lease time at least one of the five attempts
  of each stage is delivered in both directions (any of the others may lose its packet or its reply,
  after the server has acted on it), then the client ends bound to an address that the server holds
  bound to this client and to no other.
\<close>

theorem handshake_survives_losses:
  assumes "dhcp_start xt ok ds = Inr (m, out)"
    and "dict_has (leased_ips m) (PyStr (mac_address c)) \<or> length (leased_ips m) < 253"
    and "client_fits c x" and "in_lease t0 ts" and "in_lease t0 ts'"
    and "\<exists>a\<in>set [1..<6]. net a = Delivered" and "\<exists>a\<in>set [1..<6]. net' a = Delivered"
  shows "\<exists>data m1 offers ip data' m2 acks c' sent.
    dhcp_to_bytes (discover_packet c x) = Inr data \<and> serve_attempts xt m data net ts [1..<6] = (m1, offers) \<and>
    dhcp_to_bytes (request_packet c x ip) = Inr data' \<and> serve_attempts xt m1 data' net' ts' [1..<6] = (m2, acks) \<and>
    acquire_on_socket xt BindOk s2 c x offers acks now = Some (c', True, sent) \<and> state c' = C_BOUND \<and> assigned_ip c' = Some ip \<and>
    (\<exists>l. dict_get (leased_ips m2) (PyStr (mac_address c)) = Some l \<and> l_ip l = ip \<and> l_state l = BOUND) \<and>
    (\<forall>mac l. mac \<noteq> PyStr (mac_address c) \<longrightarrow> dict_get (leased_ips m2) mac = Some l \<longrightarrow> l_ip l \<noteq> ip)"
proof -
  note m = served_pool [OF assms(1)]
  obtain data where data: "dhcp_to_bytes (discover_packet c x) = Inr data" using packet_wire handshake_packets(1) [OF assms(3)] by blast
  obtain m1 b ip d where o: "serve_attempts xt m data net ts [1..<6] = (m1, (\<lambda>_. [])(b := [Some d]))" "b \<in> set [1..<6]"
      "holds (pool m) (PyStr (mac_address c)) ip x (t0 + 3600) m1" "ip \<in> pool m" "send_packet (raw_packet (offer (mac_address c) x ip)) = Some d"
    using discover_stage [OF _ _ _ assms(2,3) data assms(4,6)] m by blast
  note pk = handshake_packets(3) [OF assms(3) o(4)]
  obtain data' where data': "dhcp_to_bytes (request_packet c x ip) = Inr data'" using packet_wire pk by blast
  obtain d' where d': "send_packet (raw_packet (ack (mac_address c) x ip)) = Some d'" using send_packet_ok pk by blast
  obtain m2 b' l where k: "serve_attempts xt m1 data' net' ts' [1..<6] = (m2, (\<lambda>_. [])(b' := [Some d']))" "b' \<in> set [1..<6]"
      "holds (pool m) (PyStr (mac_address c)) ip x (t0 + 3600) m2"
      "dict_get (leased_ips m2) (PyStr (mac_address c)) = Some l" "l_ip l = ip" "l_state l = BOUND"
    using request_stage [OF o(3,4) assms(3) data' assms(5,7) d'] by blast
  obtain sent where "acquire_on_socket xt BindOk s2 c x ((\<lambda>_. [])(b := [Some d])) ((\<lambda>_. [])(b' := [Some d'])) now =
      Some (c\<lparr>assigned_ip := Some ip, c_lease_time := 0, lease_expiry := now, state := C_BOUND\<rparr>, True, sent)"
    using client_bound [OF assms(3) o(4,5,2) d' k(2)] by blast
  moreover have "l_ip l' \<noteq> ip" if "mac \<noteq> PyStr (mac_address c)" "dict_get (leased_ips m2) mac = Some l'" for mac l'
    using lease_inv_exclusive [OF _ that(2) k(4) that(1)] k(3,5) by (auto simp: holds_def)
  ultimately show ?thesis using data o(1) data' k(1,4-6)
    by (intro exI [of _ data] exI [of _ m1] exI [of _ "(\<lambda>_. [])(b := [Some d])"] exI [of _ ip] exI [of _ data'] exI [of _ m2]
        exI [of _ "(\<lambda>_. [])(b' := [Some d'])"]
        exI [of _ "c\<lparr>assigned_ip := Some ip, c_lease_time := 0, lease_expiry := now, state := C_BOUND\<rparr>"] exI [of _ sent]) (simp del: fun_upd_apply)
qed

section \<open>Samples\<close>

text \<open>A DISCOVER whose hardware address is \<^verbatim>\<open>null\<close> and whose transaction id is a text.\<close>

definition odd_packet :: RawDHCPPacket where
  "odd_packet = \<lparr>raw_message_type = JStr ''DISCOVER'', raw_xid = JStr ''x'', raw_client_mac = JNull,
     raw_offered_ip = JStr [], raw_lease_time = JInt 0\<rparr>"

lemma odd_packet_ok: "raw_ok odd_packet"
  by (simp add: raw_ok_def odd_packet_def encodable_ascii)

lemma odd_packet_served:
  "handle_packet default_IPManager (Inr odd_packet) 0 0 =
     (default_IPManager\<lparr>leased_ips := [(PyNone, \<lparr>l_ip = int_to_ip 2130706434, l_xid = JStr ''x'', expires_at = 3600,
        l_state = SELECTING\<rparr>)], allocated_ips := {int_to_ip 2130706434}\<rparr>,
      [\<lparr>raw_message_type = JStr ''OFFER'', raw_xid = JStr ''x'', raw_client_mac = JNull,
        raw_offered_ip = JStr (int_to_ip 2130706434), raw_lease_time = JInt 3600\<rparr>])"
  by (simp add: handle_packet_def server_discover_def odd_packet_def sample_pool_simps first_free.simps [of 2130706434])

theorem dhcp_service_exclusive_witness:
  "\<exists>data m out. raw_to_bytes odd_packet = Inr data \<and>
     dhcp_start (\<lambda>_. []) True [(data, 0, 0), ([255], 1, 1)] = Inr (m, out) \<and> length (leased_ips m) = 1 \<and>
     distinct (map fst (leased_ips m))"
proof -
  obtain data where d: "raw_to_bytes odd_packet = Inr data" "dhcp_from_bytes (\<lambda>_. []) data = Inr odd_packet"
    using raw_round_trip [OF odd_packet_ok] by blast
  have "data = str_bytes (dumps (JDict [(''message_type'', JStr ''DISCOVER''), (''xid'', JStr ''x''), (''client_mac'', JNull),
      (''offered_ip'', JStr []), (''lease_time'', JInt 0)]))"
    using d(1) py_encode_dumps [of "JDict [(''message_type'', JStr ''DISCOVER''), (''xid'', JStr ''x''), (''client_mac'', JNull),
      (''offered_ip'', JStr []), (''lease_time'', JInt 0)]"]
    by (simp add: raw_to_bytes_def odd_packet_def dict_ok_def encodable_ascii)
  then have len: "length data \<le> 4096" using string_of_int_length [of 1 0] by (simp add: dumps_str_plain plain_def)
  have "py_decode [255] = Inl UnicodeDecodeError" by code_simp
  then have "dhcp_from_bytes (\<lambda>_. []) [255] = Inl (ValueError ''Invalid DHCP packet format: '')" by (simp add: dhcp_from_bytes_def)
  then obtain m out where m: "dhcp_start (\<lambda>_. []) True [(data, 0, 0), ([255], 1, 1)] = Inr (m, out)" "length (leased_ips m) = 1"
    using len d(2) by (simp add: dhcp_start_def dhcp_datagram_def odd_packet_served handle_packet_def [of _ "Inl _"])
  with dhcp_service_exclusive [OF m(1)] d show ?thesis by blast
qed


theorem handshake_survives_losses_witness:
  "\<exists>data m1 offers c' sent acks ip. dhcp_to_bytes (discover_packet (new_DHCPClient ''AA'') 7) = Inr data \<and>
    serve_attempts (\<lambda>_. []) default_IPManager data (\<lambda>a. if a = 1 then PacketLost else if a = 2 then ReplyLost else Delivered)
      (\<lambda>a. (min (real a) 3600, real a)) [1..<6] = (m1, offers) \<and>
    acquire_on_socket (\<lambda>_. []) BindOk BindOk (new_DHCPClient ''AA'') 7 offers acks 9 = Some (c', True, sent) \<and> assigned_ip c' = Some ip"
proof -
  let ?c = "new_DHCPClient ''AA''" and ?net = "\<lambda>a::nat. if a = 1 then PacketLost else if a = 2 then ReplyLost else Delivered"
    and ?ts = "\<lambda>a. (min (real a) 3600, real a)"
  have s: "dhcp_start (\<lambda>_. []) True [] = Inr (default_IPManager, [])" by (simp add: dhcp_start_def)
  have f: "client_fits ?c 7" by (simp add: client_fits_def new_DHCPClient_def encodable_ascii)
  have r: "dict_has (leased_ips default_IPManager) (PyStr (mac_address ?c)) \<or> length (leased_ips default_IPManager) < 253"
    by (simp add: default_IPManager_def new_IPManager_def)
  have t: "in_lease 0 ?ts" by (simp add: in_lease_def)
  have n: "\<exists>a\<in>set [1..<6]. ?net a = Delivered" by (intro bexI [of _ 3]) simp_all
  from handshake_survives_losses [OF s r f t t n n, of BindOk 9] show ?thesis
    by (elim exE conjE) (intro exI conjI; assumption)
qed

end
