(* ===== verification/AgentErrors.thy ===== *)
theory AgentErrors
  imports AgentSystem
begin

text \<open>
  Failed requests end to end: an exception of a handler becomes a status and a message
  (\<^verbatim>\<open>src/server/agent/dispatcher.py\<close>), a response (\<^verbatim>\<open>response_builder.py\<close>) and, at the client, the result
  of the operation. Shown for GET: every outcome, with the status and text that the client sees.
\<close>

section \<open>Failed requests\<close>

text \<open>The answer to a request whose handler raises \<open>e\<close>.\<close>

definition failure_body :: "env \<Rightarrow> py_error \<Rightarrow> json" where
  "failure_body ev e = response_body (code_value (fst (error_status ev e))) JNull (Some (snd (error_status ev e)))"

definition failure_fits :: "env \<Rightarrow> py_error \<Rightarrow> bool" where
  "failure_fits ev e \<longleftrightarrow> encodable (snd (error_status ev e)) \<and> length (snd (error_status ev e)) \<le> 2048"

lemma failure_body_ok:
  assumes "failure_fits ev e"
  shows "json_ok (failure_body ev e)" "int (length (dumps (failure_body ev e))) \<le> MAX_PAYLOAD_LEN"
proof -
  show ok: "json_ok (failure_body ev e)" using assms by (simp add: failure_body_def failure_fits_def response_body_ok)
  have code: "length (string_of_int (code_value k)) \<le> 3" for k using string_of_int_length [of 3 "code_value k"] by (cases k) simp_all
  show "int (length (dumps (failure_body ev e))) \<le> MAX_PAYLOAD_LEN"
    using assms dumps_str_length [of "snd (error_status ev e)"] code [of "fst (error_status ev e)"]
    by (simp add: failure_body_def response_body_def failure_fits_def dumps_str_plain plain_def size_consts)
qed

lemma process_request_failure:
  assumes msg: "encode_message op 0 rid pl None = Inr msg"
    and fresh: "dict_get (idempotency_cache sv) (cid, rid, op) = None"
    and run: "run_handler ev et sv (request_header op rid pl) pl None = Some (sv', Inl e)"
    and fits: "failure_fits ev e"
  shows "\<exists>r. process_request ev et sv cid msg =
      (sv'\<lparr>idempotency_cache := store_response (idempotency_cache sv') (cid, rid, op) r (now ev)\<rparr>, r) \<and>
    encode_message op 0 rid (str_bytes (dumps (failure_body ev e))) None = Inr r"
proof -
  have "int (length (str_bytes (dumps (failure_body ev e)))) \<le> MAX_PAYLOAD_LEN" using failure_body_ok(2) [OF fits] by simp
  then obtain r where r: "encode_message op 0 rid (str_bytes (dumps (failure_body ev e))) None = Inr r"
    using encode_message_resize [OF msg] by blast
  then have "dispatch ev et sv (request_header op rid pl) pl None = (sv', Inr r)"
    using run response_payload_json [OF failure_body_ok(1) [OF fits]]
    by (simp add: dispatch_def Let_def build_error_response_def build_response_def failure_body_def del: dumps.simps)
  moreover have "sv\<lparr>idempotency_cache := idempotency_cache sv\<rparr> = sv" by simp
  ultimately have "process_request ev et sv cid msg =
      (sv'\<lparr>idempotency_cache := store_response (idempotency_cache sv') (cid, rid, op) r (now ev)\<rparr>, r)"
    using decode_encoded [OF msg] get_response_absent [OF fresh, of "now ev"]
    by (simp add: process_request_def Let_def)
  with r show ?thesis by blast
qed

lemma call_error:
  assumes c: "client_ok seg c" and h: "get_handler (handlers c) op = Inr h" "\<not> is_orchestrator h"
    and spec: "build_request h kw = Inr spec" "spec_opcode spec = op" "encode_payload spec = Inr pl"
    and rid: "rid = (case ov of Some i \<Rightarrow> i | None \<Rightarrow> current_id c + 1)" "0 \<le> rid" "rid < 2 ^ 32"
    and sizes: "0 \<le> op" "op < 256" "int (length pl) \<le> MAX_PAYLOAD_LEN"
    and fresh: "dict_get (idempotency_cache sv) (cid, rid, op) = None"
    and run: "run_handler (evs i) et sv (request_header op rid pl) pl None = Some (sv', Inl e)"
    and fits: "failure_fits (evs i) e"
  shows "\<exists>c' r. execute_with orch ev (peer_network seg (agent_serve evs et cid)) (sv, i) c op ov kw =
      ((sv'\<lparr>idempotency_cache := store_response (idempotency_cache sv') (cid, rid, op) r (now (evs i))\<rparr>, i + 1), c',
       parse_client_response h (JInt (code_value (fst (error_status (evs i) e)))) (failure_body (evs i) e) None) \<and>
    client_ok seg c' \<and> current_id c' = current_id c + 1"
proof -
  obtain msg where msg: "encode_message op 0 rid pl None = Inr msg"
    using encode_message_exists [OF sizes(1,2) rid(2,3) sizes(3)] by blast
  obtain r where r: "process_request (evs i) et sv cid msg =
      (sv'\<lparr>idempotency_cache := store_response (idempotency_cache sv') (cid, rid, op) r (now (evs i))\<rparr>, r)"
    "encode_message op 0 rid (str_bytes (dumps (failure_body (evs i) e))) None = Inr r"
    using process_request_failure [OF msg fresh run fits] by blast
  have serve: "agent_serve evs et cid (sv, i) msg =
      ((sv'\<lparr>idempotency_cache := store_response (idempotency_cache sv') (cid, rid, op) r (now (evs i))\<rparr>, i + 1), r)"
    by (simp add: agent_serve_def r(1))
  have req: "request_of spec rid = Inr msg" using msg spec by (simp add: request_of_def)
  have c': "link_ready seg c" "active_request_override c = None" using c by (auto simp: client_ok_def)
  have dec: "decode_response ev (str_bytes (dumps (failure_body (evs i) e))) =
      Inr (JInt (code_value (fst (error_status (evs i) e))), failure_body (evs i) e, None)"
    using decode_response_json failure_body_ok [OF fits] by (simp add: failure_body_def del: dumps.simps)
  show ?thesis
    using peer.execute_ok [where serve = "agent_serve evs et cid", OF c' h spec(1) req rid(1) serve r(2) dec, of orch] c
    by (auto simp: client_ok_def)
qed

section \<open>GET\<close>

text \<open>A failed operation, as the client reports it.\<close>

definition failed :: "ErrorCode \<Rightarrow> string \<Rightarrow> OperationResult" where
  "failed code msg = \<lparr>res_status = JInt (code_value code), res_data = NoData, res_error = JStr msg\<rparr>"

lemma parse_get_failure:
  "fst (error_status ev e) = k \<Longrightarrow> k \<noteq> OK \<Longrightarrow> parse_get (JInt (code_value k)) (failure_body ev e) None = Inr (failed k (snd (error_status ev e)))"
  by (cases k) (simp_all add: parse_get_def status_is_def error_result_def failure_body_def response_body_def failed_def error_simps)

text \<open>A GET whose handler raises \<open>e\<close>.\<close>

lemma client_get_failure:
  assumes "client_ok seg c" "current_id c + 1 < 2 ^ 32" "name_ok f"
    and "handle_get (policy_guard sv) (sandbox_disk sv) (str_bytes (dumps (name_json f))) = Inl e"
    and "failure_fits (evs i) e" "fst (error_status (evs i) e) \<noteq> OK"
    and "dict_get (idempotency_cache sv) (cid, current_id c + 1, OP_GET) = None"
  shows "\<exists>c' r. execute ev ld (peer_network seg (agent_serve evs et cid)) (sv, i) c OP_GET None (KwGet (JStr f)) =
      ((sv\<lparr>idempotency_cache := store_response (idempotency_cache sv) (cid, current_id c + 1, OP_GET) r (now (evs i))\<rparr>, i + 1),
       c', Inr (failed (fst (error_status (evs i) e)) (snd (error_status (evs i) e))))"
proof -
  let ?pl = "str_bytes (dumps (name_json f))"
  have spec: "encode_payload (build_get (JStr f)) = Inr ?pl" "spec_opcode (build_get (JStr f)) = OP_GET"
    using name_json_ok [OF assms(3)] by (simp_all add: encode_payload_def build_get_def py_encode_dumps del: dumps.simps)
  have run: "run_handler (evs i) et sv (request_header OP_GET (current_id c + 1) ?pl) ?pl None = Some (sv, Inl e)"
    using assms(4) by (simp add: run_handler_def Let_def opcode_consts del: dumps.simps)
  have len: "int (length ?pl) \<le> MAX_PAYLOAD_LEN" using name_json_length [OF assms(3)] by (simp add: size_consts del: dumps.simps)
  have id: "0 \<le> current_id c + 1" using assms(1) by (simp add: client_ok_def)
  show ?thesis
    using call_error [where evs = evs and i = i and kw = "KwGet (JStr f)" and ov = None and ev = ev and
        orch = "run_orchestrator ev ld (peer_network seg (agent_serve evs et cid))",
        OF assms(1) client_ok_handlers(1) [OF assms(1)] _ _ spec(2,1) _ id assms(2) _ _ len assms(7) run assms(5)]
      parse_get_failure [OF refl assms(6)]
    by (auto simp: execute_def is_orchestrator_def opcode_consts simp del: dumps.simps)
qed

text \<open>The statuses of the exceptions that a GET raises.\<close>

lemma contains_set: "contains p s \<Longrightarrow> set p \<subseteq> set s"
  by (auto simp: contains_iff)

lemma ascii_lower_append: "ascii_lower (s @ t) = ascii_lower s @ ascii_lower t"
  by (simp add: ascii_lower_def)

lemma digit_range: "0 \<le> n \<Longrightarrow> c \<in> set (string_of_int n) \<Longrightarrow> 48 \<le> (of_char c :: nat) \<and> (of_char c :: nat) \<le> 57"
  using string_of_nat_digits [of c "nat n"] by (auto simp: string_of_int_def digit_val_def split: if_splits)

lemma digits_lower: "0 \<le> n \<Longrightarrow> ascii_lower (string_of_int n) = string_of_int n"
  using digit_range [of n] by (fastforce simp: ascii_lower_def Let_def intro!: map_idI)

lemma too_large_status:
  assumes "0 \<le> n"
  shows "value_error_code (''File too large: '' @ string_of_int n @ '' > '' @ string_of_int MAX_FILE_SIZE) = PAYLOAD_TOO_LARGE"
proof -
  let ?s = "''file too large: '' @ string_of_int n @ '' > '' @ string_of_int MAX_FILE_SIZE"
  have l: "ascii_lower (''File too large: '' @ string_of_int n @ '' > '' @ string_of_int MAX_FILE_SIZE) = ?s"
  proof -
    have "ascii_lower ''File too large: '' = ''file too large: ''" "ascii_lower '' > '' = '' > ''" by (code_simp, code_simp)
    then show ?thesis
      unfolding ascii_lower_append using digits_lower [OF assms] digits_lower [of MAX_FILE_SIZE] by (simp add: size_consts)
  qed
  have "CHR ''v'' \<notin> set (string_of_int k) \<and> CHR ''w'' \<notin> set (string_of_int k)" if "0 \<le> k" for k
    using digit_range [OF that, of "CHR ''v''"] digit_range [OF that, of "CHR ''w''"] by auto
  then have "\<not> contains ''traversal'' ?s" "\<not> contains ''not allowed'' ?s"
    using assms contains_set [of "''traversal''" ?s] contains_set [of "''not allowed''" ?s] by (auto simp: size_consts)
  moreover have "contains ''too large'' ?s"
    unfolding contains_iff by (rule exI [of _ "''file ''"], rule exI [of _ "'': '' @ string_of_int n @ '' > '' @ string_of_int MAX_FILE_SIZE"]) simp
  ultimately show ?thesis unfolding value_error_code_def Let_def l by (simp only: if_False if_True simp_thms)
qed

lemma get_statuses:
  "error_status ev (ValueError ''Path traversal detected'') = (FORBIDDEN, ''Path traversal detected'')"
  "error_status ev (FileNotFoundError m) = (NOT_FOUND, m)"
  "error_status ev OSError = (INTERNAL_SERVER_ERROR, ''Internal Server Error'')"
proof -
  have "value_error_code ''Path traversal detected'' = FORBIDDEN" by code_simp
  then show "error_status ev (ValueError ''Path traversal detected'') = (FORBIDDEN, ''Path traversal detected'')"
    by (simp add: error_status_def)
qed (simp_all add: error_status_def)

lemma validate_path_Inl:
  assumes "clean_abs (sandbox_root g)" "f \<noteq> []" "validate_path g f = Inl e"
  shows "e = ValueError ''Path traversal detected''"
proof -
  have r: "starts_slash (sandbox_root g)" using assms(1) by (simp add: clean_abs_def)
  have j: "starts_slash (os_join (sandbox_root g) f)" using os_join_absolute [OF r] .
  then have "starts_slash (normpath (os_join (sandbox_root g) f))" using normpath_clean(1) [OF j] by (simp add: clean_abs_def)
  then show ?thesis
    using assms(2,3) j r by (auto simp: validate_path_def Let_def abspath_def commonpath_def split: if_splits)
qed

text \<open>What the handler of GET does, case by case.\<close>

lemma handle_get_cases:
  assumes "name_ok f" "clean_abs (sandbox_root g)"
  shows "handle_get g d (str_bytes (dumps (name_json f))) =
    (case validate_path g f of
       Inl _ \<Rightarrow> Inl (ValueError ''Path traversal detected'')
     | Inr p \<Rightarrow>
         if \<not> os_exists d p then Inl (FileNotFoundError (''File not found: '' @ f))
         else ebind (os_getsize d p) (\<lambda>n.
           if MAX_FILE_SIZE < n then Inl (ValueError (''File too large: '' @ string_of_int n @ '' > '' @ string_of_int MAX_FILE_SIZE))
           else ebind (read_bytes d p) (\<lambda>content. Inr (Result [(''filename'', JStr f), (''size'', JInt n)] (Some content)))))"
proof -
  have ok: "json_ok (name_json f)" using name_json_ok [OF assms(1)] .
  have "str_bytes (dumps (name_json f)) \<noteq> []" by (simp add: str_bytes_def)
  moreover have "f \<noteq> []" using assms(1) by (simp add: name_ok_def)
  ultimately show ?thesis
    using validate_path_Inl [OF assms(2)]
    by (auto simp: handle_get_def parse_json_payload_dumps [OF ok] required_filename_ok require_def ebind_def catching_def
        simp del: dumps.simps split: sum.split)
qed

text \<open>What a path of the sandbox can lead to.\<close>

lemma get_target:
  assumes "\<forall>p content. dict_get (files d) p = Some content \<longrightarrow> int (length content) + 8192 \<le> MAX_PAYLOAD_LEN \<or>
      MAX_FILE_SIZE < int (length content) \<and> int (length content) < 10 ^ 15"
    and "\<forall>p n. dict_get (dirs d) p = Some n \<longrightarrow> dict_get (files d) p = None \<and> n \<le> MAX_FILE_SIZE"
  obtains (absent) "\<not> os_exists d p"
    | (dir) n where "os_exists d p" "dict_get (dirs d) p = Some n" "dict_get (files d) p = None"
    | (large) content where "os_exists d p" "dict_get (files d) p = Some content" "MAX_FILE_SIZE < int (length content)"
    | (small) content where "os_exists d p" "dict_get (files d) p = Some content" "int (length content) + 8192 \<le> MAX_PAYLOAD_LEN" "dict_get (dirs d) p = None"
proof (cases "os_exists d p")
  case True
  show thesis
  proof (cases "dict_get (files d) p")
    case None
    then show thesis using True dir by (auto simp: os_exists_def dict_has_def)
  next
    case (Some content)
    then show thesis using True large small assms by (cases "dict_get (dirs d) p") fastforce+
  qed
qed (rule absent)

definition too_large :: "bytes \<Rightarrow> string" where
  "too_large content = ''File too large: '' @ string_of_int (int (length content)) @ '' > '' @ string_of_int MAX_FILE_SIZE"

lemma get_too_large:
  assumes "os_exists d p" "dict_get (files d) p = Some content" "MAX_FILE_SIZE < int (length content)" "int (length content) < 10 ^ 15"
  shows "ebind (os_getsize d p) (\<lambda>n. if MAX_FILE_SIZE < n then Inl (ValueError (''File too large: '' @ string_of_int n @ '' > '' @ string_of_int MAX_FILE_SIZE))
      else k n) = Inl (ValueError (too_large content))"
    and "error_status ev (ValueError (too_large content)) = (PAYLOAD_TOO_LARGE, too_large content)"
    and "failure_fits ev (ValueError (too_large content))"
proof -
  show st: "error_status ev (ValueError (too_large content)) = (PAYLOAD_TOO_LARGE, too_large content)"
    using too_large_status [of "int (length content)"] by (simp add: error_status_def too_large_def)
  show "failure_fits ev (ValueError (too_large content))"
    using string_of_int_length [of 15 "int (length content)"] string_of_int_length [of 7 MAX_FILE_SIZE] assms(4)
    unfolding failure_fits_def st by (simp add: too_large_def encodable_ascii string_of_int_ascii size_consts)
qed (use assms in \<open>simp add: os_getsize_def os_exists_def ebind_def too_large_def\<close>)

section \<open>Properties\<close>

text \<open>
  C15. A GET always tells the client what happened. Whatever name it asks for, the operation ends
  with a result and the server's disk unchanged: status 403 for a path outside the sandbox, 404 with the
  name for a file that is not there, 500 for a directory, 413 for a file above the limit, and 200
  with exactly the contents otherwise (for files that leave room for the envelope's metadata).
\<close>

theorem get_reports_every_outcome:
  assumes "client_ok seg c" and "current_id c + 1 < 2 ^ 32" and "name_ok f" and "clean_abs (sandbox_root (policy_guard sv))"
    and "dict_get (idempotency_cache sv) (cid, current_id c + 1, OP_GET) = None"
    and "\<forall>p content. dict_get (files (sandbox_disk sv)) p = Some content \<longrightarrow> int (length content) + 8192 \<le> MAX_PAYLOAD_LEN \<or>
      MAX_FILE_SIZE < int (length content) \<and> int (length content) < 10 ^ 15"
    and "\<forall>p n. dict_get (dirs (sandbox_disk sv)) p = Some n \<longrightarrow> dict_get (files (sandbox_disk sv)) p = None \<and> n \<le> MAX_FILE_SIZE"
  shows "\<exists>sv' c' res. execute ev ld (peer_network seg (agent_serve evs et cid)) (sv, i) c OP_GET None (KwGet (JStr f)) =
      ((sv', i + 1), c', Inr res) \<and> sandbox_disk sv' = sandbox_disk sv \<and>
    (case validate_path (policy_guard sv) f of
       Inl _ \<Rightarrow> res = failed FORBIDDEN ''Path traversal detected''
     | Inr p \<Rightarrow>
         if \<not> os_exists (sandbox_disk sv) p then res = failed NOT_FOUND (''File not found: '' @ f)
         else case dict_get (files (sandbox_disk sv)) p of
           None \<Rightarrow> res = failed INTERNAL_SERVER_ERROR ''Internal Server Error''
         | Some content \<Rightarrow>
             if MAX_FILE_SIZE < int (length content) then res_status res = JInt 413 \<and> res_data res = NoData
             else res = success (BinData content))"
proof -
  let ?d = "sandbox_disk sv" and ?g = "policy_guard sv"
  note fail = client_get_failure [OF assms(1-3) _ _ _ assms(5), where ev = ev and ld = ld and evs = evs and et = et and i = i]
  note cases = handle_get_cases [OF assms(3,4), of ?d]
  have f: "f \<noteq> []" "encodable f" "length f \<le> 1024" using assms(3) by (auto simp: name_ok_def)
  show ?thesis
  proof (cases "validate_path ?g f")
    case (Inl e)
    then have "handle_get ?g ?d (str_bytes (dumps (name_json f))) = Inl (ValueError ''Path traversal detected'')" by (simp add: cases del: dumps.simps)
    from fail [OF this] Inl show ?thesis by (auto simp: get_statuses failure_fits_def encodable_ascii simp del: dumps.simps)
  next
    case (Inr p)
    show ?thesis
    proof (cases rule: get_target [OF assms(6,7), of p, case_names absent dir large small])
      case absent
      then have "handle_get ?g ?d (str_bytes (dumps (name_json f))) = Inl (FileNotFoundError (''File not found: '' @ f))" by (simp add: cases Inr del: dumps.simps)
      note x = fail [OF this]
      have "failure_fits (evs i) (FileNotFoundError (''File not found: '' @ f))"
        using f encodable_append [of "''File not found: ''" f] by (simp add: failure_fits_def get_statuses encodable_ascii)
      from x [OF this] show ?thesis using Inr absent unfolding get_statuses by auto
    next
      case (dir n)
      then have "handle_get ?g ?d (str_bytes (dumps (name_json f))) = Inl OSError"
        using assms(7) [rule_format, OF dir(2)] by (auto simp: cases Inr os_exists_def os_getsize_def read_bytes_def dict_has_def ebind_def simp del: dumps.simps)
      from fail [OF this] Inr dir show ?thesis by (auto simp: get_statuses failure_fits_def encodable_ascii simp del: dumps.simps)
    next
      case (large content)
      have "int (length content) < 10 ^ 15" using assms(6) large by (fastforce simp: size_consts)
      note x = get_too_large [OF large this]
      have "handle_get ?g ?d (str_bytes (dumps (name_json f))) = Inl (ValueError (too_large content))"
        using x(1) unfolding cases Inr by (simp add: large(1) too_large_def)
      from fail [OF this x(3)] show ?thesis using Inr large unfolding x(2) by (auto simp: failed_def)
    next
      case (small content)
      then have "read_bytes ?d p = Inr content" by (simp add: read_bytes_def os_exists_def dict_has_def)
      from client_get [OF assms(1-3) Inr this small(3) assms(5), where ev = ev and ld = ld and evs = evs and et = et and i = i]
      show ?thesis using Inr small by (auto simp: size_consts)
    qed
  qed
qed

section \<open>A sample\<close>

theorem get_reports_every_outcome_witness:
  "\<exists>sv1 c1 sv2 c2. let net = peer_network (\<lambda>r. [r]) (agent_serve (\<lambda>_. sample_env) (\<lambda>_ v. v) ''10.0.0.7:5000'') in
    execute sample_env sample_disk net (sample_server, 0) (new_AgentClient Rudp) OP_GET None (KwGet (JStr ''../x'')) =
      ((sv1, 1), c1, Inr (failed FORBIDDEN ''Path traversal detected'')) \<and>
    execute sample_env sample_disk net (sample_server, 0) (new_AgentClient Rudp) OP_GET None (KwGet (JStr ''h.txt'')) =
      ((sv2, 1), c2, Inr (failed NOT_FOUND (''File not found: '' @ ''h.txt'')))"
proof -
  have root: "clean_abs (sandbox_root (policy_guard sample_server))"
    by (simp add: sample_server_fields sample_guard_root clean_abs_def starts_slash_def path_comps_def plain_comp_def)
  have files: "\<forall>p content. dict_get (files (sandbox_disk sample_server)) p = Some content \<longrightarrow> int (length content) + 8192 \<le> MAX_PAYLOAD_LEN \<or>
      MAX_FILE_SIZE < int (length content) \<and> int (length content) < 10 ^ 15"
    by (simp add: sample_server_fields sample_disk_def size_consts)
  have dirs: "\<forall>p n. dict_get (dirs (sandbox_disk sample_server)) p = Some n \<longrightarrow>
      dict_get (files (sandbox_disk sample_server)) p = None \<and> n \<le> MAX_FILE_SIZE"
    by (auto simp: sample_server_fields sample_disk_def size_consts)
  have id: "current_id (new_AgentClient Rudp) + 1 < 2 ^ 32" using sample_client(2) by simp
  have fresh: "dict_get (idempotency_cache sample_server) (''10.0.0.7:5000'', current_id (new_AgentClient Rudp) + 1, OP_GET) = None"
    by (simp add: sample_server_fields)
  have n: "name_ok ''../x''" "name_ok ''h.txt''" by (simp_all add: name_ok_def encodable_ascii)
  note g = get_reports_every_outcome [OF sample_client(1) id _ root fresh files dirs, where ev = sample_env and ld = sample_disk and
      evs = "\<lambda>_. sample_env" and et = "\<lambda>_ v. v" and i = 0]
  have "isl (validate_path sample_guard ''../x'')" by code_simp
  then obtain e where e: "validate_path (policy_guard sample_server) ''../x'' = Inl e" by (auto simp: sample_server_fields isl_def)
  have h: "validate_path (policy_guard sample_server) ''h.txt'' = Inr ''/srv/box/h.txt''" "\<not> os_exists (sandbox_disk sample_server) ''/srv/box/h.txt''"
    by (simp_all add: sample_server_fields sample_path os_exists_def sample_disk_def dict_has_def)
  from g [OF n(1)] obtain sv1 c1 where "execute sample_env sample_disk (peer_network (\<lambda>r. [r]) (agent_serve (\<lambda>_. sample_env) (\<lambda>_ v. v) ''10.0.0.7:5000''))
      (sample_server, 0) (new_AgentClient Rudp) OP_GET None (KwGet (JStr ''../x'')) = ((sv1, 1), c1, Inr (failed FORBIDDEN ''Path traversal detected''))"
    unfolding e by auto
  moreover from g [OF n(2)] obtain sv2 c2 where "execute sample_env sample_disk (peer_network (\<lambda>r. [r]) (agent_serve (\<lambda>_. sample_env) (\<lambda>_ v. v) ''10.0.0.7:5000''))
      (sample_server, 0) (new_AgentClient Rudp) OP_GET None (KwGet (JStr ''h.txt'')) = ((sv2, 1), c2, Inr (failed NOT_FOUND (''File not found: '' @ ''h.txt'')))"
    unfolding h using h(2) by auto
  ultimately show ?thesis unfolding Let_def by blast
qed

end
