(* ===== verification/AgentTasks.thy ===== *)
theory AgentTasks
  imports AgentSystem
begin

text \<open>
  Tasks end to end: the client's task (\<^verbatim>\<open>src/client/agent/handlers/task.py\<close>) sent to the server, planned,
  executed and answered (\<^verbatim>\<open>src/server/agent/handlers/task.py\<close>, \<^verbatim>\<open>planner.py\<close>, \<^verbatim>\<open>tool_dispatcher.py\<close>).
  Shown: SEARCH_REPORT returns exactly the numbered lines that contain the text, in whichever mode the
  server reads the file; HASH_AND_STORE stores the digest; FILTER_LINES writes the lines that contain
  the text, and returns nothing at all when it is given no file to write to; a report that is
  too large for an answer ends in an artifact of the sandbox; a client can be answered with the result of
  another client's task.
\<close>

section \<open>A task at the server\<close>

definition is_task :: "int \<Rightarrow> bool" where
  "is_task op \<longleftrightarrow> op \<in> {OP_TASK_SEARCH_REPORT, OP_TASK_FILTER_LINES, OP_TASK_HASH_AND_STORE}"

lemma is_task_bounds: "is_task op \<Longrightarrow> 0 \<le> op \<and> op < 256"
  by (auto simp: is_task_def opcode_consts)

text \<open>The context in which a request with identifier \<open>rid\<close> is planned.\<close>

definition task_start :: "int \<Rightarrow> int option \<Rightarrow> task_context" where
  "task_start rid fsize = \<lparr>client_id = ''default_client'', req_id = string_of_int rid, file_size = fsize, has_plan = True\<rparr>"

lemma process_request_task:
  assumes msg: "encode_message op 0 rid (str_bytes (dumps (JDict kw))) None = Inr msg" and kw: "json_ok (JDict kw)" and op: "is_task op"
    and fresh: "dict_get (idempotency_cache sv) (cid, rid, op) = None" "dict_get (idempotency_cache sv) (''default_client'', rid, op) = None"
    and plan: "stat_input sv kw = Inr fsize" "build_plan ev et op kw (task_start rid fsize) = Inr plan"
    and run: "execute_plan ev (policy_guard sv) (sandbox_disk sv) plan = (d', Inr result)" and fits: "answer_fits result None"
  shows "\<exists>sv' r. process_request ev et sv cid msg = (sv', r) \<and> encode_message op 0 rid (answer_bytes result None) None = Inr r \<and>
    sandbox_disk sv' = d' \<and> policy_guard sv' = policy_guard sv \<and>
    idempotency_cache sv' = store_response (if side_effects plan
      then store_response (idempotency_cache sv) (''default_client'', rid, op) r (now ev) else idempotency_cache sv) (cid, rid, op) r (now ev)"
proof -
  let ?pl = "str_bytes (dumps (JDict kw))"
  obtain r where r: "encode_message op 0 rid (answer_bytes result None) None = Inr r"
    using encode_message_resize [OF msg answer_fits_body(3) [OF fits]] by blast
  have "parse_task ?pl = Inr kw" by (simp add: parse_task_def parse_json_payload_dumps [OF kw] del: dumps.simps)
  moreover have "build_response op rid 200 (JDict result) None None = Inr r"
    using r by (simp add: build_response_def answer_payload [OF fits])
  ultimately obtain sv' where sv': "handle_task ev et sv (request_header op rid ?pl) ?pl None = (sv', Inr (Response r))"
    "sandbox_disk sv' = d'" "policy_guard sv' = policy_guard sv"
    "idempotency_cache sv' = (if side_effects plan
      then store_response (idempotency_cache sv) (''default_client'', rid, op) r (now ev) else idempotency_cache sv)"
    using fresh(2) plan run
    by (simp add: handle_task_def Let_def task_client_id_def get_response_absent task_start_def del: dumps.simps)
  then have "dispatch ev et sv (request_header op rid ?pl) ?pl None = (sv', Inr r)"
    using op by (auto simp: dispatch_def run_handler_def is_task_def opcode_consts Let_def simp del: dumps.simps)
  moreover have "sv\<lparr>idempotency_cache := idempotency_cache sv\<rparr> = sv" by simp
  ultimately have "process_request ev et sv cid msg =
      (sv'\<lparr>idempotency_cache := store_response (idempotency_cache sv') (cid, rid, op) r (now ev)\<rparr>, r)"
    using decode_encoded [OF msg] get_response_absent [OF fresh(1), of "now ev"]
    by (simp add: process_request_def Let_def del: dumps.simps)
  then show ?thesis using r sv'(2-4) by auto
qed

section \<open>A task of the client\<close>

lemma client_ok_tasks:
  assumes "client_ok seg c" "is_task op"
  shows "get_handler (handlers c) op = Inr (TaskHandler op)"
  using assms by (auto simp: client_ok_def new_AgentClient_def register_handler_def get_handler_def is_task_def opcode_consts)

text \<open>The answer of a task, as the client reports it.\<close>

definition task_answer :: "(string, json) dict \<Rightarrow> OperationResult" where
  "task_answer result = success (JsonData (response_body 200 (JDict result) None))"

text \<open>An answer that names an artifact ends in a failure, whatever the task has done.\<close>

definition task_outcome :: "env \<Rightarrow> (string, json) dict \<Rightarrow> OperationResult" where
  "task_outcome ev result =
     (case dict_get result ''artifact_path'' of
        Some (JStr path) \<Rightarrow> if path = [] then task_answer result
          else failure_result 500 (''Artifact Retrieval Failed: '' @ err_str ev AttributeError)
      | _ \<Rightarrow> task_answer result)"

lemma client_task_answered:
  assumes c: "client_ok seg c" "current_id c + 1 < 2 ^ 32" and kw: "json_ok (JDict kw)" "int (length (dumps (JDict kw))) \<le> MAX_PAYLOAD_LEN"
    and op: "is_task op"
    and served: "\<And>msg. encode_message op 0 (current_id c + 1) (str_bytes (dumps (JDict kw))) None = Inr msg \<Longrightarrow>
      \<exists>r. process_request (evs i) et sv cid msg = (sv', r) \<and> encode_message op 0 (current_id c + 1) (answer_bytes result None) None = Inr r"
    and result: "answer_fits result None" "dict_get result ''artifact_path'' \<in> {None} \<union> range (Some \<circ> JStr)"
  shows "\<exists>c'. execute ev ld (peer_network seg (agent_serve evs et cid)) (sv, i) c op None (KwTask kw) =
      ((sv', i + 1), c', Inr (task_outcome ev result)) \<and> client_ok seg c'"
proof -
  let ?net = "peer_network seg (agent_serve evs et cid)" and ?rid = "current_id c + 1"
  let ?pl = "str_bytes (dumps (JDict kw))"
  have c': "link_ready seg c" "active_request_override c = None" "0 \<le> ?rid" using c(1) by (auto simp: client_ok_def)
  obtain msg where msg: "encode_message op 0 ?rid ?pl None = Inr msg"
    using encode_message_exists [of op ?rid ?pl] is_task_bounds [OF op] c(2) c'(3) kw(2) by (auto simp del: dumps.simps)
  obtain r where p: "process_request (evs i) et sv cid msg = (sv', r)" "encode_message op 0 ?rid (answer_bytes result None) None = Inr r"
    using served [OF msg] by blast
  have serve: "agent_serve evs et cid (sv, i) msg = ((sv', i + 1), r)" by (simp add: agent_serve_def p(1))
  have req: "request_of (build_task op kw) ?rid = Inr msg"
    using msg py_encode_dumps [OF kw(1)] by (simp add: request_of_def build_task_def encode_payload_def del: dumps.simps)
  obtain c2 where c2: "send_request_spec ev ?net (sv, i) c (build_task op kw) =
      ((sv', i + 1), c2, Inr (JInt 200, response_body 200 (JDict result) None, None))" "link_ready seg c2"
      "current_id c2 = ?rid" "handlers c2 = handlers c" "active_request_override c2 = None"
    using peer.send_request_spec_ok [where serve = "agent_serve evs et cid", OF c'(1) req _ serve p(2) decode_answer [OF result(1), of ev]] c'(2) by auto
  then have "task_run ev ?net (sv, i) c op kw = ((sv', i + 1), c2, Inr (task_outcome ev result))"
    using result(2) by (auto simp: task_run_def parse_task_response_def task_outcome_def task_answer_def success_def response_body_def)
  moreover have "c2\<lparr>active_request_override := None\<rparr> = c2" using c2(5) by simp
  ultimately have "execute ev ld ?net (sv, i) c op None (KwTask kw) = ((sv', i + 1), c2, Inr (task_outcome ev result))"
    using client_ok_tasks [OF c(1) op] c'(2)
    by (simp add: execute_def execute_with_def is_orchestrator_def run_orchestrator_def)
  moreover have "client_ok seg c2" using c(1) c2 by (simp add: client_ok_def)
  ultimately show ?thesis by blast
qed

lemma client_task_outcome:
  assumes c: "client_ok seg c" "current_id c + 1 < 2 ^ 32" and kw: "json_ok (JDict kw)" "int (length (dumps (JDict kw))) \<le> MAX_PAYLOAD_LEN"
    and op: "is_task op"
    and fresh: "dict_get (idempotency_cache sv) (cid, current_id c + 1, op) = None"
      "dict_get (idempotency_cache sv) (''default_client'', current_id c + 1, op) = None"
    and plan: "stat_input sv kw = Inr fsize" "build_plan (evs i) et op kw (task_start (current_id c + 1) fsize) = Inr plan"
    and run: "execute_plan (evs i) (policy_guard sv) (sandbox_disk sv) plan = (d', Inr result)"
    and result: "answer_fits result None" "dict_get result ''artifact_path'' \<in> {None} \<union> range (Some \<circ> JStr)"
  shows "\<exists>sv' c' r. execute ev ld (peer_network seg (agent_serve evs et cid)) (sv, i) c op None (KwTask kw) =
      ((sv', i + 1), c', Inr (task_outcome ev result)) \<and> sandbox_disk sv' = d' \<and> policy_guard sv' = policy_guard sv \<and> client_ok seg c' \<and>
    encode_message op 0 (current_id c + 1) (answer_bytes result None) None = Inr r \<and>
    idempotency_cache sv' = store_response (if side_effects plan
      then store_response (idempotency_cache sv) (''default_client'', current_id c + 1, op) r (now (evs i)) else idempotency_cache sv)
      (cid, current_id c + 1, op) r (now (evs i))"
proof -
  let ?rid = "current_id c + 1" and ?pl = "str_bytes (dumps (JDict kw))"
  have "0 \<le> ?rid" using c(1) by (simp add: client_ok_def)
  then obtain msg where msg: "encode_message op 0 ?rid ?pl None = Inr msg"
    using encode_message_exists [of op ?rid ?pl] is_task_bounds [OF op] c(2) kw(2) by (auto simp del: dumps.simps)
  obtain sv' r where p: "process_request (evs i) et sv cid msg = (sv', r)" "encode_message op 0 ?rid (answer_bytes result None) None = Inr r"
    "sandbox_disk sv' = d'" "policy_guard sv' = policy_guard sv"
    "idempotency_cache sv' = store_response (if side_effects plan
      then store_response (idempotency_cache sv) (''default_client'', ?rid, op) r (now (evs i)) else idempotency_cache sv)
      (cid, ?rid, op) r (now (evs i))"
    using process_request_task [OF msg kw(1) op fresh plan run result(1)] by blast
  have served: "\<exists>r. process_request (evs i) et sv cid m = (sv', r) \<and> encode_message op 0 ?rid (answer_bytes result None) None = Inr r"
    if "encode_message op 0 ?rid ?pl None = Inr m" for m
    using that msg p(1,2) by simp
  obtain c' where "execute ev ld (peer_network seg (agent_serve evs et cid)) (sv, i) c op None (KwTask kw) =
      ((sv', i + 1), c', Inr (task_outcome ev result))" "client_ok seg c'"
    using client_task_answered [where evs = evs and i = i and sv' = sv', OF c kw op served result] by blast
  with p(2-5) show ?thesis by blast
qed

lemma client_task:
  assumes c: "client_ok seg c" "current_id c + 1 < 2 ^ 32" and kw: "json_ok (JDict kw)" "int (length (dumps (JDict kw))) \<le> MAX_PAYLOAD_LEN"
    and op: "is_task op"
    and fresh: "dict_get (idempotency_cache sv) (cid, current_id c + 1, op) = None"
      "dict_get (idempotency_cache sv) (''default_client'', current_id c + 1, op) = None"
    and plan: "stat_input sv kw = Inr fsize" "build_plan (evs i) et op kw (task_start (current_id c + 1) fsize) = Inr plan"
    and run: "execute_plan (evs i) (policy_guard sv) (sandbox_disk sv) plan = (d', Inr result)"
    and result: "answer_fits result None" "dict_get result ''artifact_path'' = None"
  shows "\<exists>sv' c'. execute ev ld (peer_network seg (agent_serve evs et cid)) (sv, i) c op None (KwTask kw) =
      ((sv', i + 1), c', Inr (task_answer result)) \<and> sandbox_disk sv' = d' \<and> policy_guard sv' = policy_guard sv \<and> client_ok seg c'"
proof -
  have "task_outcome ev result = task_answer result" "dict_get result ''artifact_path'' \<in> {None} \<union> range (Some \<circ> JStr)"
    using result(2) by (simp_all add: task_outcome_def)
  then show ?thesis
    using client_task_outcome [where evs = evs and i = i, OF c kw op fresh plan run result(1)] by metis
qed

section \<open>SEARCH\_REPORT\<close>

text \<open>The reference: every line that contains the text, with its number, without surrounding space.\<close>

definition grep :: "nat \<Rightarrow> string \<Rightarrow> string list \<Rightarrow> string list" where
  "grep i pat ls = map (\<lambda>(n, l). ''Line '' @ string_of_nat (n + 1) @ '': '' @ py_strip l)
     (filter (\<lambda>(n, l). contains pat l) (enumerate i ls))"

definition search_report :: "string list \<Rightarrow> string" where
  "search_report found = ''Search Found '' @ string_of_nat (length found) @ '' matches:'' @ [CHR 0x0A] @ join [CHR 0x0A] found"

lemma search_loop_grep:
  "length acc + length (filter (contains pat) ls) \<le> 1000 \<Longrightarrow> search_loop pat i acc ls = acc @ grep i pat ls"
proof (induction ls arbitrary: i acc)
  case (Cons l ls)
  then show ?case by (cases "contains pat l") (simp_all add: grep_def Let_def)
qed (simp add: grep_def)

lemma grep_length: "length (grep i pat ls) = length (filter (contains pat) ls)"
  by (induction ls arbitrary: i) (simp_all add: grep_def)

lemma search_steps:
  assumes "validate_path g f = Inr p" "f \<noteq> []" "read_bytes d p = Inr bs" "int (length bs) \<le> MAX_FILE_SIZE"
    and "encodable (bytes_str bs)" "only_newlines (cps_of (universal_newlines (bytes_str bs)))" "CHR 0x0A \<notin> set q"
    and "build_plan ev et OP_TASK_SEARCH_REPORT [(''input_file'', JStr f), (''query'', JStr q)] c = Inr plan"
    and "found = search_loop q 0 [] (splitlines (universal_newlines (bytes_str bs)))"
  shows "\<exists>c'. execute_steps ev g d (steps plan) (initial_values (initial_context plan)) = (d, Inr c') \<and>
      dict_get c' ''final_output'' = Some (VText (search_report found)) \<and> dict_get c' ''plan_artifact_path'' = None \<and>
      dict_get c' ''client_id'' = Some (VText (client_id c)) \<and> dict_get c' ''request_id'' = Some (VText (req_id c))"
    and "encodable (search_report found)" "output_policy plan = DYNAMIC"
proof -
  let ?s = "universal_newlines (bytes_str bs)"
  have v: "validate_any g (JStr f) = Inr p" using assms(1,2) by (simp add: validate_any_def)
  note both = search_both_modes [OF v assms(3-7)] and rd = read_both_ways [OF v assms(3-5)]
  have st: "steps plan = template_search_report [(''input_file'', JStr f), (''query'', JStr q)] (choose_mode c)"
    "initial_context plan = c" and dyn: "output_policy plan = DYNAMIC"
    using assms(8) by (auto simp: build_plan_def select_template_def opcode_consts Let_def)
  show "\<exists>c'. execute_steps ev g d (steps plan) (initial_values (initial_context plan)) = (d, Inr c') \<and>
      dict_get c' ''final_output'' = Some (VText (search_report found)) \<and> dict_get c' ''plan_artifact_path'' = None \<and>
      dict_get c' ''client_id'' = Some (VText (client_id c)) \<and> dict_get c' ''request_id'' = Some (VText (req_id c))"
    using both rd
    by (cases "choose_mode c")
      (simp_all add: st template_search_report_def read_step_def Let_def execute_step_def step_input_def run_tool_def
        tool_build_report_def arg_def dict_simps initial_values_def search_report_def assms(9) split: option.split)
  have "list_all encodable (splitlines ?s)" by (rule splitlines_encodable [OF universal_newlines_encodable [OF assms(5)]])
  then have "list_all encodable found" using search_loop_encodable [of "[]"] by (simp add: assms(9))
  then show "encodable (search_report found)"
    unfolding search_report_def by (intro encodable_append encodable_number encodable_join) (simp_all add: encodable_ascii)
  show "output_policy plan = DYNAMIC" by (rule dyn)
qed

lemma search_report_not_Nil: "search_report found \<noteq> []"
  by (simp add: search_report_def)

lemma search_plan:
  assumes "validate_path g f = Inr p" "f \<noteq> []" "read_bytes d p = Inr bs" "int (length bs) \<le> MAX_FILE_SIZE"
    and "encodable (bytes_str bs)" "only_newlines (cps_of (universal_newlines (bytes_str bs)))" "CHR 0x0A \<notin> set q"
    and "build_plan ev et OP_TASK_SEARCH_REPORT [(''input_file'', JStr f), (''query'', JStr q)] c = Inr plan"
    and "found = search_loop q 0 [] (splitlines (universal_newlines (bytes_str bs)))" "length (search_report found) \<le> INLINE_LIMIT"
  shows "execute_plan ev g d plan = (d, Inr [(''output'', JStr (search_report found))])" "encodable (search_report found)"
  using search_steps [OF assms(1-9)] search_report_not_Nil assms(10)
  by (auto simp: execute_plan_def finalize_output_def py_encode_def)

text \<open>A report that is too large for an answer is written to a file named after the request.\<close>

definition artifact_name :: "string \<Rightarrow> string" where
  "artifact_name rid = ''artifacts/default_client/'' @ rid @ ''_result.txt''"

lemma search_plan_artifact:
  assumes "validate_path g f = Inr p" "f \<noteq> []" "read_bytes d p = Inr bs" "int (length bs) \<le> MAX_FILE_SIZE"
    and "encodable (bytes_str bs)" "only_newlines (cps_of (universal_newlines (bytes_str bs)))" "CHR 0x0A \<notin> set q"
    and "build_plan ev et OP_TASK_SEARCH_REPORT [(''input_file'', JStr f), (''query'', JStr q)] (task_start rid fsize) = Inr plan"
    and "found = search_loop q 0 [] (splitlines (universal_newlines (bytes_str bs)))" "INLINE_LIMIT < length (search_report found)"
    and "validate_path g (artifact_name (string_of_int rid)) = Inr r" "replaceable ev d r"
  shows "execute_plan ev g d plan =
    (put_file (fst (makedirs (dir_size ev) d (dirname r))) r (str_bytes (search_report found)),
     Inr [(''artifact_path'', JStr (artifact_name (string_of_int rid)))])"
proof -
  note st = search_steps [OF assms(1-9)]
  have w: "atomic_write ev g d (JStr (artifact_name (string_of_int rid))) (CBytes bs') =
      (put_file (fst (makedirs (dir_size ev) d (dirname r))) r bs', None)" for bs'
    using assms(11,12) by (auto simp: atomic_write_def replaceable_def content_bytes_def split: prod.splits)
  have "py_encode (search_report found) = Inr (str_bytes (search_report found))" using st(2) by (simp add: py_encode_def)
  with st(1,3) assms(10) search_report_not_Nil [of found] w show ?thesis
    by (auto simp: execute_plan_def finalize_output_def write_fallback_artifact_def ctx_text_def task_start_def artifact_name_def Let_def)
qed

section \<open>FILTER\_LINES\<close>

text \<open>In memory: the lines that contain the text are written to the given file.\<close>

lemma filter_plan:
  assumes "validate_path g f = Inr p" "f \<noteq> []" "read_bytes d p = Inr bs" "int (length bs) \<le> MAX_FILE_SIZE" "encodable (bytes_str bs)"
    and "validate_path g dst = Inr r" "dst \<noteq> []" "replaceable ev d r" "encodable dst" "length dst \<le> 65000"
    and "build_plan ev et OP_TASK_FILTER_LINES [(''input_file'', JStr f), (''query'', JStr q), (''out_file'', JStr dst)] c = Inr plan"
    and "choose_mode c = MEMORY"
  shows "execute_plan ev g d plan = (put_file (fst (makedirs (dir_size ev) d (dirname r))) r
      (str_bytes (join [CHR 0x0A] (filter (contains q) (splitlines (universal_newlines (bytes_str bs)))))),
    Inr [(''output'', JStr (''Filtered lines written to '' @ dst))])"
proof -
  let ?s = "universal_newlines (bytes_str bs)"
  let ?kept = "filter (contains q) (splitlines ?s)"
  have v: "validate_any g (JStr f) = Inr p" using assms(1,2) by (simp add: validate_any_def)
  have rd: "tool_read_file g d [(''path'', JStr f)] = Inr (VText ?s)" using read_both_ways(1) [OF v assms(3-5)] .
  have "list_all encodable (splitlines ?s)" by (rule splitlines_encodable [OF universal_newlines_encodable [OF assms(5)]])
  then have "encodable (join [CHR 0x0A] ?kept)" by (intro encodable_join) (auto simp: encodable_ascii list_all_iff)
  note w = atomic_write_ok [OF assms(6-8) this]
  have st: "steps plan = template_filter_lines ev [(''input_file'', JStr f), (''query'', JStr q), (''out_file'', JStr dst)] MEMORY (JStr dst)"
    "initial_context plan = c" "output_policy plan = DYNAMIC"
    using assms(11,12) by (auto simp: build_plan_def select_template_def opcode_consts Let_def)
  have "\<exists>c'. execute_steps ev g d (steps plan) (initial_values c) =
        (put_file (fst (makedirs (dir_size ev) d (dirname r))) r (str_bytes (join [CHR 0x0A] ?kept)), Inr c') \<and>
      dict_get c' ''final_output'' = Some (VText (''Filtered lines written to '' @ dst)) \<and> dict_get c' ''plan_artifact_path'' = None"
    using rd w assms(7)
    by (simp add: st template_filter_lines_def read_step_def Let_def execute_step_def step_input_def run_tool_def tool_filter_lines_def
        input_lines_def with_pattern_def tool_write_file_def tool_build_report_def arg_def dict_simps initial_values_def split: option.split)
  moreover have "encodable (''Filtered lines written to '' @ dst)"
    by (rule encodable_append [OF _ assms(9)]) (simp add: encodable_ascii)
  then have "py_encode (''Filtered lines written to '' @ dst) = Inr (str_bytes (''Filtered lines written to '' @ dst))"
    unfolding py_encode_def by (simp only: if_True)
  ultimately show ?thesis using st assms(10) by (auto simp: execute_plan_def finalize_output_def INLINE_LIMIT_def Let_def)
qed

text \<open>Without one nothing is written and nothing is returned.\<close>

lemma filter_plan_lost:
  assumes "validate_path g f = Inr p" "f \<noteq> []" "read_bytes d p = Inr bs" "int (length bs) \<le> MAX_FILE_SIZE" "encodable (bytes_str bs)"
    and "build_plan ev et OP_TASK_FILTER_LINES [(''input_file'', JStr f), (''query'', JStr q)] c = Inr plan"
  shows "execute_plan ev g d plan = (d, Inr [])"
proof -
  have v: "validate_any g (JStr f) = Inr p" using assms(1,2) by (simp add: validate_any_def)
  note rd = read_both_ways [OF v assms(3-5)]
  have st: "steps plan = template_filter_lines ev [(''input_file'', JStr f), (''query'', JStr q)] (choose_mode c) JNull"
    "initial_context plan = c"
    using assms(6) by (auto simp: build_plan_def select_template_def opcode_consts Let_def)
  then show ?thesis
    using rd
    by (cases "choose_mode c")
      (auto simp: execute_plan_def template_filter_lines_def read_step_def Let_def execute_step_def step_input_def run_tool_def
        tool_filter_lines_def input_lines_def [of d "VText t" for t] with_pattern_def arg_def dict_simps initial_values_def split: option.splits)
qed

section \<open>Requests and answers in the envelope\<close>

lemma stat_input_ok:
  assumes "validate_path (policy_guard sv) f = Inr p" "f \<noteq> []" "dict_get kw ''input_file'' = Some (JStr f)"
  shows "\<exists>fsize. stat_input sv kw = Inr fsize"
  using assms by (auto simp: stat_input_def validate_any_def Let_def os_exists_def os_getsize_def dict_has_def split: option.split)

lemma task_kw_ok:
  assumes "name_ok f" "name_ok q" "k \<in> {''query'', ''out_file''}"
  shows "json_ok (JDict [(''input_file'', JStr f), (k, JStr q)])"
    "int (length (dumps (JDict [(''input_file'', JStr f), (k, JStr q)]))) \<le> MAX_PAYLOAD_LEN"
  using assms dumps_str_length [of f] dumps_str_length [of q]
  by (auto simp: name_ok_def dict_ok_def encodable_ascii dumps_str_plain plain_def size_consts)

lemmas query_kw_ok = task_kw_ok [where k = "''query''", OF _ _ insertI1]
  and dest_kw_ok = task_kw_ok [where k = "''out_file''", OF _ _ insertI2 [OF insertI1]]

lemma filter_kw_ok:
  assumes "name_ok f" "name_ok q" "name_ok dst"
  shows "json_ok (JDict [(''input_file'', JStr f), (''query'', JStr q), (''out_file'', JStr dst)])"
    "int (length (dumps (JDict [(''input_file'', JStr f), (''query'', JStr q), (''out_file'', JStr dst)]))) \<le> MAX_PAYLOAD_LEN"
  using assms dumps_str_length [of f] dumps_str_length [of q] dumps_str_length [of dst]
  by (auto simp: name_ok_def dict_ok_def encodable_ascii dumps_str_plain plain_def size_consts)

lemma output_fits:
  assumes "encodable s" "length s \<le> INLINE_LIMIT"
  shows "answer_fits [(''output'', JStr s)] None"
  using assms dumps_str_length [of s]
  by (simp add: answer_fits_def INLINE_LIMIT_def dict_ok_def encodable_ascii dumps_str_plain plain_def size_consts)

lemma artifact_fits:
  assumes "0 \<le> rid" "rid < 2 ^ 32"
  shows "answer_fits [(''artifact_path'', JStr (artifact_name (string_of_int rid)))] None"
proof -
  have "length (string_of_int rid) \<le> 10" by (rule string_of_int_length) (use assms in simp_all)
  moreover have "encodable (artifact_name (string_of_int rid))"
    unfolding artifact_name_def string_of_int_def using assms(1)
    by (intro encodable_append) (simp_all add: encodable_ascii encodable_number)
  ultimately show ?thesis
    using dumps_str_length [of "artifact_name (string_of_int rid)"]
    by (simp add: artifact_name_def answer_fits_def dict_ok_def encodable_ascii dumps_str_plain plain_def size_consts)
qed

lemma output_no_artifact: "dict_get [(''output'', JStr s)] ''artifact_path'' = None"
  by simp


text \<open>A task that stores a digest, with the answer that the server keeps.\<close>

lemma hash_answer_fits:
  assumes "name_ok dst"
  shows "answer_fits [(''output'', JStr (''Hash written to '' @ dst))] None"
proof -
  have n: "encodable dst" "length dst \<le> 65000" using assms by (auto simp: name_ok_def)
  show ?thesis
    by (rule output_fits [OF encodable_append [OF _ n(1)]]) (use n(2) in \<open>simp_all add: encodable_ascii INLINE_LIMIT_def\<close>)
qed

lemma hash_task:
  assumes "client_ok seg c" and "current_id c + 1 < 2 ^ 32" and "name_ok f" and "name_ok dst"
    and "validate_path (policy_guard sv) f = Inr p" and "read_bytes (sandbox_disk sv) p = Inr bs" and "digest_ascii (evs i)"
    and "validate_path (policy_guard sv) dst = Inr r" and "replaceable (evs i) (sandbox_disk sv) r"
    and "dict_get (idempotency_cache sv) (cid, current_id c + 1, OP_TASK_HASH_AND_STORE) = None"
    and "dict_get (idempotency_cache sv) (''default_client'', current_id c + 1, OP_TASK_HASH_AND_STORE) = None"
  obtains sv' c' answer where "execute ev ld (peer_network seg (agent_serve evs et cid)) (sv, i) c OP_TASK_HASH_AND_STORE None
      (KwTask [(''input_file'', JStr f), (''out_file'', JStr dst)]) =
      ((sv', i + 1), c', Inr (task_answer [(''output'', JStr (''Hash written to '' @ dst))]))"
    "sandbox_disk sv' = put_file (fst (makedirs (dir_size (evs i)) (sandbox_disk sv) (dirname r))) r (str_bytes (sha256 (evs i) bs))"
    "encode_message OP_TASK_HASH_AND_STORE 0 (current_id c + 1)
      (answer_bytes [(''output'', JStr (''Hash written to '' @ dst))] None) None = Inr answer"
    "idempotency_cache sv' = store_response (store_response (idempotency_cache sv)
      (''default_client'', current_id c + 1, OP_TASK_HASH_AND_STORE) answer (now (evs i)))
      (cid, current_id c + 1, OP_TASK_HASH_AND_STORE) answer (now (evs i))"
proof -
  let ?kw = "[(''input_file'', JStr f), (''out_file'', JStr dst)]" and ?result = "[(''output'', JStr (''Hash written to '' @ dst))]"
  have n: "f \<noteq> []" "dst \<noteq> []" "encodable dst" "length dst \<le> 65000" using assms(3,4) by (auto simp: name_ok_def)
  obtain fsize where fs: "stat_input sv ?kw = Inr fsize" using stat_input_ok [OF assms(5) n(1), of ?kw] by auto
  obtain plan where plan: "build_plan (evs i) et OP_TASK_HASH_AND_STORE ?kw (task_start (current_id c + 1) fsize) = Inr plan"
    and se: "side_effects plan"
    by (simp add: build_plan_def select_template_def opcode_consts Let_def)
  note run = hash_plan [OF assms(5-8) n(2) assms(9) n(3,4) plan]
  have "task_outcome ev ?result = task_answer ?result" "dict_get ?result ''artifact_path'' \<in> {None} \<union> range (Some \<circ> JStr)"
    by (simp_all add: task_outcome_def)
  moreover have "is_task OP_TASK_HASH_AND_STORE" by (simp add: is_task_def)
  ultimately obtain sv' c' answer where "execute ev ld (peer_network seg (agent_serve evs et cid)) (sv, i) c OP_TASK_HASH_AND_STORE None
      (KwTask ?kw) = ((sv', i + 1), c', Inr (task_answer ?result))"
    "sandbox_disk sv' = put_file (fst (makedirs (dir_size (evs i)) (sandbox_disk sv) (dirname r))) r (str_bytes (sha256 (evs i) bs))"
    "encode_message OP_TASK_HASH_AND_STORE 0 (current_id c + 1) (answer_bytes ?result None) None = Inr answer"
    "idempotency_cache sv' = store_response (if side_effects plan then store_response (idempotency_cache sv)
      (''default_client'', current_id c + 1, OP_TASK_HASH_AND_STORE) answer (now (evs i)) else idempotency_cache sv)
      (cid, current_id c + 1, OP_TASK_HASH_AND_STORE) answer (now (evs i))"
    using client_task_outcome [where evs = evs and i = i and ev = ev and ld = ld and seg = seg, OF assms(1,2) dest_kw_ok [OF assms(3,4)] _
        assms(10,11) fs plan run hash_answer_fits [OF assms(4)]] by metis
  from this(1-3) this(4) [unfolded if_P [OF se]] show ?thesis by (rule that)
qed

section \<open>Properties\<close>

text \<open>
  C11. SEARCH\_REPORT end to end: for a UTF-8 text file of the sandbox of at most 1 MiB, whose only line
  breaks are newlines, and in whichever mode the server reads it, the client's
  search returns the report of exactly the lines that contain the text, each with its number, as
  long as there are at most 1000 of them and the report fits inline; no file changes.
\<close>

theorem search_end_to_end:
  assumes "client_ok seg c" and "current_id c + 1 < 2 ^ 32" and "name_ok f" and "name_ok q" and "CHR 0x0A \<notin> set q"
    and "validate_path (policy_guard sv) f = Inr p" and "read_bytes (sandbox_disk sv) p = Inr bs" and "int (length bs) \<le> MAX_FILE_SIZE"
    and "encodable (bytes_str bs)" and "only_newlines (cps_of (universal_newlines (bytes_str bs)))"
    and "found = grep 0 q (splitlines (universal_newlines (bytes_str bs)))"
    and "length found \<le> 1000" and "length (search_report found) \<le> INLINE_LIMIT"
    and "dict_get (idempotency_cache sv) (cid, current_id c + 1, OP_TASK_SEARCH_REPORT) = None"
    and "dict_get (idempotency_cache sv) (''default_client'', current_id c + 1, OP_TASK_SEARCH_REPORT) = None"
  shows "\<exists>sv' c'. execute ev ld (peer_network seg (agent_serve evs et cid)) (sv, i) c OP_TASK_SEARCH_REPORT None
      (KwTask [(''input_file'', JStr f), (''query'', JStr q)]) =
      ((sv', i + 1), c', Inr (task_answer [(''output'', JStr (search_report found))])) \<and> sandbox_disk sv' = sandbox_disk sv"
proof -
  let ?kw = "[(''input_file'', JStr f), (''query'', JStr q)]" and ?ls = "splitlines (universal_newlines (bytes_str bs))"
  have ne: "f \<noteq> []" using assms(3) by (simp add: name_ok_def)
  obtain fsize where fs: "stat_input sv ?kw = Inr fsize" using stat_input_ok [OF assms(6) ne, of ?kw] by auto
  obtain plan where plan: "build_plan (evs i) et OP_TASK_SEARCH_REPORT ?kw (task_start (current_id c + 1) fsize) = Inr plan"
    by (simp add: build_plan_def select_template_def opcode_consts Let_def)
  have found: "found = search_loop q 0 [] ?ls" using search_loop_grep [of "[]" q ?ls 0] assms(11,12) grep_length [of 0 q ?ls] by simp
  note run = search_plan [OF assms(6) ne assms(7-10,5) plan found assms(13)]
  have "is_task OP_TASK_SEARCH_REPORT" by (simp add: is_task_def)
  from client_task [where evs = evs and i = i, OF assms(1,2) query_kw_ok [OF assms(3,4)] this assms(14,15) fs plan run(1) output_fits [OF run(2) assms(13)] output_no_artifact]
  show ?thesis by fastforce
qed

text \<open>
  C35. A search with a large result: when the report does not fit inline, the server writes the whole
  report to an artifact of the sandbox and nothing else; the client, to which the answer names the
  artifact, reports status 500 for the task that succeeded.
\<close>

theorem large_report_ends_in_artifact:
  assumes "client_ok seg c" and "current_id c + 1 < 2 ^ 32" and "name_ok f" and "name_ok q" and "CHR 0x0A \<notin> set q"
    and "validate_path (policy_guard sv) f = Inr p" and "read_bytes (sandbox_disk sv) p = Inr bs" and "int (length bs) \<le> MAX_FILE_SIZE"
    and "encodable (bytes_str bs)" and "only_newlines (cps_of (universal_newlines (bytes_str bs)))"
    and "found = grep 0 q (splitlines (universal_newlines (bytes_str bs)))"
    and "length found \<le> 1000" and "INLINE_LIMIT < length (search_report found)"
    and "validate_path (policy_guard sv) (artifact_name (string_of_int (current_id c + 1))) = Inr r"
    and "replaceable (evs i) (sandbox_disk sv) r"
    and "dict_get (idempotency_cache sv) (cid, current_id c + 1, OP_TASK_SEARCH_REPORT) = None"
    and "dict_get (idempotency_cache sv) (''default_client'', current_id c + 1, OP_TASK_SEARCH_REPORT) = None"
  shows "\<exists>sv' c' reason. execute ev ld (peer_network seg (agent_serve evs et cid)) (sv, i) c OP_TASK_SEARCH_REPORT None
      (KwTask [(''input_file'', JStr f), (''query'', JStr q)]) = ((sv', i + 1), c', Inr (failure_result 500 reason)) \<and>
    dict_get (files (sandbox_disk sv')) r = Some (str_bytes (search_report found)) \<and>
    (\<forall>x. x \<noteq> r \<longrightarrow> dict_get (files (sandbox_disk sv')) x = dict_get (files (sandbox_disk sv)) x)"
proof -
  let ?kw = "[(''input_file'', JStr f), (''query'', JStr q)]" and ?ls = "splitlines (universal_newlines (bytes_str bs))"
  let ?a = "artifact_name (string_of_int (current_id c + 1))"
  have ne: "f \<noteq> []" using assms(3) by (simp add: name_ok_def)
  obtain fsize where fs: "stat_input sv ?kw = Inr fsize" using stat_input_ok [OF assms(6) ne, of ?kw] by auto
  obtain plan where plan: "build_plan (evs i) et OP_TASK_SEARCH_REPORT ?kw (task_start (current_id c + 1) fsize) = Inr plan"
    by (simp add: build_plan_def select_template_def opcode_consts Let_def)
  have found: "found = search_loop q 0 [] ?ls" using search_loop_grep [of "[]" q ?ls 0] assms(11,12) grep_length [of 0 q ?ls] by simp
  note run = search_plan_artifact [OF assms(6) ne assms(7-10,5) plan found assms(13-15)]
  have fits: "answer_fits [(''artifact_path'', JStr ?a)] None" using artifact_fits assms(1,2) by (simp add: client_ok_def)
  have "dict_get [(''artifact_path'', JStr ?a)] ''artifact_path'' \<in> {None} \<union> range (Some \<circ> JStr)" by simp
  moreover have "is_task OP_TASK_SEARCH_REPORT" by (simp add: is_task_def)
  ultimately obtain sv' c' where "execute ev ld (peer_network seg (agent_serve evs et cid)) (sv, i) c OP_TASK_SEARCH_REPORT None (KwTask ?kw) =
      ((sv', i + 1), c', Inr (task_outcome ev [(''artifact_path'', JStr ?a)]))"
    "sandbox_disk sv' = put_file (fst (makedirs (dir_size (evs i)) (sandbox_disk sv) (dirname r))) r (str_bytes (search_report found))"
    using client_task_outcome [where evs = evs and i = i, OF assms(1,2) query_kw_ok [OF assms(3,4)] _ assms(16,17) fs plan run fits] by fastforce
  then show ?thesis by (auto simp: task_outcome_def artifact_name_def)
qed

text \<open>
  C13. HASH\_AND\_STORE end to end: the client's task stores the hexadecimal digest of exactly the
  bytes of the input file at the destination, reports that it did, and changes no other file.
\<close>

theorem hash_end_to_end:
  assumes "client_ok seg c" and "current_id c + 1 < 2 ^ 32" and "name_ok f" and "name_ok dst"
    and "validate_path (policy_guard sv) f = Inr p" and "read_bytes (sandbox_disk sv) p = Inr bs" and "digest_ascii (evs i)"
    and "validate_path (policy_guard sv) dst = Inr r" and "replaceable (evs i) (sandbox_disk sv) r"
    and "dict_get (idempotency_cache sv) (cid, current_id c + 1, OP_TASK_HASH_AND_STORE) = None"
    and "dict_get (idempotency_cache sv) (''default_client'', current_id c + 1, OP_TASK_HASH_AND_STORE) = None"
  shows "\<exists>sv' c'. execute ev ld (peer_network seg (agent_serve evs et cid)) (sv, i) c OP_TASK_HASH_AND_STORE None
      (KwTask [(''input_file'', JStr f), (''out_file'', JStr dst)]) =
      ((sv', i + 1), c', Inr (task_answer [(''output'', JStr (''Hash written to '' @ dst))])) \<and>
    dict_get (files (sandbox_disk sv')) r = Some (str_bytes (sha256 (evs i) bs)) \<and>
    (\<forall>x. x \<noteq> r \<longrightarrow> dict_get (files (sandbox_disk sv')) x = dict_get (files (sandbox_disk sv)) x)"
  by (rule hash_task [where evs = evs and i = i and ev = ev and ld = ld and et = et, OF assms]) auto

text \<open>
  C12. FILTER\_LINES end to end, for a file that the server reads into memory: the destination becomes
  exactly the lines of the input file that contain the text, in their order and separated by
  newlines (they are kept, not removed), and no other file changes.
\<close>

theorem filter_end_to_end:
  assumes "client_ok seg c" and "current_id c + 1 < 2 ^ 32" and "name_ok f" and "name_ok q" and "name_ok dst"
    and "validate_path (policy_guard sv) f = Inr p" and "read_bytes (sandbox_disk sv) p = Inr bs" and "int (length bs) \<le> MAX_FILE_SIZE"
    and "encodable (bytes_str bs)"
    and "validate_path (policy_guard sv) dst = Inr r" and "replaceable (evs i) (sandbox_disk sv) r"
    and "stat_input sv [(''input_file'', JStr f)] = Inr fsize" and "choose_mode (task_start (current_id c + 1) fsize) = MEMORY"
    and "dict_get (idempotency_cache sv) (cid, current_id c + 1, OP_TASK_FILTER_LINES) = None"
    and "dict_get (idempotency_cache sv) (''default_client'', current_id c + 1, OP_TASK_FILTER_LINES) = None"
  shows "\<exists>sv' c'. execute ev ld (peer_network seg (agent_serve evs et cid)) (sv, i) c OP_TASK_FILTER_LINES None
      (KwTask [(''input_file'', JStr f), (''query'', JStr q), (''out_file'', JStr dst)]) =
      ((sv', i + 1), c', Inr (task_answer [(''output'', JStr (''Filtered lines written to '' @ dst))])) \<and>
    dict_get (files (sandbox_disk sv')) r =
      Some (str_bytes (join [CHR 0x0A] (filter (contains q) (splitlines (universal_newlines (bytes_str bs)))))) \<and>
    (\<forall>x. x \<noteq> r \<longrightarrow> dict_get (files (sandbox_disk sv')) x = dict_get (files (sandbox_disk sv)) x)"
proof -
  let ?kw = "[(''input_file'', JStr f), (''query'', JStr q), (''out_file'', JStr dst)]"
  have n: "f \<noteq> []" "dst \<noteq> []" "encodable dst" "length dst \<le> 65000" using assms(3,5) by (auto simp: name_ok_def)
  have fs: "stat_input sv ?kw = Inr fsize" using assms(12) by (simp add: stat_input_def)
  obtain plan where plan: "build_plan (evs i) et OP_TASK_FILTER_LINES ?kw (task_start (current_id c + 1) fsize) = Inr plan"
    by (simp add: build_plan_def select_template_def opcode_consts Let_def)
  note run = filter_plan [OF assms(6) n(1) assms(7-10) n(2) assms(11) n(3,4) plan assms(13)]
  have "answer_fits [(''output'', JStr (''Filtered lines written to '' @ dst))] None"
    by (rule output_fits [OF encodable_append [OF _ n(3)]]) (use n(4) in \<open>simp_all add: encodable_ascii INLINE_LIMIT_def\<close>)
  moreover have "is_task OP_TASK_FILTER_LINES" by (simp add: is_task_def)
  ultimately obtain sv' c' where "execute ev ld (peer_network seg (agent_serve evs et cid)) (sv, i) c OP_TASK_FILTER_LINES None (KwTask ?kw) =
      ((sv', i + 1), c', Inr (task_answer [(''output'', JStr (''Filtered lines written to '' @ dst))]))"
    "sandbox_disk sv' = put_file (fst (makedirs (dir_size (evs i)) (sandbox_disk sv) (dirname r))) r
       (str_bytes (join [CHR 0x0A] (filter (contains q) (splitlines (universal_newlines (bytes_str bs))))))"
    using client_task [where evs = evs and i = i, OF assms(1,2) filter_kw_ok [OF assms(3-5)] _ assms(14,15) fs plan run _ output_no_artifact] by fastforce
  then show ?thesis by simp
qed

text \<open>
  C39. FILTER\_LINES without a destination loses its result: in either mode, for every readable UTF-8
  text file, the client is told that the task succeeded, with an answer that carries neither
  output nor artifact, and no file is written.
\<close>

theorem filter_without_file_is_lost:
  assumes "client_ok seg c" and "current_id c + 1 < 2 ^ 32" and "name_ok f" and "name_ok q"
    and "validate_path (policy_guard sv) f = Inr p" and "read_bytes (sandbox_disk sv) p = Inr bs" and "int (length bs) \<le> MAX_FILE_SIZE"
    and "encodable (bytes_str bs)"
    and "dict_get (idempotency_cache sv) (cid, current_id c + 1, OP_TASK_FILTER_LINES) = None"
    and "dict_get (idempotency_cache sv) (''default_client'', current_id c + 1, OP_TASK_FILTER_LINES) = None"
  shows "\<exists>sv' c'. execute ev ld (peer_network seg (agent_serve evs et cid)) (sv, i) c OP_TASK_FILTER_LINES None
      (KwTask [(''input_file'', JStr f), (''query'', JStr q)]) = ((sv', i + 1), c', Inr (task_answer [])) \<and>
    sandbox_disk sv' = sandbox_disk sv"
proof -
  let ?kw = "[(''input_file'', JStr f), (''query'', JStr q)]"
  have n: "f \<noteq> []" using assms(3) by (auto simp: name_ok_def)
  obtain fsize where fs: "stat_input sv ?kw = Inr fsize" using stat_input_ok [OF assms(5) n, of ?kw] by auto
  obtain plan where plan: "build_plan (evs i) et OP_TASK_FILTER_LINES ?kw (task_start (current_id c + 1) fsize) = Inr plan"
    by (simp add: build_plan_def select_template_def opcode_consts Let_def)
  note run = filter_plan_lost [OF assms(5) n assms(6-8) plan]
  have "answer_fits [] None" "is_task OP_TASK_FILTER_LINES" by (simp_all add: answer_fits_def dict_ok_def size_consts is_task_def)
  then show ?thesis
    using client_task [where evs = evs and i = i, OF assms(1,2) query_kw_ok [OF assms(3,4)] _ assms(9,10) fs plan run] by fastforce
qed

text \<open>
  C34. The task cache is shared between clients, which all number their requests from 1: after a client
  has had a digest stored, another client that asks within two minutes, under a request identifier that
  is the same number, for the digest of any file to be stored anywhere, is told that the first client's
  destination was written. Its own task is not run: no file changes.
\<close>

theorem task_cache_shared_between_clients:
  assumes "client_ok seg a" and "client_ok seg b" and "current_id b = current_id a" and "current_id a + 1 < 2 ^ 32"
    and "name_ok f" and "name_ok dst" and "name_ok f'" and "name_ok dst'"
    and "validate_path (policy_guard sv) f = Inr p" and "read_bytes (sandbox_disk sv) p = Inr bs" and "digest_ascii (evs i)"
    and "validate_path (policy_guard sv) dst = Inr r" and "replaceable (evs i) (sandbox_disk sv) r"
    and "dict_get (idempotency_cache sv) (cid, current_id a + 1, OP_TASK_HASH_AND_STORE) = None"
    and "dict_get (idempotency_cache sv) (''default_client'', current_id a + 1, OP_TASK_HASH_AND_STORE) = None"
    and "dict_get (idempotency_cache sv) (cid', current_id a + 1, OP_TASK_HASH_AND_STORE) = None"
    and "cid' \<noteq> cid" and "cid \<noteq> ''default_client''" and "cid' \<noteq> ''default_client''"
    and "now (evs (i + 1)) - now (evs i) < 120"
  shows "\<exists>sv1 sv2 a' b'.
    execute ev ld (peer_network seg (agent_serve evs et cid)) (sv, i) a OP_TASK_HASH_AND_STORE None
      (KwTask [(''input_file'', JStr f), (''out_file'', JStr dst)]) =
      ((sv1, i + 1), a', Inr (task_answer [(''output'', JStr (''Hash written to '' @ dst))])) \<and>
    dict_get (files (sandbox_disk sv1)) r = Some (str_bytes (sha256 (evs i) bs)) \<and>
    execute ev' ld' (peer_network seg (agent_serve evs et cid')) (sv1, i + 1) b OP_TASK_HASH_AND_STORE None
      (KwTask [(''input_file'', JStr f'), (''out_file'', JStr dst')]) =
      ((sv2, i + 2), b', Inr (task_answer [(''output'', JStr (''Hash written to '' @ dst))])) \<and>
    sandbox_disk sv2 = sandbox_disk sv1"
proof -
  let ?op = OP_TASK_HASH_AND_STORE and ?kw = "[(''input_file'', JStr f'), (''out_file'', JStr dst')]"
  let ?result = "[(''output'', JStr (''Hash written to '' @ dst))]"
  obtain sv1 a' answer where s1: "execute ev ld (peer_network seg (agent_serve evs et cid)) (sv, i) a ?op None
      (KwTask [(''input_file'', JStr f), (''out_file'', JStr dst)]) = ((sv1, i + 1), a', Inr (task_answer ?result))"
    "sandbox_disk sv1 = put_file (fst (makedirs (dir_size (evs i)) (sandbox_disk sv) (dirname r))) r (str_bytes (sha256 (evs i) bs))"
    "encode_message ?op 0 (current_id a + 1) (answer_bytes ?result None) None = Inr answer"
    "idempotency_cache sv1 = store_response (store_response (idempotency_cache sv) (''default_client'', current_id a + 1, ?op) answer (now (evs i)))
      (cid, current_id a + 1, ?op) answer (now (evs i))"
    using hash_task [where evs = evs and i = i and ev = ev and ld = ld and et = et, OF assms(1,4-6,9-15)] .
  have e: "dict_get (idempotency_cache sv1) (cid', current_id a + 1, ?op) = None"
    "dict_get (idempotency_cache sv1) (''default_client'', current_id a + 1, ?op) = Some \<lparr>response_data = answer, timestamp = now (evs i)\<rparr>"
    using assms(16-19) by (simp_all add: s1(4) store_response_def dict_simps)
  have ne: "answer \<noteq> []" using decode_encoded(2) [OF s1(3)] by simp
  have kw: "json_ok (JDict ?kw)" using dest_kw_ok(1) [OF assms(7,8)] .
  have pt: "parse_task (str_bytes (dumps (JDict ?kw))) = Inr ?kw"
    by (simp add: parse_task_def parse_json_payload_dumps [OF kw] del: dumps.simps)
  have "0 \<le> current_id a + 1" using assms(1) by (simp add: client_ok_def)
  then obtain msg where msg: "encode_message ?op 0 (current_id a + 1) (str_bytes (dumps (JDict ?kw))) None = Inr msg"
    using encode_message_exists [of ?op "current_id a + 1" "str_bytes (dumps (JDict ?kw))"] assms(4) dest_kw_ok(2) [OF assms(7,8)]
    by (auto simp: opcode_consts simp del: dumps.simps)
  obtain sv2 where sv2: "process_request (evs (i + 1)) et sv1 cid' msg = (sv2, answer)" "sandbox_disk sv2 = sandbox_disk sv1"
    using task_answered_from_shared_cache [OF msg _ pt e, of "evs (i + 1)" et] assms(20) ne by auto
  obtain b' where "execute ev' ld' (peer_network seg (agent_serve evs et cid')) (sv1, i + 1) b ?op None (KwTask ?kw) =
      ((sv2, i + 1 + 1), b', Inr (task_outcome ev' ?result))"
    using client_task_answered [where evs = evs and i = "i + 1" and sv' = sv2 and result = ?result, OF assms(2) _ dest_kw_ok [OF assms(7,8)]]
      msg sv2(1) s1(3) assms(3,4) hash_answer_fits [OF assms(6)] by (force simp: is_task_def simp del: dumps.simps)
  then show ?thesis using s1(1,2) sv2(2)
    by (intro exI [of _ sv1] exI [of _ sv2] exI [of _ a'] exI [of _ b']) (simp add: task_outcome_def)
qed

lemma sample_replaceable: "replaceable sample_env sample_disk ''/srv/box/h.txt''"
  using sample_makedirs [of 4096]
  by (simp add: replaceable_def sample_env_def ascii_path_ok os_isdir_def sample_disk_def dict_has_def)

lemma sample_names: "name_ok ''h.txt''" "name_ok ''c''"
  by (simp_all add: name_ok_def encodable_ascii)

lemma sample_contents: "int (length (str_bytes (''ab'' @ [CHR 0x0A] @ ''cd'' @ [CHR 0x0A]))) \<le> MAX_FILE_SIZE"
  "encodable (bytes_str (str_bytes (''ab'' @ [CHR 0x0A] @ ''cd'' @ [CHR 0x0A])))"
  by (simp_all add: size_consts encodable_ascii)

lemma sample_letters: "encode_cp 97 = ''a''" "encode_cp 98 = ''b''" "encode_cp 99 = ''c''" "encode_cp 100 = ''d''"
  by code_simp+

lemma sample_split: "splitlines (universal_newlines (bytes_str (str_bytes (''ab'' @ [CHR 0x0A] @ ''cd'' @ [CHR 0x0A])))) = [''ab'', ''cd'']"
  by (simp add: splitlines_def sample_text [simplified] is_line_break_def sample_letters)

lemma sample_grep: "grep 0 ''c'' [''ab'', ''cd''] = [''Line 2: cd'']"
proof -
  have "string_of_nat 2 = ''2''" by code_simp
  moreover have "py_strip ''cd'' = ''cd''" by (simp add: py_strip_def cps_of_def decode_cps_ascii is_space_def sample_letters)
  ultimately show ?thesis by (simp add: grep_def contains_def numeral_2_eq_2 [symmetric])
qed

lemmas sample_input = sample_path(1) [folded sample_server_fields(1)] sample_read [folded sample_server_fields(2)] sample_contents

theorem search_end_to_end_witness:
  "\<exists>sv' c'. execute sample_env sample_disk (peer_network (\<lambda>r. [r]) (agent_serve (\<lambda>_. sample_env) (\<lambda>_ v. v) ''10.0.0.7:5000''))
      (sample_server, 0) (new_AgentClient Rudp) OP_TASK_SEARCH_REPORT None (KwTask [(''input_file'', JStr ''a.txt''), (''query'', JStr ''c'')]) =
      ((sv', 1), c', Inr (task_answer [(''output'', JStr (search_report [''Line 2: cd'']))])) \<and> sandbox_disk sv' = sample_disk"
proof -
  have "length (search_report [''Line 2: cd'']) \<le> INLINE_LIMIT" "only_newlines (cps_of (''ab'' @ [CHR 0x0A] @ ''cd'' @ [CHR 0x0A]))"
    by (simp_all add: search_report_def INLINE_LIMIT_def string_of_nat.simps sample_text [simplified] only_newlines_def is_line_break_def)
  then show ?thesis
    using search_end_to_end [where found = "[''Line 2: cd'']" and sv = sample_server and i = 0, OF sample_client(1) _ sample_name_ok sample_names(2) _ sample_input]
    by (simp add: sample_grep sample_split [simplified] sample_client sample_server_fields)
qed

text \<open>A disk with a file of one long line.\<close>

definition long_disk :: "nat \<Rightarrow> disk" where
  "long_disk n = \<lparr>files = [(''/srv/box/a.txt'', replicate n 99)],
     dirs = [(''/srv'', 4096), (''/srv/box'', 4096), (''/srv/box/artifacts'', 4096), (''/srv/box/artifacts/default_client'', 4096)]\<rparr>"

lemma long_text:
  "bytes_str (replicate n 99) = replicate n (CHR ''c'')" "universal_newlines (replicate n (CHR ''c'')) = replicate n (CHR ''c'')"
  "is_ascii (replicate n (CHR ''c''))" "cps_of (replicate n (CHR ''c'')) = replicate n 99" "encode_cps (replicate n 99) = replicate n (CHR ''c'')"
proof -
  have "char_of (99 :: nat) = CHR ''c''" by code_simp
  then show "bytes_str (replicate n 99) = replicate n (CHR ''c'')" by (simp add: bytes_str_def)
  show "universal_newlines (replicate n (CHR ''c'')) = replicate n (CHR ''c'')"
    using universal_newlines_skip [of "replicate n (CHR ''c'')" "[]"] by simp
  show a: "is_ascii (replicate n (CHR ''c''))" by (simp add: is_ascii_def list_all_iff)
  then show "cps_of (replicate n (CHR ''c'')) = replicate n 99" by (simp add: cps_of_def decode_cps_ascii)
  show "encode_cps (replicate n 99) = replicate n (CHR ''c'')"
    using encode_decode_cps [OF decode_cps_ascii [OF a]] by simp
qed

lemma long_line:
  assumes "0 < n"
  shows "splitlines (replicate n (CHR ''c'')) = [replicate n (CHR ''c'')]" "only_newlines (replicate n 99)"
    "grep 0 ''c'' [replicate n (CHR ''c'')] = [''Line 1: '' @ replicate n (CHR ''c'')]"
proof -
  have "split_breaks acc (replicate n 99) = (if acc @ replicate n 99 = [] then [] else [acc @ replicate n 99])" for acc
    by (induction n arbitrary: acc) (simp_all add: is_line_break_def)
  then show "splitlines (replicate n (CHR ''c'')) = [replicate n (CHR ''c'')]" using assms by (simp add: splitlines_def long_text)
  show "only_newlines (replicate n 99)" by (simp add: only_newlines_def is_line_break_def list_all_iff)
  have "dropWhile is_space (replicate n 99) = replicate n 99" using assms by (cases n) (simp_all add: is_space_def)
  then have "py_strip (replicate n (CHR ''c'')) = replicate n (CHR ''c'')" by (simp add: py_strip_def long_text)
  moreover have "contains ''c'' (replicate n (CHR ''c''))" using assms by (cases n) (simp_all add: contains_def)
  moreover have "string_of_nat 1 = ''1''" by code_simp
  ultimately show "grep 0 ''c'' [replicate n (CHR ''c'')] = [''Line 1: '' @ replicate n (CHR ''c'')]" by (simp add: grep_def)
qed

lemma long_disk_facts:
  "read_bytes (long_disk n) ''/srv/box/a.txt'' = Inr (replicate n 99)"
  "validate_path sample_guard (artifact_name ''1'') = Inr ''/srv/box/artifacts/default_client/1_result.txt''"
  "replaceable sample_env (long_disk n) ''/srv/box/artifacts/default_client/1_result.txt''"
proof -
  show "read_bytes (long_disk n) ''/srv/box/a.txt'' = Inr (replicate n 99)" by (simp add: read_bytes_def long_disk_def ascii_path_ok dict_has_def)
  show "validate_path sample_guard (artifact_name ''1'') = Inr ''/srv/box/artifacts/default_client/1_result.txt''"
    by (simp add: artifact_name_def validate_path_def sample_guard_root abspath_def os_join_def starts_slash_def normpath_def
        initial_slashes_def commonpath_def path_comps_def Let_def)
  show "replaceable sample_env (long_disk n) ''/srv/box/artifacts/default_client/1_result.txt''"
    by (simp add: replaceable_def makedirs_def dirname_def Let_def dir_chain_def path_comps_def long_disk_def dict_has_def upt_rec
        ascii_path_ok os_isdir_def)
qed

theorem large_report_ends_in_artifact_witness:
  "\<exists>n sv' c' reason. execute sample_env sample_disk (peer_network (\<lambda>r. [r]) (agent_serve (\<lambda>_. sample_env) (\<lambda>_ v. v) ''10.0.0.7:5000''))
      (sample_server\<lparr>sandbox_disk := long_disk n\<rparr>, 0) (new_AgentClient Rudp) OP_TASK_SEARCH_REPORT None
      (KwTask [(''input_file'', JStr ''a.txt''), (''query'', JStr ''c'')]) = ((sv', 1), c', Inr (failure_result 500 reason)) \<and>
    dict_get (files (sandbox_disk sv')) ''/srv/box/artifacts/default_client/1_result.txt'' =
      Some (str_bytes (search_report [''Line 1: '' @ replicate n (CHR ''c'')])) \<and> 65536 < n"
proof -
  obtain n :: nat where n: "n = 70000" by blast
  then have big: "0 < n" "65536 < n" "int n \<le> MAX_FILE_SIZE" by (simp_all add: size_consts)
  let ?sv = "sample_server\<lparr>sandbox_disk := long_disk n\<rparr>"
  have sv: "policy_guard ?sv = sample_guard" "sandbox_disk ?sv = long_disk n" "idempotency_cache ?sv = []" by (simp_all add: sample_server_fields)
  have "INLINE_LIMIT < length (search_report [''Line 1: '' @ replicate n (CHR ''c'')])"
    using big(2) by (simp add: search_report_def INLINE_LIMIT_def)
  moreover have "string_of_int 1 = ''1''" by code_simp
  ultimately show ?thesis
    using large_report_ends_in_artifact [where found = "[''Line 1: '' @ replicate n (CHR ''c'')]" and sv = ?sv and i = 0 and f = "''a.txt''" and q = "''c''" and
        ev = sample_env and ld = sample_disk and evs = "\<lambda>_. sample_env" and et = "\<lambda>_ v. v" and cid = "''10.0.0.7:5000''" and
        p = "''/srv/box/a.txt''" and bs = "replicate n 99" and r = "''/srv/box/artifacts/default_client/1_result.txt''", OF sample_client(1)]
      sv sample_path(1) long_disk_facts long_text [of n] long_line [OF big(1)] big sample_name_ok sample_names(2)
    by (auto simp: sample_client encodable_ascii)
qed

theorem hash_end_to_end_witness:
  "\<exists>sv' c'. execute sample_env sample_disk (peer_network (\<lambda>r. [r]) (agent_serve (\<lambda>_. sample_env) (\<lambda>_ v. v) ''10.0.0.7:5000''))
      (sample_server, 0) (new_AgentClient Rudp) OP_TASK_HASH_AND_STORE None (KwTask [(''input_file'', JStr ''a.txt''), (''out_file'', JStr ''h.txt'')]) =
      ((sv', 1), c', Inr (task_answer [(''output'', JStr ''Hash written to h.txt'')])) \<and> dict_get (files (sandbox_disk sv')) ''/srv/box/h.txt'' = Some (str_bytes ''e3b0'')"
proof -
  have "digest_ascii sample_env" "sha256 sample_env = (\<lambda>_. ''e3b0'')" by (simp_all add: digest_ascii_def sample_env_def)
  then show ?thesis
    using hash_end_to_end [where ev = sample_env and ld = sample_disk and evs = "\<lambda>_. sample_env" and et = "\<lambda>_ v. v" and cid = "''10.0.0.7:5000''" and sv = sample_server and i = 0,
        OF sample_client(1) _ sample_name_ok sample_names(1) sample_input(1,2) _ sample_path(2) [folded sample_server_fields(1)]
          sample_replaceable [folded sample_server_fields(2)]]
    by (auto simp: sample_client sample_server_fields)
qed

theorem task_cache_shared_between_clients_witness:
  "\<exists>sv1 sv2 a' b'. execute sample_env sample_disk (peer_network (\<lambda>r. [r]) (agent_serve (\<lambda>_. sample_env) (\<lambda>_ v. v) ''10.0.0.7:5000''))
      (sample_server, 0) (new_AgentClient Rudp) OP_TASK_HASH_AND_STORE None (KwTask [(''input_file'', JStr ''a.txt''), (''out_file'', JStr ''h.txt'')]) =
      ((sv1, 1), a', Inr (task_answer [(''output'', JStr ''Hash written to h.txt'')])) \<and>
    execute sample_env sample_disk (peer_network (\<lambda>r. [r]) (agent_serve (\<lambda>_. sample_env) (\<lambda>_ v. v) ''10.0.0.9:6000''))
      (sv1, 1) (new_AgentClient Rudp) OP_TASK_HASH_AND_STORE None (KwTask [(''input_file'', JStr ''h.txt''), (''out_file'', JStr ''c'')]) =
      ((sv2, 2), b', Inr (task_answer [(''output'', JStr ''Hash written to h.txt'')])) \<and>
    sandbox_disk sv2 = sandbox_disk sv1"
proof -
  have "digest_ascii sample_env" by (simp add: digest_ascii_def sample_env_def)
  then show ?thesis
    using task_cache_shared_between_clients [where ev = sample_env and ld = sample_disk and ev' = sample_env and ld' = sample_disk and
        evs = "\<lambda>_. sample_env" and et = "\<lambda>_ v. v" and cid = "''10.0.0.7:5000''" and cid' = "''10.0.0.9:6000''" and sv = sample_server and i = 0,
        OF sample_client(1) sample_client(1) _ _ sample_name_ok sample_names(1,1,2) sample_input(1,2) _ sample_path(2) [folded sample_server_fields(1)]
          sample_replaceable [folded sample_server_fields(2)]]
    by (auto simp: sample_client sample_server_fields)
qed

theorem filter_end_to_end_witness:
  "\<exists>sv' c'. execute sample_env sample_disk (peer_network (\<lambda>r. [r]) (agent_serve (\<lambda>_. sample_env) (\<lambda>_ v. v) ''10.0.0.7:5000''))
      (sample_server, 0) (new_AgentClient Rudp) OP_TASK_FILTER_LINES None
      (KwTask [(''input_file'', JStr ''a.txt''), (''query'', JStr ''c''), (''out_file'', JStr ''h.txt'')]) =
      ((sv', 1), c', Inr (task_answer [(''output'', JStr ''Filtered lines written to h.txt'')])) \<and>
    dict_get (files (sandbox_disk sv')) ''/srv/box/h.txt'' = Some (str_bytes ''cd'')"
proof -
  have "stat_input sample_server [(''input_file'', JStr ''a.txt'')] = Inr None"
    by (simp add: stat_input_def validate_any_def sample_server_fields sample_path sample_guard_root abspath_def os_join_def starts_slash_def
        normpath_def initial_slashes_def path_comps_def Let_def os_exists_def sample_disk_def dict_has_def)
  moreover have "choose_mode (task_start n None) = MEMORY" for n by (simp add: choose_mode_def task_start_def STREAM_THRESHOLD_def)
  moreover have "filter (contains ''c'') [''ab'', ''cd''] = [''cd'']" by (simp add: contains_def)
  ultimately show ?thesis
    using filter_end_to_end [where ev = sample_env and ld = sample_disk and evs = "\<lambda>_. sample_env" and et = "\<lambda>_ v. v" and cid = "''10.0.0.7:5000''" and sv = sample_server and i = 0 and fsize = None,
        OF sample_client(1) _ sample_name_ok sample_names(2,1) sample_input sample_path(2) [folded sample_server_fields(1)]
          sample_replaceable [folded sample_server_fields(2)]]
    by (auto simp: sample_client sample_server_fields sample_split [simplified])
qed

theorem filter_without_file_is_lost_witness:
  "\<exists>sv' c'. execute sample_env sample_disk (peer_network (\<lambda>r. [r]) (agent_serve (\<lambda>_. sample_env) (\<lambda>_ v. v) ''10.0.0.7:5000''))
      (sample_server, 0) (new_AgentClient Rudp) OP_TASK_FILTER_LINES None (KwTask [(''input_file'', JStr ''a.txt''), (''query'', JStr ''c'')]) =
      ((sv', 1), c', Inr (task_answer [])) \<and> sandbox_disk sv' = sample_disk"
  using filter_without_file_is_lost [where sv = sample_server and i = 0, OF sample_client(1) _ sample_name_ok sample_names(2) sample_input]
  by (simp add: sample_client sample_server_fields)

end
