(* ===== verification/Cli.thy ===== *)
theory Cli
  imports AgentSystem DhcpWire HttpDns FailureSim
begin

text \<open>
  The interactive client, \<^verbatim>\<open>src/client/cli/\<close> and \<^verbatim>\<open>src/client/__main__.py\<close>: the session
  state, the prompts, every action of the menu, the remembering and replaying of requests, the main
  loop and the entry point. What the user types is a list of keys; what is printed is a list of notices
  (the text without icons and colours); what the operating system and the network do is a parameter,
  the \<open>host\<close>. The local disk is addressed by absolute paths, so paths are resolved against the
  working directory; the console can show every text. The alias that macOS needs on its loopback
  interface is left out.
\<close>

section \<open>Sessions\<close>

datatype exn = Exc py_error | EOFError | KeyboardInterrupt

text \<open>\<^verbatim>\<open>except Exception\<close> catches everything but \<^verbatim>\<open>KeyboardInterrupt\<close>.\<close>

fun is_Exception :: "exn \<Rightarrow> bool" where
  "is_Exception KeyboardInterrupt = False"
| "is_Exception _ = True"

datatype key = Line string | EndOfFile | Interrupt

definition DEFAULT_DOWNLOAD_DIR :: string where "DEFAULT_DOWNLOAD_DIR = ''./downloads''"

text \<open>
  The resolved address of the server is whatever JSON value the DNS answer has. Remembered arguments
  include the request id, the \<^verbatim>\<open>request_id_override\<close> entry of \<^verbatim>\<open>kwargs\<close>.
\<close>

record SessionState =
  client_ip :: string
  server_ip :: json
  server_port :: int
  transport_mode :: string
  is_connected :: bool
  agent_client :: "AgentClient option"
  download_dir :: string
  failure_engine :: "FailureEngine option"
  last_action_name :: "string option"
  last_opcode :: "int option"
  last_kwargs :: "(kwargs \<times> int option) option"
  last_request_id :: "int option"

definition new_SessionState :: SessionState where
  "new_SessionState =
     \<lparr>client_ip = ''NOT_SET'', server_ip = JStr ''NOT_SET'', server_port = 8080, transport_mode = ''TCP'',
      is_connected = False, agent_client = None, download_dir = DEFAULT_DOWNLOAD_DIR, failure_engine = None,
      last_action_name = None, last_opcode = None, last_kwargs = None, last_request_id = None\<rparr>"

datatype notice =
    Banner
  | Header string json int string bool string
  | Menu
  | Help
  | Guide string
  | Say string
  | SayExn string exn
  | SayValue string json
  | SayData string op_data
  | Failed string json json
  | StatusBlock bool json "int option" string
  | StatusError bool json "int option" string json
  | Executing string int
  | Row nat json json
  | RowText nat string
  | Preview "string list" nat

record 'w cli =
  session :: SessionState
  running :: bool
  typed :: "key list"
  shown :: "notice list"
  local_disk :: disk
  world :: 'w

text \<open>
  The host: the clock and hash function of the client's environment, the network behind the agent's
  transport, the working directory, random bytes, the datagrams that arrive during a DHCP handshake
  (with its transaction id and time; \<open>None\<close> when its socket fails), the first answer to a DNS
  request (\<open>None\<close> on a time-out or when the socket fails), and whether a connection is made.
\<close>

record 'w host =
  host_env :: env
  host_net :: "'w network"
  host_cwd :: string
  host_random :: "'w \<Rightarrow> 'w \<times> nat list"
  host_dhcp :: "'w \<Rightarrow> DHCPClient \<Rightarrow>
    'w \<times> (int \<times> (nat \<Rightarrow> DHCPPacket option list) \<times> (nat \<Rightarrow> DHCPPacket option list) \<times> real) option"
  host_doh :: "'w \<Rightarrow> string \<Rightarrow> string \<Rightarrow> bytes \<Rightarrow> 'w \<times> bytes option"
  host_connect :: "'w \<Rightarrow> client_transport \<Rightarrow> json \<Rightarrow> int \<Rightarrow> string \<Rightarrow> 'w \<times> tcp_socket option"

section \<open>Actions\<close>

text \<open>An action changes the state and returns or raises.\<close>

type_synonym ('w, 'a) act = "'w cli \<Rightarrow> 'w cli \<times> (exn + 'a)"

definition ret :: "'a \<Rightarrow> ('w, 'a) act" where
  "ret x s = (s, Inr x)"

definition raise :: "exn \<Rightarrow> ('w, 'a) act" where
  "raise e s = (s, Inl e)"

definition andthen :: "('w, 'a) act \<Rightarrow> ('a \<Rightarrow> ('w, 'b) act) \<Rightarrow> ('w, 'b) act" where
  "andthen m f s = (case m s of (s', Inl e) \<Rightarrow> (s', Inl e) | (s', Inr x) \<Rightarrow> f x s')"

definition try_except :: "('w, 'a) act \<Rightarrow> (exn \<Rightarrow> ('w, 'a) act) \<Rightarrow> ('w, 'a) act" where
  "try_except m h s = (case m s of (s', Inl e) \<Rightarrow> if is_Exception e then h e s' else (s', Inl e) | (s', Inr x) \<Rightarrow> (s', Inr x))"

definition modify :: "('w cli \<Rightarrow> 'w cli) \<Rightarrow> ('w, unit) act" where
  "modify f s = (f s, Inr ())"

definition asks :: "('w cli \<Rightarrow> 'a) \<Rightarrow> ('w, 'a) act" where
  "asks f s = (s, Inr (f s))"

text \<open>A step that may raise one of the ordinary exceptions.\<close>

definition lift :: "py_error + 'a \<Rightarrow> ('w, 'a) act" where
  "lift r = (case r of Inl e \<Rightarrow> raise (Exc e) | Inr x \<Rightarrow> ret x)"

definition seq :: "('w, unit) act \<Rightarrow> ('w, 'b) act \<Rightarrow> ('w, 'b) act" where
  "seq m n = andthen m (\<lambda>_. n)"

definition say :: "notice \<Rightarrow> ('w, unit) act" where
  "say n = modify (\<lambda>s. s\<lparr>shown := shown s @ [n]\<rparr>)"

definition set_session :: "(SessionState \<Rightarrow> SessionState) \<Rightarrow> ('w, unit) act" where
  "set_session f = modify (\<lambda>s. s\<lparr>session := f (session s)\<rparr>)"

section \<open>Prompts\<close>

fun key_result :: "key \<Rightarrow> exn + string" where
  "key_result (Line l) = Inr l"
| "key_result EndOfFile = Inl EOFError"
| "key_result Interrupt = Inl KeyboardInterrupt"

text \<open>\<^verbatim>\<open>input()\<close>; when nothing more is typed the input is at its end.\<close>

definition input_line :: "('w, string) act" where
  "input_line s = (case typed s of [] \<Rightarrow> (s, Inl EOFError) | k # ks \<Rightarrow> (s\<lparr>typed := ks\<rparr>, key_result k))"

text \<open>The loop of \<^verbatim>\<open>prompt_text\<close>: how often it complained, the keys left, and the answer.\<close>

fun read_prompt :: "string \<Rightarrow> bool \<Rightarrow> key list \<Rightarrow> nat \<times> key list \<times> (exn + string)" where
  "read_prompt dflt required [] = (0, [], Inl EOFError)"
| "read_prompt dflt required (k # ks) =
     (case key_result k of
        Inl e \<Rightarrow> (0, ks, Inl e)
      | Inr l \<Rightarrow>
          (let val = py_strip l
           in if val = [] \<and> dflt \<noteq> [] then (0, ks, Inr dflt)
              else if val = [] \<and> required
              then (let (n, ks', r) = read_prompt dflt required ks in (n + 1, ks', r))
              else (0, ks, Inr val)))"

definition prompt_text :: "string \<Rightarrow> string \<Rightarrow> bool \<Rightarrow> ('w, string) act" where
  "prompt_text label dflt required s =
     (let (n, ks, r) = read_prompt dflt required (typed s)
      in (s\<lparr>typed := ks, shown := shown s @ replicate n (Say (label @ '' is required.''))\<rparr>, r))"

definition prompt_yes_no :: "string \<Rightarrow> string \<Rightarrow> ('w, bool) act" where
  "prompt_yes_no label dflt =
     andthen input_line (\<lambda>l.
       let val = ascii_lower (py_strip l)
       in ret ((if val = [] then ascii_lower dflt else val) = ''y''))"

section \<open>Output\<close>

definition print_header :: "SessionState \<Rightarrow> ('w, unit) act" where
  "print_header st = say (Header (client_ip st) (server_ip st) (server_port st) (transport_mode st)
     (is_connected st) (download_dir st))"

text \<open>\<^verbatim>\<open>status < 300\<close> on whatever JSON sent.\<close>

fun status_lt_300 :: "json \<Rightarrow> py_error + bool" where
  "status_lt_300 (JInt i) = Inr (i < 300)"
| "status_lt_300 (JBool b) = Inr True"
| "status_lt_300 (JFloat lit) = Inr (lit = ''-Infinity'' \<or> (is_finite_literal lit \<and> float_value lit < 300))"
| "status_lt_300 _ = Inl TypeError"

text \<open>\<open>err\<close> is what the message ends with, if it reports an error.\<close>

definition print_status :: "json \<Rightarrow> int option \<Rightarrow> string \<Rightarrow> json option \<Rightarrow> bool \<Rightarrow> ('w, unit) act" where
  "print_status status_code rid message err is_success =
     andthen (if is_success then lift (status_lt_300 status_code) else ret False) (\<lambda>ok.
       say (case err of None \<Rightarrow> StatusBlock ok status_code rid message
            | Some e \<Rightarrow> StatusError ok status_code rid message e))"

definition preview_content :: "bytes \<Rightarrow> ('w, unit) act" where
  "preview_content content =
     (case py_decode content of
        Inl e \<Rightarrow> say (Say ''[Binary Content - No Preview]'')
      | Inr text \<Rightarrow> (let ls = splitlines text in say (Preview (take 20 ls) (length ls - 20))))"

section \<open>Local files\<close>

text \<open>
  \<^verbatim>\<open>open(path, 'wb')\<close> and \<^verbatim>\<open>f.write(content)\<close>: the file is truncated before the write, which
  raises unless the content is bytes.
\<close>

definition write_local :: "string \<Rightarrow> string \<Rightarrow> op_data \<Rightarrow> ('w, bytes) act" where
  "write_local wd path content s =
     (case truncate_file (local_disk s) (abspath wd path) of
        Inl e \<Rightarrow> (s, Inl (Exc e))
      | Inr d \<Rightarrow>
          (case content of
             BinData b \<Rightarrow> (s\<lparr>local_disk := put_file d (abspath wd path) b\<rparr>, Inr b)
           | _ \<Rightarrow> (s\<lparr>local_disk := d\<rparr>, Inl (Exc TypeError))))"

section \<open>Requests\<close>

text \<open>A local path in the arguments is opened relative to the working directory.\<close>

fun resolve_kwargs :: "string \<Rightarrow> kwargs \<Rightarrow> kwargs" where
  "resolve_kwargs wd (KwUpload local_path remote_name) = KwUpload (abspath wd local_path) remote_name"
| "resolve_kwargs wd kw = kw"

text \<open>\<^verbatim>\<open>state.agent_client.execute(opcode, **kwargs)\<close>\<close>

definition client_execute :: "'w host \<Rightarrow> int \<Rightarrow> int option \<Rightarrow> kwargs \<Rightarrow> ('w, OperationResult) act" where
  "client_execute host op ov kw s =
     (case agent_client (session s) of
        None \<Rightarrow> (s, Inl (Exc AttributeError))
      | Some c \<Rightarrow>
          (let (w', c', r) = execute (host_env host) (local_disk s) (host_net host) (world s) c op ov
                 (resolve_kwargs (host_cwd host) kw);
               s' = s\<lparr>world := w', session := (session s)\<lparr>agent_client := Some c'\<rparr>\<rparr>
           in (s', case r of Inl e \<Rightarrow> Inl (Exc e) | Inr res \<Rightarrow> Inr res)))"

text \<open>\<^verbatim>\<open>state.agent_client.request_id_manager.next_id()\<close>\<close>

definition client_next_id :: "('w, int) act" where
  "client_next_id s =
     (case agent_client (session s) of
        None \<Rightarrow> (s, Inl (Exc AttributeError))
      | Some c \<Rightarrow> (let (c', i) = next_id c in (s\<lparr>session := (session s)\<lparr>agent_client := Some c'\<rparr>\<rparr>, Inr i)))"

definition remember :: "string \<Rightarrow> int \<Rightarrow> kwargs \<Rightarrow> int \<Rightarrow> SessionState \<Rightarrow> SessionState" where
  "remember action_name op kw rid st =
     st\<lparr>last_action_name := Some action_name, last_opcode := Some op, last_kwargs := Some (kw, Some rid),
        last_request_id := Some rid\<rparr>"

text \<open>An id that is missing or zero is generated, and only then the request is remembered.\<close>

definition execute_and_remember ::
  "'w host \<Rightarrow> string \<Rightarrow> int \<Rightarrow> kwargs \<Rightarrow> int option \<Rightarrow> ('w, OperationResult option) act" where
  "execute_and_remember host action_name op kw ov =
     andthen
       (if ov = None \<or> ov = Some 0
        then andthen client_next_id (\<lambda>rid. seq (set_session (remember action_name op kw rid)) (ret rid))
        else ret (the ov)) (\<lambda>rid.
     seq (say (Executing action_name rid))
       (try_except (andthen (client_execute host op (Some rid) kw) (\<lambda>res. ret (Some res)))
          (\<lambda>e. seq (say (SayExn ''Execution Error'' e)) (ret None))))"

definition check_conn :: "('w, bool) act" where
  "check_conn =
     andthen (asks session) (\<lambda>st.
       if \<not> is_connected st \<or> agent_client st = None
       then seq (say (Say ''Not connected. Please connect first.'')) (ret False)
       else ret True)"

definition when_connected :: "('w, unit) act \<Rightarrow> ('w, unit) act" where
  "when_connected m = andthen check_conn (\<lambda>ok. if ok then m else ret ())"

section \<open>Network actions\<close>

definition hex_digit_upper :: "nat \<Rightarrow> char" where
  "hex_digit_upper n = char_of (if n < 10 then 48 + n else 55 + n)"

definition generate_random_mac :: "nat list \<Rightarrow> string" where
  "generate_random_mac bs = join '':'' (map (\<lambda>b. [hex_digit_upper (b div 16), hex_digit_upper (b mod 16)]) bs)"

definition action_dhcp :: "'w host \<Rightarrow> ('w, unit) act" where
  "action_dhcp host s0 =
     (let (w1, rs) = host_random host (world s0);
          client = new_DHCPClient (generate_random_mac rs);
          (w2, received) = host_dhcp host w1 client;
          s = s0\<lparr>world := w2, shown := shown s0 @ [Say ''[DHCP] Discovering...'']\<rparr>
      in case received of
           None \<Rightarrow> say (Say ''DHCP Failed to acquire lease.'') s
         | Some (x, offers, acks, t) \<Rightarrow>
             (let (client', ok, sent) = acquire_lease client x offers acks t
              in if ok
                 then seq (set_session (\<lambda>st. st\<lparr>client_ip := the (assigned_ip client')\<rparr>))
                        (say (SayValue ''DHCP Success. Client IP:'' (JStr (the (assigned_ip client'))))) s
                 else say (Say ''DHCP Failed to acquire lease.'') s))"

text \<open>\<^verbatim>\<open>DNSClient(dns_server_ip, client_ip).resolve(hostname)\<close>\<close>

definition dns_resolve :: "'w host \<Rightarrow> string \<Rightarrow> string \<Rightarrow> ('w, json) act" where
  "dns_resolve host dns_ip hostname s =
     (case doh_request hostname dns_ip 8053 of
        Inl e \<Rightarrow> (s, Inr JNull)
      | Inr request \<Rightarrow>
          (let (w', response) = host_doh host (world s) dns_ip (client_ip (session s)) request
           in (s\<lparr>world := w'\<rparr>, Inr (resolve_answer response))))"

definition action_dns :: "'w host \<Rightarrow> ('w, unit) act" where
  "action_dns host =
     seq (say (Say ''[DNS] Resolving agent.local...''))
     (andthen (prompt_text ''Enter DNS Server IP'' ''127.0.0.1'' True) (\<lambda>dns_ip.
      try_except
        (andthen (dns_resolve host dns_ip ''agent.local'') (\<lambda>resolved.
           if truthy resolved
           then seq (set_session (\<lambda>st. st\<lparr>server_ip := resolved\<rparr>)) (say (SayValue ''Resolved agent.local ->'' resolved))
           else say (Say ''DNS Resolution failed.'')))
        (\<lambda>e. say (SayExn ''DNS Failed'' e))))"

definition ascii_upper :: "string \<Rightarrow> string" where
  "ascii_upper s = map (\<lambda>ch. let n = of_char ch in if 97 \<le> n \<and> n \<le> (122::nat) then char_of (n - 32) else ch) s"

text \<open>
  The socket of the new transport: for TCP it is made by \<^verbatim>\<open>connect\<close>, for RUDP by the constructor. Until
  it is there, no request is made, so the order of the two does not matter. Names of modes are ASCII.
\<close>

definition open_transport :: "'w host \<Rightarrow> string \<Rightarrow> ('w, unit) act" where
  "open_transport host mode =
     andthen (lift (create_transport mode)) (\<lambda>tr s.
       let st = session s; (w', sock) = host_connect host (world s) tr (server_ip st) (server_port st) (client_ip st);
           s' = s\<lparr>world := w', session := st\<lparr>agent_client := Some (new_AgentClient tr)\<rparr>\<rparr>
       in case tr of
            Rudp \<Rightarrow> (if sock = None then (s\<lparr>world := w'\<rparr>, Inl (Exc OSError)) else (s', Inr ()))
          | Tcp t \<Rightarrow>
              (case tcp_connect t sock of
                 Inl e \<Rightarrow> (s', Inl (Exc e))
               | Inr t' \<Rightarrow> (s'\<lparr>session := st\<lparr>agent_client := Some (new_AgentClient (Tcp t'))\<rparr>\<rparr>, Inr ())))"

definition connect_now :: "'w host \<Rightarrow> ('w, unit) act" where
  "connect_now host =
     andthen (asks (\<lambda>s. transport_mode (session s))) (\<lambda>dflt.
     andthen (prompt_text ''Transport Mode (TCP/RUDP)'' dflt True) (\<lambda>mode.
     seq (set_session (\<lambda>st. st\<lparr>transport_mode := ascii_upper mode\<rparr>))
     (seq (say (Say (''Connecting via '' @ ascii_upper mode)))
      (try_except
         (seq (open_transport host (ascii_upper mode))
         (seq (set_session (\<lambda>st. st\<lparr>is_connected := True\<rparr>)) (say (Say ''Connected!''))))
         (\<lambda>e. seq (say (SayExn ''Connection Failed'' e))
           (set_session (\<lambda>st. st\<lparr>is_connected := False, agent_client := None\<rparr>)))))))"

definition action_connect :: "'w host \<Rightarrow> ('w, unit) act" where
  "action_connect host =
     andthen (asks (\<lambda>s. server_ip (session s))) (\<lambda>ip.
       if ip = JStr ''NOT_SET''
       then seq (say (Say ''Please resolve Server IP (DNS) first (or manually set).''))
            (andthen (prompt_yes_no ''Set Server IP manually?'' ''N'') (\<lambda>yes.
               if yes
               then andthen (prompt_text ''Server IP'' [] True) (\<lambda>ip'.
                      seq (set_session (\<lambda>st. st\<lparr>server_ip := JStr ip'\<rparr>)) (connect_now host))
               else ret ()))
       else connect_now host)"

text \<open>The closed transport is dropped with the client.\<close>

definition action_disconnect :: "('w, unit) act" where
  "action_disconnect =
     seq (set_session (\<lambda>st. st\<lparr>agent_client := map_option close_transport (agent_client st)\<rparr>))
     (seq (set_session (\<lambda>st. st\<lparr>is_connected := False, agent_client := None\<rparr>)) (say (Say ''Disconnected.'')))"

section \<open>File actions\<close>

text \<open>What \<^verbatim>\<open>enumerate\<close> iterates over, and the values that take an alignment when they are formatted.\<close>

fun json_items :: "json \<Rightarrow> py_error + json list" where
  "json_items (JList xs) = Inr xs"
| "json_items (JDict kvs) = Inr (map (\<lambda>(k, v). JStr k) kvs)"
| "json_items (JStr s) = Inr (map (\<lambda>n. JStr (encode_cp n)) (cps_of s))"
| "json_items _ = Inl TypeError"

fun formattable :: "json \<Rightarrow> bool" where
  "formattable (JStr s) = True"
| "formattable (JInt i) = True"
| "formattable (JFloat lit) = True"
| "formattable (JBool b) = True"
| "formattable _ = False"

definition list_row :: "env \<Rightarrow> nat \<Rightarrow> json \<Rightarrow> py_error + notice" where
  "list_row ev idx f =
     (case f of
        JDict kvs \<Rightarrow>
          ebind (json_get f ''name'' (JStr ''UNKNOWN'')) (\<lambda>fname.
          ebind (json_get f ''size'' (JInt 0)) (\<lambda>fsize.
            if formattable fname \<and> formattable fsize then Inr (Row idx fname fsize) else Inl TypeError))
      | _ \<Rightarrow> Inr (RowText idx (py_str ev f)))"

fun print_rows :: "env \<Rightarrow> nat \<Rightarrow> json list \<Rightarrow> ('w, unit) act" where
  "print_rows ev idx [] = ret ()"
| "print_rows ev idx (f # fs) = andthen (lift (list_row ev idx f)) (\<lambda>n. seq (say n) (print_rows ev (idx + 1) fs))"

text \<open>\<^verbatim>\<open>res.data if res.data else []\<close>\<close>

definition listed_files :: "op_data \<Rightarrow> json" where
  "listed_files data = (case data of JsonData j \<Rightarrow> if truthy j then j else JList [] | _ \<Rightarrow> JList [])"

text \<open>The common frame: nothing more for a request that failed, a message for an error status.\<close>

definition on_success :: "string \<Rightarrow> OperationResult option \<Rightarrow> (OperationResult \<Rightarrow> ('w, unit) act) \<Rightarrow> ('w, unit) act" where
  "on_success what result f =
     (case result of
        None \<Rightarrow> ret ()
      | Some res \<Rightarrow>
          andthen (lift (status_ge_300 (res_status res))) (\<lambda>failed.
            if failed then say (Failed what (res_status res) (res_error res)) else f res))"

definition action_list :: "'w host \<Rightarrow> ('w, unit) act" where
  "action_list host = when_connected
     (seq (say (Say ''[LIST] Files on Server:''))
     (try_except
        (andthen (execute_and_remember host ''LIST Files'' OP_LIST KwList None) (\<lambda>result.
         on_success ''LIST Failed'' result (\<lambda>res.
           let fs = listed_files (res_data res)
           in if \<not> truthy fs then say (Say ''No files found in sandbox.'')
              else andthen (lift (json_items fs)) (print_rows (host_env host) 1))))
        (\<lambda>e. say (SayExn ''LIST Failed'' e))))"

definition action_get :: "'w host \<Rightarrow> ('w, unit) act" where
  "action_get host = when_connected
     (andthen (prompt_text ''Remote Filename'' [] True) (\<lambda>path.
      try_except
        (andthen (execute_and_remember host ''GET File'' OP_GET (KwGet (JStr path)) None) (\<lambda>result.
         on_success ''GET Failed'' result (\<lambda>res.
           andthen (asks (\<lambda>s. os_join (download_dir (session s)) (basename path))) (\<lambda>local_path.
           andthen (write_local (host_cwd host) local_path (res_data res)) (\<lambda>content.
           seq (say (SayValue ''Saved to:'' (JStr local_path))) (preview_content content))))))
        (\<lambda>e. say (SayExn ''GET Failed'' e))))"

definition action_append :: "'w host \<Rightarrow> ('w, unit) act" where
  "action_append host = when_connected
     (andthen (prompt_text ''Remote Filename'' [] True) (\<lambda>path.
      andthen (prompt_text ''Data to Append'' [] True) (\<lambda>data.
      try_except
        (andthen (lift (py_encode data)) (\<lambda>raw.
         andthen (execute_and_remember host ''APPEND to File'' OP_APPEND (KwAppend path raw) None) (\<lambda>result.
         on_success ''APPEND Failed'' result (\<lambda>res. say (SayData ''Append Success:'' (res_data res))))))
        (\<lambda>e. say (SayExn ''APPEND Failed'' e)))))"

definition action_upload :: "'w host \<Rightarrow> ('w, unit) act" where
  "action_upload host = when_connected
     (andthen (prompt_text ''Local File Path'' [] True) (\<lambda>local_path.
      andthen (asks local_disk) (\<lambda>d.
      if \<not> os_exists d (abspath (host_cwd host) local_path) then say (Say (''File doesn'' @ [CHR 0x27] @ ''t exist.''))
      else andthen (prompt_text ''Remote Filename'' (basename local_path) True) (\<lambda>dest_path.
        try_except
          (andthen (execute_and_remember host ''UPLOAD File'' OP_UPLOAD (KwUpload local_path dest_path) None) (\<lambda>result.
           on_success ''Upload Failed'' result (\<lambda>res. say (SayData ''Upload Success:'' (res_data res)))))
          (\<lambda>e. say (SayExn ''Upload Error'' e))))))"

section \<open>Task actions\<close>

definition trigger_artifact_download :: "'w host \<Rightarrow> json \<Rightarrow> ('w, unit) act" where
  "trigger_artifact_download host artifact_path =
     try_except
       (andthen (client_execute host OP_GET None (KwGet artifact_path)) (\<lambda>res.
        andthen (lift (status_ge_300 (res_status res))) (\<lambda>failed.
        if failed then print_status (res_status res) None ''Artifact Download Failed:'' (Some (res_error res)) False
        else andthen (lift (case artifact_path of JStr p \<Rightarrow> Inr (''downloaded_'' @ basename p) | _ \<Rightarrow> Inl TypeError)) (\<lambda>local_name.
             andthen (asks (\<lambda>s. os_join (download_dir (session s)) local_name)) (\<lambda>local_path.
             andthen (write_local (host_cwd host) local_path (res_data res)) (\<lambda>content.
             seq (say (SayValue ''Downloaded Artifact:'' (JStr local_path))) (preview_content content)))))))
       (\<lambda>e. say (SayExn ''Artifact Download Failed'' e))"

definition handle_result_data :: "'w host \<Rightarrow> op_data \<Rightarrow> ('w, unit) act" where
  "handle_result_data host data =
     andthen (lift (case data of JsonData (JDict kvs) \<Rightarrow> json_get (JDict kvs) ''data'' (JDict []) | _ \<Rightarrow> Inr (JDict []))) (\<lambda>inner_data.
     andthen (lift (json_get inner_data ''artifact_path'' JNull)) (\<lambda>artifact_path.
     if truthy artifact_path
     then seq (say (SayValue ''Result too large. Artifact generated at server:'' artifact_path))
            (trigger_artifact_download host artifact_path)
     else andthen (lift (json_get inner_data ''output'' JNull)) (\<lambda>output.
          seq (say (if truthy output then SayValue ''Result Output'' output else Say ''Summary: Task completed successfully.''))
          (andthen (prompt_yes_no ''Show raw JSON?'' ''N'') (\<lambda>yes.
             if yes then say (SayData ''JSON'' data) else ret ())))))"

definition exec_task :: "'w host \<Rightarrow> string \<Rightarrow> int \<Rightarrow> kwargs \<Rightarrow> int option \<Rightarrow> ('w, unit) act" where
  "exec_task host action_name op kw ov =
     try_except
       (andthen (execute_and_remember host action_name op kw ov) (\<lambda>result.
          case result of
            None \<Rightarrow> ret ()
          | Some res \<Rightarrow>
              andthen (asks (\<lambda>s. case last_request_id (session s) of Some i \<Rightarrow> i | None \<Rightarrow> 0)) (\<lambda>rid.
              andthen (lift (status_lt_300 (res_status res))) (\<lambda>fine.
                if fine
                then seq (print_status (res_status res) (Some rid) ''Task execution responded successfully.'' None True)
                       (handle_result_data host (res_data res))
                else print_status (res_status res) (Some rid) ''Task Failed:'' (Some (res_error res)) False))))
       (\<lambda>e. say (SayExn ''Execution Error'' e))"

definition out_arg :: "string \<Rightarrow> (string, json) dict" where
  "out_arg outfile = (if outfile = [] then [] else [(''out_file'', JStr outfile)])"

definition action_task_search :: "'w host \<Rightarrow> ('w, unit) act" where
  "action_task_search host = when_connected
     (seq (say (Guide ''TASK: SEARCH_REPORT''))
     (andthen (prompt_text ''Remote file path'' [] True) (\<lambda>fname.
      andthen (prompt_text ''Search text'' [] True) (\<lambda>query.
      exec_task host ''TASK: Search Report'' OP_TASK_SEARCH_REPORT
        (KwTask [(''input_file'', JStr fname), (''query'', JStr query)]) None))))"

definition action_task_filter :: "'w host \<Rightarrow> ('w, unit) act" where
  "action_task_filter host = when_connected
     (seq (say (Guide ''TASK: FILTER_LINES''))
     (andthen (prompt_text ''Remote source file'' [] True) (\<lambda>fname.
      andthen (prompt_text ''Text to filter out'' [] True) (\<lambda>query.
      andthen (prompt_text ''Save output as (remote)'' [] False) (\<lambda>outfile.
      exec_task host ''TASK: Filter Lines'' OP_TASK_FILTER_LINES
        (KwTask ([(''input_file'', JStr fname), (''query'', JStr query)] @ out_arg outfile)) None)))))"

definition action_task_hash :: "'w host \<Rightarrow> ('w, unit) act" where
  "action_task_hash host = when_connected
     (seq (say (Guide ''TASK: HASH_AND_STORE''))
     (andthen (prompt_text ''Remote file path'' [] True) (\<lambda>fname.
      andthen (prompt_text ''Save hash to (remote)'' (fname @ ''.sha256'') False) (\<lambda>outfile.
      exec_task host ''TASK: Hash & Store'' OP_TASK_HASH_AND_STORE
        (KwTask ((''input_file'', JStr fname) # out_arg outfile)) None))))"

definition replay_request :: "'w host \<Rightarrow> string \<Rightarrow> int \<Rightarrow> kwargs \<Rightarrow> int option \<Rightarrow> int \<Rightarrow> ('w, unit) act" where
  "replay_request host action_name op kw ov rid =
     (if contains ''TASK:'' action_name then exec_task host action_name op kw ov
      else andthen (execute_and_remember host action_name op kw ov) (\<lambda>result.
        case result of
          None \<Rightarrow> ret ()
        | Some res \<Rightarrow>
            andthen (lift (status_lt_300 (res_status res))) (\<lambda>fine.
              if fine
              then seq (print_status (res_status res) (Some rid) ''Replay Success'' None True)
                     (say (SayData ''Data:'' (res_data res)))
              else print_status (res_status res) (Some rid) ''Replay Failed:'' (Some (res_error res)) False)))"

definition action_replay :: "'w host \<Rightarrow> ('w, unit) act" where
  "action_replay host = when_connected
     (andthen (asks session) (\<lambda>st.
        case (last_request_id st, last_opcode st, last_kwargs st) of
          (Some rid, Some op, Some (kw, ov)) \<Rightarrow>
            if rid = 0 then say (Say ''No previous request to replay.'')
            else seq (say (Say ''[REPLAY] Replaying Last Request:''))
                   (replay_request host (case last_action_name st of Some a \<Rightarrow> a | None \<Rightarrow> []) op kw ov rid)
        | _ \<Rightarrow> say (Say ''No previous request to replay.'')))"

section \<open>The main loop\<close>

definition handle_choice :: "'w host \<Rightarrow> string \<Rightarrow> ('w, unit) act" where
  "handle_choice host choice =
     (if choice = ''0'' then seq (modify (\<lambda>s. s\<lparr>running := False\<rparr>)) (say (Say ''Goodbye!''))
      else case dict_get
             [(''1'', action_dhcp host), (''2'', action_dns host), (''3'', action_connect host), (''4'', action_disconnect),
              (''5'', action_list host), (''6'', action_get host), (''7'', action_append host), (''8'', action_upload host),
              (''9'', action_task_search host), (''10'', action_task_filter host), (''11'', action_task_hash host),
              (''12'', action_replay host), (''13'', say Help)] choice of
        Some action \<Rightarrow> action
      | None \<Rightarrow> say (Say ''Invalid choice.''))"

end
