(* ===== verification/CliSession.thy ===== *)
theory CliSession
  imports Cli
begin

text \<open>
  Sessions of the interactive client: the main loop of \<^verbatim>\<open>src/client/cli/app.py\<close> and the entry point
  \<^verbatim>\<open>src/client/__main__.py\<close>, on the actions of the menu. A property that survives each elementary
  change survives every action, hence every session; the locales below say this once, and are
  interpreted for the input that is left, the session state, the local files and the tasks. Shown:
  sessions end, the session state stays consistent, downloads stay in their directory and are what
  the server has, a replay in
  the same connection has no effect on the server while a replay in a new one has, and the
  automatic download of artifacts never happens.
\<close>

section \<open>What every action keeps\<close>

lemma andthen_lift: "andthen (lift r) f = (case r of Inl e \<Rightarrow> raise (Exc e) | Inr x \<Rightarrow> f x)"
  by (rule ext) (simp add: andthen_def lift_def raise_def ret_def split: sum.split)


text \<open>
  A property of the state that survives each elementary change the menu can make survives every
  choice of the user. The changes: output, input, whatever the world does, the client's own state,
  a request remembered under the id just generated, the addresses and the mode, connecting,
  disconnecting, leaving, and a download.
\<close>

definition downloaded :: "string \<Rightarrow> SessionState \<Rightarrow> string \<Rightarrow> string" where
  "downloaded wd st name = abspath wd (os_join (download_dir st) name)"

text \<open>A result in which the menu finds no artifact to download.\<close>

definition no_artifact :: "op_data \<Rightarrow> bool" where
  "no_artifact data \<longleftrightarrow> (\<forall>inner a. (case data of JsonData (JDict kvs) \<Rightarrow> json_get (JDict kvs) ''data'' (JDict []) | _ \<Rightarrow> Inr (JDict [])) = Inr inner \<longrightarrow>
     json_get inner ''artifact_path'' JNull = Inr a \<longrightarrow> \<not> truthy a)"

lemma task_run_no_artifact: "task_run ev net w c op kw = (w', c', Inr res) \<Longrightarrow> no_artifact (res_data res)"
  by (auto simp: task_run_def no_artifact_def parse_task_response_def failure_result_def error_simps
      split: prod.splits sum.splits if_splits)

lemma execute_task_no_artifact:
  assumes "get_handler (handlers c) op = Inr (TaskHandler op)" "execute ev ld net w c op ov kw = (w', c', Inr res)"
  shows "no_artifact (res_data res)"
proof (cases kw)
  case (KwTask args)
  then show ?thesis
    using assms task_run_no_artifact
    by (fastforce simp: execute_def execute_with_def is_orchestrator_def run_orchestrator_def Let_def split: prod.splits)
qed (use assms in \<open>auto simp: execute_def execute_with_def is_orchestrator_def run_orchestrator_def Let_def\<close>)

lemma read_prompt_shorter: "read_prompt dflt required ks = (n, ks', r) \<Longrightarrow> length ks' \<le> length ks"
  by (induction dflt required ks arbitrary: n ks' r rule: read_prompt.induct)
    (auto simp: Let_def split: sum.splits if_splits prod.splits, fastforce+)

lemma basename_no_slash: "CHR ''/'' \<notin> set (basename p)"
  unfolding basename_def by (metis (mono_tags, lifting) set_rev set_takeWhileD)

text \<open>The client after an exchange: its ids only grow, and its override and handlers are as before.\<close>

definition client_later :: "AgentClient \<Rightarrow> AgentClient \<Rightarrow> bool" where
  "client_later c c' \<longleftrightarrow> current_id c \<le> current_id c' \<and> handlers c' = handlers c"

lemma client_later_refl [simp]: "client_later c c"
  by (simp add: client_later_def)

lemma client_later_trans: "client_later c c' \<Longrightarrow> client_later c' c'' \<Longrightarrow> client_later c c''"
  by (auto simp: client_later_def)

lemma client_later_fields [simp]:
  "client_later c (c'\<lparr>active_request_override := ov\<rparr>) = client_later c c'" "client_later c (c'\<lparr>transport := tr\<rparr>) = client_later c c'"
  "client_later (c\<lparr>active_request_override := ov\<rparr>) c' = client_later c c'"
  "client_later c (c'\<lparr>pending_requests := ps\<rparr>) = client_later c c'"
  by (simp_all add: client_later_def)

lemma exchange_later: "exchange net w c m rid = (w', c', r) \<Longrightarrow> client_later c c'"
proof -
  have f: "client_later c (foldl on_message_received c' ms)" if "client_later c c'" for c c' ms
    using that by (induction ms arbitrary: c') (auto simp: on_message_received_def split: sum.split)
  show "exchange net w c m rid = (w', c', r) \<Longrightarrow> client_later c c'"
    by (auto simp: exchange_def rudp_flow_def Let_def intro!: f split: client_transport.splits prod.splits option.splits)
qed

lemma attempt_later: "attempt ev net w c op pl g ov = (w', c', r) \<Longrightarrow> client_later c c'"
  by (auto simp: attempt_def split: sum.splits prod.splits dest: exchange_later)

lemma request_loop_later: "request_loop ev net w c op pl g ov n = (w', c', r) \<Longrightarrow> client_later c c'"
proof (induction ev net w c op pl g ov n arbitrary: w' c' r rule: request_loop.induct)
  case (1 ev net w c op pl g ov n)
  obtain w1 c1 r1 where a: "attempt ev net w c op pl g ov = (w1, c1, r1)" using prod_cases3 by blast
  let ?c = "if is_async c1 then c1 else close_transport c1"
  have c1: "client_later c c1" using attempt_later [OF a] .
  have c2: "client_later c1 ?c" by (auto simp: close_transport_def split: client_transport.split)
  show ?case
  proof (cases r1)
    case (Inl e)
    have "client_later ?c c'" if "\<not> MAX_RETRIES < n" "is_retryable e" "\<not> MAX_RETRIES < n + 1"
      using 1 that a Inl by (auto simp: request_loop.simps [of ev net w c op pl g ov n] Let_def)
    then have "client_later ?c c'" if "\<not> MAX_RETRIES < n" "is_retryable e"
      using that 1(2) a Inl by (cases "MAX_RETRIES < n + 1") (auto simp: request_loop.simps [of ev net w c op pl g ov n] Let_def)
    then show ?thesis
      using 1(2) a Inl c1 client_later_trans [OF client_later_trans [OF c1 c2]]
      by (cases "MAX_RETRIES < n"; cases "is_retryable e") (auto simp: request_loop.simps [of ev net w c op pl g ov n])
  next
    case (Inr x)
    then show ?thesis using 1(2) a c1 by (auto simp: request_loop.simps [of ev net w c op pl g ov n] split: if_splits)
  qed
qed

lemma send_request_spec_later: "send_request_spec ev net w c spec = (w', c', r) \<Longrightarrow> client_later c c'"
  by (auto simp: send_request_spec_def next_id_def client_later_def Let_def split: sum.splits dest!: request_loop_later)

text \<open>\<^verbatim>\<open>execute\<close> also restores the override, whatever its handler did.\<close>

lemma execute_with_later:
  assumes "\<And>w c h kw w' c' r. run w c h kw = (w', c', r) \<Longrightarrow> client_later c c'"
    and "execute_with run ev net w c op ov kw = (w', c', r)"
  shows "client_later c c' \<and> active_request_override c' = active_request_override c"
  using assms(2)
  by (auto simp: execute_with_def Let_def split: sum.splits if_splits option.splits prod.splits
      dest!: assms(1) send_request_spec_later)

lemma execute_request_later: "execute_request ev net w c op ov kw = (w', c', r) \<Longrightarrow> client_later c c'"
  unfolding execute_request_def by (drule execute_with_later [rotated]) auto

lemma upload_chunks_later: "upload_chunks ev net w c uid chunks = (w', c', r) \<Longrightarrow> client_later c c'"
proof (induction chunks arbitrary: w c)
  case (Cons x chunks)
  obtain off data where x: "x = (off, data)" by fastforce
  show ?case
  proof (cases "generate_chunk_req_id ev uid off")
    case (Inr rid)
    obtain w1 c1 r1 where e: "execute_request ev net w c OP_PUT_CHUNK (Some rid) (KwPutChunk uid off data) = (w1, c1, r1)"
      using prod_cases3 by blast
    show ?thesis
      using Cons.prems Cons.IH client_later_trans [OF execute_request_later [OF e]] execute_request_later [OF e]
      by (auto simp: x Inr e split: sum.splits if_splits)
  qed (use Cons.prems x in auto)
qed simp

lemma run_orchestrator_later: "run_orchestrator ev ld net w c h kw = (w', c', r) \<Longrightarrow> client_later c c'"
  by (auto simp: run_orchestrator_def upload_run_def task_run_def Let_def
      split: ClientHandler.splits kwargs.splits sum.splits option.splits prod.splits if_splits
      dest!: execute_request_later upload_chunks_later send_request_spec_later dest: client_later_trans)

lemma execute_later:
  "execute ev ld net w c op ov kw = (w', c', r) \<Longrightarrow> client_later c c' \<and> active_request_override c' = active_request_override c"
  unfolding execute_def by (rule execute_with_later [OF run_orchestrator_later])

locale cli_steps =
  fixes host :: "'w host" and P :: "'w cli \<Rightarrow> bool"
  assumes shown: "P s \<Longrightarrow> P (s\<lparr>shown := ns\<rparr>)"
    and typed: "P s \<Longrightarrow> length ks \<le> length (typed s) \<Longrightarrow> P (s\<lparr>typed := ks\<rparr>)"
    and world: "P s \<Longrightarrow> P (s\<lparr>world := w\<rparr>)"
    and client: "P s \<Longrightarrow> agent_client (session s) = Some c \<Longrightarrow> current_id c \<le> current_id c' \<Longrightarrow>
      active_request_override c' = active_request_override c \<Longrightarrow> handlers c' = handlers c \<Longrightarrow>
      P (s\<lparr>session := (session s)\<lparr>agent_client := Some c'\<rparr>\<rparr>)"
    and remembered: "P s \<Longrightarrow> agent_client (session s) = Some c \<Longrightarrow>
      P (s\<lparr>session := remember a op kw (current_id c + 1) ((session s)\<lparr>agent_client := Some (c\<lparr>current_id := current_id c + 1\<rparr>)\<rparr>)\<rparr>)"
    and addresses: "P s \<Longrightarrow> P (s\<lparr>session := (session s)\<lparr>client_ip := ip\<rparr>\<rparr>)" "P s \<Longrightarrow> P (s\<lparr>session := (session s)\<lparr>server_ip := j\<rparr>\<rparr>)"
      "P s \<Longrightarrow> P (s\<lparr>session := (session s)\<lparr>transport_mode := m\<rparr>\<rparr>)"
    and connected: "P s \<Longrightarrow> P (s\<lparr>session := (session s)\<lparr>agent_client := Some (new_AgentClient tr), is_connected := True\<rparr>\<rparr>)"
    and disconnected: "P s \<Longrightarrow> P (s\<lparr>session := (session s)\<lparr>is_connected := False, agent_client := None\<rparr>\<rparr>)"
    and stopped: "P s \<Longrightarrow> P (s\<lparr>running := False\<rparr>)"
begin

definition keeps :: "('w, 'a) act \<Rightarrow> bool" where
  "keeps m \<longleftrightarrow> (\<forall>s. P s \<longrightarrow> P (fst (m s)))"

lemma keepsD: "keeps m \<Longrightarrow> P s \<Longrightarrow> m s = (s', r) \<Longrightarrow> P s'"
  unfolding keeps_def by (metis fst_conv)

lemma keeps_basic [simp, intro!]:
  "keeps (ret x)" "keeps (raise e)" "keeps (asks f)" "keeps (lift r)" "keeps (say n)"
  using shown by (auto simp: keeps_def ret_def raise_def asks_def lift_def say_def modify_def split: sum.split)

lemma keeps_andthen [intro!]: "keeps m \<Longrightarrow> (\<And>x. keeps (f x)) \<Longrightarrow> keeps (andthen m f)"
  by (auto simp: keeps_def andthen_def split: prod.split sum.split)

lemma keeps_seq [intro!]: "keeps m \<Longrightarrow> keeps n \<Longrightarrow> keeps (seq m n)"
  by (auto simp: seq_def)

lemma keeps_try_except [intro!]: "keeps m \<Longrightarrow> (\<And>e. keeps (h e)) \<Longrightarrow> keeps (try_except m h)"
  by (auto simp: keeps_def try_except_def split: prod.split sum.split)

lemma keeps_if [intro!]: "(b \<Longrightarrow> keeps m) \<Longrightarrow> (\<not> b \<Longrightarrow> keeps n) \<Longrightarrow> keeps (if b then m else n)"
  by simp

lemma keeps_input: "keeps input_line"
  using typed by (auto simp: keeps_def input_line_def split: list.split)

lemma keeps_prompts [intro!]: "keeps (prompt_text label dflt required)" "keeps (prompt_yes_no label dflt)"
proof -
  show "keeps (prompt_text label dflt required)"
    using shown typed read_prompt_shorter by (fastforce simp: keeps_def prompt_text_def split: prod.split)
  show "keeps (prompt_yes_no label dflt)"
    by (auto simp: prompt_yes_no_def Let_def intro: keeps_input)
qed

lemma keeps_execute [intro!]: "keeps (client_execute host op ov kw)"
proof -
  have "P (s\<lparr>world := w', session := (session s)\<lparr>agent_client := Some c'\<rparr>\<rparr>)"
    if "P s" "agent_client (session s) = Some c" "execute (host_env host) (local_disk s) (host_net host) (world s) c op ov
        (resolve_kwargs (host_cwd host) kw) = (w', c', r)" for s c w' c' r
    using client [OF world [OF that(1), of w'], of c c'] execute_later [OF that(3)] that(2) by (simp add: client_later_def)
  then show ?thesis
    by (auto simp: keeps_def client_execute_def split: option.split prod.split)
qed

lemma keeps_new_request [intro!]:
  "keeps (andthen client_next_id (\<lambda>rid. seq (set_session (remember a op kw rid)) (ret rid)))"
  using remembered
  by (auto simp: keeps_def andthen_def client_next_id_def next_id_def seq_def set_session_def modify_def ret_def Let_def
      split: option.split)

lemma keeps_execute_and_remember [intro!]: "keeps (execute_and_remember host a op kw ov)"
  unfolding execute_and_remember_def by auto

lemma keeps_when_connected [intro!]: "keeps m \<Longrightarrow> keeps (when_connected m)"
  unfolding when_connected_def check_conn_def by auto

lemma keeps_on_success [intro!]: "(\<And>res. keeps (f res)) \<Longrightarrow> keeps (on_success what result f)"
  unfolding on_success_def by (auto split: option.split)

lemma keeps_output [intro!]:
  "keeps (print_status st rid msg err ok)" "keeps (preview_content content)" "keeps (print_rows ev idx fs)"
proof -
  show "keeps (print_status st rid msg err ok)" unfolding print_status_def by auto
  show "keeps (preview_content content)" unfolding preview_content_def by (auto simp: Let_def split: sum.split)
  show "keeps (print_rows ev idx fs)" by (induction ev idx fs rule: print_rows.induct) auto
qed

lemma keeps_set_addresses [intro!]:
  "keeps (set_session (\<lambda>st. st\<lparr>client_ip := ip\<rparr>))" "keeps (set_session (\<lambda>st. st\<lparr>server_ip := j\<rparr>))"
  "keeps (set_session (\<lambda>st. st\<lparr>transport_mode := m\<rparr>))"
  using addresses by (auto simp: keeps_def set_session_def modify_def)

lemma keeps_connecting:
  "keeps (try_except
     (seq (open_transport host mode) (seq (set_session (\<lambda>st. st\<lparr>is_connected := True\<rparr>)) (say (Say ''Connected!''))))
     (\<lambda>e. seq (say (SayExn ''Connection Failed'' e)) (set_session (\<lambda>st. st\<lparr>is_connected := False, agent_client := None\<rparr>))))"
proof -
  have new: "P s'" if "P s" "(\<exists>tr. session s' = (session s)\<lparr>agent_client := Some (new_AgentClient tr), is_connected := True\<rparr>) \<or>
      session s' = (session s)\<lparr>is_connected := False, agent_client := None\<rparr>"
      "running s' = running s" "typed s' = typed s" "local_disk s' = local_disk s" for s s'
  proof -
    have "s' = s\<lparr>session := session s', world := world s', shown := shown s'\<rparr>" using that by simp
    then show ?thesis using that(1,2) connected [of s] disconnected [of s] shown world by metis
  qed
  show ?thesis
    unfolding keeps_def
  proof (intro allI impI, goal_cases)
    case (1 s)
    show ?case
      by (rule new [OF 1])
        (auto simp: try_except_def seq_def andthen_def open_transport_def lift_def set_session_def say_def modify_def
        raise_def ret_def tcp_connect_def Let_def split: sum.split prod.split client_transport.split option.split)
  qed
qed

lemma keeps_dhcp: "keeps (action_dhcp host)"
proof -
  have "P (s\<lparr>world := w, shown := ns\<rparr>)" "P (s\<lparr>world := w, session := (session s)\<lparr>client_ip := ip\<rparr>, shown := ns\<rparr>)" if "P s" for s w ns ip
    using shown world [OF that, of w] addresses(1) [OF world [OF that, of w], of ip] by simp_all
  then show ?thesis
    by (auto simp: keeps_def action_dhcp_def seq_def andthen_def say_def set_session_def modify_def Let_def
        split: prod.split option.split)
qed

lemma keeps_dns: "keeps (action_dns host)"
proof -
  have "keeps (dns_resolve host ip name)" for ip name
    using world by (auto simp: keeps_def dns_resolve_def Let_def split: sum.split prod.split)
  then show ?thesis unfolding action_dns_def by auto
qed

lemma keeps_disconnect: "keeps action_disconnect"
proof -
  have "P (s\<lparr>session := (session s)\<lparr>is_connected := False, agent_client := None\<rparr>, shown := ns\<rparr>)" if "P s" for s ns
    using shown disconnected that by blast
  then show ?thesis
    by (auto simp: keeps_def action_disconnect_def seq_def andthen_def say_def set_session_def modify_def)
qed

lemma keeps_connect: "keeps (action_connect host)"
proof -
  have "keeps (connect_now host)" unfolding connect_now_def
    by (intro keeps_andthen keeps_seq keeps_basic keeps_prompts keeps_set_addresses keeps_connecting)
  then show ?thesis unfolding action_connect_def by auto
qed

lemma keeps_andthen_result:
  assumes "keeps m" "\<And>s s' x. P s \<Longrightarrow> m s = (s', Inr x) \<Longrightarrow> Q x" "\<And>x. Q x \<Longrightarrow> keeps (f x)"
  shows "keeps (andthen m f)"
  unfolding keeps_def
proof (intro allI impI)
  fix s assume s: "P s"
  obtain s1 r where r: "m s = (s1, r)" by fastforce
  then show "P (fst (andthen m f s))"
    using keepsD [OF assms(1) s r] assms(2) [OF s] assms(3) by (cases r) (auto simp: andthen_def keeps_def)
qed

lemma keeps_result_data: "no_artifact data \<Longrightarrow> keeps (handle_result_data host data)"
  unfolding handle_result_data_def andthen_lift by (auto simp: no_artifact_def split: sum.split)

lemma keeps_task:
  assumes "\<And>s c. P s \<Longrightarrow> agent_client (session s) = Some c \<Longrightarrow> get_handler (handlers c) op = Inr (TaskHandler op)"
  shows "keeps (exec_task host a op kw None)"
proof -
  have res: "pred_option (\<lambda>res. no_artifact (res_data res)) x"
    if "P s" "execute_and_remember host a op kw None s = (s', Inr x)" for s s' x
    using that assms [OF that(1)]
    by (auto simp: execute_and_remember_def andthen_def seq_def ret_def set_session_def say_def modify_def client_next_id_def next_id_def
        try_except_def client_execute_def remember_def Let_def split: option.splits prod.splits sum.splits if_splits)
      (rule execute_task_no_artifact [rotated], assumption, simp)
  show ?thesis
    unfolding exec_task_def
    by (intro keeps_try_except keeps_andthen_result [OF keeps_execute_and_remember res])
      (auto split: option.split intro: keeps_result_data)
qed

end

locale cli_invariant = cli_steps host P for host :: "'w host" and P :: "'w cli \<Rightarrow> bool" +
  assumes download: "P s \<Longrightarrow> CHR ''/'' \<notin> set name \<Longrightarrow> p = downloaded (host_cwd host) (session s) name \<Longrightarrow>
      truncate_file (local_disk s) p = Inr d \<Longrightarrow> P (s\<lparr>local_disk := d\<rparr>) \<and> P (s\<lparr>local_disk := put_file d p b\<rparr>)"
begin

text \<open>A download: the name comes from \<^verbatim>\<open>os.path.basename\<close>.\<close>

lemma keeps_download:
  fixes f :: "string \<Rightarrow> bytes \<Rightarrow> ('w, 'b) act"
  assumes "CHR ''/'' \<notin> set name" and f: "\<And>p b. keeps (f p b)"
  shows "keeps (andthen (asks (\<lambda>s. os_join (download_dir (session s)) name)) (\<lambda>local_path.
    andthen (write_local (host_cwd host) local_path data) (f local_path)))"
proof -
  have w: "P (fst (write_local (host_cwd host) (os_join (download_dir (session s)) name) data s))" if "P s" for s
    using that download [OF that assms(1) refl]
    by (auto simp: write_local_def downloaded_def split: sum.splits op_data.splits)
  show ?thesis
    unfolding keeps_def
  proof (intro allI impI)
    fix s assume "P s"
    let ?p = "os_join (download_dir (session s)) name"
    obtain s1 r where r: "write_local (host_cwd host) ?p data s = (s1, r)" by fastforce
    then have "P s1" using w [OF \<open>P s\<close>] by simp
    then show "P (fst (andthen (asks (\<lambda>s. os_join (download_dir (session s)) name)) (\<lambda>local_path.
        andthen (write_local (host_cwd host) local_path data) (f local_path)) s))"
      using f [of ?p] r by (auto simp: keeps_def andthen_def asks_def split: sum.split)
  qed
qed

lemma keeps_artifact: "keeps (trigger_artifact_download host path)"
proof -
  have d: "keeps (andthen (lift (case path of JStr p \<Rightarrow> Inr (''downloaded_'' @ basename p) | _ \<Rightarrow> Inl TypeError)) (\<lambda>local_name.
      andthen (asks (\<lambda>s. os_join (download_dir (session s)) local_name)) (\<lambda>local_path.
      andthen (write_local (host_cwd host) local_path data) (\<lambda>content.
      seq (say (SayValue ''Downloaded Artifact:'' (JStr local_path))) (preview_content content)))))" for data
  proof (cases path)
    case (JStr p)
    show ?thesis
      unfolding JStr andthen_lift json.case sum.case
      by (rule keeps_download) (use basename_no_slash [of p] in auto)
  qed (simp_all add: andthen_lift)
  show ?thesis
    unfolding trigger_artifact_download_def
    by (intro keeps_try_except keeps_andthen [OF keeps_execute] keeps_andthen [OF keeps_basic(4)] keeps_if keeps_output
        keeps_basic d)
qed

lemma keeps_exec_task: "keeps (exec_task host a op kw ov)"
proof -
  have "keeps (handle_result_data host data)" for data
    unfolding handle_result_data_def using keeps_artifact by auto
  then show ?thesis unfolding exec_task_def by (auto split: option.split)
qed

lemma keeps_replay: "keeps (action_replay host)"
proof -
  have "keeps (replay_request host a op kw ov rid)" for a op kw ov rid
    unfolding replay_request_def using keeps_exec_task by (auto split: option.split)
  then show ?thesis
    unfolding action_replay_def by (auto split: option.split prod.split)
qed

lemma keeps_get: "keeps (action_get host)"
  unfolding action_get_def
  by (intro keeps_when_connected keeps_andthen keeps_try_except keeps_on_success keeps_prompts keeps_execute_and_remember
      keeps_download keeps_seq keeps_basic keeps_output basename_no_slash)

lemma keeps_choice: "keeps (handle_choice host choice)"
proof -
  have "keeps (modify (\<lambda>s. s\<lparr>running := False\<rparr>))" using stopped by (simp add: keeps_def modify_def)
  moreover have "keeps (action_list host)" unfolding action_list_def Let_def by auto
  moreover have "keeps (action_append host)" unfolding action_append_def by auto
  moreover have "keeps (action_upload host)" unfolding action_upload_def by auto
  moreover have "keeps (action_task_search host)" "keeps (action_task_filter host)" "keeps (action_task_hash host)"
    unfolding action_task_search_def action_task_filter_def action_task_hash_def using keeps_exec_task by auto
  ultimately show ?thesis
    using keeps_dhcp keeps_dns keeps_connect keeps_disconnect keeps_get keeps_replay
    unfolding handle_choice_def by auto
qed

end

interpretation typed_bound: cli_invariant host "\<lambda>s. length (typed s) \<le> n" for host n
  by unfold_locales simp_all

section \<open>The session\<close>

function start_loop :: "'w host \<Rightarrow> 'w cli \<Rightarrow> 'w cli \<times> (exn + unit)" where
  "start_loop host s =
     (if \<not> running s then (s, Inr ())
      else case seq (print_header (session s)) (seq (say Menu) input_line) s of
        (s1, Inl e) \<Rightarrow> (s1, Inl e)
      | (s1, Inr l) \<Rightarrow>
          (case handle_choice host (py_strip l) s1 of
             (s2, Inr _) \<Rightarrow> start_loop host s2
           | (s2, Inl e) \<Rightarrow>
               if \<not> is_Exception e then (s2, Inl e)
               else (case seq (say (SayExn ''Error'' e)) input_line s2 of
                       (s3, Inl e') \<Rightarrow> (s3, Inl e')
                     | (s3, Inr _) \<Rightarrow> start_loop host s3)))"
  by pat_completeness auto

lemma input_shorter:
  "seq (print_header st) (seq (say n) input_line) s = (s1, Inr l) \<Longrightarrow> length (typed s1) < length (typed s)"
  "seq (say n) input_line s = (s1, Inr l) \<Longrightarrow> length (typed s1) < length (typed s)"
  by (auto simp: seq_def andthen_def print_header_def say_def modify_def input_line_def split: list.splits)

lemma choice_shorter: "handle_choice host choice s = (s', r) \<Longrightarrow> length (typed s') \<le> length (typed s)"
  using typed_bound.keepsD [OF typed_bound.keeps_choice] by blast

lemmas start_shorter = sym [THEN input_shorter(1)] sym [THEN input_shorter(2)] sym [THEN choice_shorter]

termination start_loop
  by (relation "measure (\<lambda>(host, s). length (typed s))") (auto dest!: start_shorter)

declare start_loop.simps [simp del]

definition start :: "'w host \<Rightarrow> ('w, unit) act" where
  "start host = seq (say Banner) (start_loop host)"

text \<open>\<^verbatim>\<open>InteractiveCLI.__init__\<close>\<close>

definition cli_init :: "'w host \<Rightarrow> FailureEngine option \<Rightarrow> ('w, unit) act" where
  "cli_init host fe s =
     (let s1 = s\<lparr>session := new_SessionState\<lparr>failure_engine := fe\<rparr>, running := True\<rparr>;
          p = abspath (host_cwd host) (download_dir (session s1))
      in if os_exists (local_disk s1) p then (s1, Inr ())
         else (let (d, err) = makedirs (dir_size (host_env host)) (local_disk s1) p
               in (s1\<lparr>local_disk := d\<rparr>, case err of None \<Rightarrow> Inr () | Some e \<Rightarrow> Inl (Exc e))))"

definition client_main :: "'w host \<Rightarrow> int \<Rightarrow> int \<Rightarrow> int \<Rightarrow> ('w, unit) act" where
  "client_main host loss latency dup =
     andthen (cli_init host (engine_of_flags loss latency dup)) (\<lambda>_ s.
       case start host s of
         (s', Inl KeyboardInterrupt) \<Rightarrow> say (Say ''Exiting...'') s'
       | (s', r) \<Rightarrow> (s', r))"

text \<open>The program when it is launched: what the user is going to type, the disk and the world.\<close>

definition at_launch :: "key list \<Rightarrow> disk \<Rightarrow> 'w \<Rightarrow> 'w cli" where
  "at_launch ks d w = \<lparr>session = new_SessionState, running = False, typed = ks, shown = [], local_disk = d, world = w\<rparr>"

context cli_invariant
begin

lemma start_loop_keeps: "P s \<Longrightarrow> P (fst (start_loop host s))"
proof (induction "length (typed s)" arbitrary: s rule: less_induct)
  case less
  have k: "keeps (seq (print_header st) (seq (say Menu) input_line))" "keeps (seq (say n) input_line)" for st n
    unfolding print_header_def using keeps_input by auto
  obtain s1 r1 where i: "seq (print_header (session s)) (seq (say Menu) input_line) s = (s1, r1)" by fastforce
  have p1: "P s1" using keepsD [OF k(1) less.prems i] .
  show ?case
  proof (cases "running s \<and> (\<exists>l. r1 = Inr l)")
    case True
    then obtain l where r1: "r1 = Inr l" by blast
    note l1 = input_shorter(1) [OF i [unfolded r1]]
    obtain s2 r2 where h: "handle_choice host (py_strip l) s1 = (s2, r2)" by fastforce
    have p2: "P s2" using keepsD [OF keeps_choice p1 h] .
    have l2: "length (typed s2) < length (typed s)" using choice_shorter [OF h] l1 by simp
    show ?thesis
    proof (cases r2)
      case (Inl e)
      obtain s3 r3 where e: "seq (say (SayExn ''Error'' e)) input_line s2 = (s3, r3)" by fastforce
      have "P (fst (start_loop host s3))" if "r3 = Inr l'" for l'
        using less.hyps [of s3] keepsD [OF k(2) p2 e] input_shorter(2) [OF e [unfolded that]] l2 by simp
      then show ?thesis
        using True p2 keepsD [OF k(2) p2 e] by (subst start_loop.simps) (auto simp: i r1 h Inl e split: sum.split)
    next
      case (Inr u)
      then show ?thesis using True less.hyps [OF l2 p2] by (subst start_loop.simps) (simp add: i r1 h)
    qed
  next
    case False
    then show ?thesis using less.prems p1 by (subst start_loop.simps) (auto simp: i split: sum.split)
  qed
qed

lemma client_main_keeps:
  assumes "cli_init host (engine_of_flags loss latency dup) s = (s1, r)" "P s1"
  shows "P (fst (client_main host loss latency dup s))"
proof -
  have "P (fst (start host s1))"
    using start_loop_keeps [of "s1\<lparr>shown := shown s1 @ [Banner]\<rparr>"] shown [OF assms(2)]
    by (simp add: start_def seq_def andthen_def say_def modify_def)
  then show ?thesis
    using assms shown by (auto simp: client_main_def andthen_def say_def modify_def split: sum.split prod.split exn.split)
qed

end

section \<open>The session invariant\<close>

text \<open>
  Connected exactly when there is a client, whose ids are not negative, which has no override
  pending and all the handlers; and what is remembered is remembered as a whole, with a positive id.
\<close>

definition cli_ok :: "SessionState \<Rightarrow> bool" where
  "cli_ok st \<longleftrightarrow> (is_connected st \<longleftrightarrow> agent_client st \<noteq> None) \<and>
     pred_option (\<lambda>c. 0 \<le> current_id c \<and> active_request_override c = None \<and>
       handlers c = handlers (new_AgentClient Rudp)) (agent_client st) \<and>
     download_dir st = DEFAULT_DOWNLOAD_DIR \<and>
     (case last_request_id st of
        None \<Rightarrow> last_action_name st = None \<and> last_opcode st = None \<and> last_kwargs st = None
      | Some rid \<Rightarrow> 0 < rid \<and> last_action_name st \<noteq> None \<and> last_opcode st \<noteq> None \<and>
          (\<exists>kw. last_kwargs st = Some (kw, Some rid)))"

interpretation session_inv: cli_invariant host "\<lambda>s. cli_ok (session s)" for host
  by unfold_locales (auto simp: cli_ok_def remember_def new_AgentClient_def split: option.splits)

section \<open>Downloads\<close>

text \<open>The working directory, as \<^verbatim>\<open>os.getcwd()\<close> gives it: absolute, normal, and there.\<close>

definition at_home :: "string \<Rightarrow> disk \<Rightarrow> bool" where
  "at_home wd d \<longleftrightarrow> clean_abs wd \<and> wd = ''/'' @ join_slash (path_comps wd) \<and> os_isdir d wd"

lemma os_join_comps:
  assumes "starts_slash a" "\<not> starts_slash b"
  obtains x where "os_join a b = x @ CHR ''/'' # b" "path_comps x = path_comps a"
proof (cases "last a = CHR ''/''")
  case True
  have "a \<noteq> []" using assms(1) by (auto simp: starts_slash_def)
  then obtain x where e: "a = x @ [CHR ''/'']" using True by (metis append_butlast_last_id)
  have "path_comps a = path_comps x @ path_comps []" unfolding e using path_comps_concat [of x "[]"] by simp
  then show ?thesis using that [of x] assms(2) by (simp add: os_join_def e path_comps_def)
next
  case False
  moreover have "a \<noteq> []" using assms(1) by (auto simp: starts_slash_def)
  ultimately show ?thesis using that [of a] assms(2) by (simp add: os_join_def)
qed

lemma abspath_comps:
  assumes "clean_abs wd" "\<not> starts_slash rel"
  shows "path_comps (abspath wd rel) = norm_comps True (path_comps wd) (split_on (CHR ''/'') rel)"
    and "norm_comps True [] (split_on (CHR ''/'') (os_join wd rel)) = norm_comps True (path_comps wd) (split_on (CHR ''/'') rel)"
proof -
  have sl: "starts_slash wd" using assms(1) by (simp add: clean_abs_def)
  obtain x where x: "os_join wd rel = x @ CHR ''/'' # rel" "path_comps x = path_comps wd"
    using os_join_comps [OF sl assms(2)] .
  have "''..'' \<notin> set (path_comps x)" using assms(1) x(2) by (auto simp: clean_abs_def)
  then have "\<forall>c \<in> set (split_on (CHR ''/'') x). c \<noteq> ''..''" by (auto simp: path_comps_def)
  from norm_comps_append [OF this, of "[]"] have "norm_comps True [] (split_on (CHR ''/'') x) = path_comps wd"
    using x(2) by (simp only: path_comps_def append_Nil)
  then show nc: "norm_comps True [] (split_on (CHR ''/'') (os_join wd rel)) = norm_comps True (path_comps wd) (split_on (CHR ''/'') rel)"
    by (simp only: x(1) split_on_concat norm_comps_concat)
  show "path_comps (abspath wd rel) = norm_comps True (path_comps wd) (split_on (CHR ''/'') rel)"
    using normpath_clean(2) [OF os_join_absolute [OF sl]] assms(2) nc by (simp add: abspath_def)
qed

lemma abspath_eq:
  assumes "clean_abs wd" "wd = ''/'' @ join_slash (path_comps wd)" "\<not> starts_slash rel" "path_comps (abspath wd rel) = cs"
  shows "abspath wd rel = ''/'' @ join_slash cs"
proof -
  have one: "initial_slashes (''/'' @ y @ z) = 1" if "y \<noteq> []" "hd y \<noteq> CHR ''/''" for y z
    using that by (cases y) (auto simp: initial_slashes_def starts_slash_def)
  have sl: "starts_slash wd" using assms(1) by (simp add: clean_abs_def)
  have "initial_slashes (os_join wd rel) = 1"
  proof (cases "path_comps wd")
    case Nil
    then have "wd = ''/''" using assms(2) by simp
    then show ?thesis using assms(3) by (cases rel) (auto simp: os_join_def initial_slashes_def starts_slash_def)
  next
    case (Cons c cs)
    then have "plain_comp c" using assms(1) by (simp add: clean_abs_def)
    then have "c \<noteq> []" "hd c \<noteq> CHR ''/''" by (auto simp: plain_comp_def) (metis list.set_sel(1))
    moreover obtain z where "join_slash (path_comps wd) = c @ z" using Cons by (cases cs) auto
    then obtain z' where "os_join wd rel = ''/'' @ c @ z'" using assms(2) by (metis append.assoc os_join_def assms(3))
    ultimately show ?thesis using one by simp
  qed
  moreover have "normpath p = ''/'' @ join_slash (norm_comps True [] (split_on (CHR ''/'') p))"
    if "starts_slash p" "initial_slashes p = 1" for p
    using that by (auto simp: normpath_def Let_def starts_slash_def)
  ultimately have "normpath (os_join wd rel) = ''/'' @ join_slash (norm_comps True [] (split_on (CHR ''/'') (os_join wd rel)))"
    using os_join_absolute [OF sl] by blast
  then show ?thesis using abspath_comps [OF assms(1,3)] assms(3,4) by (simp add: abspath_def)
qed

lemma download_inside:
  assumes "at_home wd d" "CHR ''/'' \<notin> set name" "open_write d (abspath wd (os_join DEFAULT_DOWNLOAD_DIR name)) = Inr old"
  shows "inside (abspath wd DEFAULT_DOWNLOAD_DIR) (abspath wd (os_join DEFAULT_DOWNLOAD_DIR name))"
proof -
  let ?rel = "os_join DEFAULT_DOWNLOAD_DIR name"
  have wd: "clean_abs wd" "wd = ''/'' @ join_slash (path_comps wd)" "os_isdir d wd" using assms(1) by (auto simp: at_home_def)
  have rel: "?rel = ''./downloads/'' @ name" "\<not> starts_slash ?rel" "\<not> starts_slash DEFAULT_DOWNLOAD_DIR"
    using assms(2) by (cases name; auto simp: os_join_def DEFAULT_DOWNLOAD_DIR_def starts_slash_def)+
  have sp: "split_on (CHR ''/'') ?rel = [''.'', ''downloads'', name]" "split_on (CHR ''/'') DEFAULT_DOWNLOAD_DIR = [''.'', ''downloads'']"
    unfolding rel(1) using assms(2) by (simp_all add: split_on_none DEFAULT_DOWNLOAD_DIR_def)
  have dots: "path_comps wd \<noteq> [] \<Longrightarrow> last (path_comps wd) \<noteq> ''..''"
    using wd(1) by (auto simp: clean_abs_def dest: last_in_set)
  note ac = abspath_comps(1) [OF wd(1) rel(2)] abspath_comps(1) [OF wd(1) rel(3)]
  have "name \<noteq> ''..''"
  proof
    assume "name = ''..''"
    then have "path_comps (abspath wd ?rel) = path_comps wd" unfolding ac sp using dots by simp
    from abspath_eq [OF wd(1,2) rel(2) this] have "abspath wd ?rel = wd" by (simp only: wd(2) [symmetric])
    then show False using assms(3) wd(3) by (auto simp: open_write_def os_isdir_def split: option.splits)
  qed
  then show ?thesis unfolding inside_def ac sp by auto
qed

interpretation download_inv: cli_invariant host
  "\<lambda>s. download_dir (session s) = DEFAULT_DOWNLOAD_DIR \<and> at_home (host_cwd host) (local_disk s) \<and>
     same_outside (abspath (host_cwd host) DEFAULT_DOWNLOAD_DIR) d (local_disk s)" for host d
proof (unfold_locales, goal_cases)
  case (12 s name p d' b)
  then obtain old where o: "open_write (local_disk s) p = Inr old" "d' = put_file (local_disk s) p []"
    by (auto simp: truncate_file_def split: sum.splits)
  then have i: "inside (abspath (host_cwd host) DEFAULT_DOWNLOAD_DIR) p"
    using download_inside [of "host_cwd host" "local_disk s" name old] 12 by (simp add: downloaded_def)
  have "at_home (host_cwd host) d'" "at_home (host_cwd host) (put_file d' p b)"
    using 12(1) by (simp_all add: at_home_def o(2) os_isdir_def)
  moreover have "same_outside (abspath (host_cwd host) DEFAULT_DOWNLOAD_DIR) d d'"
    using 12(1) same_outside_put [OF i] same_outside_trans by (auto simp: o(2))
  ultimately show ?case using 12(1) same_outside_put [OF i] same_outside_trans by auto
qed (auto simp: remember_def)

section \<open>Properties\<close>

text \<open>
  C8. The session invariant: whatever the user types, whatever the server, the network and
  the operating system answer, in every state of a session (its end, or any point reached when the
  input stops there) the menu says connected exactly when there is a client, the client has no
  pending override, and what option 12 would replay is either nothing or a whole request with the
  positive identifier under which it was sent.
\<close>

theorem cli_session_invariant:
  "cli_ok (session (fst (client_main host loss latency dup (at_launch ks d w))))"
proof -
  obtain s1 r where i: "cli_init host (engine_of_flags loss latency dup) (at_launch ks d w) = (s1, r)" by fastforce
  then have "cli_ok (session s1)"
    by (auto simp: cli_init_def Let_def cli_ok_def new_SessionState_def split: if_splits prod.splits)
  with i show ?thesis by (rule session_inv.client_main_keeps)
qed

text \<open>
  C9. Downloads are confined: whatever names the user types, whatever the server answers to
  them, a session changes no local file outside the download directory below its working directory.
\<close>

theorem cli_downloads_confined:
  assumes "at_home (host_cwd host) d" and "\<not> inside (abspath (host_cwd host) DEFAULT_DOWNLOAD_DIR) p"
  shows "dict_get (files (local_disk (fst (client_main host loss latency dup (at_launch ks d w))))) p = dict_get (files d) p"
proof -
  obtain s1 r where i: "cli_init host (engine_of_flags loss latency dup) (at_launch ks d w) = (s1, r)" by fastforce
  have "at_home (host_cwd host) (fst (makedirs n d q))" for n q
    using assms(1) make_chain_dirs_grow by (fastforce simp: at_home_def os_isdir_def dict_has_def makedirs_def)
  then have "download_dir (session s1) = DEFAULT_DOWNLOAD_DIR \<and> at_home (host_cwd host) (local_disk s1) \<and>
      same_outside (abspath (host_cwd host) DEFAULT_DOWNLOAD_DIR) d (local_disk s1)"
    using i assms(1) same_outside_makedirs
    by (auto simp: cli_init_def Let_def new_SessionState_def at_launch_def split: if_splits prod.splits) (metis fst_conv)+
  from download_inv.client_main_keeps [OF i this] show ?thesis using assms(2) by (simp add: same_outside_def)
qed

section \<open>Replay\<close>

text \<open>The elementary actions, evaluated.\<close>

lemmas act_simps = andthen_def seq_def ret_def asks_def say_def modify_def set_session_def

lemma when_connected_run:
  assumes "cli_ok (session s)" "agent_client (session s) = Some c"
  shows "when_connected m s = m s"
  using assms by (auto simp: when_connected_def check_conn_def act_simps cli_ok_def)

text \<open>Lines that are answers as they are.\<close>

definition plain_line :: "string \<Rightarrow> bool" where
  "plain_line l \<longleftrightarrow> l \<noteq> [] \<and> py_strip l = l"

lemma plain_line_ascii:
  assumes "is_ascii l" "l \<noteq> []" "\<not> is_space (of_char (hd l))" "\<not> is_space (of_char (last l))"
  shows "plain_line l"
proof -
  have keep: "dropWhile P xs = xs" if "xs \<noteq> [] \<Longrightarrow> \<not> P (hd xs)" for P and xs :: "nat list"
    using that by (cases xs) auto
  have "encode_cps (map of_char l) = l"
    using encode_decode_cps [OF decode_cps_ascii [OF assms(1)]] by simp
  then show ?thesis
    using assms(2-4) by (simp add: plain_line_def py_strip_def cps_of_def decode_cps_ascii [OF assms(1)] keep hd_map last_map hd_rev)
qed

lemma prompt_text_run:
  "typed s = Line l # ks \<Longrightarrow> plain_line l \<Longrightarrow> prompt_text label dflt required s = (s\<lparr>typed := ks\<rparr>, Inr l)"
  by (simp add: prompt_text_def plain_line_def Let_def)

text \<open>A new request: its id, what is remembered, and the client's answer.\<close>

lemma execute_and_remember_run:
  assumes "agent_client (session s) = Some c"
    and "execute (host_env host) (local_disk s) (host_net host) (world s) (c\<lparr>current_id := current_id c + 1\<rparr>) op
      (Some (current_id c + 1)) (resolve_kwargs (host_cwd host) kw) = (w', c', Inr res)"
  shows "execute_and_remember host a op kw None s =
    (s\<lparr>session := remember a op kw (current_id c + 1) ((session s)\<lparr>agent_client := Some c'\<rparr>),
       shown := shown s @ [Executing a (current_id c + 1)], world := w'\<rparr>, Inr (Some res))"
  using assms
  by (simp add: execute_and_remember_def act_simps client_next_id_def next_id_def Let_def try_except_def client_execute_def remember_def)

lemma execute_again_run:
  assumes "agent_client (session s) = Some c" "rid \<noteq> 0"
    and "execute (host_env host) (local_disk s) (host_net host) (world s) c op (Some rid) (resolve_kwargs (host_cwd host) kw) =
      (w', c', Inr res)"
  shows "execute_and_remember host a op kw (Some rid) s =
    (s\<lparr>session := (session s)\<lparr>agent_client := Some c'\<rparr>, shown := shown s @ [Executing a rid], world := w'\<rparr>, Inr (Some res))"
  using assms by (simp add: execute_and_remember_def act_simps Let_def try_except_def client_execute_def)

lemma append_choice:
  assumes s: "cli_ok (session s)" "agent_client (session s) = Some c"
    and t: "typed s = Line path # Line text # ks" "plain_line path" "plain_line text" "py_encode text = Inr data"
    and e: "execute (host_env host) (local_disk s) (host_net host) (world s) (c\<lparr>current_id := current_id c + 1\<rparr>) OP_APPEND
      (Some (current_id c + 1)) (KwAppend path data) = (w', c', Inr (success d))"
  shows "\<exists>ns. handle_choice host ''7'' s =
    (s\<lparr>session := remember ''APPEND to File'' OP_APPEND (KwAppend path data) (current_id c + 1) ((session s)\<lparr>agent_client := Some c'\<rparr>),
       typed := ks, world := w', shown := ns\<rparr>, Inr ())"
proof -
  have "execute_and_remember host ''APPEND to File'' OP_APPEND (KwAppend path data) None (s\<lparr>typed := ks\<rparr>) =
      (s\<lparr>session := remember ''APPEND to File'' OP_APPEND (KwAppend path data) (current_id c + 1) ((session s)\<lparr>agent_client := Some c'\<rparr>),
         typed := ks, shown := shown s @ [Executing ''APPEND to File'' (current_id c + 1)], world := w'\<rparr>, Inr (Some (success d)))"
    using execute_and_remember_run [of "s\<lparr>typed := ks\<rparr>" c host OP_APPEND "KwAppend path data" w' c' "success d"] s(2) e by simp
  moreover have "prompt_text l1 dflt True s = (s\<lparr>typed := Line text # ks\<rparr>, Inr path)"
    "prompt_text l2 dflt True (s\<lparr>typed := Line text # ks\<rparr>) = (s\<lparr>typed := ks\<rparr>, Inr text)" for l1 l2 dflt
    using prompt_text_run [OF t(1,2)] prompt_text_run [of "s\<lparr>typed := Line text # ks\<rparr>" "text" ks, OF _ t(3)] by simp_all
  ultimately show ?thesis
    using when_connected_run [OF s] t(4)
    by (simp add: handle_choice_def action_append_def act_simps lift_def try_except_def on_success_def success_def)
      (rule exI, rule refl)
qed

lemma replay_choice:
  assumes s: "cli_ok (session s)" "agent_client (session s) = Some c"
    and l: "last_request_id (session s) = Some rid" "last_opcode (session s) = Some op" "last_kwargs (session s) = Some (kw, Some rid)"
      "last_action_name (session s) = Some a" "\<not> contains ''TASK:'' a"
    and e: "execute (host_env host) (local_disk s) (host_net host) (world s) c op (Some rid) (resolve_kwargs (host_cwd host) kw) =
      (w', c', Inr (success d))"
  shows "\<exists>ns. handle_choice host ''12'' s = (s\<lparr>session := (session s)\<lparr>agent_client := Some c'\<rparr>, world := w', shown := ns\<rparr>, Inr ())"
proof -
  have "rid \<noteq> 0" using s(1) l(1) by (simp add: cli_ok_def)
  with e s(2) execute_again_run [of "s\<lparr>shown := ns\<rparr>" c rid host op kw w' c' "success d" a for ns]
  have "execute_and_remember host a op kw (Some rid) (s\<lparr>shown := ns\<rparr>) =
      (s\<lparr>session := (session s)\<lparr>agent_client := Some c'\<rparr>, shown := ns @ [Executing a rid], world := w'\<rparr>, Inr (Some (success d)))" for ns
    by simp
  then show ?thesis
    using when_connected_run [OF s] l \<open>rid \<noteq> 0\<close>
    by (simp add: handle_choice_def action_replay_def replay_request_def act_simps lift_def print_status_def success_def)
      (rule exI, rule refl)
qed

text \<open>Option 7 against the server.\<close>

definition after_append :: "AgentServer \<Rightarrow> string \<Rightarrow> bytes \<Rightarrow> string \<Rightarrow> int \<Rightarrow> bytes \<Rightarrow> real \<Rightarrow> AgentServer" where
  "after_append sv p content cid rid r t = sv\<lparr>sandbox_disk := put_file (sandbox_disk sv) p content,
     idempotency_cache := store_response (idempotency_cache sv) (cid, rid, OP_APPEND) r t\<rparr>"

lemma after_append_simps:
  assumes "read_bytes (sandbox_disk sv) p = Inr old"
  shows "read_bytes (sandbox_disk (after_append sv p content cid rid r t)) p = Inr content"
    "policy_guard (after_append sv p content cid rid r t) = policy_guard sv"
    "dict_get (idempotency_cache (after_append sv p content cid rid r t)) (cid', rid', op) =
       (if (cid', rid', op) = (cid, rid, OP_APPEND) then Some \<lparr>response_data = r, timestamp = t\<rparr>
        else dict_get (idempotency_cache sv) (cid', rid', op))"
  using read_bytes_Inr [OF assms] by (auto simp: after_append_def read_bytes_def store_response_def dict_simps)

lemma append_served:
  assumes "cli_ok (session s)" "agent_client (session s) = Some c" "client_ok seg c" "current_id c + 1 < 2 ^ 32"
    and "host_net host = peer_network seg (agent_serve evs et cid)" "world s = (sv, i)"
    and "typed s = Line path # Line text # ks" "plain_line path" "plain_line text" "py_encode text = Inr data"
    and "name_ok path" "validate_path (policy_guard sv) path = Inr p" "read_bytes (sandbox_disk sv) p = Inr content"
    and "int (length content) + int (length data) + 8192 \<le> MAX_PAYLOAD_LEN"
    and "dict_get (idempotency_cache sv) (cid, current_id c + 1, OP_APPEND) = None"
  obtains s1 c1 r where "handle_choice host ''7'' s = (s1, Inr ())" "cli_ok (session s1)" "typed s1 = ks"
    "session s1 = remember ''APPEND to File'' OP_APPEND (KwAppend path data) (current_id c + 1) ((session s)\<lparr>agent_client := Some c1\<rparr>)"
    "world s1 = (after_append sv p (content @ data) cid (current_id c + 1) r (now (evs i)), i + 1)" "client_ok seg c1" "0 < current_id c + 1"
    "encode_message OP_APPEND 0 (current_id c + 1) (answer_bytes (append_fields path (int (length content) + int (length data))) None) None = Inr r"
proof -
  let ?rid = "current_id c + 1" and ?c = "c\<lparr>current_id := current_id c + 1\<rparr>" and ?n = "int (length content) + int (length data)"
  have c: "client_ok seg ?c" "0 \<le> ?rid" "0 < ?rid" using assms(3) by (auto simp: client_ok_def link_ready_def)
  obtain c1 r where a: "execute (host_env host) (local_disk s) (host_net host) (world s) ?c OP_APPEND (Some ?rid) (KwAppend path data) =
      ((after_append sv p (content @ data) cid ?rid r (now (evs i)), i + 1), c1, Inr (success (JsonData (append_answer path ?n))))"
     "client_ok seg c1" "encode_message OP_APPEND 0 ?rid (answer_bytes (append_fields path ?n) None) None = Inr r"
    using client_append [OF c(1) assms(4,11-15) _ c(2), where ov = "Some ?rid" and ev = "host_env host" and ld = "local_disk s" and evs = evs and et = et and i = i]
      assms(5,6) by (auto simp: after_append_def)
  obtain ns where s1: "handle_choice host ''7'' s =
      (s\<lparr>session := remember ''APPEND to File'' OP_APPEND (KwAppend path data) ?rid ((session s)\<lparr>agent_client := Some c1\<rparr>),
         typed := ks, world := (after_append sv p (content @ data) cid ?rid r (now (evs i)), i + 1), shown := ns\<rparr>, Inr ())" (is "_ = (?s1, _)")
    using append_choice [OF assms(1,2,7-10) a(1)] by blast
  have "cli_ok (session ?s1)" using session_inv.keepsD [OF session_inv.keeps_choice assms(1) s1] .
  then show ?thesis using that [OF s1, of c1 r] a(2,3) c(3) by simp
qed

text \<open>
  C18. Replay is idempotent: a user who appends to a file (option 7) and then replays the
  request (option 12) within two minutes has appended once: the replay carries the same message and
  identifier, the server answers it from its cache and stays exactly as it was.
\<close>

theorem cli_replay_is_idempotent:
  assumes "cli_ok (session s)" and "agent_client (session s) = Some c" and "client_ok seg c" and "current_id c + 1 < 2 ^ 32"
    and "host_net host = peer_network seg (agent_serve evs et cid)" and "world s = (sv, i)"
    and "typed s = Line path # Line text # ks" and "plain_line path" and "plain_line text" and "py_encode text = Inr data"
    and "name_ok path" and "validate_path (policy_guard sv) path = Inr p" and "read_bytes (sandbox_disk sv) p = Inr content"
    and "int (length content) + int (length data) + 8192 \<le> MAX_PAYLOAD_LEN"
    and "dict_get (idempotency_cache sv) (cid, current_id c + 1, OP_APPEND) = None" and "now (evs (i + 1)) - now (evs i) < 120"
  shows "\<exists>s1 s2. handle_choice host ''7'' s = (s1, Inr ()) \<and> handle_choice host ''12'' s1 = (s2, Inr ()) \<and>
    fst (world s2) = fst (world s1) \<and> read_bytes (sandbox_disk (fst (world s1))) p = Inr (content @ data)"
proof -
  let ?rid = "current_id c + 1" and ?n = "int (length content) + int (length data)"
  obtain s1 c1 r where s1: "handle_choice host ''7'' s = (s1, Inr ())" "cli_ok (session s1)" "typed s1 = ks"
    "session s1 = remember ''APPEND to File'' OP_APPEND (KwAppend path data) ?rid ((session s)\<lparr>agent_client := Some c1\<rparr>)"
    "world s1 = (after_append sv p (content @ data) cid ?rid r (now (evs i)), i + 1)" "client_ok seg c1" "0 < ?rid"
    "encode_message OP_APPEND 0 ?rid (answer_bytes (append_fields path ?n) None) None = Inr r"
    using append_served [OF assms(1-15)] .
  let ?sv = "after_append sv p (content @ data) cid ?rid r (now (evs i))"
  obtain c2 where "execute (host_env host) (local_disk s1) (host_net host) (world s1) c1 OP_APPEND (Some ?rid)
      (KwAppend path data) = ((?sv, i + 2), c2, Inr (success (JsonData (append_answer path ?n))))"
    using client_append_replay [OF s1(6) _ assms(4,11), where n = ?n and data = data and sv = ?sv and cid = cid and r = r and
        t = "now (evs i)" and evs = evs and i = "i + 1" and ev = "host_env host" and ld = "local_disk s1" and et = et]
      s1(5,7,8) assms(5,14,16) after_append_simps(3) [OF assms(13)] by (auto simp: size_consts)
  moreover have "\<not> contains ''TASK:'' ''APPEND to File''" by simp
  ultimately obtain ns where "handle_choice host ''12'' s1 =
      (s1\<lparr>session := (session s1)\<lparr>agent_client := Some c2\<rparr>, world := (?sv, i + 2), shown := ns\<rparr>, Inr ())"
    using replay_choice [OF s1(2), of c1 ?rid OP_APPEND "KwAppend path data" "''APPEND to File''" host] by (auto simp: s1(4) remember_def)
  then show ?thesis using s1(1,5) after_append_simps(1) [OF assms(13)] by auto
qed

lemma reconnect_choices:
  assumes "typed s = Line ''RUDP'' # ks" "server_ip (session s) \<noteq> JStr ''NOT_SET''" "cli_ok (session s)"
    and "\<And>w ip port cip. host_connect host w Rudp ip port cip = (w, Some sock)"
  obtains s1 s2 where "handle_choice host0 ''4'' s = (s1, Inr ())" "handle_choice host ''3'' s1 = (s2, Inr ())" "cli_ok (session s2)"
    "agent_client (session s2) = Some (new_AgentClient Rudp)" "world s2 = world s"
    "last_request_id (session s2) = last_request_id (session s)" "last_opcode (session s2) = last_opcode (session s)"
    "last_kwargs (session s2) = last_kwargs (session s)" "last_action_name (session s2) = last_action_name (session s)"
proof -
  obtain s1 where s1: "handle_choice host0 ''4'' s = (s1, Inr ())" "s1 = s\<lparr>session := (session s)\<lparr>is_connected := False, agent_client := None\<rparr>,
      shown := shown s @ [Say ''Disconnected.'']\<rparr>"
    by (simp add: handle_choice_def action_disconnect_def act_simps)
  have "plain_line ''RUDP''" by (rule plain_line_ascii) (simp_all add: is_space_def)
  from prompt_text_run [of s1 "''RUDP''" ks, OF _ this] assms(1) s1(2)
  have pr: "prompt_text l d True s1 = (s1\<lparr>typed := ks\<rparr>, Inr ''RUDP'')" for l d by simp
  have ip: "server_ip (session s1) \<noteq> JStr ''NOT_SET''" using assms(2) by (simp add: s1(2))
  have up: "ascii_upper ''RUDP'' = ''RUDP''" "create_transport ''RUDP'' = Inr Rudp"
    by (code_simp, code_simp)
  obtain s2 where s2: "handle_choice host ''3'' s1 = (s2, Inr ())" "world s2 = world s1"
    "session s2 = (session s1)\<lparr>transport_mode := ''RUDP'', agent_client := Some (new_AgentClient Rudp), is_connected := True\<rparr>"
    using ip
    by (simp add: handle_choice_def action_connect_def connect_now_def act_simps pr up try_except_def open_transport_def lift_def assms(4) Let_def)
  have "cli_ok (session s1)" using session_inv.keepsD [OF session_inv.keeps_choice assms(3) s1(1)] .
  then have "cli_ok (session s2)" using session_inv.keepsD [OF session_inv.keeps_choice _ s2(1)] by simp
  then show ?thesis using that [OF s1(1) s2(1)] s1(2) s2(2,3) by simp
qed

text \<open>
  C32. Replay across connections is not idempotent: the server knows a client by its address, so
  when the user disconnects and connects again between the two, the replayed APPEND comes from a
  client the server has not seen, is executed again, and the file ends with the data twice.
\<close>

theorem cli_replay_after_reconnect_repeats:
  assumes "cli_ok (session s)" and "agent_client (session s) = Some c" and "client_ok (\<lambda>r. [r]) c" and "current_id c + 1 < 2 ^ 32"
    and "host_net host = peer_network (\<lambda>r. [r]) (agent_serve evs et cid)" and "world s = (sv, i)"
    and "typed s = Line path # Line text # Line ''RUDP'' # ks" and "plain_line path" and "plain_line text" and "py_encode text = Inr data"
    and "name_ok path" and "validate_path (policy_guard sv) path = Inr p" and "read_bytes (sandbox_disk sv) p = Inr content"
    and "int (length content) + 2 * int (length data) + 8192 \<le> MAX_PAYLOAD_LEN"
    and "dict_get (idempotency_cache sv) (cid, current_id c + 1, OP_APPEND) = None"
    and "dict_get (idempotency_cache sv) (cid', current_id c + 1, OP_APPEND) = None" and "cid' \<noteq> cid"
    and "server_ip (session s) \<noteq> JStr ''NOT_SET''" and "host_net host' = peer_network (\<lambda>r. [r]) (agent_serve evs et cid')"
    and "\<And>w ip port cip. host_connect host' w Rudp ip port cip = (w, Some sock)"
  shows "\<exists>s1 s2 s3 s4. handle_choice host ''7'' s = (s1, Inr ()) \<and> handle_choice host ''4'' s1 = (s2, Inr ()) \<and>
    handle_choice host' ''3'' s2 = (s3, Inr ()) \<and> handle_choice host' ''12'' s3 = (s4, Inr ()) \<and>
    read_bytes (sandbox_disk (fst (world s1))) p = Inr (content @ data) \<and>
    read_bytes (sandbox_disk (fst (world s4))) p = Inr (content @ data @ data)"
proof -
  let ?rid = "current_id c + 1" and ?n = "int (length content) + int (length data)"
  have len: "?n + 8192 \<le> MAX_PAYLOAD_LEN" using assms(14) by simp
  obtain s1 c1 r where s1: "handle_choice host ''7'' s = (s1, Inr ())" "cli_ok (session s1)" "typed s1 = Line ''RUDP'' # ks"
    "session s1 = remember ''APPEND to File'' OP_APPEND (KwAppend path data) ?rid ((session s)\<lparr>agent_client := Some c1\<rparr>)"
    "world s1 = (after_append sv p (content @ data) cid ?rid r (now (evs i)), i + 1)" "0 < ?rid"
    using append_served [OF assms(1-13) len assms(15)] by metis
  let ?sv = "after_append sv p (content @ data) cid ?rid r (now (evs i))"
  have "server_ip (session s1) \<noteq> JStr ''NOT_SET''" using assms(18) by (simp add: s1(4) remember_def)
  then obtain s2 s3 where s3: "handle_choice host ''4'' s1 = (s2, Inr ())" "handle_choice host' ''3'' s2 = (s3, Inr ())"
    "cli_ok (session s3)" "agent_client (session s3) = Some (new_AgentClient Rudp)" "world s3 = world s1"
    "last_request_id (session s3) = last_request_id (session s1)" "last_opcode (session s3) = last_opcode (session s1)"
    "last_kwargs (session s3) = last_kwargs (session s1)" "last_action_name (session s3) = last_action_name (session s1)"
    using reconnect_choices [OF s1(3) _ s1(2) assms(20)] by metis
  note aa = after_append_simps [OF assms(13)]
  have c: "client_ok (\<lambda>r. [r]) (new_AgentClient Rudp)" by (simp add: client_ok_def link_ready_def new_AgentClient_def)
  obtain c4 sv4 where e: "execute (host_env host') (local_disk s3) (host_net host') (world s3) (new_AgentClient Rudp) OP_APPEND (Some ?rid)
      (KwAppend path data) = ((sv4, i + 2), c4, Inr (success (JsonData (append_answer path (?n + int (length data))))))"
      "sandbox_disk sv4 = put_file (sandbox_disk ?sv) p ((content @ data) @ data)"
    using client_append [OF c assms(4,11), where sv = ?sv and p = p and content = "content @ data" and data = data and cid = cid' and
        ov = "Some ?rid" and ev = "host_env host'" and ld = "local_disk s3" and evs = evs and et = et and i = "i + 1"]
      aa assms(12,14,16,17,19) s1(5,6) s3(5) by auto
  have "\<not> contains ''TASK:'' ''APPEND to File''" by simp
  from replay_choice [OF s3(3,4) _ _ _ _ this, of ?rid OP_APPEND "KwAppend path data" host'] e(1)
  obtain ns where s4: "handle_choice host' ''12'' s3 =
      (s3\<lparr>session := (session s3)\<lparr>agent_client := Some c4\<rparr>, world := (sv4, i + 2), shown := ns\<rparr>, Inr ())"
    by (auto simp: s3(6-9) s1(4) remember_def)
  moreover have "read_bytes (sandbox_disk sv4) p = Inr (content @ data @ data)"
    using read_bytes_Inr [OF aa(1)] by (simp add: e(2) read_bytes_def)
  ultimately show ?thesis using s1(1,5) s3(1,2) aa(1) by auto
qed

section \<open>Saving a file\<close>

lemma preview_run: "\<exists>ns. preview_content content s = (s\<lparr>shown := ns\<rparr>, Inr ())"
  by (cases "py_decode content") (auto simp: preview_content_def act_simps Let_def)

lemma write_local_run:
  assumes "open_write (local_disk s) (abspath wd path) = Inr old"
  shows "write_local wd path (BinData b) s = (s\<lparr>local_disk := put_file (put_file (local_disk s) (abspath wd path) []) (abspath wd path) b\<rparr>, Inr b)"
  using assms by (simp add: write_local_def truncate_file_def)

lemma get_choice:
  assumes s: "cli_ok (session s)" "agent_client (session s) = Some c"
    and t: "typed s = Line path # ks" "plain_line path"
    and e: "execute (host_env host) (local_disk s) (host_net host) (world s) (c\<lparr>current_id := current_id c + 1\<rparr>) OP_GET
      (Some (current_id c + 1)) (KwGet (JStr path)) = (w', c', Inr (success (BinData content)))"
    and o: "open_write (local_disk s) (abspath (host_cwd host) (os_join (download_dir (session s)) (basename path))) = Inr old"
  shows "\<exists>s1. handle_choice host ''6'' s = (s1, Inr ()) \<and> world s1 = w' \<and>
    local_disk s1 = (let p = abspath (host_cwd host) (os_join (download_dir (session s)) (basename path)) in put_file (put_file (local_disk s) p []) p content)"
proof -
  have x: "execute_and_remember host ''GET File'' OP_GET (KwGet (JStr path)) None (s\<lparr>typed := ks\<rparr>) =
      (s\<lparr>session := remember ''GET File'' OP_GET (KwGet (JStr path)) (current_id c + 1) ((session s)\<lparr>agent_client := Some c'\<rparr>),
         typed := ks, shown := shown s @ [Executing ''GET File'' (current_id c + 1)], world := w'\<rparr>, Inr (Some (success (BinData content))))"
    (is "_ = (?s1, _)")
    using execute_and_remember_run [of "s\<lparr>typed := ks\<rparr>" c host OP_GET "KwGet (JStr path)" w' c' "success (BinData content)"] s(2) e by simp
  have dd: "download_dir (session ?s1) = download_dir (session s)" by (simp add: remember_def)
  have p: "prompt_text l d True s = (s\<lparr>typed := ks\<rparr>, Inr path)" for l d using prompt_text_run [OF t] .
  let ?p = "os_join (download_dir (session s)) (basename path)"
  have w: "write_local (host_cwd host) ?p (BinData content) ?s1 =
      (?s1\<lparr>local_disk := put_file (put_file (local_disk s) (abspath (host_cwd host) ?p) []) (abspath (host_cwd host) ?p) content\<rparr>, Inr content)"
    (is "_ = (?s2, _)")
    using write_local_run [of ?s1 "host_cwd host" ?p old content] o by simp
  obtain ns where "preview_content content (?s2\<lparr>shown := shown ?s2 @ [SayValue ''Saved to:'' (JStr ?p)]\<rparr>) =
      (?s2\<lparr>shown := shown ?s2 @ [SayValue ''Saved to:'' (JStr ?p)]\<rparr>\<lparr>shown := ns\<rparr>, Inr ())"
    using preview_run by blast
  with x p w dd show ?thesis
    using when_connected_run [OF s]
    by (simp add: handle_choice_def action_get_def act_simps lift_def try_except_def on_success_def success_def) (simp add: Let_def)
qed

text \<open>
  C19. GET from the menu (option 6): the file that the user names is saved, byte for byte as it is on the
  server, under its base name in the download directory, and no other local file and no file of the
  server changes.
\<close>

theorem cli_get_saves_file:
  assumes "cli_ok (session s)" and "agent_client (session s) = Some c" and "client_ok seg c" and "current_id c + 1 < 2 ^ 32"
    and "host_net host = peer_network seg (agent_serve evs et cid)" and "world s = (sv, i)"
    and "typed s = Line path # ks" and "plain_line path"
    and "name_ok path" and "validate_path (policy_guard sv) path = Inr p" and "read_bytes (sandbox_disk sv) p = Inr content"
    and "int (length content) + 8192 \<le> MAX_PAYLOAD_LEN"
    and "dict_get (idempotency_cache sv) (cid, current_id c + 1, OP_GET) = None"
    and "dst = abspath (host_cwd host) (os_join (download_dir (session s)) (basename path))" and "open_write (local_disk s) dst = Inr old"
  shows "\<exists>s1. handle_choice host ''6'' s = (s1, Inr ()) \<and> dict_get (files (local_disk s1)) dst = Some content \<and>
    (\<forall>q. q \<noteq> dst \<longrightarrow> dict_get (files (local_disk s1)) q = dict_get (files (local_disk s)) q) \<and>
    sandbox_disk (fst (world s1)) = sandbox_disk sv"
proof -
  let ?rid = "current_id c + 1" and ?c = "c\<lparr>current_id := current_id c + 1\<rparr>"
  have c: "client_ok seg ?c" "0 \<le> ?rid" using assms(3) by (auto simp: client_ok_def link_ready_def)
  obtain c1 r where "execute (host_env host) (local_disk s) (host_net host) (world s) ?c OP_GET (Some ?rid) (KwGet (JStr path)) =
      ((sv\<lparr>idempotency_cache := store_response (idempotency_cache sv) (cid, ?rid, OP_GET) r (now (evs i))\<rparr>, i + 1), c1,
       Inr (success (BinData content)))"
    using client_get_as [OF c(1) assms(4,9-13) _ c(2), where ov = "Some ?rid" and ev = "host_env host" and ld = "local_disk s" and evs = evs and et = et and i = i]
      assms(5,6) by auto
  from get_choice [OF assms(1,2,7,8) this assms(15) [unfolded assms(14)]] show ?thesis
    by (auto simp: assms(14) Let_def)
qed


section \<open>Tasks\<close>

interpretation same_disk: cli_steps host "\<lambda>s. local_disk s = d \<and> cli_ok (session s)" for host d
  by unfold_locales (auto simp: cli_ok_def remember_def new_AgentClient_def split: option.splits)

text \<open>
  C33. The automatic download never happens: options 9 to 11, whatever the server answers (an
  artifact included), change no local file. The help page announces that an artifact is fetched and
  previewed; the task handler fails before the menu sees its path.
\<close>

theorem tasks_download_nothing:
  assumes "cli_ok (session s)" and "choice \<in> {''9'', ''10'', ''11''}"
  shows "local_disk (fst (handle_choice host choice s)) = local_disk s"
proof -
  have h: "get_handler (handlers (new_AgentClient Rudp)) op = Inr (TaskHandler op)"
    if "op \<in> {OP_TASK_SEARCH_REPORT, OP_TASK_FILTER_LINES, OP_TASK_HASH_AND_STORE}" for op
    using that by (auto simp: new_AgentClient_def register_handler_def get_handler_def opcode_consts)
  have t: "same_disk.keeps (local_disk s) (exec_task host a op kw None)"
    if "op \<in> {OP_TASK_SEARCH_REPORT, OP_TASK_FILTER_LINES, OP_TASK_HASH_AND_STORE}" for a op kw
    by (rule same_disk.keeps_task) (use h [OF that] in \<open>auto simp: cli_ok_def\<close>)
  have "same_disk.keeps (local_disk s) (handle_choice host choice)"
    using assms(2) t
    by (auto simp: handle_choice_def action_task_search_def action_task_filter_def action_task_hash_def)
  then show ?thesis using assms(1) by (auto simp: same_disk.keeps_def)
qed

section \<open>A sample session\<close>

definition sample_host :: "string \<Rightarrow> (AgentServer \<times> nat) host" where
  "sample_host cid =
     \<lparr>host_env = sample_env, host_net = peer_network (\<lambda>r. [r]) (agent_serve (\<lambda>_. sample_env) (\<lambda>_ v. v) cid),
      host_cwd = ''/srv'', host_random = (\<lambda>w. (w, [1, 2, 3, 4, 5, 6])), host_dhcp = (\<lambda>w c. (w, None)),
      host_doh = (\<lambda>w ip cip m. (w, None)), host_connect = (\<lambda>w tr ip port cip. (w, Some \<lparr>inbox = [], outbox = []\<rparr>))\<rparr>"

definition sample_cli :: "key list \<Rightarrow> (AgentServer \<times> nat) cli" where
  "sample_cli ks = (at_launch ks sample_disk (sample_server, 0))
     \<lparr>running := True, session := new_SessionState\<lparr>server_ip := JStr ''127.0.0.1'', is_connected := True,
        agent_client := Some (new_AgentClient Rudp)\<rparr>\<rparr>"

lemma sample_cli_sel:
  "cli_ok (session (sample_cli ks))" "agent_client (session (sample_cli ks)) = Some (new_AgentClient Rudp)"
  "world (sample_cli ks) = (sample_server, 0)" "typed (sample_cli ks) = ks" "local_disk (sample_cli ks) = sample_disk"
  "server_ip (session (sample_cli ks)) = JStr ''127.0.0.1''" "current_id (new_AgentClient Rudp) = 0"
  by (simp_all add: sample_cli_def at_launch_def cli_ok_def new_SessionState_def new_AgentClient_def)

lemma sample_host_sel:
  "host_net (sample_host cid) = peer_network (\<lambda>r. [r]) (agent_serve (\<lambda>_. sample_env) (\<lambda>_ v. v) cid)"
  "host_cwd (sample_host cid) = ''/srv''" "host_connect (sample_host cid) w tr ip port cip = (w, Some \<lparr>inbox = [], outbox = []\<rparr>)"
  by (simp_all add: sample_host_def)

lemma sample_lines: "plain_line ''a.txt''" "plain_line ''hello''" "py_encode ''hello'' = Inr (str_bytes ''hello'')"
  by (rule plain_line_ascii; simp add: is_space_def)+ (simp add: py_encode_def encodable_ascii)

theorem cli_downloads_confined_witness:
  "at_home (host_cwd (sample_host ''10.0.0.7:5000'')) sample_disk \<and>
   dict_get (files (local_disk (fst (client_main (sample_host ''10.0.0.7:5000'') 0 0 0
     (at_launch [Line ''3'', Line ''y'', Line ''127.0.0.1'', Line ''RUDP'', Line ''6'', Line ''../box/a.txt'', Line ''0'']
       sample_disk (sample_server, 0)))))) ''/srv/box/a.txt'' = dict_get (files sample_disk) ''/srv/box/a.txt''"
proof -
  have h: "at_home (host_cwd (sample_host ''10.0.0.7:5000'')) sample_disk"
    by (simp add: sample_host_sel at_home_def clean_abs_def starts_slash_def path_comps_def plain_comp_def os_isdir_def dict_has_def sample_disk_def)
  have "\<not> inside (abspath (host_cwd (sample_host ''10.0.0.7:5000'')) DEFAULT_DOWNLOAD_DIR) ''/srv/box/a.txt''"
    by (simp add: sample_host_sel inside_def path_simps DEFAULT_DOWNLOAD_DIR_def)
  from cli_downloads_confined [OF h this] h show ?thesis by blast
qed

theorem cli_replay_is_idempotent_witness:
  "\<exists>s1 s2. handle_choice (sample_host ''10.0.0.7:5000'') ''7'' (sample_cli [Line ''a.txt'', Line ''hello'']) = (s1, Inr ()) \<and>
     handle_choice (sample_host ''10.0.0.7:5000'') ''12'' s1 = (s2, Inr ()) \<and> fst (world s2) = fst (world s1) \<and>
     read_bytes (sandbox_disk (fst (world s1))) ''/srv/box/a.txt'' = Inr (str_bytes (''ab'' @ [CHR 0x0A] @ ''cd'' @ [CHR 0x0A]) @ str_bytes ''hello'')"
  by (rule cli_replay_is_idempotent [OF sample_cli_sel(1,2) sample_client(1) _ sample_host_sel(1) sample_cli_sel(3,4) sample_lines
        sample_name_ok _ sample_read [folded sample_server_fields(2)]])
    (simp_all add: sample_cli_sel sample_server_fields sample_path size_consts)

theorem cli_replay_after_reconnect_repeats_witness:
  "\<exists>s1 s2 s3 s4. handle_choice (sample_host ''10.0.0.7:5000'') ''7'' (sample_cli [Line ''a.txt'', Line ''hello'', Line ''RUDP'']) = (s1, Inr ()) \<and>
     handle_choice (sample_host ''10.0.0.7:5000'') ''4'' s1 = (s2, Inr ()) \<and> handle_choice (sample_host ''10.0.0.7:5001'') ''3'' s2 = (s3, Inr ()) \<and>
     handle_choice (sample_host ''10.0.0.7:5001'') ''12'' s3 = (s4, Inr ()) \<and>
     read_bytes (sandbox_disk (fst (world s1))) ''/srv/box/a.txt'' = Inr (str_bytes (''ab'' @ [CHR 0x0A] @ ''cd'' @ [CHR 0x0A]) @ str_bytes ''hello'') \<and>
     read_bytes (sandbox_disk (fst (world s4))) ''/srv/box/a.txt'' =
       Inr (str_bytes (''ab'' @ [CHR 0x0A] @ ''cd'' @ [CHR 0x0A]) @ str_bytes ''hello'' @ str_bytes ''hello'')"
  by (rule cli_replay_after_reconnect_repeats [OF sample_cli_sel(1,2) sample_client(1) _ sample_host_sel(1) sample_cli_sel(3,4) sample_lines
        sample_name_ok _ sample_read [folded sample_server_fields(2)] _ _ _ _ _ sample_host_sel(1) sample_host_sel(3)])
    (simp_all add: sample_cli_sel sample_server_fields sample_path size_consts)

theorem tasks_download_nothing_witness:
  "cli_ok (session (sample_cli [Line ''a.txt'', Line ''ab''])) \<and>
   local_disk (fst (handle_choice (sample_host ''10.0.0.7:5000'') ''9'' (sample_cli [Line ''a.txt'', Line ''ab'']))) = sample_disk"
  using tasks_download_nothing [OF sample_cli_sel(1), of "''9''" "sample_host ''10.0.0.7:5000''" "[Line ''a.txt'', Line ''ab'']"]
  by (simp add: sample_cli_sel)

theorem cli_get_saves_file_witness:
  "\<exists>s1. handle_choice (sample_host ''10.0.0.7:5000'') ''6'' ((sample_cli [Line ''a.txt''])
      \<lparr>local_disk := sample_disk\<lparr>dirs := [(''/srv'', 4096), (''/srv/downloads'', 4096)]\<rparr>\<rparr>) = (s1, Inr ()) \<and>
    dict_get (files (local_disk s1)) ''/srv/downloads/a.txt'' = Some (str_bytes (''ab'' @ [CHR 0x0A] @ ''cd'' @ [CHR 0x0A]))"
proof -
  have d: "download_dir (session (sample_cli ks)) = DEFAULT_DOWNLOAD_DIR" for ks
    by (simp add: sample_cli_def new_SessionState_def)
  have p: "''/srv/downloads/a.txt'' = abspath ''/srv'' (os_join DEFAULT_DOWNLOAD_DIR (basename ''a.txt''))" "dirname ''/srv/downloads/a.txt'' = ''/srv/downloads''"
    by (code_simp, code_simp)
  let ?s = "(sample_cli [Line ''a.txt''])\<lparr>local_disk := sample_disk\<lparr>dirs := [(''/srv'', 4096), (''/srv/downloads'', 4096)]\<rparr>\<rparr>"
  have o: "open_write (local_disk ?s) ''/srv/downloads/a.txt'' = Inr []"
    by (simp add: open_write_def ascii_path_ok sample_disk_def dict_has_def os_isdir_def p(2))
  have c: "cli_ok (session ?s)" "agent_client (session ?s) = Some (new_AgentClient Rudp)" "world ?s = (sample_server, 0)"
    "typed ?s = [Line ''a.txt'']" "download_dir (session ?s) = DEFAULT_DOWNLOAD_DIR"
    by (simp_all add: sample_cli_sel d)
  from cli_get_saves_file [OF c(1,2) sample_client(1) _ sample_host_sel(1) c(3,4) sample_lines(1) sample_name_ok _
      sample_read [folded sample_server_fields(2)] _ _ _ o]
  show ?thesis using c(5) p(1) by (simp add: sample_cli_sel sample_host_sel sample_server_fields sample_path size_consts) blast
qed

end
