(* ===== verification/Spec2Isabelle.thy ===== *)
theory Spec2Isabelle
  imports FullStack Servers DhcpSystem AgentErrors AgentTasks CliSession
begin

text \<open>
  \<^bold>\<open>The RUDP agent stack, verified.\<close>

  The program under \<^verbatim>\<open>src/\<close> is a file and task server with its client, and the network
  services they start from: a reliable datagram transport (RUDP) built on UDP, a TCP transport, a DHCP
  server and client, and a DNS server and client that speak HTTP over RUDP. A client obtains an address
  by DHCP, resolves the server's name, and then executes operations: it lists, reads, appends to and
  uploads files of the server's sandbox directory, and starts text-processing tasks there.

  \<^bold>\<open>How the parts interact.\<close> \<^verbatim>\<open>AgentClient.execute\<close> builds a request, encodes its payload
  (JSON, or JSON with raw bytes), puts it into a 12-byte envelope and sends it by one of the two
  transports. \<^verbatim>\<open>AgentServer\<close> decodes the envelope, answers repeated requests from a cache,
  and otherwise dispatches by opcode to a handler; handlers resolve names through the sandbox policy,
  read and write files, keep upload sessions, or plan a task and run the plan's tools. The answer goes
  back in an envelope with the same opcode and identifier.

  \<^bold>\<open>Theories and sources.\<close>

  \<^item> \<open>Prelude\<close>: errors as values, dictionaries, \<^verbatim>\<open>struct\<close> packing, decimal conversion, the
    lemma collections, and the interfaces shared by components as locales: \<open>codec\<close>, stores with
    a time to live, invariant systems.
  \<^item> \<open>Constants\<close>: \<^verbatim>\<open>common/constants.py\<close>, \<^verbatim>\<open>common/errors.py\<close>.
  \<^item> \<open>RudpPacket\<close>, \<open>RudpReceiver\<close>, \<open>RudpSender\<close>: \<^verbatim>\<open>common/rudp_packet.py\<close>,
    \<^verbatim>\<open>rudp_receiver.py\<close>, \<^verbatim>\<open>rudp_sender.py\<close>; \<open>FailureSim\<close>:
    \<^verbatim>\<open>simulations/failure_engine.py\<close>; \<open>RudpTransport\<close>: \<^verbatim>\<open>client/transport/rudp_client.py\<close> and
    \<^verbatim>\<open>server/transport/rudp_server.py\<close>; \<open>RudpLink\<close>: both ends over a network that loses,
    repeats, reorders and corrupts.
  \<^item> \<open>AppEnvelope\<close>, \<open>TcpTransport\<close>: \<^verbatim>\<open>common/app_envelope.py\<close>,
    \<^verbatim>\<open>client/transport/tcp_client.py\<close>, \<^verbatim>\<open>server/transport/tcp_server.py\<close>.
  \<^item> \<open>Utf8\<close>, \<open>Json\<close>, \<open>PyText\<close>: what the program uses of Python's text model,
    of \<^verbatim>\<open>json.dumps\<close> and \<^verbatim>\<open>json.loads\<close> and of string methods; \<open>MixedMode\<close>:
    \<^verbatim>\<open>common/mixed_mode_io.py\<close>.
  \<^item> \<open>PyValue\<close>: Python's equality of parsed JSON values, as it decides which of them are the same
    dictionary key; \<open>IpManager\<close>, \<open>Dhcp\<close>, \<open>DhcpWire\<close>: \<^verbatim>\<open>server/dhcp/ip_manager.py\<close>,
    \<^verbatim>\<open>server/dhcp_server.py\<close>, \<^verbatim>\<open>client/dhcp_client.py\<close>, \<^verbatim>\<open>common/dhcp_packet.py\<close>.
  \<^item> \<open>Caches\<close>, \<open>HttpDns\<close>: \<^verbatim>\<open>server/dns/dns_cache.py\<close>,
    \<^verbatim>\<open>server/agent/idempotency.py\<close>, \<^verbatim>\<open>common/http_packet.py\<close>, \<^verbatim>\<open>server/dns_server.py\<close>,
    \<^verbatim>\<open>client/dns_client.py\<close>.
  \<^item> \<open>PolicyGuard\<close>, \<open>FileSystem\<close>, \<open>UploadSession\<close>, \<open>Handlers\<close>:
    \<^verbatim>\<open>server/agent/validations.py\<close> over a model of \<^verbatim>\<open>posixpath\<close>, the file operations used,
    \<^verbatim>\<open>server/agent/upload_session.py\<close>, and the handlers GET, LIST, APPEND, PUT_META, PUT_CHUNK.
  \<^item> \<open>Planner\<close>, \<open>ToolDispatcher\<close>: \<^verbatim>\<open>server/agent/planner.py\<close> and
    \<^verbatim>\<open>tool_dispatcher.py\<close>; \<open>ResponseBuilder\<close>, \<open>AgentServer\<close>:
    \<^verbatim>\<open>response_builder.py\<close>, \<^verbatim>\<open>dispatcher.py\<close>, \<^verbatim>\<open>handlers/task.py\<close>,
    \<^verbatim>\<open>server/agent_server.py\<close>.
  \<^item> \<open>AgentClient\<close>: \<^verbatim>\<open>client/agent_client.py\<close>, \<^verbatim>\<open>client/agent/\<close> and
    \<^verbatim>\<open>client/transport/factory.py\<close>; \<open>AgentSystem\<close>, \<open>AgentErrors\<close>, \<open>AgentTasks\<close>: the client
    against the server, where requests succeed, where they fail, and for the three kinds of task.
  \<^item> \<open>FullStack\<close>: a service on the RUDP transport, as the contract \<open>rudp_service\<close>, for the agent
    (\<^verbatim>\<open>AgentServer._on_udp_message\<close>) and the DNS server (\<^verbatim>\<open>DoHRUDPServer.handle_message\<close>).
  \<^item> \<open>DhcpSystem\<close>: the DHCP server's loop and the client's sockets on datagrams, and both together
    over a network that loses packets and replies.
  \<^item> \<open>Servers\<close>: \<^verbatim>\<open>AgentServer.run\<close> over TCP, \<^verbatim>\<open>server/__main__.py\<close>, and the PING client of \<^verbatim>\<open>tcp_client.py\<close>.
  \<^item> \<open>Cli\<close>, \<open>CliSession\<close>: the interactive client, \<^verbatim>\<open>client/cli/\<close> with its actions, and
    \<^verbatim>\<open>client/__main__.py\<close>. An action is a function from the program's state to the next state with
    the value returned or the exception raised; the contracts \<open>cli_steps\<close> and \<open>cli_invariant\<close> carry a
    property from the elementary changes to every session.

  State is a record per class, under the names of the source; an operation that raises returns the
  exception as the left value of a sum, beside the state it has already changed. Sockets, clocks,
  random draws, identifiers and what an operating system reports are arguments.

  \<^bold>\<open>What is shown.\<close>

  \<^item> RUDP: packets survive packing and a changed byte is detected; the receiver delivers exactly the
    reassembled fragments in order; the sender's accounting, windows and timers keep their invariant;
    over the faulty network each direction refines a FIFO channel (the interpretations \<open>up_refines\<close> and
    \<open>down_refines\<close>), never delivers anything else, and both directions can always still deliver everything.
  \<^item> Agent server: over all reachable states no file outside the sandbox changes, answers match their
    requests, repeated requests have no effect; plans never lack an input; the tools compute what the
    tasks say, in both execution modes where these agree.
  \<^item> Client and server together: an upload puts exactly the local file on the server's disk; what is
    appended is what a later GET returns, a GET reports every outcome with its status, a LIST returns
    exactly the directory in order; a search returns exactly the matching lines with their numbers,
    a filter writes exactly the matching lines, a hash task stores the digest; over TCP in any
    segmentation and over RUDP (the contract \<open>agent_link\<close>, which both transports provide).
  \<^item> Services on their transports: over RUDP the agent processes exactly the messages sent, each once
    and in order, clients receive the first of the answers, everything sent can still be served; DNS
    answers resolve only what was asked; a TCP connection is served message by message in any
    segmentation, and a run of the TCP server answers the messages of every connection, one connection
    after the other on one state, and leaves none behind.
  \<^item> The interactive client: sessions end with their input, the session state stays consistent,
    downloads stay in their directory, what option 6 saves is what the server has, a replay is idempotent within a connection (and not across).
  \<^item> DHCP and DNS: leases are exclusive whatever datagrams arrive, with fields of whatever JSON type;
    the server on bytes is the server on packets; a handshake binds both sides to
    one address although packets and replies are lost before, packets and HTTP messages round-trip, a cached name resolves.
  \<^item> Formats: envelope, mixed-mode payloads, JSON and UTF-8 are codecs with their inverse.
  \<^item> Defects: several theorems state what the code does where it is not what it means to do (retries
    over TCP, tasks of different clients that share cached answers, streamed filtering, lease time,
    oversized uploads, replays after a reconnection, artifacts never downloaded, PING without PONG, filters without a
    destination whose result is lost, large reports that end in an artifact and status 500).

  \<^bold>\<open>Bounds.\<close> Loops are total functions with a measure. The JSON scanner has fuel, twice the length of
  its text plus two, and \<open>loads_any_fuel\<close> shows that more changes nothing. The transport is verified
  below $2^{32}$ packets per connection, the width of the sequence field. End-to-end statements take
  names of at most 1024 bytes, so that requests fit into an envelope.

  A session of the interactive client is a function of the finite list of lines typed, with which its
  loop decreases; an accept loop and the DHCP loop are functions of what arrives before they stop.

  \<^bold>\<open>Not modelled.\<close> Threads and locks: steps are atomic, in any order. In the
  DHCP client, answers of which a field has another JSON type than declared (the server takes any).
  The JSON model keeps a floating-point number as its literal: it is rounded to a double when it is
  compared, but sent back as it was received. The nesting limit of Python's JSON parser. The temporary
  file of an atomic write, which appears only when the write fails; files are written in UTF-8. The colours and fixed texts of the console
  (output is a list of notices), the macOS interface alias, logging. The scripts under
  \<^verbatim>\<open>scripts/\<close>, which drive processes for tests; \<^verbatim>\<open>common/congestion_control.py\<close>, an unused
  stub. Rounding in the arithmetic of clocks and windows, Python's own exception texts, permissions, symbolic links and full disks.

  \<^bold>\<open>What could follow.\<close> The status codes of the other operations end to end, the same for tasks
  that filter a streamed file, several clients of the menu at one server.
\<close>

end
